(* ===== verification/Prelude.thy ===== *)
theory Prelude
  imports Main "HOL-Library.Word" "HOL-Library.Sublist" "HOL-Library.Char_ord"
    "HOL-Library.List_Lexorder" "HOL-Library.Option_ord"
begin

text \<open>
  What the components share.

  The crates of the repository are written against Rust's standard library, so the prelude
  models what they use of it: \<open>core::cmp::Ordering\<close> with \<open>then_with\<close> and \<open>reverse\<close>,
  \<open>slice::binary_search\<close> (the bisection loop of the standard library), and the few string
  operations of the parsers (\<open>split\<close>, \<open>starts_with\<close>, \<open>eq_ignore_ascii_case\<close>,
  \<open>parse::<usize>\<close>). A Rust \<open>&str\<close> is a UTF-8 byte sequence and an Isabelle \<open>string\<close> is a
  list of bytes, so \<open>len\<close>, \<open>==\<close>, \<open>cmp\<close> and \<open>starts_with\<close> agree with the list operations.

  The locale \<open>ord_impl\<close> is the contract of Rust's \<open>Ord\<close> trait. Inserting into a sorted
  vector at the place \<open>binary_search\<close> reports is correct for every lawful \<open>Ord\<close>; this is proved
  once inside the locale, and the directive types interpret it.
\<close>

named_theorems rust_simps \<open>unfolding rules for the modelled operations of the standard library\<close>

unbundle bit_operations_syntax

type_synonym u8 = "8 word"
type_synonym u64 = "64 word"

subsection \<open>Orderings\<close>

datatype ordering = Less | Equal | Greater

definition cmp :: "'a::linorder \<Rightarrow> 'a \<Rightarrow> ordering" where
  "cmp a b = (if a < b then Less else if a = b then Equal else Greater)"

fun then_with :: "ordering \<Rightarrow> ordering \<Rightarrow> ordering" where
  "then_with Equal o2 = o2"
| "then_with o1 o2 = o1"

fun reverse_ordering :: "ordering \<Rightarrow> ordering" where
  "reverse_ordering Less = Greater"
| "reverse_ordering Equal = Equal"
| "reverse_ordering Greater = Less"

lemma cmp_simps [simp]:
  "cmp a b = Less \<longleftrightarrow> a < b"
  "cmp a b = Equal \<longleftrightarrow> a = b"
  "cmp a b = Greater \<longleftrightarrow> b < a"
  by (auto simp: cmp_def)

lemma then_with_iff [simp]:
  "then_with o1 o2 = Less \<longleftrightarrow> o1 = Less \<or> o1 = Equal \<and> o2 = Less"
  "then_with o1 o2 = Equal \<longleftrightarrow> o1 = Equal \<and> o2 = Equal"
  "then_with o1 o2 = Greater \<longleftrightarrow> o1 = Greater \<or> o1 = Equal \<and> o2 = Greater"
  by (cases o1; simp)+

lemma reverse_ordering_iff [simp]:
  "reverse_ordering x = Less \<longleftrightarrow> x = Greater"
  "reverse_ordering x = Equal \<longleftrightarrow> x = Equal"
  "reverse_ordering x = Greater \<longleftrightarrow> x = Less"
  by (cases x; simp)+

lemma ordering_exhaust3: "x \<noteq> Less \<Longrightarrow> x \<noteq> Equal \<Longrightarrow> x = Greater"
  by (cases x) auto

subsection \<open>Binary search\<close>

text \<open>
  \<open>slice::binary_search_by(f)\<close> of the standard library: \<open>Inr i\<close> is \<open>Ok(i)\<close>, a position at
  which \<open>f\<close> answers \<open>Equal\<close>; \<open>Inl i\<close> is \<open>Err(i)\<close>, the position at which inserting keeps the
  order. The loop narrows \<open>left .. right\<close> until it is empty.
\<close>

function binary_search_loop :: "('a \<Rightarrow> ordering) \<Rightarrow> 'a list \<Rightarrow> nat \<Rightarrow> nat \<Rightarrow> nat + nat" where
  "binary_search_loop f xs left right =
     (if left < right then
        (let mid = left + (right - left) div 2 in
         (case f (xs ! mid) of
            Equal \<Rightarrow> Inr mid
          | Less \<Rightarrow> binary_search_loop f xs (mid + 1) right
          | Greater \<Rightarrow> binary_search_loop f xs left mid))
      else Inl left)"
  by pat_completeness auto
termination
  by (relation "measure (\<lambda>(f, xs, left, right). right - left)") (auto simp: Let_def)

declare binary_search_loop.simps [simp del]

definition binary_search_by :: "('a \<Rightarrow> ordering) \<Rightarrow> 'a list \<Rightarrow> nat + nat" where
  "binary_search_by f xs = binary_search_loop f xs 0 (length xs)"

text \<open>
  The invariant of the loop: everything below \<open>left\<close> is \<open>Less\<close>, everything from \<open>right\<close> on is
  \<open>Greater\<close>.
\<close>

definition search_window :: "('a \<Rightarrow> ordering) \<Rightarrow> 'a list \<Rightarrow> nat \<Rightarrow> nat \<Rightarrow> bool" where
  "search_window f xs left right \<longleftrightarrow>
     left \<le> right \<and> right \<le> length xs \<and>
     (\<forall>i < left. f (xs ! i) = Less) \<and>
     (\<forall>i < length xs. right \<le> i \<longrightarrow> f (xs ! i) = Greater)"

text \<open>
  A vector is partitioned by \<open>f\<close> when \<open>f\<close> answers first \<open>Less\<close>, then \<open>Equal\<close>, then
  \<open>Greater\<close>: this is what sortedness gives, and all the search needs.
\<close>

definition partitioned_by :: "('a \<Rightarrow> ordering) \<Rightarrow> 'a list \<Rightarrow> bool" where
  "partitioned_by f xs \<longleftrightarrow>
     (\<forall>i j. i \<le> j \<longrightarrow> j < length xs \<longrightarrow>
        (f (xs ! j) = Less \<longrightarrow> f (xs ! i) = Less) \<and>
        (f (xs ! i) = Greater \<longrightarrow> f (xs ! j) = Greater))"

lemma binary_search_loop_step:
  "left < right \<Longrightarrow> mid = left + (right - left) div 2 \<Longrightarrow>
     binary_search_loop f xs left right =
       (case f (xs ! mid) of
          Equal \<Rightarrow> Inr mid
        | Less \<Rightarrow> binary_search_loop f xs (mid + 1) right
        | Greater \<Rightarrow> binary_search_loop f xs left mid)"
  by (subst binary_search_loop.simps) (simp add: Let_def del: One_nat_def split: ordering.split)

lemma partitioned_byD:
  assumes "partitioned_by f xs" and "i \<le> j" and "j < length xs"
  shows "f (xs ! j) = Less \<Longrightarrow> f (xs ! i) = Less"
    and "f (xs ! i) = Greater \<Longrightarrow> f (xs ! j) = Greater"
  using assms unfolding partitioned_by_def by blast+

lemma binary_search_loop_spec:
  assumes "partitioned_by f xs" and "search_window f xs left right"
  shows "(case binary_search_loop f xs left right of
            Inr i \<Rightarrow> i < length xs \<and> f (xs ! i) = Equal
          | Inl i \<Rightarrow> i \<le> length xs \<and> search_window f xs i i)"
  using assms
proof (induction f xs left right rule: binary_search_loop.induct)
  case (1 f xs left right)
  show ?case
  proof (cases "left < right")
    case False
    then have "binary_search_loop f xs left right = Inl left"
      by (simp add: binary_search_loop.simps [of f xs left right])
    with False "1.prems" show ?thesis
      by (auto simp: search_window_def)
  next
    case True
    define mid where "mid = left + (right - left) div 2"
    note step = binary_search_loop_step [OF True mid_def, of f xs]
    have mid: "left \<le> mid" "mid < right" "mid < length xs"
      using True "1.prems"(2) by (auto simp: mid_def search_window_def)
    show ?thesis
    proof (cases "f (xs ! mid)")
      case Equal
      with mid show ?thesis by (simp add: step)
    next
      case Less
      have w: "search_window f xs (mid + 1) right"
        using "1.prems"(2) mid partitioned_byD(1) [OF "1.prems"(1) _ mid(3) Less]
        by (simp add: search_window_def less_Suc_eq_le)
      from "1.IH"(1) [OF True mid_def Less "1.prems"(1) w] Less show ?thesis
        by (simp add: step)
    next
      case Greater
      have w: "search_window f xs left mid"
        using "1.prems"(2) mid partitioned_byD(2) [OF "1.prems"(1) _ _ Greater]
        by (simp add: search_window_def)
      from "1.IH"(2) [OF True mid_def Greater "1.prems"(1) w] Greater show ?thesis
        by (simp add: step)
    qed
  qed
qed

lemma binary_search_by_Ok:
  "partitioned_by f xs \<Longrightarrow> binary_search_by f xs = Inr i \<Longrightarrow> i < length xs \<and> f (xs ! i) = Equal"
  using binary_search_loop_spec [of f xs 0 "length xs"]
  by (simp add: binary_search_by_def search_window_def)

lemma binary_search_by_Err:
  "partitioned_by f xs \<Longrightarrow> binary_search_by f xs = Inl i \<Longrightarrow>
     i \<le> length xs \<and> (\<forall>j < i. f (xs ! j) = Less) \<and> (\<forall>j < length xs. i \<le> j \<longrightarrow> f (xs ! j) = Greater)"
  using binary_search_loop_spec [of f xs 0 "length xs"]
  by (simp add: binary_search_by_def search_window_def)

subsection \<open>The Ord contract and sorted vectors\<close>

text \<open>
  Insertion by binary search, as the directive sets do it: replace the equal element, or insert
  at the reported position (\<open>Vec::insert\<close>).
\<close>

definition vec_insert :: "nat \<Rightarrow> 'a \<Rightarrow> 'a list \<Rightarrow> 'a list" where
  "vec_insert i x xs = take i xs @ x # drop i xs"

definition insert_by :: "('a \<Rightarrow> 'a \<Rightarrow> ordering) \<Rightarrow> 'a \<Rightarrow> 'a list \<Rightarrow> 'a list" where
  "insert_by ocmp x xs =
     (case binary_search_by (\<lambda>p. ocmp p x) xs of
        Inr i \<Rightarrow> xs[i := x]
      | Inl i \<Rightarrow> vec_insert i x xs)"

definition sorted_by :: "('a \<Rightarrow> 'a \<Rightarrow> ordering) \<Rightarrow> 'a list \<Rightarrow> bool" where
  "sorted_by ocmp xs \<longleftrightarrow> sorted_wrt (\<lambda>a b. ocmp a b = Less) xs"

lemma sorted_by_Nil [simp]: "sorted_by ocmp []"
  by (simp add: sorted_by_def)

lemma sorted_by_Cons [simp]:
  "sorted_by ocmp (x # xs) \<longleftrightarrow> (\<forall>y \<in> set xs. ocmp x y = Less) \<and> sorted_by ocmp xs"
  by (simp add: sorted_by_def)

locale ord_impl =
  fixes ocmp :: "'a \<Rightarrow> 'a \<Rightarrow> ordering"
  assumes ocmp_refl: "ocmp a a = Equal"
    and ocmp_swap: "ocmp b a = reverse_ordering (ocmp a b)"
    and ocmp_less_trans: "ocmp a b = Less \<Longrightarrow> ocmp b c = Less \<Longrightarrow> ocmp a c = Less"
    and ocmp_equal_cong: "ocmp a b = Equal \<Longrightarrow> ocmp a c = ocmp b c"
begin

lemma greater_iff: "ocmp a b = Greater \<longleftrightarrow> ocmp b a = Less"
  by (metis ocmp_swap reverse_ordering_iff(1))

lemma equal_sym: "ocmp a b = Equal \<longleftrightarrow> ocmp b a = Equal"
  by (metis ocmp_swap reverse_ordering_iff(2))

lemma equal_congR: "ocmp a b = Equal \<Longrightarrow> ocmp c a = ocmp c b"
  by (metis ocmp_swap ocmp_equal_cong)

lemma less_not_equal: "ocmp a b = Less \<Longrightarrow> ocmp b a \<noteq> Less"
  by (metis greater_iff ordering.distinct(3))

lemma sorted_nth_less:
  "sorted_by ocmp xs \<Longrightarrow> i < j \<Longrightarrow> j < length xs \<Longrightarrow> ocmp (xs ! i) (xs ! j) = Less"
  by (simp add: sorted_by_def sorted_wrt_iff_nth_less)

lemma sorted_partitioned:
  assumes "sorted_by ocmp xs"
  shows "partitioned_by (\<lambda>p. ocmp p x) xs"
  unfolding partitioned_by_def
proof (intro allI impI)
  fix i j assume ij: "i \<le> j" "j < length xs"
  show "(ocmp (xs ! j) x = Less \<longrightarrow> ocmp (xs ! i) x = Less) \<and>
        (ocmp (xs ! i) x = Greater \<longrightarrow> ocmp (xs ! j) x = Greater)"
  proof (cases "i = j")
    case False
    with ij have "ocmp (xs ! i) (xs ! j) = Less"
      using assms by (simp add: sorted_nth_less)
    then show ?thesis
      by (meson greater_iff ocmp_less_trans)
  qed simp
qed

lemma sorted_distinct_keys:
  "sorted_by ocmp xs \<Longrightarrow> i < length xs \<Longrightarrow> j < length xs \<Longrightarrow>
     ocmp (xs ! i) (xs ! j) = Equal \<Longrightarrow> i = j"
  by (metis equal_sym linorder_neqE_nat ordering.distinct(1) sorted_nth_less)

lemma sorted_by_update:
  assumes "sorted_by ocmp xs" and "i < length xs" and "ocmp (xs ! i) x = Equal"
  shows "sorted_by ocmp (xs[i := x])"
  unfolding sorted_by_def sorted_wrt_iff_nth_less
proof (intro allI impI)
  fix j k assume jk: "j < k" "k < length (xs[i := x])"
  then have "ocmp (xs ! j) (xs ! k) = Less"
    using assms(1) by (simp add: sorted_nth_less)
  moreover have "ocmp x (xs ! k) = ocmp (xs ! i) (xs ! k)" "ocmp (xs ! j) x = ocmp (xs ! j) (xs ! i)"
    using assms(3) ocmp_equal_cong equal_congR by metis+
  ultimately show "ocmp (xs[i := x] ! j) (xs[i := x] ! k) = Less"
    using jk assms by (auto simp: nth_list_update sorted_nth_less)
qed

lemma sorted_by_vec_insert:
  assumes "sorted_by ocmp xs" and "i \<le> length xs"
    and "\<forall>j < i. ocmp (xs ! j) x = Less"
    and "\<forall>j < length xs. i \<le> j \<longrightarrow> ocmp (xs ! j) x = Greater"
  shows "sorted_by ocmp (vec_insert i x xs)"
proof -
  have below: "\<forall>y \<in> set (take i xs). ocmp y x = Less"
    using assms(2,3) by (auto simp: in_set_conv_nth)
  have above: "\<forall>y \<in> set (drop i xs). ocmp x y = Less"
    using assms(2,4) by (force simp: in_set_conv_nth greater_iff [symmetric])
  have "sorted_wrt (\<lambda>a b. ocmp a b = Less) (take i xs @ drop i xs)"
    using assms(1) by (simp add: sorted_by_def)
  with below above show ?thesis
    by (auto simp: sorted_by_def vec_insert_def sorted_wrt_append intro: ocmp_less_trans)
qed

lemma sorted_unique:
  "sorted_by ocmp xs \<Longrightarrow> sorted_by ocmp ys \<Longrightarrow> set xs = set ys \<Longrightarrow> xs = ys"
proof (induction xs arbitrary: ys)
  case (Cons x xs)
  then obtain y zs where ys: "ys = y # zs" by (cases ys) auto
  have irrefl: "ocmp a a \<noteq> Less" for a by (simp add: ocmp_refl)
  have "x = y"
  proof (rule ccontr)
    assume "x \<noteq> y"
    then have "ocmp x y = Less" "ocmp y x = Less" using Cons.prems ys by auto
    then show False using less_not_equal by blast
  qed
  moreover from this have "set xs = set zs"
    using Cons.prems ys irrefl by (metis insert_ident list.simps(15) sorted_by_Cons)
  ultimately show ?case using Cons ys by auto
qed simp

theorem insert_by_sorted: "sorted_by ocmp xs \<Longrightarrow> sorted_by ocmp (insert_by ocmp x xs)"
  using binary_search_by_Ok [OF sorted_partitioned, of xs x]
    binary_search_by_Err [OF sorted_partitioned, of xs x]
  by (auto simp: insert_by_def sorted_by_update sorted_by_vec_insert split: sum.splits)

theorem insert_by_set:
  assumes "sorted_by ocmp xs"
  shows "set (insert_by ocmp x xs) = insert x {y \<in> set xs. ocmp y x \<noteq> Equal}"
proof (cases "binary_search_by (\<lambda>p. ocmp p x) xs")
  case (Inl i)
  with binary_search_by_Err [OF sorted_partitioned, OF assms, of x i]
  have "\<forall>j < length xs. ocmp (xs ! j) x \<noteq> Equal"
    by (metis not_less ordering.distinct(1,5))
  then have "\<forall>y \<in> set xs. ocmp y x \<noteq> Equal"
    by (auto simp: in_set_conv_nth)
  moreover have "set (take i xs) \<union> set (drop i xs) = set xs"
    by (metis append_take_drop_id set_append)
  ultimately show ?thesis
    using Inl by (auto simp: insert_by_def vec_insert_def)
next
  case (Inr i)
  with binary_search_by_Ok [OF sorted_partitioned, OF assms, of x i]
  have i: "i < length xs" "ocmp (xs ! i) x = Equal" by auto
  have uniq: "ocmp (xs ! j) x = Equal \<longleftrightarrow> j = i" if "j < length xs" for j
    using that i assms by (metis equal_congR equal_sym sorted_distinct_keys)
  have "set (xs[i := x]) = insert x {xs ! j |j. j < length xs \<and> j \<noteq> i}"
    using i by (auto simp: set_conv_nth nth_list_update)
  also have "{xs ! j |j. j < length xs \<and> j \<noteq> i} = {y \<in> set xs. ocmp y x \<noteq> Equal}"
    using uniq by (auto simp: in_set_conv_nth)
  finally show ?thesis using Inr by (simp add: insert_by_def)
qed

end

text \<open>Comparing by a key, then by another, and in reverse is lawful again.\<close>

lemma ord_impl_key: "ord_impl (\<lambda>a b. cmp (k a) (k b))"
proof
  show "cmp (k a) (k a) = Equal" for a by simp
  show "cmp (k b) (k a) = reverse_ordering (cmp (k a) (k b))" for a b by (auto simp: cmp_def)
  show "cmp (k a) (k c) = Less" if "cmp (k a) (k b) = Less" "cmp (k b) (k c) = Less" for a b c
    using that by (simp add: less_trans)
  show "cmp (k a) (k c) = cmp (k b) (k c)" if "cmp (k a) (k b) = Equal" for a b c
    using that by simp
qed

lemma ord_impl_then:
  assumes "ord_impl f" and "ord_impl g"
  shows "ord_impl (\<lambda>a b. then_with (f a b) (g a b))"
proof -
  note f = ord_impl.ocmp_swap [OF assms(1)] ord_impl.ocmp_less_trans [OF assms(1)]
    ord_impl.ocmp_equal_cong [OF assms(1)] ord_impl.equal_congR [OF assms(1)]
  note g = ord_impl.ocmp_swap [OF assms(2)] ord_impl.ocmp_less_trans [OF assms(2)]
    ord_impl.ocmp_equal_cong [OF assms(2)]
  show ?thesis
  proof
    show "then_with (f a a) (g a a) = Equal" for a
      by (simp add: ord_impl.ocmp_refl [OF assms(1)] ord_impl.ocmp_refl [OF assms(2)])
    show "then_with (f b a) (g b a) = reverse_ordering (then_with (f a b) (g a b))" for a b
      unfolding f(1) [of b a] g(1) [of b a] by (cases "f a b") simp_all
    show "then_with (f a c) (g a c) = Less"
      if "then_with (f a b) (g a b) = Less" "then_with (f b c) (g b c) = Less" for a b c
    proof -
      have "f a c = Less \<or> f a c = Equal \<and> g a c = Less"
        using that f(2) [of a b c] f(3) [of a b c] f(4) [of b c a] g(2) [of a b c] by auto
      then show ?thesis by simp
    qed
    show "then_with (f a c) (g a c) = then_with (f b c) (g b c)"
      if "then_with (f a b) (g a b) = Equal" for a b c
      using that f(3) [of a b c] g(3) [of a b c] by simp
  qed
qed

lemma ord_impl_reverse:
  assumes "ord_impl f"
  shows "ord_impl (\<lambda>a b. reverse_ordering (f a b))"
proof -
  note f = ord_impl.ocmp_swap [OF assms] ord_impl.ocmp_less_trans [OF assms]
    ord_impl.ocmp_equal_cong [OF assms] ord_impl.greater_iff [OF assms] ord_impl.ocmp_refl [OF assms]
  show ?thesis
  proof
    show "reverse_ordering (f a a) = Equal" for a by (simp add: f(5))
    show "reverse_ordering (f b a) = reverse_ordering (reverse_ordering (f a b))" for a b
      unfolding f(1) [of b a] by (cases "f a b") simp_all
    show "reverse_ordering (f a c) = Less"
      if "reverse_ordering (f a b) = Less" "reverse_ordering (f b c) = Less" for a b c
      using that f(2) [of c b a] by (simp add: f(4))
    show "reverse_ordering (f a c) = reverse_ordering (f b c)"
      if "reverse_ordering (f a b) = Equal" for a b c
      using that f(3) [of a b c] by simp
  qed
qed

subsection \<open>Flags in words\<close>

lemma and_flag_iff:
  fixes w :: "'a::len word"
  assumes "n < LENGTH('a)"
  shows "w AND push_bit n 1 = push_bit n 1 \<longleftrightarrow> bit w n"
proof
  assume "w AND push_bit n 1 = push_bit n 1"
  then have "bit (w AND push_bit n 1) n = bit (push_bit n 1 :: 'a word) n" by simp
  with assms show "bit w n" by (simp add: bit_simps)
next
  assume "bit w n"
  then show "w AND push_bit n 1 = push_bit n 1"
    by (intro bit_word_eqI) (auto simp: bit_simps)
qed

end
