(* ===== verification/Field.thy ===== *)
theory Field
  imports Rust_Str
begin

text \<open>
  Fields, field sets and value sets: \<open>tracing-core/src/field.rs\<close>.

  A \<open>callsite::Identifier\<close> compares by address, so it is a number here. A value is recorded by
  one call of the visitor (or none), so \<open>record_value\<close> and \<open>value_set_record\<close> return the calls
  the visitor sees, in order. Fixed-width integers keep their width; \<open>f64\<close> is the type
  parameter \<open>'f\<close>, on which the field module computes nothing.
\<close>

type_synonym callsite_id = nat

record field_set =
  fs_names :: "string list"
  fs_callsite :: callsite_id

record field =
  field_i :: nat
  field_fields :: field_set

definition field_callsite :: "field \<Rightarrow> callsite_id" where
  "field_callsite f = fs_callsite (field_fields f)"

definition field_set_len :: "field_set \<Rightarrow> nat" where
  "field_set_len fs = length (fs_names fs)"

text \<open>\<open>Field::name\<close> indexes the names; \<open>None\<close> is the panic of an index out of range.\<close>

definition field_name :: "field \<Rightarrow> string option" where
  "field_name f =
     (if field_i f < length (fs_names (field_fields f))
      then Some (fs_names (field_fields f) ! field_i f) else None)"

definition field_eq :: "field \<Rightarrow> field \<Rightarrow> bool" where
  "field_eq f g \<longleftrightarrow> field_callsite f = field_callsite g \<and> field_i f = field_i g"

fun position :: "('a \<Rightarrow> bool) \<Rightarrow> 'a list \<Rightarrow> nat option" where
  "position P [] = None"
| "position P (x # xs) = (if P x then Some 0 else map_option Suc (position P xs))"

definition field_lookup :: "field_set \<Rightarrow> string \<Rightarrow> field option" where
  "field_lookup fs name =
     map_option (\<lambda>i. \<lparr>field_i = i, field_fields = \<lparr>fs_names = fs_names fs, fs_callsite = fs_callsite fs\<rparr>\<rparr>)
       (position (\<lambda>f. f = name) (fs_names fs))"

definition field_set_contains :: "field_set \<Rightarrow> field \<Rightarrow> bool" where
  "field_set_contains fs f \<longleftrightarrow> field_callsite f = fs_callsite fs \<and> field_i f \<le> field_set_len fs"

definition field_set_iter :: "field_set \<Rightarrow> field list" where
  "field_set_iter fs =
     map (\<lambda>i. \<lparr>field_i = i, field_fields = \<lparr>fs_names = fs_names fs, fs_callsite = fs_callsite fs\<rparr>\<rparr>)
       [0..<field_set_len fs]"

definition fake_field :: "field_set \<Rightarrow> field" where
  "fake_field fs = \<lparr>field_i = 2 ^ 64 - 1, field_fields = fs\<rparr>"

subsection \<open>Values\<close>

datatype 'f tvalue =
    U8 "8 word" | U16 "16 word" | U32 "32 word" | U64 "64 word" | Usize "64 word" | U128 "128 word"
  | I8 "8 word" | I16 "16 word" | I32 "32 word" | I64 "64 word" | Isize "64 word" | I128 "128 word"
  | VBool bool
  | VF64 'f
  | VStr string
  | VBytes "8 word list"
  | VError string "string list"
  | VDebug string
  | VEmpty
  | VOption "'f tvalue option"
  | VRef "'f tvalue"

text \<open>
  \<open>VDebug\<close> stands for \<open>fmt::Arguments\<close>, \<open>DisplayValue\<close> and \<open>DebugValue\<close>, which record the text
  they render to; \<open>VRef\<close> for \<open>&T\<close>, \<open>&mut T\<close>, \<open>Box<T>\<close> and \<open>Wrapping<T>\<close>, which record what
  they wrap. \<open>VError\<close> is a \<open>dyn Error\<close>: the text it displays as, and those of its chain of sources.
\<close>

datatype 'f recorded =
    RecU64 "64 word" | RecI64 "64 word" | RecU128 "128 word" | RecI128 "128 word"
  | RecBool bool | RecF64 'f | RecStr string | RecBytes "8 word list" | RecError string "string list"
  | RecDebug string

fun record_value :: "'f tvalue \<Rightarrow> 'f recorded option" where
  "record_value (U8 w) = Some (RecU64 (ucast w))"
| "record_value (U16 w) = Some (RecU64 (ucast w))"
| "record_value (U32 w) = Some (RecU64 (ucast w))"
| "record_value (U64 w) = Some (RecU64 w)"
| "record_value (Usize w) = Some (RecU64 (ucast w))"
| "record_value (U128 w) = Some (RecU128 w)"
| "record_value (I8 w) = Some (RecI64 (scast w))"
| "record_value (I16 w) = Some (RecI64 (scast w))"
| "record_value (I32 w) = Some (RecI64 (scast w))"
| "record_value (I64 w) = Some (RecI64 w)"
| "record_value (Isize w) = Some (RecI64 (scast w))"
| "record_value (I128 w) = Some (RecI128 w)"
| "record_value (VBool b) = Some (RecBool b)"
| "record_value (VF64 x) = Some (RecF64 x)"
| "record_value (VStr s) = Some (RecStr s)"
| "record_value (VBytes bs) = Some (RecBytes bs)"
| "record_value (VError e sources) = Some (RecError e sources)"
| "record_value (VDebug s) = Some (RecDebug s)"
| "record_value VEmpty = None"
| "record_value (VOption None) = None"
| "record_value (VOption (Some v)) = record_value v"
| "record_value (VRef v) = record_value v"

text \<open>The integer a value carries, for the types that carry one, and the one its record carries.\<close>

fun tvalue_int :: "'f tvalue \<Rightarrow> int option" where
  "tvalue_int (U8 w) = Some (uint w)"
| "tvalue_int (U16 w) = Some (uint w)"
| "tvalue_int (U32 w) = Some (uint w)"
| "tvalue_int (U64 w) = Some (uint w)"
| "tvalue_int (Usize w) = Some (uint w)"
| "tvalue_int (U128 w) = Some (uint w)"
| "tvalue_int (I8 w) = Some (sint w)"
| "tvalue_int (I16 w) = Some (sint w)"
| "tvalue_int (I32 w) = Some (sint w)"
| "tvalue_int (I64 w) = Some (sint w)"
| "tvalue_int (Isize w) = Some (sint w)"
| "tvalue_int (I128 w) = Some (sint w)"
| "tvalue_int (VOption (Some v)) = tvalue_int v"
| "tvalue_int (VRef v) = tvalue_int v"
| "tvalue_int _ = None"

fun recorded_int :: "'f recorded \<Rightarrow> int option" where
  "recorded_int (RecU64 w) = Some (uint w)"
| "recorded_int (RecI64 w) = Some (sint w)"
| "recorded_int (RecU128 w) = Some (uint w)"
| "recorded_int (RecI128 w) = Some (sint w)"
| "recorded_int _ = None"

subsection \<open>Value sets\<close>

datatype 'f tvalues =
    Explicit "(field \<times> 'f tvalue option) list"
  | All "'f tvalue option list"

record 'f value_set =
  vs_values :: "'f tvalues"
  vs_fields :: field_set

definition value_set_callsite :: "'f value_set \<Rightarrow> callsite_id" where
  "value_set_callsite vs = fs_callsite (vs_fields vs)"

fun record_each :: "(field \<times> 'f tvalue option) list \<Rightarrow> (field \<times> 'f recorded) list" where
  "record_each [] = []"
| "record_each ((f, v) # fvs) =
     (case Option.bind v record_value of
        None \<Rightarrow> record_each fvs
      | Some r \<Rightarrow> (f, r) # record_each fvs)"

definition value_set_record :: "'f value_set \<Rightarrow> (field \<times> 'f recorded) list" where
  "value_set_record vs =
     (case vs_values vs of
        Explicit fvs \<Rightarrow>
          record_each (filter (\<lambda>(f, v). field_callsite f = value_set_callsite vs) fvs)
      | All values \<Rightarrow> record_each (zip (field_set_iter (vs_fields vs)) values))"

definition value_set_len :: "'f value_set \<Rightarrow> nat" where
  "value_set_len vs =
     (case vs_values vs of
        Explicit fvs \<Rightarrow>
          length (filter (\<lambda>(f, v). field_callsite f = value_set_callsite vs) fvs)
      | All values \<Rightarrow> length values)"

text \<open>\<open>None\<close> is the panic of \<open>values[field.i]\<close> out of range.\<close>

definition value_set_contains :: "'f value_set \<Rightarrow> field \<Rightarrow> bool option" where
  "value_set_contains vs f =
     (if field_callsite f \<noteq> value_set_callsite vs then Some False
      else (case vs_values vs of
              Explicit fvs \<Rightarrow> Some (list_ex (\<lambda>(key, val). field_eq key f \<and> val \<noteq> None) fvs)
            | All values \<Rightarrow>
                if field_i f < length values then Some (values ! field_i f \<noteq> None) else None))"

definition value_set_is_empty :: "'f value_set \<Rightarrow> bool" where
  "value_set_is_empty vs =
     (case vs_values vs of
        All values \<Rightarrow> list_all (\<lambda>v. v = None) values
      | Explicit fvs \<Rightarrow>
          list_all (\<lambda>(key, val). val = None \<or> field_callsite key \<noteq> value_set_callsite vs) fvs)"

subsection \<open>Byte strings\<close>

definition hex_digit :: "nat \<Rightarrow> char" where
  "hex_digit d = (if d < 10 then char_of (d + 48) else char_of (d + 87))"

definition hex_byte :: "8 word \<Rightarrow> string" where
  "hex_byte w = [hex_digit (unat w div 16), hex_digit (unat w mod 16)]"

definition hex_bytes_debug :: "8 word list \<Rightarrow> string" where
  "hex_bytes_debug bs =
     ''['' @
     (case bs of [] \<Rightarrow> [] | b # rest \<Rightarrow> hex_byte b @ concat (map (\<lambda>c. '' '' @ hex_byte c) rest)) @
     '']''"

subsection \<open>Lemmas\<close>

lemma position_Some:
  "position P xs = Some i \<longleftrightarrow> i < length xs \<and> P (xs ! i) \<and> (\<forall>j < i. \<not> P (xs ! j))"
proof (induction xs arbitrary: i)
  case (Cons x xs)
  show ?case by (cases i) (auto simp: Cons.IH less_Suc_eq_0_disj)
qed simp

lemma position_None: "position P xs = None \<longleftrightarrow> (\<forall>x \<in> set xs. \<not> P x)"
  by (induction xs) auto

lemma field_lookup_None: "field_lookup fs name = None \<longleftrightarrow> name \<notin> set (fs_names fs)"
  by (auto simp: field_lookup_def position_None)

lemma field_lookup_SomeD:
  assumes "field_lookup fs name = Some f"
  shows "field_name f = Some name" and "field_callsite f = fs_callsite fs"
    and "field_i f < field_set_len fs" and "f \<in> set (field_set_iter fs)"
  using assms
  by (auto simp: field_lookup_def position_Some field_name_def field_callsite_def
      field_set_len_def field_set_iter_def)

lemma record_each_length: "length (record_each fvs) \<le> length fvs"
  by (induction fvs rule: record_each.induct) (auto split: option.splits)

lemma record_each_fst: "set (map fst (record_each fvs)) \<subseteq> set (map fst fvs)"
  by (induction fvs rule: record_each.induct) (auto split: option.splits)

lemma record_each_empty:
  "record_each fvs = [] \<longleftrightarrow> (\<forall>(f, v) \<in> set fvs. Option.bind v record_value = None)"
  by (induction fvs rule: record_each.induct) (auto split: option.splits)

lemma field_set_iter_callsite: "f \<in> set (field_set_iter fs) \<Longrightarrow> field_callsite f = fs_callsite fs"
  by (auto simp: field_set_iter_def field_callsite_def)

text \<open>
  A value set is recorded under its own callsite only: every call the visitor sees is for a
  field of the callsite the value set belongs to, whatever fields were put into an explicit set.
\<close>

theorem value_set_record_callsite:
  "(f, r) \<in> set (value_set_record vs) \<Longrightarrow> field_callsite f = value_set_callsite vs"
proof (cases "vs_values vs")
  case (Explicit fvs)
  assume "(f, r) \<in> set (value_set_record vs)"
  then have "f \<in> set (map fst (filter (\<lambda>(f, v). field_callsite f = value_set_callsite vs) fvs))"
    using Explicit record_each_fst by (fastforce simp: value_set_record_def)
  then show ?thesis by auto
next
  case (All vals)
  assume "(f, r) \<in> set (value_set_record vs)"
  then have "f \<in> set (map fst (zip (field_set_iter (vs_fields vs)) vals))"
    using All record_each_fst by (fastforce simp: value_set_record_def)
  then show ?thesis
    by (auto simp: value_set_callsite_def dest!: set_zip_leftD field_set_iter_callsite)
qed

theorem value_set_record_callsite_witness:
  "field_callsite \<lparr>field_i = 0, field_fields = \<lparr>fs_names = [''a''], fs_callsite = 7\<rparr>\<rparr> =
   value_set_callsite
     \<lparr>vs_values = Explicit [(\<lparr>field_i = 0, field_fields = \<lparr>fs_names = [''a''], fs_callsite = 7\<rparr>\<rparr>,
        Some (VBool True :: unit tvalue))],
      vs_fields = \<lparr>fs_names = [''a''], fs_callsite = 7\<rparr>\<rparr>"
  by (rule value_set_record_callsite [where r = "RecBool True"])
    (simp add: value_set_record_def value_set_callsite_def field_callsite_def)

text \<open>
  Recording an integer never changes its value: whichever of the twelve integer types a value
  has (or an optional or referenced one), the call the visitor sees carries the same integer,
  although narrower types are widened to 64 bits first.
\<close>

theorem record_value_int:
  "tvalue_int v = Some n \<Longrightarrow> \<exists>r. record_value v = Some r \<and> recorded_int r = Some n"
  by (induction v rule: record_value.induct)
    (auto simp: uint_up_ucast is_up sint_up_scast)

theorem record_value_int_witness:
  "\<exists>r. record_value (VOption (Some (I8 255)) :: unit tvalue) = Some r \<and> recorded_int r = Some (- 1)"
  by (rule record_value_int) simp

text \<open>
  \<open>FieldSet::field\<close> finds a field exactly when the set has that name, and the field found has
  that name, belongs to the same callsite and is one the set iterates over.
\<close>

theorem field_lookup_correct:
  "(field_lookup fs name = None \<longleftrightarrow> name \<notin> set (fs_names fs)) \<and>
   (\<forall>f. field_lookup fs name = Some f \<longrightarrow>
      field_name f = Some name \<and> field_callsite f = fs_callsite fs \<and>
      f \<in> set (field_set_iter fs) \<and> field_set_contains fs f)"
  using field_lookup_SomeD field_lookup_None
  by (auto simp: field_set_contains_def less_imp_le)

theorem field_lookup_correct_witness:
  "field_lookup \<lparr>fs_names = [''a'', ''b''], fs_callsite = 7\<rparr> ''b'' \<noteq> None"
  using field_lookup_correct [of "\<lparr>fs_names = [''a'', ''b''], fs_callsite = 7\<rparr>" "''b''"]
  by simp

text \<open>
  \<open>FieldSet::contains\<close> accepts one index too many: it compares with \<open><=\<close>, so a field whose
  index is the length of the set, which has no name, counts as contained.
\<close>

theorem field_set_contains_past_end:
  "field_set_contains fs f \<longleftrightarrow>
     field_callsite f = fs_callsite fs \<and>
     (field_i f \<in> field_i ` set (field_set_iter fs) \<or> field_i f = field_set_len fs)"
  by (auto simp: field_set_contains_def field_set_iter_def image_iff le_less)

text \<open>
  A value set that reports itself empty makes no call on the visitor, and the number of calls
  is at most the reported length.
\<close>

theorem value_set_record_bounds:
  "(value_set_is_empty vs \<longrightarrow> value_set_record vs = []) \<and>
   length (value_set_record vs) \<le> value_set_len vs"
proof (cases "vs_values vs")
  case (Explicit fvs)
  have "value_set_is_empty vs \<longrightarrow> value_set_record vs = []"
    using Explicit by (auto simp: value_set_is_empty_def value_set_record_def record_each_empty list_all_iff)
  with Explicit show ?thesis
    by (simp add: value_set_record_def value_set_len_def record_each_length)
next
  case (All vals)
  have "value_set_is_empty vs \<longrightarrow> value_set_record vs = []"
    using All by (auto simp: value_set_is_empty_def value_set_record_def record_each_empty
        list_all_iff dest!: set_zip_rightD)
  moreover have "length (value_set_record vs) \<le> length (zip (field_set_iter (vs_fields vs)) vals)"
    using All record_each_length [of "zip (field_set_iter (vs_fields vs)) vals"]
    by (simp add: value_set_record_def)
  ultimately show ?thesis
    using All by (simp add: value_set_len_def)
qed

theorem value_set_record_bounds_witness:
  "value_set_record
     \<lparr>vs_values = All [None], vs_fields = \<lparr>fs_names = [''a''], fs_callsite = 7\<rparr>\<rparr> =
   ([] :: (field \<times> unit recorded) list)"
  using value_set_record_bounds [of "\<lparr>vs_values = All [None],
      vs_fields = \<lparr>fs_names = [''a''], fs_callsite = 7\<rparr>\<rparr> :: unit value_set"]
  by (simp add: value_set_is_empty_def)

lemma record_each_full:
  "length (record_each fvs) = length fvs \<longleftrightarrow> (\<forall>(f, v) \<in> set fvs. Option.bind v record_value \<noteq> None)"
proof (induction fvs rule: record_each.induct)
  case (2 f v fvs)
  then show ?case
    using record_each_length [of fvs] by (auto split: option.splits)
qed simp

text \<open>
  \<open>ValueSet::len\<close> counts the listed fields of the callsite, with or without a value: it is
  the number of visited fields exactly when every one of them has a value that records itself.
\<close>

theorem value_set_len_explicit:
  "vs_values vs = Explicit fvs \<Longrightarrow>
     value_set_len vs = length (value_set_record vs) \<longleftrightarrow>
       (\<forall>(f, v) \<in> set fvs. field_callsite f = value_set_callsite vs \<longrightarrow>
          Option.bind v record_value \<noteq> None)"
  using record_each_full [of "filter (\<lambda>(f, v). field_callsite f = value_set_callsite vs) fvs"]
  by (auto simp: value_set_len_def value_set_record_def)

theorem value_set_len_explicit_witness:
  "value_set_len \<lparr>vs_values = Explicit [(\<lparr>field_i = 0, field_fields = \<lparr>fs_names = [''a''], fs_callsite = 7\<rparr>\<rparr>, None)],
      vs_fields = \<lparr>fs_names = [''a''], fs_callsite = 7\<rparr>\<rparr> \<noteq>
   length (value_set_record (\<lparr>vs_values = Explicit [(\<lparr>field_i = 0, field_fields = \<lparr>fs_names = [''a''], fs_callsite = 7\<rparr>\<rparr>, None)],
      vs_fields = \<lparr>fs_names = [''a''], fs_callsite = 7\<rparr>\<rparr> :: unit value_set))"
  using value_set_len_explicit [of "\<lparr>vs_values = Explicit [(\<lparr>field_i = 0, field_fields = \<lparr>fs_names = [''a''], fs_callsite = 7\<rparr>\<rparr>, None)],
      vs_fields = \<lparr>fs_names = [''a''], fs_callsite = 7\<rparr>\<rparr> :: unit value_set"]
  by (simp add: field_callsite_def value_set_callsite_def value_set_len_def)

end
