(* ===== verification/Metadata.thy ===== *)
theory Metadata
  imports Field
begin

text \<open>
  Levels, level filters, callsite kinds and metadata: \<open>tracing-core/src/metadata.rs\<close>, with the
  field sets of \<open>tracing-core/src/field.rs\<close> that metadata contains.

  \<open>Level\<close> wraps \<open>LevelInner\<close>, whose discriminants grow with severity (\<open>Trace = 0\<close> up to
  \<open>Error = 4\<close>) while the order of the crate compares the discriminants reversed, so that a more
  verbose level is greater. The instances of \<open>linorder\<close> below are these orders; the mixed
  comparisons of \<open>Level\<close> with \<open>LevelFilter\<close> are definitions of their own, as in the source.
\<close>

unbundle bit_operations_syntax

subsection \<open>Levels\<close>

datatype level = TRACE | DEBUG | INFO | WARN | ERROR

datatype level_filter = LevelFilter (into_level: "level option")

abbreviation OFF :: level_filter where "OFF \<equiv> LevelFilter None"

fun level_as_usize :: "level \<Rightarrow> nat" where
  "level_as_usize TRACE = 0"
| "level_as_usize DEBUG = 1"
| "level_as_usize INFO = 2"
| "level_as_usize WARN = 3"
| "level_as_usize ERROR = 4"

definition OFF_USIZE :: nat where
  "OFF_USIZE = level_as_usize ERROR + 1"

fun filter_as_usize :: "level_filter \<Rightarrow> nat" where
  "filter_as_usize (LevelFilter (Some l)) = level_as_usize l"
| "filter_as_usize (LevelFilter None) = OFF_USIZE"

definition from_level :: "level \<Rightarrow> level_filter" where
  "from_level l = LevelFilter (Some l)"

lemma level_as_usize_inject [simp]: "level_as_usize a = level_as_usize b \<longleftrightarrow> a = b"
  by (cases a; cases b) auto

lemma level_as_usize_less_OFF [simp]: "level_as_usize a < OFF_USIZE"
  by (cases a) (auto simp: OFF_USIZE_def)

lemma filter_as_usize_inject [simp]: "filter_as_usize a = filter_as_usize b \<longleftrightarrow> a = b"
proof -
  have "level_as_usize x \<noteq> OFF_USIZE" and "OFF_USIZE \<noteq> level_as_usize x" for x
    using level_as_usize_less_OFF [of x] by (metis less_irrefl)+
  then show ?thesis
    by (cases a rule: filter_as_usize.cases; cases b rule: filter_as_usize.cases) auto
qed

lemma filter_as_usize_le_OFF [simp]: "filter_as_usize a \<le> OFF_USIZE"
  by (cases a rule: filter_as_usize.cases) (auto simp: less_imp_le)

text \<open>
  \<open>impl PartialOrd\<close> and \<open>impl Ord\<close> for \<open>Level\<close> and \<open>LevelFilter\<close>: discriminants compared reversed. They are
  the orders of the two types below.
\<close>

definition level_lt :: "level \<Rightarrow> level \<Rightarrow> bool" where [simp]:
  "level_lt a b \<longleftrightarrow> level_as_usize b < level_as_usize a"

definition level_le :: "level \<Rightarrow> level \<Rightarrow> bool" where [simp]:
  "level_le a b \<longleftrightarrow> level_as_usize b \<le> level_as_usize a"

definition level_filter_lt :: "level_filter \<Rightarrow> level_filter \<Rightarrow> bool" where [simp]:
  "level_filter_lt a b \<longleftrightarrow> filter_as_usize b < filter_as_usize a"

definition level_filter_le :: "level_filter \<Rightarrow> level_filter \<Rightarrow> bool" where [simp]:
  "level_filter_le a b \<longleftrightarrow> filter_as_usize b \<le> filter_as_usize a"

instantiation level :: linorder
begin

definition less_level :: "level \<Rightarrow> level \<Rightarrow> bool" where
  "less_level a b \<longleftrightarrow> level_lt a b"

definition less_eq_level :: "level \<Rightarrow> level \<Rightarrow> bool" where
  "less_eq_level a b \<longleftrightarrow> level_le a b"

instance
  by standard (auto simp: less_level_def less_eq_level_def)

end

instantiation level_filter :: linorder
begin

definition less_level_filter :: "level_filter \<Rightarrow> level_filter \<Rightarrow> bool" where
  "less_level_filter a b \<longleftrightarrow> level_filter_lt a b"

definition less_eq_level_filter :: "level_filter \<Rightarrow> level_filter \<Rightarrow> bool" where
  "less_eq_level_filter a b \<longleftrightarrow> level_filter_le a b"

instance
  by standard (auto simp: less_level_filter_def less_eq_level_filter_def)

end

text \<open>The mixed comparisons: \<open>impl PartialOrd<LevelFilter> for Level\<close> and its mirror image.\<close>

definition level_cmp_filter :: "level \<Rightarrow> level_filter \<Rightarrow> ordering" where
  "level_cmp_filter l f = cmp (filter_as_usize f) (level_as_usize l)"

definition level_le_filter :: "level \<Rightarrow> level_filter \<Rightarrow> bool" where
  "level_le_filter l f \<longleftrightarrow> filter_as_usize f \<le> level_as_usize l"

definition level_lt_filter :: "level \<Rightarrow> level_filter \<Rightarrow> bool" where
  "level_lt_filter l f \<longleftrightarrow> filter_as_usize f < level_as_usize l"

definition filter_cmp_level :: "level_filter \<Rightarrow> level \<Rightarrow> ordering" where
  "filter_cmp_level f l = cmp (level_as_usize l) (filter_as_usize f)"

definition filter_ge_level :: "level_filter \<Rightarrow> level \<Rightarrow> bool" where
  "filter_ge_level f l \<longleftrightarrow> level_as_usize l \<ge> filter_as_usize f"

definition filter_eq_level :: "level_filter \<Rightarrow> level \<Rightarrow> bool" where
  "filter_eq_level f l \<longleftrightarrow> filter_as_usize f = level_as_usize l"

lemma filter_ge_level_iff [simp]: "filter_ge_level f l = level_le_filter l f"
  by (simp add: filter_ge_level_def level_le_filter_def)

lemma level_le_filter_from_level: "level_le_filter l f \<longleftrightarrow> from_level l \<le> f"
  by (simp add: level_le_filter_def from_level_def less_eq_level_filter_def)

lemma level_le_filter_trans: "level_le_filter l f \<Longrightarrow> f \<le> g \<Longrightarrow> level_le_filter l g"
  by (simp add: level_le_filter_from_level)

lemma level_le_OFF [simp]: "\<not> level_le_filter l OFF"
  using level_as_usize_less_OFF [of l] by (simp add: level_le_filter_def not_le)

lemma level_le_TRACE [simp]: "level_le_filter l (LevelFilter (Some TRACE))"
  by (simp add: level_le_filter_def)

lemma OFF_le [simp]: "OFF \<le> f"
  by (simp add: less_eq_level_filter_def)

lemma le_OFF_iff [simp]: "f \<le> OFF \<longleftrightarrow> f = OFF"
  by (simp add: eq_iff)

lemma le_TRACE [simp]: "f \<le> LevelFilter (Some TRACE)"
  by (simp add: less_eq_level_filter_def)

subsection \<open>Text\<close>

definition level_as_str :: "level \<Rightarrow> string" where
  "level_as_str l = (case l of
     TRACE \<Rightarrow> ''TRACE'' | DEBUG \<Rightarrow> ''DEBUG'' | INFO \<Rightarrow> ''INFO'' | WARN \<Rightarrow> ''WARN'' | ERROR \<Rightarrow> ''ERROR'')"

definition filter_display :: "level_filter \<Rightarrow> string" where
  "filter_display f = (case into_level f of
     None \<Rightarrow> ''off''
   | Some ERROR \<Rightarrow> ''error''
   | Some WARN \<Rightarrow> ''warn''
   | Some INFO \<Rightarrow> ''info''
   | Some DEBUG \<Rightarrow> ''debug''
   | Some TRACE \<Rightarrow> ''trace'')"

datatype parse_level_error = ParseLevelError
datatype parse_level_filter_error = ParseLevelFilterError

definition level_from_usize :: "nat \<Rightarrow> level option" where
  "level_from_usize n =
     (if n = 1 then Some ERROR
      else if n = 2 then Some WARN
      else if n = 3 then Some INFO
      else if n = 4 then Some DEBUG
      else if n = 5 then Some TRACE
      else None)"

definition level_from_str :: "string \<Rightarrow> parse_level_error + level" where
  "level_from_str s =
     (case Option.bind (parse_usize s) level_from_usize of
        Some l \<Rightarrow> Inr l
      | None \<Rightarrow>
          if eq_ignore_ascii_case s ''error'' then Inr ERROR
          else if eq_ignore_ascii_case s ''warn'' then Inr WARN
          else if eq_ignore_ascii_case s ''info'' then Inr INFO
          else if eq_ignore_ascii_case s ''debug'' then Inr DEBUG
          else if eq_ignore_ascii_case s ''trace'' then Inr TRACE
          else Inl ParseLevelError)"

definition filter_from_usize :: "nat \<Rightarrow> level_filter option" where
  "filter_from_usize n =
     (if n = 0 then Some OFF else map_option from_level (level_from_usize n))"

definition filter_from_str :: "string \<Rightarrow> parse_level_filter_error + level_filter" where
  "filter_from_str s =
     (case Option.bind (parse_usize s) filter_from_usize of
        Some f \<Rightarrow> Inr f
      | None \<Rightarrow>
          if s = [] then Inr (from_level ERROR)
          else if eq_ignore_ascii_case s ''error'' then Inr (from_level ERROR)
          else if eq_ignore_ascii_case s ''warn'' then Inr (from_level WARN)
          else if eq_ignore_ascii_case s ''info'' then Inr (from_level INFO)
          else if eq_ignore_ascii_case s ''debug'' then Inr (from_level DEBUG)
          else if eq_ignore_ascii_case s ''trace'' then Inr (from_level TRACE)
          else if eq_ignore_ascii_case s ''off'' then Inr OFF
          else Inl ParseLevelFilterError)"

subsection \<open>The global maximum level\<close>

text \<open>
  \<open>MAX_LEVEL\<close> is an \<open>AtomicUsize\<close>; \<open>set_max\<close> stores a representation and \<open>current\<close> decodes it,
  with \<open>None\<close> for the \<open>unreachable!\<close> branch.
\<close>

definition set_max :: "level_filter \<Rightarrow> nat" where
  "set_max f = (case into_level f of Some l \<Rightarrow> level_as_usize l | None \<Rightarrow> OFF_USIZE)"

definition current_max :: "nat \<Rightarrow> level_filter option" where
  "current_max v =
     (if v = level_as_usize ERROR then Some (from_level ERROR)
      else if v = level_as_usize WARN then Some (from_level WARN)
      else if v = level_as_usize INFO then Some (from_level INFO)
      else if v = level_as_usize DEBUG then Some (from_level DEBUG)
      else if v = level_as_usize TRACE then Some (from_level TRACE)
      else if v = OFF_USIZE then Some OFF
      else None)"

subsection \<open>Callsite kinds\<close>

datatype kind = Kind (kind_bits: u8)

definition EVENT_BIT :: u8 where "EVENT_BIT = push_bit 0 1"
definition SPAN_BIT :: u8 where "SPAN_BIT = push_bit 1 1"
definition HINT_BIT :: u8 where "HINT_BIT = push_bit 2 1"

definition EVENT :: kind where "EVENT = Kind EVENT_BIT"
definition SPAN :: kind where "SPAN = Kind SPAN_BIT"
definition HINT :: kind where "HINT = Kind HINT_BIT"

definition kind_is_span :: "kind \<Rightarrow> bool" where
  "kind_is_span k \<longleftrightarrow> kind_bits k AND SPAN_BIT = SPAN_BIT"

definition kind_is_event :: "kind \<Rightarrow> bool" where
  "kind_is_event k \<longleftrightarrow> kind_bits k AND EVENT_BIT = EVENT_BIT"

definition kind_is_hint :: "kind \<Rightarrow> bool" where
  "kind_is_hint k \<longleftrightarrow> kind_bits k AND HINT_BIT = HINT_BIT"

definition kind_hint :: "kind \<Rightarrow> kind" where
  "kind_hint k = Kind (kind_bits k OR HINT_BIT)"

lemmas kind_bit_defs = EVENT_BIT_def SPAN_BIT_def HINT_BIT_def

text \<open>\<open>impl fmt::Debug for Kind\<close>; \<open>{:#b}\<close> prints a byte in binary with the prefix \<open>0b\<close>.\<close>

fun show_binary :: "nat \<Rightarrow> string" where
  "show_binary n = (if n < 2 then [digit_char n] else show_binary (n div 2) @ [digit_char (n mod 2)])"

declare show_binary.simps [simp del]

definition kind_debug :: "kind \<Rightarrow> string" where
  "kind_debug k =
     (let names = (if kind_is_event k then [''EVENT''] else []) @
                  (if kind_is_span k then [''SPAN''] else []) @
                  (if kind_is_hint k then [''HINT''] else [])
      in ''Kind('' @
         (if names = [] then ''0b'' @ show_binary (unat (kind_bits k)) else join_with '' | '' names) @
         '')'')"

subsection \<open>Metadata\<close>

record metadata =
  meta_name :: string
  meta_target :: string
  meta_level :: level
  meta_module_path :: "string option"
  meta_file :: "string option"
  meta_line :: "nat option"
  meta_fields :: field_set
  meta_kind :: kind

definition meta_callsite :: "metadata \<Rightarrow> callsite_id" where
  "meta_callsite m = fs_callsite (meta_fields m)"

definition meta_is_event :: "metadata \<Rightarrow> bool" where
  "meta_is_event m \<longleftrightarrow> kind_is_event (meta_kind m)"

definition meta_is_span :: "metadata \<Rightarrow> bool" where
  "meta_is_span m \<longleftrightarrow> kind_is_span (meta_kind m)"

definition field_set_eq :: "bool \<Rightarrow> field_set \<Rightarrow> field_set \<Rightarrow> bool" where
  "field_set_eq debug_assertions a b \<longleftrightarrow>
     (if \<not> debug_assertions then fs_callsite a = fs_callsite b
      else fs_callsite a = fs_callsite b \<and> fs_names a = fs_names b)"

text \<open>
  \<open>impl PartialEq for Metadata\<close>, by build profile. The shortcut for equal pointers is left out:
  an object at the same address is the same value, on which both branches answer true.
\<close>

definition metadata_eq :: "bool \<Rightarrow> metadata \<Rightarrow> metadata \<Rightarrow> bool" where
  "metadata_eq debug_assertions a b \<longleftrightarrow>
     (if \<not> debug_assertions then meta_callsite a = meta_callsite b
      else meta_callsite a = meta_callsite b
        \<and> meta_name a = meta_name b
        \<and> meta_target a = meta_target b
        \<and> meta_level a = meta_level b
        \<and> meta_module_path a = meta_module_path b
        \<and> meta_file a = meta_file b
        \<and> meta_line a = meta_line b
        \<and> field_set_eq debug_assertions (meta_fields a) (meta_fields b)
        \<and> meta_kind a = meta_kind b)"

subsection \<open>Properties\<close>

lemma kind_is_bits:
  "kind_is_event k = bit (kind_bits k) 0"
  "kind_is_span k = bit (kind_bits k) 1"
  "kind_is_hint k = bit (kind_bits k) 2"
  unfolding kind_is_event_def kind_is_span_def kind_is_hint_def kind_bit_defs
  by (rule and_flag_iff; simp)+

lemma filter_display_lower: "map to_ascii_lowercase (filter_display f) = filter_display f"
  by (cases f) (auto simp: filter_display_def to_ascii_lowercase_def is_ascii_uppercase_def
      split: option.split level.split)

lemma filter_display_inject [simp]: "filter_display f = filter_display g \<longleftrightarrow> f = g"
  by (cases f; cases g) (auto simp: filter_display_def split: option.splits level.splits)

lemma eq_ignore_display: "eq_ignore_ascii_case s (filter_display f) \<longleftrightarrow> map to_ascii_lowercase s = filter_display f"
  by (simp add: eq_ignore_ascii_case_def filter_display_lower)

lemma filter_display_unfold:
  "''off'' = filter_display OFF" "''error'' = filter_display (from_level ERROR)"
  "''warn'' = filter_display (from_level WARN)" "''info'' = filter_display (from_level INFO)"
  "''debug'' = filter_display (from_level DEBUG)" "''trace'' = filter_display (from_level TRACE)"
  by (simp_all add: filter_display_def from_level_def)

lemma level_filter_exhaust6:
  "f = OFF \<or> f = from_level ERROR \<or> f = from_level WARN \<or> f = from_level INFO \<or>
   f = from_level DEBUG \<or> f = from_level TRACE"
  by (cases f rule: filter_as_usize.cases) (metis from_level_def level.exhaust, simp)

lemma current_max_encoding: "current_max (set_max f) = Some f"
  using level_filter_exhaust6 [of f]
  by (auto simp: current_max_def set_max_def from_level_def OFF_USIZE_def)

lemma filter_from_str_by_name:
  assumes "Option.bind (parse_usize s) filter_from_usize = None" and "s \<noteq> []"
  shows "filter_from_str s = Inr f \<longleftrightarrow> eq_ignore_ascii_case s (filter_display f)"
  using assms level_filter_exhaust6 [of f]
  unfolding filter_from_str_def filter_display_unfold eq_ignore_display
  by (auto simp: from_level_def)

text \<open>
  What \<open>LevelFilter::from_str\<close> accepts: the numbers 0 to 5, the empty string as \<open>error\<close>, and
  the six names in any case; nothing else parses.
\<close>

theorem filter_from_str_spec:
  "filter_from_str s = Inr f \<longleftrightarrow>
     Option.bind (parse_usize s) filter_from_usize = Some f \<or>
     Option.bind (parse_usize s) filter_from_usize = None \<and>
       (if s = [] then f = from_level ERROR else eq_ignore_ascii_case s (filter_display f))"
proof (cases "Option.bind (parse_usize s) filter_from_usize")
  case None
  show ?thesis
  proof (cases "s = []")
    case True
    with None show ?thesis by (auto simp: filter_from_str_def)
  next
    case False
    from filter_from_str_by_name [OF None False] None False show ?thesis by simp
  qed
next
  case (Some g)
  then show ?thesis by (auto simp: filter_from_str_def)
qed

lemma parse_usize_letter: "s \<noteq> [] \<Longrightarrow> is_ascii_lowercase (hd s) \<or> is_ascii_uppercase (hd s) \<Longrightarrow> parse_usize s = None"
  unfolding parse_usize_def
  by (rule parse_uint_None) (auto simp: is_ascii_lowercase_def is_ascii_uppercase_def is_ascii_digit_def)

lemma filter_display_not_number: "parse_usize (filter_display f) = None"
  by (rule parse_usize_letter)
    (auto simp: filter_display_def is_ascii_lowercase_def split: option.split level.split)

lemma filter_display_nonempty [simp]: "filter_display f \<noteq> []"
  by (auto simp: filter_display_def split: option.split level.split)

lemma level_as_str_nonempty [simp]: "level_as_str l \<noteq> []"
  by (auto simp: level_as_str_def split: level.split)

lemma level_as_str_not_number: "parse_usize (level_as_str l) = None"
  by (rule parse_usize_letter) (auto simp: level_as_str_def is_ascii_uppercase_def split: level.split)

lemma level_as_str_lower: "map to_ascii_lowercase (level_as_str l) = filter_display (from_level l)"
  by (cases l; hypsubst; code_simp)

lemma filter_display_parses: "filter_from_str (filter_display f) = Inr f"
  using filter_from_str_by_name [of "filter_display f" f]
  by (simp add: filter_display_not_number)

text \<open>Parsing what \<open>LevelFilter\<close> prints returns the filter.\<close>

theorem filter_from_str_display: "filter_from_str (filter_display f) = Inr f"
  by (rule filter_display_parses)

text \<open>Parsing what \<open>Level\<close> prints returns the level, and a parsed level is the filter's level.\<close>

theorem level_from_str_as_str:
  "level_from_str (level_as_str l) = Inr l \<and> filter_from_str (level_as_str l) = Inr (from_level l)"
proof
  show "filter_from_str (level_as_str l) = Inr (from_level l)"
    using filter_from_str_by_name [of "level_as_str l" "from_level l"]
    by (simp add: level_as_str_not_number eq_ignore_display level_as_str_lower)
  show "level_from_str (level_as_str l) = Inr l"
    unfolding level_from_str_def filter_display_unfold eq_ignore_display level_as_str_lower
    by (cases l) (simp_all add: level_as_str_not_number from_level_def)
qed

text \<open>
  The four comparisons of the crate agree: comparing a level with a filter, in either
  direction, is comparing the filter made from the level with the filter, and embedding a level
  as a filter keeps the order of levels.
\<close>

theorem mixed_comparisons_agree:
  "level_cmp_filter l f = cmp (from_level l) f \<and>
   filter_cmp_level f l = cmp f (from_level l) \<and>
   (level_le_filter l f \<longleftrightarrow> from_level l \<le> f) \<and>
   (level_lt_filter l f \<longleftrightarrow> from_level l < f) \<and>
   (filter_eq_level f l \<longleftrightarrow> f = from_level l) \<and>
   cmp (from_level l) (from_level k) = cmp l k"
proof -
  have flip: "cmp (filter_as_usize b) (filter_as_usize a) = cmp a b" for a b
    by (simp add: cmp_def less_level_filter_def eq_commute)
  have "cmp (from_level l) (from_level k) = cmp l k"
    by (simp add: cmp_def from_level_def less_level_filter_def less_level_def)
  then show ?thesis
    using flip [of f "from_level l"] flip [of "from_level l" f]
    by (simp add: level_cmp_filter_def filter_cmp_level_def level_le_filter_from_level
        level_lt_filter_def filter_eq_level_def from_level_def less_level_filter_def
        filter_as_usize_inject [symmetric] del: filter_as_usize_inject)
qed

text \<open>
  The global maximum level survives its encoding: the value \<open>set_max\<close> stores is one that
  \<open>current\<close> decodes, to the same filter, so the unreachable branch is not reached.
\<close>

theorem current_max_set_max: "current_max (set_max f) = Some f"
  by (rule current_max_encoding)

text \<open>
  Marking a kind as a hint keeps what it was: \<open>hint\<close> only adds its own bit.
\<close>

theorem kind_hint_keeps:
  "kind_is_hint (kind_hint k) \<and>
   kind_is_span (kind_hint k) = kind_is_span k \<and>
   kind_is_event (kind_hint k) = kind_is_event k"
  by (simp add: kind_is_bits kind_hint_def HINT_BIT_def bit_simps)

text \<open>A debug build never equates more metadata than a release build.\<close>

lemma metadata_eq_profiles:
  "metadata_eq True a b \<Longrightarrow> metadata_eq False a b"
  by (simp add: metadata_eq_def)

lemma metadata_eq_unique_callsite:
  "(meta_callsite a = meta_callsite b \<Longrightarrow> a = b) \<Longrightarrow> metadata_eq True a b = metadata_eq False a b"
  by (auto simp: metadata_eq_def field_set_eq_def)

end
