(* ===== verification/Subscriber.thy ===== *)
theory Subscriber
  imports Metadata
begin

text \<open>
  The subscriber trait and interest: \<open>tracing-core/src/subscriber.rs\<close>.

  \<open>Interest\<close> has three values, ordered as declared. A subscriber is the record of the answers the
  core asks of it; the trait's default methods are \<open>default_register_callsite\<close> and
  \<open>default_max_level_hint\<close>, and \<open>no_subscriber\<close> is \<open>NoSubscriber\<close>.
\<close>

datatype interest = Never | Sometimes | Always

fun interest_as_nat :: "interest \<Rightarrow> nat" where
  "interest_as_nat Never = 0"
| "interest_as_nat Sometimes = 1"
| "interest_as_nat Always = 2"

lemma interest_as_nat_inject [simp]: "interest_as_nat a = interest_as_nat b \<longleftrightarrow> a = b"
  by (cases a; cases b) auto

instantiation interest :: linorder
begin

definition less_interest :: "interest \<Rightarrow> interest \<Rightarrow> bool" where
  "less_interest a b \<longleftrightarrow> interest_as_nat a < interest_as_nat b"

definition less_eq_interest :: "interest \<Rightarrow> interest \<Rightarrow> bool" where
  "less_eq_interest a b \<longleftrightarrow> interest_as_nat a \<le> interest_as_nat b"

instance
  by standard (auto simp: less_interest_def less_eq_interest_def)

end

definition interest_and :: "interest \<Rightarrow> interest \<Rightarrow> interest" where
  "interest_and a b = (if a = b then a else Sometimes)"

lemma interest_and_simps [simp]:
  "interest_and a a = a"
  "interest_and Sometimes b = Sometimes"
  "interest_and a Sometimes = Sometimes"
  by (auto simp: interest_and_def)

lemma interest_and_commute: "interest_and a b = interest_and b a"
  by (simp add: interest_and_def)

lemma interest_and_assoc: "interest_and (interest_and a b) c = interest_and a (interest_and b c)"
  by (cases a; cases b; cases c) (auto simp: interest_and_def)

lemma interest_and_eq_iff:
  "c \<noteq> Sometimes \<Longrightarrow> interest_and a b = c \<longleftrightarrow> a = c \<and> b = c"
  by (auto simp: interest_and_def)

record subscriber =
  sub_register_callsite :: "metadata \<Rightarrow> interest"
  sub_enabled :: "metadata \<Rightarrow> bool"
  sub_max_level_hint :: "level_filter option"

definition default_register_callsite :: "(metadata \<Rightarrow> bool) \<Rightarrow> metadata \<Rightarrow> interest" where
  "default_register_callsite enabled m = (if enabled m then Always else Never)"

definition default_max_level_hint :: "level_filter option" where
  "default_max_level_hint = None"

definition no_subscriber :: subscriber where
  "no_subscriber =
     \<lparr>sub_register_callsite = (\<lambda>_. Never),
      sub_enabled = (\<lambda>_. False),
      sub_max_level_hint = default_max_level_hint\<rparr>"

end
