(* ===== verification/Dispatcher.thy ===== *)
theory Dispatcher
  imports Subscriber
begin

text \<open>
  Default dispatchers: \<open>tracing-core/src/dispatcher.rs\<close> (the \<open>std\<close> configuration).

  \<open>disp_state\<close> holds the process-wide statics (\<open>EXISTS\<close>, \<open>GLOBAL_INIT\<close>, \<open>SCOPED_COUNT\<close>,
  \<open>GLOBAL_DISPATCH\<close>) and the thread-local \<open>CURRENT_STATE\<close> of every thread. A subscriber behind an
  \<open>Arc\<close> is an entry of \<open>ds_arcs\<close>, present while it is alive; a \<open>Kind::Global\<close> dispatch holds a
  subscriber that is never dropped. Closures passed to \<open>get_default\<close> are state transformers, so
  what they do to the state while the guard is held is visible.

  \<open>DefaultGuard\<close>s are values returned by \<open>set_default\<close>; the step relation \<open>guard_step\<close> gives every
  thread a stack of the guards it holds and lets it drop the innermost one, as scoped guards do.
\<close>

type_synonym thread = nat
type_synonym sub_id = nat

datatype 'a sub_kind = Global subscriber | Scoped 'a

type_synonym dispatch = "sub_id sub_kind"

datatype init_state = UNINITIALIZED | INITIALIZING | INITIALIZED

record tls =
  tls_default :: "dispatch option"
  tls_can_enter :: bool
  tls_alive :: bool

record disp_state =
  ds_exists :: bool
  ds_global_init :: init_state
  ds_scoped_count :: u64
  ds_global :: dispatch
  ds_tls :: "thread \<Rightarrow> tls"
  ds_arcs :: "sub_id \<Rightarrow> subscriber option"

definition NONE :: dispatch where
  "NONE = Global no_subscriber"

definition tls_init :: tls where
  "tls_init = \<lparr>tls_default = None, tls_can_enter = True, tls_alive = True\<rparr>"

definition disp_init :: "(sub_id \<Rightarrow> subscriber option) \<Rightarrow> disp_state" where
  "disp_init arcs =
     \<lparr>ds_exists = False, ds_global_init = UNINITIALIZED, ds_scoped_count = 0, ds_global = NONE,
      ds_tls = (\<lambda>_. tls_init), ds_arcs = arcs\<rparr>"

definition upd_tls :: "thread \<Rightarrow> (tls \<Rightarrow> tls) \<Rightarrow> disp_state \<Rightarrow> disp_state" where
  "upd_tls t g s = s\<lparr>ds_tls := (ds_tls s)(t := g (ds_tls s t))\<rparr>"

text \<open>\<open>Dispatch::subscriber\<close>; \<open>None\<close> would be a scoped subscriber whose \<open>Arc\<close> is gone.\<close>

definition dispatch_subscriber :: "disp_state \<Rightarrow> dispatch \<Rightarrow> subscriber option" where
  "dispatch_subscriber s d = (case d of Global sub \<Rightarrow> Some sub | Scoped i \<Rightarrow> ds_arcs s i)"

text \<open>\<open>Dispatch::enabled\<close>.\<close>

definition dispatch_enabled :: "disp_state \<Rightarrow> dispatch \<Rightarrow> metadata \<Rightarrow> bool" where
  "dispatch_enabled s d m = (case dispatch_subscriber s d of Some sub \<Rightarrow> sub_enabled sub m | None \<Rightarrow> False)"

subsection \<open>The global default\<close>

datatype set_global_default_error = SetGlobalDefaultError

text \<open>
  \<open>set_global_default\<close>: the compare-and-exchange lets one caller through; a scoped dispatch is
  leaked (\<open>Arc::into_raw\<close>), which makes it a global one.
\<close>

definition set_global_default ::
  "dispatch \<Rightarrow> disp_state \<Rightarrow> (set_global_default_error + unit) \<times> disp_state" where
  "set_global_default d s =
     (if ds_global_init s = UNINITIALIZED then
        (let sub = (case dispatch_subscriber s d of Some sub \<Rightarrow> sub | None \<Rightarrow> no_subscriber) in
         (Inr (), s\<lparr>ds_global := Global sub, ds_global_init := INITIALIZED, ds_exists := True\<rparr>))
      else (Inl SetGlobalDefaultError, s))"

definition has_been_set :: "disp_state \<Rightarrow> bool" where
  "has_been_set s = ds_exists s"

definition get_global :: "disp_state \<Rightarrow> dispatch" where
  "get_global s = (if ds_global_init s \<noteq> INITIALIZED then NONE else ds_global s)"

subsection \<open>Scoped defaults\<close>

text \<open>\<open>State::enter\<close> and \<open>Drop for Entered\<close>; \<open>State::set_default\<close> and \<open>Drop for DefaultGuard\<close>.\<close>

definition state_enter :: "thread \<Rightarrow> disp_state \<Rightarrow> bool \<times> disp_state" where
  "state_enter t s =
     (tls_can_enter (ds_tls s t), upd_tls t (\<lambda>c. c\<lparr>tls_can_enter := False\<rparr>) s)"

definition entered_drop :: "thread \<Rightarrow> disp_state \<Rightarrow> disp_state" where
  "entered_drop t s = upd_tls t (\<lambda>c. c\<lparr>tls_can_enter := True\<rparr>) s"

definition entered_current :: "thread \<Rightarrow> disp_state \<Rightarrow> dispatch" where
  "entered_current t s =
     (case tls_default (ds_tls s t) of Some d \<Rightarrow> d | None \<Rightarrow> get_global s)"

datatype default_guard = DefaultGuard (guard_prior: "dispatch option")

definition set_default :: "thread \<Rightarrow> dispatch \<Rightarrow> disp_state \<Rightarrow> default_guard \<times> disp_state" where
  "set_default t d s =
     (let prior = (if tls_alive (ds_tls s t) then tls_default (ds_tls s t) else None);
          s1 = (if tls_alive (ds_tls s t)
                then upd_tls t (\<lambda>c. c\<lparr>tls_can_enter := True, tls_default := Some d\<rparr>) s else s)
      in (DefaultGuard prior, s1\<lparr>ds_exists := True, ds_scoped_count := ds_scoped_count s1 + 1\<rparr>))"

definition guard_drop :: "thread \<Rightarrow> default_guard \<Rightarrow> disp_state \<Rightarrow> disp_state" where
  "guard_drop t g s =
     (let s1 = (if tls_alive (ds_tls s t)
                then upd_tls t (\<lambda>c. c\<lparr>tls_default := guard_prior g\<rparr>) s else s)
      in s1\<lparr>ds_scoped_count := ds_scoped_count s1 - 1\<rparr>)"

definition with_default ::
  "thread \<Rightarrow> dispatch \<Rightarrow> (disp_state \<Rightarrow> 'a \<times> disp_state) \<Rightarrow> disp_state \<Rightarrow> 'a \<times> disp_state" where
  "with_default t d f s =
     (let (g, s1) = set_default t d s;
          (r, s2) = f s1
      in (r, guard_drop t g s2))"

definition get_default ::
  "thread \<Rightarrow> (dispatch \<Rightarrow> disp_state \<Rightarrow> 'a \<times> disp_state) \<Rightarrow> disp_state \<Rightarrow> 'a \<times> disp_state" where
  "get_default t f s =
     (if ds_scoped_count s = 0 then f (get_global s) s
      else if tls_alive (ds_tls s t) then
        (let (entered, s1) = state_enter t s in
         if entered then
           (let (r, s2) = f (entered_current t s1) s1 in (r, entered_drop t s2))
         else f NONE s1)
      else f NONE s)"

definition get_current ::
  "thread \<Rightarrow> (dispatch \<Rightarrow> disp_state \<Rightarrow> 'a \<times> disp_state) \<Rightarrow> disp_state \<Rightarrow> 'a option \<times> disp_state" where
  "get_current t f s =
     (if ds_scoped_count s = 0 then (let (r, s1) = f (get_global s) s in (Some r, s1))
      else if tls_alive (ds_tls s t) then
        (let (entered, s1) = state_enter t s in
         if entered then
           (let (r, s2) = f (entered_current t s1) s1 in (Some r, entered_drop t s2))
         else (None, s1))
      else (None, s))"

text \<open>The dispatch a thread would be given: \<open>get_default(Dispatch::clone)\<close>.\<close>

definition dispatch_default :: "thread \<Rightarrow> disp_state \<Rightarrow> dispatch" where
  "dispatch_default t s = fst (get_default t (\<lambda>d s. (d, s)) s)"

subsection \<open>Weak dispatches\<close>

type_synonym registrar = "sub_id sub_kind"

definition kind_downgrade :: "dispatch \<Rightarrow> registrar" where
  "kind_downgrade d = (case d of Global sub \<Rightarrow> Global sub | Scoped i \<Rightarrow> Scoped i)"

definition registrar_upgrade :: "disp_state \<Rightarrow> registrar \<Rightarrow> dispatch option" where
  "registrar_upgrade s r =
     (case r of
        Global sub \<Rightarrow> Some (Global sub)
      | Scoped i \<Rightarrow> (if ds_arcs s i = None then None else Some (Scoped i)))"

lemmas disp_defs = set_default_def guard_drop_def upd_tls_def get_default_def state_enter_def
  entered_drop_def entered_current_def

subsection \<open>Facts about one operation\<close>

lemma upd_tls_simps [simp]:
  "ds_exists (upd_tls t g s) = ds_exists s"
  "ds_global_init (upd_tls t g s) = ds_global_init s"
  "ds_scoped_count (upd_tls t g s) = ds_scoped_count s"
  "ds_global (upd_tls t g s) = ds_global s"
  "ds_arcs (upd_tls t g s) = ds_arcs s"
  "ds_tls (upd_tls t g s) u = (if u = t then g (ds_tls s t) else ds_tls s u)"
  by (simp_all add: upd_tls_def)

lemma get_global_upd_tls [simp]: "get_global (upd_tls t g s) = get_global s"
  by (simp add: get_global_def)

lemma dispatch_default_eq:
  "dispatch_default t s =
     (if ds_scoped_count s = 0 then get_global s
      else if tls_alive (ds_tls s t) \<and> tls_can_enter (ds_tls s t) then entered_current t s
      else NONE)"
  by (simp add: dispatch_default_def get_default_def state_enter_def entered_current_def
      split: option.split)

text \<open>
  A global default is set at most once: the first call succeeds and its dispatch is the one
  every later \<open>get_global\<close> returns, and every other call fails and changes nothing.
\<close>

theorem set_global_default_once:
  "ds_global_init s = UNINITIALIZED \<Longrightarrow> dispatch_subscriber s d = Some sub \<Longrightarrow>
     (let (r, s1) = set_global_default d s in
        r = Inr () \<and> get_global s1 = Global sub \<and> has_been_set s1 \<and>
        (\<forall>d2. set_global_default d2 s1 = (Inl SetGlobalDefaultError, s1)))"
  by (simp add: set_global_default_def get_global_def has_been_set_def)

theorem set_global_default_once_witness:
  "set_global_default NONE (snd (set_global_default NONE (disp_init Map.empty))) =
     (Inl SetGlobalDefaultError, snd (set_global_default NONE (disp_init Map.empty)))"
  using set_global_default_once [of "disp_init Map.empty" NONE no_subscriber]
  by (simp add: disp_init_def dispatch_subscriber_def NONE_def split_beta Let_def)

text \<open>
  The dispatcher is not re-entered: while the closure given to \<open>get_default\<close> runs with a
  scoped default in force, a nested \<open>get_default\<close> on the same thread is given the dispatcher
  \<open>NONE\<close>, so a subscriber that emits events cannot loop; when the closure returns, the thread
  may enter again.
\<close>

theorem get_default_no_reentry:
  assumes "ds_scoped_count s \<noteq> 0" and "tls_alive (ds_tls s t)" and "tls_can_enter (ds_tls s t)"
  shows "get_default t (\<lambda>d s1. ((d, dispatch_default t s1), s1)) s = ((entered_current t s, NONE), s)"
proof -
  have "ds_tls s t = (ds_tls s t)\<lparr>tls_can_enter := True\<rparr>"
    using assms(3) by (cases "ds_tls s t") simp
  then have "entered_drop t (upd_tls t (\<lambda>c. c\<lparr>tls_can_enter := False\<rparr>) s) = s"
    by (simp add: entered_drop_def upd_tls_def)
  with assms show ?thesis
    by (simp add: get_default_def state_enter_def dispatch_default_eq entered_current_def
        split: option.split)
qed

theorem get_default_no_reentry_witness:
  "get_default 0 (\<lambda>d s1. ((d, dispatch_default 0 s1), s1))
       (snd (set_default 0 (Scoped 5) (disp_init Map.empty))) =
     ((Scoped 5, NONE), snd (set_default 0 (Scoped 5) (disp_init Map.empty)))"
  by (subst get_default_no_reentry)
    (simp_all add: set_default_def disp_init_def tls_init_def entered_current_def Let_def)

subsection \<open>Scoped guards\<close>

text \<open>
  Every thread holds a stack of guards. \<open>guard_step\<close> sets a new default or drops the innermost
  guard of one thread; the counter is a \<open>usize\<close>, so a step that would make it wrap is not taken.
\<close>

record guarded =
  g_state :: disp_state
  g_guards :: "thread \<Rightarrow> default_guard list"

inductive guard_step :: "guarded \<Rightarrow> guarded \<Rightarrow> bool" where
  gs_set: "set_default t d (g_state g) = (dg, s') \<Longrightarrow>
     unat (ds_scoped_count (g_state g)) + 1 < 2 ^ 64 \<Longrightarrow>
     guard_step g \<lparr>g_state = s', g_guards = (g_guards g)(t := dg # g_guards g t)\<rparr>"
| gs_drop: "g_guards g t = dg # rest \<Longrightarrow>
     guard_step g \<lparr>g_state = guard_drop t dg (g_state g), g_guards = (g_guards g)(t := rest)\<rparr>"
| gs_global: "set_global_default d (g_state g) = (r, s') \<Longrightarrow>
     guard_step g (g\<lparr>g_state := s'\<rparr>)"

inductive guard_reachable :: "guarded \<Rightarrow> bool" where
  gr_init: "guard_reachable \<lparr>g_state = disp_init arcs, g_guards = (\<lambda>_. [])\<rparr>"
| gr_step: "guard_reachable g \<Longrightarrow> guard_step g g' \<Longrightarrow> guard_reachable g'"

text \<open>The defaults a thread's guards will restore, from the innermost one out.\<close>

fun prior_chain :: "dispatch option \<Rightarrow> default_guard list \<Rightarrow> bool" where
  "prior_chain cur [] = (cur = None)"
| "prior_chain cur (g # gs) = (cur \<noteq> None \<and> prior_chain (guard_prior g) gs)"

definition holders :: "guarded \<Rightarrow> thread set" where
  "holders g = {t. g_guards g t \<noteq> []}"

definition guard_inv :: "guarded \<Rightarrow> bool" where
  "guard_inv g \<longleftrightarrow>
     finite (holders g) \<and>
     unat (ds_scoped_count (g_state g)) = (\<Sum>t \<in> holders g. length (g_guards g t)) \<and>
     (\<forall>t. tls_alive (ds_tls (g_state g) t) \<and>
          prior_chain (tls_default (ds_tls (g_state g) t)) (g_guards g t))"

lemma holders_upd:
  "holders (\<lparr>g_state = s', g_guards = (g_guards g)(t := gs)\<rparr>) =
     (if gs = [] then holders g - {t} else insert t (holders g))"
  by (auto simp: holders_def)

lemma guard_total_upd:
  assumes "finite (holders g)"
  shows "(\<Sum>u \<in> holders (\<lparr>g_state = s', g_guards = (g_guards g)(t := gs)\<rparr>). length (((g_guards g)(t := gs)) u)) +
           length (g_guards g t) =
         (\<Sum>u \<in> holders g. length (g_guards g u)) + length gs"
proof -
  let ?H = "insert t (holders g)"
  have fin: "finite ?H" using assms by simp
  have total: "(\<Sum>u \<in> holders h. length (g_guards h u)) = (\<Sum>u \<in> ?H. length (g_guards h u))"
    if "holders h \<subseteq> ?H" for h :: guarded
    using that fin by (intro sum.mono_neutral_left) (auto simp: holders_def)
  have "(\<Sum>u \<in> ?H. length (((g_guards g)(t := gs)) u)) + length (g_guards g t) =
        (\<Sum>u \<in> ?H. length (g_guards g u)) + length gs"
    using fin by (auto simp: sum.remove [of ?H t] intro!: sum.cong)
  moreover have "holders (\<lparr>g_state = s', g_guards = (g_guards g)(t := gs)\<rparr>) \<subseteq> ?H"
    by (auto simp: holders_upd)
  ultimately show ?thesis
    using total [OF subset_insertI] total [of "\<lparr>g_state = s', g_guards = (g_guards g)(t := gs)\<rparr>"] by simp
qed

lemma unat_Suc_room: "unat (c :: u64) + 1 < 2 ^ 64 \<Longrightarrow> unat (c + 1) = unat c + 1"
  by (simp add: unat_word_ariths)

lemma guard_inv_set:
  assumes inv: "guard_inv g" and eq: "set_default t d (g_state g) = (dg, s')"
    and room: "unat (ds_scoped_count (g_state g)) + 1 < 2 ^ 64"
  shows "guard_inv \<lparr>g_state = s', g_guards = (g_guards g)(t := dg # g_guards g t)\<rparr>"
proof -
  have alive: "tls_alive (ds_tls (g_state g) t)" using inv by (simp add: guard_inv_def)
  with eq have s': "ds_scoped_count s' = ds_scoped_count (g_state g) + 1"
    "\<And>u. tls_alive (ds_tls s' u) = tls_alive (ds_tls (g_state g) u)"
    "\<And>u. tls_default (ds_tls s' u) = (if u = t then Some d else tls_default (ds_tls (g_state g) u))"
    and dg: "guard_prior dg = tls_default (ds_tls (g_state g) t)"
    by (auto simp: set_default_def Let_def split: if_splits)
  with unat_Suc_room [OF room] dg inv guard_total_upd [where g = g and s' = s' and t = t and gs = "dg # g_guards g t"] show ?thesis
    by (auto simp: guard_inv_def holders_upd)
qed

lemma guard_inv_drop:
  assumes inv: "guard_inv g" and gs: "g_guards g t = dg # rest"
  shows "guard_inv \<lparr>g_state = guard_drop t dg (g_state g), g_guards = (g_guards g)(t := rest)\<rparr>"
proof -
  let ?s' = "guard_drop t dg (g_state g)"
  have alive: "tls_alive (ds_tls (g_state g) t)" using inv by (simp add: guard_inv_def)
  then have s': "ds_scoped_count ?s' = ds_scoped_count (g_state g) - 1"
    "\<And>u. tls_alive (ds_tls ?s' u) = tls_alive (ds_tls (g_state g) u)"
    "\<And>u. tls_default (ds_tls ?s' u) =
       (if u = t then guard_prior dg else tls_default (ds_tls (g_state g) u))"
    by (auto simp: guard_drop_def Let_def split: if_splits)
  have total: "(\<Sum>u \<in> holders (\<lparr>g_state = ?s', g_guards = (g_guards g)(t := rest)\<rparr>). length (((g_guards g)(t := rest)) u)) + 1
      = unat (ds_scoped_count (g_state g))"
    using inv gs guard_total_upd [where g = g and s' = ?s' and t = t and gs = rest] by (simp add: guard_inv_def)
  then have "ds_scoped_count (g_state g) \<noteq> 0" by auto
  then have "unat (ds_scoped_count (g_state g) - 1) = unat (ds_scoped_count (g_state g)) - 1"
    by (simp add: unat_minus_one)
  moreover have "prior_chain (guard_prior dg) rest"
    using inv gs unfolding guard_inv_def by (metis prior_chain.simps(2))
  ultimately show ?thesis
    using s' total inv by (auto simp: guard_inv_def holders_upd)
qed

lemma guard_inv_global:
  assumes "guard_inv g" and "set_global_default d (g_state g) = (r, s')"
  shows "guard_inv (g\<lparr>g_state := s'\<rparr>)"
proof -
  have "ds_tls s' = ds_tls (g_state g)" and "ds_scoped_count s' = ds_scoped_count (g_state g)"
    using assms(2) by (auto simp: set_global_default_def Let_def split: if_splits)
  with assms(1) show ?thesis by (simp add: guard_inv_def holders_def)
qed

lemma guard_reachable_inv: "guard_reachable g \<Longrightarrow> guard_inv g"
proof (induction rule: guard_reachable.induct)
  case (gr_init arcs)
  show ?case by (simp add: guard_inv_def holders_def disp_init_def tls_init_def)
next
  case (gr_step g g')
  from gr_step.hyps(2) gr_step.IH show ?case
    by (cases rule: guard_step.cases) (auto intro: guard_inv_set guard_inv_drop guard_inv_global)
qed

text \<open>
  The fast path of \<open>get_default\<close> is sound: in every state reached by setting scoped defaults
  and dropping them innermost first, on any number of threads, a zero \<open>SCOPED_COUNT\<close> means that
  no thread has a scoped default, so skipping the thread-local lookup gives the same dispatcher.
\<close>

theorem scoped_count_fast_path:
  assumes "guard_reachable g" and "tls_can_enter (ds_tls (g_state g) t)"
  shows "dispatch_default t (g_state g) = entered_current t (g_state g)"
proof (cases "ds_scoped_count (g_state g) = 0")
  case True
  from guard_reachable_inv [OF assms(1)] have inv: "guard_inv g" .
  with True have "holders g = {}"
    by (auto simp: guard_inv_def holders_def)
  then have "g_guards g t = []" by (auto simp: holders_def)
  with inv have "tls_default (ds_tls (g_state g) t) = None"
    unfolding guard_inv_def by (metis prior_chain.simps(1))
  with True show ?thesis by (simp add: dispatch_default_eq entered_current_def)
next
  case False
  from guard_reachable_inv [OF assms(1)] have "tls_alive (ds_tls (g_state g) t)"
    by (simp add: guard_inv_def)
  with False assms(2) show ?thesis by (simp add: dispatch_default_eq)
qed

theorem scoped_count_fast_path_witness:
  "dispatch_default 3 (disp_init Map.empty) = entered_current 3 (disp_init Map.empty)"
  using scoped_count_fast_path [OF gr_init, of Map.empty 3] by (simp add: disp_init_def tls_init_def)

text \<open>
  A scoped default covers exactly its scope: inside \<open>with_default\<close> the thread is dispatched to
  the given dispatcher, and afterwards the thread's default is what it was before, as long as the
  closure keeps the thread's storage alive.
\<close>

theorem with_default_restores:
  assumes alive: "tls_alive (ds_tls s t)" and room: "unat (ds_scoped_count s) + 1 < 2 ^ 64"
    and run: "f (snd (set_default t d s)) = (r, s2)" and keep: "tls_alive (ds_tls s2 t)"
  shows "dispatch_default t (snd (set_default t d s)) = d \<and>
         tls_default (ds_tls (snd (with_default t d f s)) t) = tls_default (ds_tls s t) \<and>
         fst (with_default t d f s) = r"
proof -
  have "ds_scoped_count s + 1 \<noteq> 0"
    using unat_Suc_room [OF room] by auto
  with alive have "dispatch_default t (snd (set_default t d s)) = d"
    by (simp add: dispatch_default_eq set_default_def entered_current_def Let_def)
  with alive run keep show ?thesis
    by (auto simp: with_default_def set_default_def guard_drop_def Let_def split_beta)
qed

theorem with_default_restores_witness:
  "dispatch_default 0 (snd (set_default 0 (Scoped 5) (disp_init Map.empty))) = Scoped 5 \<and>
   tls_default (ds_tls (snd (with_default 0 (Scoped 5) (\<lambda>s. ((), s)) (disp_init Map.empty))) 0) = None"
  using with_default_restores [of "disp_init Map.empty" 0 "\<lambda>s. ((), s)" "Scoped 5" "()"
      "snd (set_default 0 (Scoped 5) (disp_init Map.empty))"]
  by (simp add: disp_init_def tls_init_def set_default_def Let_def)

text \<open>
  The order of the drops matters. Two guards of one thread dropped outermost first leave a
  scoped default behind that \<open>SCOPED_COUNT\<close> no longer counts: the thread's default names the first
  dispatcher, and \<open>get_default\<close> hands out the global one.
\<close>

theorem guards_out_of_order:
  "let (g1, s1) = set_default 0 (Scoped 1) (disp_init arcs);
       (g2, s2) = set_default 0 (Scoped 2) s1;
       s4 = guard_drop 0 g2 (guard_drop 0 g1 s2)
   in ds_scoped_count s4 = 0 \<and> tls_default (ds_tls s4 0) = Some (Scoped 1) \<and>
      dispatch_default 0 s4 = NONE"
  by (simp add: set_default_def guard_drop_def disp_init_def tls_init_def dispatch_default_eq
      get_global_def Let_def)

text \<open>
  A guard dropped on another thread resets the wrong thread: the thread that set the default
  keeps it in its storage while the counter says that there is none.
\<close>

theorem guard_dropped_elsewhere:
  "let (g, s1) = set_default 0 (Scoped 1) (disp_init arcs);
       s2 = guard_drop 1 g s1
   in ds_scoped_count s2 = 0 \<and> tls_default (ds_tls s2 0) = Some (Scoped 1) \<and>
      dispatch_default 0 s2 = NONE"
  by (simp add: set_default_def guard_drop_def disp_init_def tls_init_def dispatch_default_eq
      get_global_def Let_def)

end
