(* ===== verification/Callsite.thy ===== *)
theory Callsite
  imports Dispatcher
begin

text \<open>
  The callsite registry and the interest cache: \<open>tracing-core/src/callsite.rs\<close> (the \<open>std\<close>
  configuration) and \<open>Dispatch::new\<close> of \<open>dispatcher.rs\<close>, which registers a dispatcher there.

  Default callsites form an intrusive linked list: the store \<open>cs_heap\<close> maps addresses to callsites
  and \<open>cs_head\<close> is \<open>CALLSITES.list_head\<close>. The traversal follows \<open>next\<close> pointers and does not
  return on a cyclic list, so it is a \<open>partial_function (option)\<close>; \<open>for_each_list\<close> shows that it
  returns, and visits each callsite once, on the lists the registry builds. Other implementations
  of \<open>Callsite\<close> are kept in \<open>cs_locked\<close>, and what they are told by \<open>set_interest\<close> in
  \<open>cs_dyn_interest\<close>.
\<close>

type_synonym addr = nat

record default_callsite =
  dc_interest :: u8
  dc_registration :: u8
  dc_meta :: metadata
  dc_next :: "addr option"

record cs_state =
  cs_heap :: "addr \<Rightarrow> default_callsite option"
  cs_head :: "addr option"
  cs_has_locked :: bool
  cs_locked :: "(addr \<times> metadata) list"
  cs_dyn_interest :: "addr \<Rightarrow> interest option"
  cs_max_level :: nat
  cs_has_just_one :: bool
  cs_dispatchers :: "registrar list"
  cs_disp :: disp_state

datatype callsite_ref = DefaultRef addr | DynRef addr metadata

definition UNREGISTERED :: u8 where "UNREGISTERED = 0"
definition REGISTERING :: u8 where "REGISTERING = 1"
definition REGISTERED :: u8 where "REGISTERED = 2"
definition INTEREST_NEVER :: u8 where "INTEREST_NEVER = 0"
definition INTEREST_SOMETIMES :: u8 where "INTEREST_SOMETIMES = 1"
definition INTEREST_ALWAYS :: u8 where "INTEREST_ALWAYS = 2"

lemmas callsite_consts = UNREGISTERED_def REGISTERING_def REGISTERED_def
  INTEREST_NEVER_def INTEREST_SOMETIMES_def INTEREST_ALWAYS_def

definition new_callsite :: "metadata \<Rightarrow> default_callsite" where
  "new_callsite m = \<lparr>dc_interest = 255, dc_registration = UNREGISTERED, dc_meta = m, dc_next = None\<rparr>"

definition upd_callsite :: "addr \<Rightarrow> (default_callsite \<Rightarrow> default_callsite) \<Rightarrow> cs_state \<Rightarrow> cs_state" where
  "upd_callsite a g s = s\<lparr>cs_heap := (cs_heap s)(a := map_option g (cs_heap s a))\<rparr>"

subsection \<open>Reading and writing one callsite\<close>

definition interest_repr :: "interest \<Rightarrow> u8" where
  "interest_repr i =
     (if i = Never then INTEREST_NEVER else if i = Always then INTEREST_ALWAYS else INTEREST_SOMETIMES)"

definition set_interest :: "callsite_ref \<Rightarrow> interest \<Rightarrow> cs_state \<Rightarrow> cs_state" where
  "set_interest c i s =
     (case c of
        DefaultRef a \<Rightarrow> upd_callsite a (\<lambda>d. d\<lparr>dc_interest := interest_repr i\<rparr>) s
      | DynRef a m \<Rightarrow> s\<lparr>cs_dyn_interest := (cs_dyn_interest s)(a := Some i)\<rparr>)"

definition callsite_meta :: "cs_state \<Rightarrow> callsite_ref \<Rightarrow> metadata option" where
  "callsite_meta s c =
     (case c of DefaultRef a \<Rightarrow> map_option dc_meta (cs_heap s a) | DynRef a m \<Rightarrow> Some m)"

subsection \<open>Dispatchers\<close>

datatype rebuilder = JustOne | Vec "registrar list"

definition dispatchers_rebuilder :: "cs_state \<Rightarrow> rebuilder" where
  "dispatchers_rebuilder s = (if cs_has_just_one s then JustOne else Vec (cs_dispatchers s))"

definition dispatchers_register ::
  "dispatch \<Rightarrow> cs_state \<Rightarrow> rebuilder \<times> cs_state" where
  "dispatchers_register d s =
     (let live = filter (\<lambda>r. registrar_upgrade (cs_disp s) r \<noteq> None) (cs_dispatchers s);
          ds = live @ [kind_downgrade d]
      in (Vec ds, s\<lparr>cs_dispatchers := ds, cs_has_just_one := (length ds \<le> 1)\<rparr>))"

text \<open>
  \<open>Rebuilder::for_each\<close>: the dispatches it visits. \<open>JustOne\<close> asks \<open>get_default\<close> on the calling
  thread; the closures of this module do not touch the dispatcher state.
\<close>

definition rebuilder_dispatches :: "thread \<Rightarrow> cs_state \<Rightarrow> rebuilder \<Rightarrow> dispatch list" where
  "rebuilder_dispatches t s r =
     (case r of
        JustOne \<Rightarrow> [dispatch_default t (cs_disp s)]
      | Vec ds \<Rightarrow> List.map_filter (registrar_upgrade (cs_disp s)) ds)"

definition dispatch_register_callsite :: "cs_state \<Rightarrow> metadata \<Rightarrow> dispatch \<Rightarrow> interest" where
  "dispatch_register_callsite s m d =
     (case dispatch_subscriber (cs_disp s) d of
        Some sub \<Rightarrow> sub_register_callsite sub m | None \<Rightarrow> Never)"

definition dispatch_max_level_hint :: "cs_state \<Rightarrow> dispatch \<Rightarrow> level_filter option" where
  "dispatch_max_level_hint s d =
     (case dispatch_subscriber (cs_disp s) d of
        Some sub \<Rightarrow> sub_max_level_hint sub | None \<Rightarrow> None)"

subsection \<open>Rebuilding the cache\<close>

fun combine_interest :: "interest option \<Rightarrow> interest list \<Rightarrow> interest option" where
  "combine_interest acc [] = acc"
| "combine_interest None (i # is) = combine_interest (Some i) is"
| "combine_interest (Some j) (i # is) = combine_interest (Some (interest_and j i)) is"

definition rebuilt_interest :: "thread \<Rightarrow> cs_state \<Rightarrow> rebuilder \<Rightarrow> metadata \<Rightarrow> interest" where
  "rebuilt_interest t s r m =
     (case combine_interest None (map (dispatch_register_callsite s m) (rebuilder_dispatches t s r)) of
        None \<Rightarrow> Never | Some i \<Rightarrow> i)"

definition rebuild_callsite_interest :: "thread \<Rightarrow> rebuilder \<Rightarrow> callsite_ref \<Rightarrow> cs_state \<Rightarrow> cs_state" where
  "rebuild_callsite_interest t r c s =
     (case callsite_meta s c of
        None \<Rightarrow> s
      | Some m \<Rightarrow> set_interest c (rebuilt_interest t s r m) s)"

fun max_hint :: "level_filter \<Rightarrow> level_filter option list \<Rightarrow> level_filter" where
  "max_hint acc [] = acc"
| "max_hint acc (h # hs) =
     (let level_hint = (case h of Some l \<Rightarrow> l | None \<Rightarrow> from_level TRACE)
      in max_hint (if level_hint > acc then level_hint else acc) hs)"

text \<open>\<open>Callsites::for_each\<close> over the linked list, then over the locked vector.\<close>

partial_function (option) for_each_default ::
  "(callsite_ref \<Rightarrow> cs_state \<Rightarrow> cs_state) \<Rightarrow> addr option \<Rightarrow> cs_state \<Rightarrow> cs_state option" where
  "for_each_default f p s =
     (case p of
        None \<Rightarrow> Some s
      | Some a \<Rightarrow>
          let s1 = f (DefaultRef a) s in
          (case cs_heap s1 a of
             None \<Rightarrow> None
           | Some d \<Rightarrow> for_each_default f (dc_next d) s1))"

definition for_each_callsite ::
  "(callsite_ref \<Rightarrow> cs_state \<Rightarrow> cs_state) \<Rightarrow> cs_state \<Rightarrow> cs_state option" where
  "for_each_callsite f s =
     map_option
       (\<lambda>s1. if cs_has_locked s1 then fold (\<lambda>(a, m). f (DynRef a m)) (cs_locked s1) s1 else s1)
       (for_each_default f (cs_head s) s)"

definition rebuild_interest :: "thread \<Rightarrow> rebuilder \<Rightarrow> cs_state \<Rightarrow> cs_state option" where
  "rebuild_interest t r s =
     (let max_level = max_hint OFF (map (dispatch_max_level_hint s) (rebuilder_dispatches t s r)) in
      map_option (\<lambda>s1. s1\<lparr>cs_max_level := set_max max_level\<rparr>)
        (for_each_callsite (rebuild_callsite_interest t r) s))"

definition rebuild_interest_cache :: "thread \<Rightarrow> cs_state \<Rightarrow> cs_state option" where
  "rebuild_interest_cache t s = rebuild_interest t (dispatchers_rebuilder s) s"

definition register_dispatch :: "thread \<Rightarrow> dispatch \<Rightarrow> cs_state \<Rightarrow> cs_state option" where
  "register_dispatch t d s = (let (r, s1) = dispatchers_register d s in rebuild_interest t r s1)"

text \<open>\<open>Dispatch::new\<close>: the subscriber is put behind a fresh \<open>Arc\<close> and registered.\<close>

definition dispatch_new :: "thread \<Rightarrow> sub_id \<Rightarrow> subscriber \<Rightarrow> cs_state \<Rightarrow> cs_state option" where
  "dispatch_new t i sub s =
     register_dispatch t (Scoped i)
       (s\<lparr>cs_disp := (cs_disp s)\<lparr>ds_arcs := (ds_arcs (cs_disp s))(i := Some sub)\<rparr>\<rparr>)"

subsection \<open>Registering callsites\<close>

text \<open>
  \<open>push_default\<close> without contention: the exchange succeeds at the first try. \<open>None\<close> is the panic
  of the assertion that the callsite is not already the head. (The contended loop is in
  \<open>Callsite_Push\<close>.)
\<close>

definition push_default :: "addr \<Rightarrow> cs_state \<Rightarrow> cs_state option" where
  "push_default a s =
     (let s1 = upd_callsite a (\<lambda>d. d\<lparr>dc_next := cs_head s\<rparr>) s in
      if cs_head s = Some a then None else Some (s1\<lparr>cs_head := Some a\<rparr>))"

definition push_dyn :: "addr \<Rightarrow> metadata \<Rightarrow> cs_state \<Rightarrow> cs_state" where
  "push_dyn a m s = s\<lparr>cs_has_locked := True, cs_locked := cs_locked s @ [(a, m)]\<rparr>"

definition decode_interest :: "u8 \<Rightarrow> interest" where
  "decode_interest w =
     (if w = INTEREST_NEVER then Never else if w = INTEREST_ALWAYS then Always else Sometimes)"

text \<open>\<open>DefaultCallsite::register\<close>; the outer \<open>None\<close> is a panic or a dangling reference.\<close>

definition callsite_register :: "thread \<Rightarrow> addr \<Rightarrow> cs_state \<Rightarrow> (interest \<times> cs_state) option" where
  "callsite_register t a s =
     (case cs_heap s a of
        None \<Rightarrow> None
      | Some d \<Rightarrow>
          if dc_registration d = UNREGISTERED then
            (let s1 = upd_callsite a (\<lambda>d. d\<lparr>dc_registration := REGISTERING\<rparr>) s in
             (case push_default a s1 of
                None \<Rightarrow> None
              | Some s2 \<Rightarrow>
                  (let s3 = rebuild_callsite_interest t (dispatchers_rebuilder s2) (DefaultRef a) s2;
                       s4 = upd_callsite a (\<lambda>d. d\<lparr>dc_registration := REGISTERED\<rparr>) s3
                   in map_option (\<lambda>d4. (decode_interest (dc_interest d4), s4)) (cs_heap s4 a))))
          else if dc_registration d = REGISTERED then Some (decode_interest (dc_interest d), s)
          else Some (Sometimes, s))"

definition callsite_interest :: "thread \<Rightarrow> addr \<Rightarrow> cs_state \<Rightarrow> (interest \<times> cs_state) option" where
  "callsite_interest t a s =
     (case cs_heap s a of
        None \<Rightarrow> None
      | Some d \<Rightarrow>
          if dc_interest d = INTEREST_NEVER then Some (Never, s)
          else if dc_interest d = INTEREST_SOMETIMES then Some (Sometimes, s)
          else if dc_interest d = INTEREST_ALWAYS then Some (Always, s)
          else callsite_register t a s)"

text \<open>The free function \<open>callsite::register\<close>.\<close>

definition register :: "thread \<Rightarrow> callsite_ref \<Rightarrow> cs_state \<Rightarrow> cs_state option" where
  "register t c s =
     (case c of
        DefaultRef a \<Rightarrow>
          map_option (\<lambda>s1. rebuild_callsite_interest t (dispatchers_rebuilder s1) c s1) (push_default a s)
      | DynRef a m \<Rightarrow>
          (let s1 = push_dyn a m s in
           Some (rebuild_callsite_interest t (dispatchers_rebuilder s1) c s1)))"

subsection \<open>Combining interests and hints\<close>

lemma combine_interest_Some:
  "combine_interest (Some j) js = Some (if \<forall>i \<in> set js. i = j then j else Sometimes)"
proof (induction js arbitrary: j)
  case (Cons i js)
  show ?case by (cases "i = j") (auto simp: Cons.IH interest_and_def)
qed simp

lemma combine_interest_None:
  "combine_interest None ks =
     (case ks of [] \<Rightarrow> None | j # js \<Rightarrow> Some (if \<forall>i \<in> set js. i = j then j else Sometimes))"
  by (cases ks) (simp_all add: combine_interest_Some)

lemma max_hint_fold:
  "max_hint acc hs = fold max (map (\<lambda>h. case h of Some l \<Rightarrow> l | None \<Rightarrow> from_level TRACE) hs) acc"
proof (induction acc hs rule: max_hint.induct)
  case (2 acc h hs)
  have "(if l > acc then l else acc) = max l acc" for l :: level_filter
    by (auto simp: max_def)
  with 2 show ?case by (simp add: Let_def)
qed simp

lemma fold_max_ge:
  "acc \<le> fold max xs (acc :: 'a::linorder) \<and> (\<forall>x \<in> set xs. x \<le> fold max xs acc)"
proof (induction xs arbitrary: acc)
  case (Cons x xs)
  from Cons.IH [of "max x acc"] show ?case by auto
qed simp

lemma max_hint_ge: "h \<in> set hs \<Longrightarrow> (case h of Some l \<Rightarrow> l | None \<Rightarrow> from_level TRACE) \<le> max_hint acc hs"
  using fold_max_ge [of acc "map (\<lambda>h. case h of Some l \<Rightarrow> l | None \<Rightarrow> from_level TRACE) hs"]
  by (auto simp: max_hint_fold)

text \<open>
  The cached interest of a callsite is the agreement of all live dispatchers: \<open>never\<close> exactly
  when every one answers never (or there is none), \<open>always\<close> exactly when there is one and every one
  answers always, and \<open>sometimes\<close> whenever they disagree or one of them says so.
\<close>

theorem rebuilt_interest_spec:
  "rebuilt_interest t s r m =
     (let answers = set (map (dispatch_register_callsite s m) (rebuilder_dispatches t s r)) in
      if answers \<subseteq> {Never} then Never else if answers = {Always} then Always else Sometimes)"
proof (cases "rebuilder_dispatches t s r")
  case Nil
  then show ?thesis by (simp add: rebuilt_interest_def)
next
  case (Cons d ds)
  let ?f = "dispatch_register_callsite s m"
  have eq: "rebuilt_interest t s r m = (if \<forall>e \<in> set ds. ?f e = ?f d then ?f d else Sometimes)"
    using Cons by (simp add: rebuilt_interest_def combine_interest_None)
  show ?thesis
  proof (cases "\<forall>e \<in> set ds. ?f e = ?f d")
    case True
    then have "set (map ?f (rebuilder_dispatches t s r)) = {?f d}" using Cons by auto
    with eq True show ?thesis by (cases "?f d") (simp_all add: Let_def del: set_map)
  next
    case False
    then obtain e where "e \<in> set ds" "?f e \<noteq> ?f d" by auto
    with eq False Cons show ?thesis by (auto simp: Let_def)
  qed
qed

subsection \<open>The linked list of callsites\<close>

fun linked :: "(addr \<Rightarrow> default_callsite option) \<Rightarrow> addr option \<Rightarrow> addr list \<Rightarrow> bool" where
  "linked h p [] = (p = None)"
| "linked h p (a # as) = (p = Some a \<and> (\<exists>d. h a = Some d \<and> linked h (dc_next d) as))"

lemma linked_cong:
  "(\<And>a. a \<in> set as \<Longrightarrow> map_option dc_next (h' a) = map_option dc_next (h a)) \<Longrightarrow>
     linked h' p as = linked h p as"
proof (induction as arbitrary: p)
  case (Cons a as)
  have "map_option dc_next (h' a) = map_option dc_next (h a)" by (rule Cons.prems) simp
  moreover have "linked h' q as = linked h q as" for q by (rule Cons.IH) (simp add: Cons.prems)
  ultimately show ?case by (cases "h' a"; cases "h a") auto
qed simp

text \<open>
  The contract of a closure passed to \<open>for_each\<close>: it leaves the \<open>next\<close> pointers alone. Under it the
  traversal of a list is a fold over its callsites, and it returns.
\<close>

locale callsite_visitor =
  fixes f :: "callsite_ref \<Rightarrow> cs_state \<Rightarrow> cs_state"
  assumes keeps_next: "map_option dc_next (cs_heap (f c s) a) = map_option dc_next (cs_heap s a)"
    and keeps_locked: "cs_has_locked (f c s) = cs_has_locked s" "cs_locked (f c s) = cs_locked s"
begin

lemma for_each_list:
  "linked (cs_heap s) p as \<Longrightarrow> for_each_default f p s = Some (fold (\<lambda>a. f (DefaultRef a)) as s)"
proof (induction as arbitrary: p s)
  case Nil
  then show ?case by (simp add: for_each_default.simps)
next
  case (Cons a as)
  then obtain d where p: "p = Some a" and d: "cs_heap s a = Some d"
    and rest: "linked (cs_heap s) (dc_next d) as" by auto
  let ?s1 = "f (DefaultRef a) s"
  from keeps_next [of "DefaultRef a" s a] d obtain d1
    where d1: "cs_heap ?s1 a = Some d1" "dc_next d1 = dc_next d" by auto
  have "linked (cs_heap ?s1) (dc_next d) as"
    using rest by (subst linked_cong) (auto simp: keeps_next)
  then have "for_each_default f (dc_next d1) ?s1 = Some (fold (\<lambda>a. f (DefaultRef a)) as ?s1)"
    using Cons.IH d1 by simp
  then show ?case
    by (subst for_each_default.simps) (simp add: p d1(1) Let_def)
qed

lemma fold_keeps_locked:
  "cs_has_locked (fold (\<lambda>a. f (g a)) as s) = cs_has_locked s"
  "cs_locked (fold (\<lambda>a. f (g a)) as s) = cs_locked s"
  by (induction as arbitrary: s) (auto simp: keeps_locked)

lemma for_each_returns:
  "linked (cs_heap s) (cs_head s) as \<Longrightarrow>
     for_each_callsite f s =
       Some (fold f (map DefaultRef as @ (if cs_has_locked s then map (\<lambda>(a, m). DynRef a m) (cs_locked s) else [])) s)"
  by (simp add: for_each_callsite_def for_each_list fold_map comp_def case_prod_unfold
      fold_keeps_locked)

lemma for_each_only_lists:
  assumes "for_each_default f p s = Some r"
  shows "\<exists>as. linked (cs_heap s) p as"
proof (rule for_each_default.raw_induct [where P = "\<lambda>g p s r. g = f \<longrightarrow> (\<exists>as. linked (cs_heap s) p as)",
      OF _ assms, THEN mp [OF _ refl]])
  fix F :: "(callsite_ref \<Rightarrow> cs_state \<Rightarrow> cs_state) \<Rightarrow> addr option \<Rightarrow> cs_state \<Rightarrow> cs_state option"
    and g p s r
  assume IH: "\<And>g p s r. F g p s = Some r \<Longrightarrow> g = f \<longrightarrow> (\<exists>as. linked (cs_heap s) p as)"
    and eq: "(case p of None \<Rightarrow> Some s
      | Some a \<Rightarrow> let s1 = g (DefaultRef a) s in
          (case cs_heap s1 a of None \<Rightarrow> None | Some d \<Rightarrow> F g (dc_next d) s1)) = Some r"
  show "g = f \<longrightarrow> (\<exists>as. linked (cs_heap s) p as)"
  proof (intro impI, cases p)
    case None
    then show "\<exists>as. linked (cs_heap s) p as" by (intro exI [of _ "[]"]) simp
  next
    fix a assume g: "g = f" and p: "p = Some a"
    let ?s1 = "f (DefaultRef a) s"
    from eq p g obtain d1 where d1: "cs_heap ?s1 a = Some d1" and F: "F f (dc_next d1) ?s1 = Some r"
      by (auto simp: Let_def split: option.splits)
    from keeps_next [of "DefaultRef a" s a] d1 obtain d
      where d: "cs_heap s a = Some d" "dc_next d = dc_next d1" by (cases "cs_heap s a") auto
    from IH [OF F] obtain as where "linked (cs_heap ?s1) (dc_next d1) as" by auto
    then have "linked (cs_heap s) (dc_next d) as"
      by (subst (asm) linked_cong [where h = "cs_heap s"]) (simp_all add: keeps_next d)
    with d p show "\<exists>as. linked (cs_heap s) p as" by (intro exI [of _ "a # as"]) simp
  qed
qed

end

subsection \<open>Rebuilding visits every callsite\<close>

lemma upd_callsite_simps [simp]:
  "cs_heap (upd_callsite a g s) = (cs_heap s)(a := map_option g (cs_heap s a))"
  "cs_head (upd_callsite a g s) = cs_head s"
  "cs_has_locked (upd_callsite a g s) = cs_has_locked s"
  "cs_locked (upd_callsite a g s) = cs_locked s"
  "cs_dyn_interest (upd_callsite a g s) = cs_dyn_interest s"
  "cs_max_level (upd_callsite a g s) = cs_max_level s"
  "cs_has_just_one (upd_callsite a g s) = cs_has_just_one s"
  "cs_dispatchers (upd_callsite a g s) = cs_dispatchers s"
  "cs_disp (upd_callsite a g s) = cs_disp s"
  by (simp_all add: upd_callsite_def)

lemma rebuilt_interest_cong: "cs_disp s' = cs_disp s \<Longrightarrow> rebuilt_interest t s' r m = rebuilt_interest t s r m"
  by (simp add: rebuilt_interest_def rebuilder_dispatches_def dispatch_register_callsite_def [abs_def]
      split: rebuilder.splits)

lemma rebuild_one_simps [simp]:
  "cs_head (rebuild_callsite_interest t r c s) = cs_head s"
  "cs_has_locked (rebuild_callsite_interest t r c s) = cs_has_locked s"
  "cs_locked (rebuild_callsite_interest t r c s) = cs_locked s"
  "cs_has_just_one (rebuild_callsite_interest t r c s) = cs_has_just_one s"
  "cs_dispatchers (rebuild_callsite_interest t r c s) = cs_dispatchers s"
  "cs_disp (rebuild_callsite_interest t r c s) = cs_disp s"
  by (simp_all add: rebuild_callsite_interest_def set_interest_def
      split: option.split callsite_ref.split)

lemma rebuild_one_heap:
  "cs_heap (rebuild_callsite_interest t r c s) a =
     (if c = DefaultRef a
      then map_option (\<lambda>d. d\<lparr>dc_interest := interest_repr (rebuilt_interest t s r (dc_meta d))\<rparr>) (cs_heap s a)
      else cs_heap s a)"
  by (auto simp: rebuild_callsite_interest_def set_interest_def callsite_meta_def
      split: option.splits callsite_ref.splits)

interpretation rebuild_visitor: callsite_visitor "rebuild_callsite_interest t r" for t r
  by unfold_locales (auto simp: rebuild_one_heap option.map_comp comp_def)

lemma fold_rebuild_simps [simp]:
  "cs_head (fold (rebuild_callsite_interest t r) cs s) = cs_head s"
  "cs_has_locked (fold (rebuild_callsite_interest t r) cs s) = cs_has_locked s"
  "cs_locked (fold (rebuild_callsite_interest t r) cs s) = cs_locked s"
  "cs_has_just_one (fold (rebuild_callsite_interest t r) cs s) = cs_has_just_one s"
  "cs_dispatchers (fold (rebuild_callsite_interest t r) cs s) = cs_dispatchers s"
  "cs_disp (fold (rebuild_callsite_interest t r) cs s) = cs_disp s"
  by (induction cs arbitrary: s) auto

lemma fold_rebuild_heap:
  "cs_heap (fold (rebuild_callsite_interest t r) cs s) a =
     (if DefaultRef a \<in> set cs
      then map_option (\<lambda>d. d\<lparr>dc_interest := interest_repr (rebuilt_interest t s r (dc_meta d))\<rparr>) (cs_heap s a)
      else cs_heap s a)"
proof (induction cs arbitrary: s)
  case (Cons c cs)
  show ?case
    by (cases "cs_heap s a")
      (auto simp: Cons.IH rebuild_one_heap rebuilt_interest_cong [of "rebuild_callsite_interest t r c s" s])
qed simp

text \<open>
  The invariant of the registry: the list threads exactly the registered callsites, each once, and
  the flag says whether the locked vector is in use.
\<close>

definition callsites_ok :: "cs_state \<Rightarrow> addr list \<Rightarrow> bool" where
  "callsites_ok s as \<longleftrightarrow>
     linked (cs_heap s) (cs_head s) as \<and> distinct as \<and>
     (\<forall>a d. cs_heap s a = Some d \<longrightarrow>
        dc_registration d = (if a \<in> set as then REGISTERED else UNREGISTERED)) \<and>
     (cs_has_locked s \<longleftrightarrow> cs_locked s \<noteq> [])"

definition all_callsites :: "cs_state \<Rightarrow> addr list \<Rightarrow> callsite_ref list" where
  "all_callsites s as = map DefaultRef as @ map (\<lambda>(a, m). DynRef a m) (cs_locked s)"

lemma linked_heap: "linked h p as \<Longrightarrow> a \<in> set as \<Longrightarrow> \<exists>d. h a = Some d"
  by (induction as arbitrary: p) auto

lemma DefaultRef_in_all [simp]: "DefaultRef a \<in> set (all_callsites s as) \<longleftrightarrow> a \<in> set as"
  by (auto simp: all_callsites_def)

lemma rebuild_interest_eq:
  assumes "callsites_ok s as"
  shows "rebuild_interest t r s =
     Some ((fold (rebuild_callsite_interest t r) (all_callsites s as) s)
       \<lparr>cs_max_level := set_max (max_hint OFF (map (dispatch_max_level_hint s) (rebuilder_dispatches t s r)))\<rparr>)"
  using assms rebuild_visitor.for_each_returns [of s as t r]
  by (auto simp: callsites_ok_def rebuild_interest_def all_callsites_def Let_def)

lemma callsites_ok_rebuild:
  assumes "callsites_ok s as"
  shows "callsites_ok ((fold (rebuild_callsite_interest t r) cs s)\<lparr>cs_max_level := l\<rparr>) as"
proof -
  let ?h = "cs_heap (fold (rebuild_callsite_interest t r) cs s)"
  have "linked ?h (cs_head s) as = linked (cs_heap s) (cs_head s) as"
    by (rule linked_cong) (simp add: fold_rebuild_heap option.map_comp comp_def)
  moreover have "dc_registration d = (if a \<in> set as then REGISTERED else UNREGISTERED)"
    if "?h a = Some d" for a d
    using that assms by (auto simp: fold_rebuild_heap callsites_ok_def split: if_splits)
  ultimately show ?thesis
    using assms by (simp add: callsites_ok_def)
qed

lemma rebuilt_cache:
  assumes "callsites_ok s as"
  shows "\<exists>s'. rebuild_interest t r s = Some s' \<and> callsites_ok s' as \<and>
     (\<forall>a d. a \<in> set as \<longrightarrow> cs_heap s' a = Some d \<longrightarrow>
        decode_interest (dc_interest d) = rebuilt_interest t s r (dc_meta d)) \<and>
     current_max (cs_max_level s') =
       Some (max_hint OFF (map (dispatch_max_level_hint s) (rebuilder_dispatches t s r)))"
proof -
  have repr: "decode_interest (interest_repr i) = i" for i
    by (cases i) (auto simp: decode_interest_def interest_repr_def callsite_consts)
  show ?thesis
    using rebuild_interest_eq [OF assms] callsites_ok_rebuild [OF assms]
    by (auto simp: fold_rebuild_heap repr current_max_encoding)
qed

text \<open>
  Rebuilding the interest cache returns (the list it walks is finite), keeps the registry
  well-formed, and leaves every registered callsite with the interest the visited dispatchers
  agree on and the global maximum level at the greatest of their hints.
\<close>

theorem rebuild_interest_correct:
  assumes "callsites_ok s as"
  shows "\<exists>s'. rebuild_interest t r s = Some s' \<and> callsites_ok s' as \<and>
     (\<forall>a d. a \<in> set as \<longrightarrow> cs_heap s' a = Some d \<longrightarrow>
        decode_interest (dc_interest d) = rebuilt_interest t s r (dc_meta d)) \<and>
     current_max (cs_max_level s') =
       Some (max_hint OFF (map (dispatch_max_level_hint s) (rebuilder_dispatches t s r)))"
  by (rule rebuilt_cache [OF assms])

theorem rebuild_interest_correct_witness:
  "\<exists>s'. rebuild_interest 0 JustOne
     \<lparr>cs_heap = Map.empty, cs_head = None, cs_has_locked = False, cs_locked = [],
      cs_dyn_interest = Map.empty, cs_max_level = OFF_USIZE, cs_has_just_one = True,
      cs_dispatchers = [], cs_disp = disp_init Map.empty\<rparr> = Some s' \<and> callsites_ok s' []"
  using rebuild_interest_correct [of "\<lparr>cs_heap = Map.empty, cs_head = None, cs_has_locked = False,
      cs_locked = [], cs_dyn_interest = Map.empty, cs_max_level = OFF_USIZE, cs_has_just_one = True,
      cs_dispatchers = [], cs_disp = disp_init Map.empty\<rparr>" "[]" 0 JustOne]
  by (auto simp: callsites_ok_def)

subsection \<open>A new dispatcher\<close>

text \<open>The dispatches that are registered and alive.\<close>

definition live_dispatches :: "cs_state \<Rightarrow> dispatch set" where
  "live_dispatches s = set (List.map_filter (registrar_upgrade (cs_disp s)) (cs_dispatchers s))"

lemma set_map_filter: "set (List.map_filter g xs) = {y. \<exists>x \<in> set xs. g x = Some y}"
  by (induction xs) (auto simp: List.map_filter_def split: option.splits)

lemma live_filter:
  "{y. \<exists>x \<in> set (filter (\<lambda>r. g r \<noteq> None) xs @ [z]). g x = Some y} =
     {y. \<exists>x \<in> set xs. g x = Some y} \<union> set_option (g z)"
  by (auto simp: elem_set)

lemma dispatchers_register_live:
  assumes "dispatchers_register d s = (r, s1)"
  shows "set (rebuilder_dispatches t s1 r) =
      live_dispatches s \<union> set_option (registrar_upgrade (cs_disp s) (kind_downgrade d))"
    and "live_dispatches s1 = set (rebuilder_dispatches t s1 r)"
    and "cs_disp s1 = cs_disp s" and "callsites_ok s1 as = callsites_ok s as"
proof -
  let ?up = "registrar_upgrade (cs_disp s)"
  let ?ds = "filter (\<lambda>r. ?up r \<noteq> None) (cs_dispatchers s) @ [kind_downgrade d]"
  have r: "r = Vec ?ds" and s1: "s1 = s\<lparr>cs_dispatchers := ?ds, cs_has_just_one := (length ?ds \<le> 1)\<rparr>"
    using assms by (auto simp: dispatchers_register_def Let_def)
  show "cs_disp s1 = cs_disp s" using s1 by simp
  show "callsites_ok s1 as = callsites_ok s as" using s1 by (simp add: callsites_ok_def)
  show "live_dispatches s1 = set (rebuilder_dispatches t s1 r)"
    unfolding r s1 by (simp add: rebuilder_dispatches_def live_dispatches_def)
  have "set (rebuilder_dispatches t s1 r) = {y. \<exists>x \<in> set ?ds. ?up x = Some y}"
    unfolding r s1 by (simp add: rebuilder_dispatches_def set_map_filter del: not_None_eq)
  then show "set (rebuilder_dispatches t s1 r) = live_dispatches s \<union> set_option (?up (kind_downgrade d))"
    unfolding live_dispatches_def set_map_filter live_filter .
qed

lemma rebuilt_Never_all:
  "rebuilt_interest t s r m = Never \<Longrightarrow> e \<in> set (rebuilder_dispatches t s r) \<Longrightarrow>
     dispatch_register_callsite s m e = Never"
  by (cases "rebuilder_dispatches t s r")
    (auto simp: rebuilt_interest_def combine_interest_None split: if_splits)

text \<open>
  C12. Creating a dispatcher leaves a cache that is safe for every live dispatcher: a callsite is
  cached as never interesting only if each of them says so, and the global maximum level admits
  every level one of them may enable.
\<close>

theorem register_dispatch_safe:
  assumes ok: "callsites_ok s as"
    and alive: "registrar_upgrade (cs_disp s) (kind_downgrade d) = Some d"
  shows "\<exists>s'. register_dispatch t d s = Some s' \<and> callsites_ok s' as \<and>
     d \<in> live_dispatches s' \<and>
     (\<forall>e \<in> live_dispatches s'.
        (\<forall>a c. a \<in> set as \<longrightarrow> cs_heap s' a = Some c \<longrightarrow> decode_interest (dc_interest c) = Never \<longrightarrow>
           dispatch_register_callsite s' (dc_meta c) e = Never) \<and>
        (\<exists>m. current_max (cs_max_level s') = Some m \<and>
           (case dispatch_max_level_hint s' e of Some l \<Rightarrow> l | None \<Rightarrow> from_level TRACE) \<le> m))"
proof -
  obtain r s1 where reg: "dispatchers_register d s = (r, s1)" by fastforce
  note live = dispatchers_register_live(1,2) [OF reg, of t] dispatchers_register_live(3) [OF reg]
    dispatchers_register_live(4) [OF reg, of as]
  have ok1: "callsites_ok s1 as" using ok live(4) by simp
  let ?s' = "(fold (rebuild_callsite_interest t r) (all_callsites s1 as) s1)
       \<lparr>cs_max_level := set_max (max_hint OFF (map (dispatch_max_level_hint s1) (rebuilder_dispatches t s1 r)))\<rparr>"
  have run: "register_dispatch t d s = Some ?s'"
    using reg rebuild_interest_eq [OF ok1] by (simp add: register_dispatch_def)
  have same: "live_dispatches ?s' = set (rebuilder_dispatches t s1 r)"
    "dispatch_register_callsite ?s' = dispatch_register_callsite s1"
    "dispatch_max_level_hint ?s' = dispatch_max_level_hint s1"
    using live(2) by (auto simp: live_dispatches_def dispatch_register_callsite_def
        dispatch_max_level_hint_def fun_eq_iff)
  obtain s2 where s2: "rebuild_interest t r s1 = Some s2" "callsites_ok s2 as"
    "\<forall>a c. a \<in> set as \<longrightarrow> cs_heap s2 a = Some c \<longrightarrow>
        decode_interest (dc_interest c) = rebuilt_interest t s1 r (dc_meta c)"
    "current_max (cs_max_level s2) =
       Some (max_hint OFF (map (dispatch_max_level_hint s1) (rebuilder_dispatches t s1 r)))"
    using rebuilt_cache [OF ok1] by blast
  then have "s2 = ?s'" using rebuild_interest_eq [OF ok1, of t r] by simp
  with s2 same live(1) alive run show ?thesis
    by (auto 0 3 intro: rebuilt_Never_all max_hint_ge)
qed

definition empty_registry :: "(sub_id \<Rightarrow> subscriber option) \<Rightarrow> cs_state" where
  "empty_registry arcs =
     \<lparr>cs_heap = Map.empty, cs_head = None, cs_has_locked = False, cs_locked = [],
      cs_dyn_interest = Map.empty, cs_max_level = OFF_USIZE, cs_has_just_one = True,
      cs_dispatchers = [], cs_disp = disp_init arcs\<rparr>"

lemma empty_registry_ok: "callsites_ok (empty_registry arcs) []"
  by (simp add: callsites_ok_def empty_registry_def)

theorem register_dispatch_safe_witness:
  "\<exists>s'. register_dispatch 0 (Scoped 1) (empty_registry [1 \<mapsto> no_subscriber]) = Some s' \<and>
     Scoped 1 \<in> live_dispatches s'"
  using register_dispatch_safe [OF empty_registry_ok, of "[1 \<mapsto> no_subscriber]" "Scoped 1" 0]
  by (auto simp: registrar_upgrade_def kind_downgrade_def empty_registry_def disp_init_def)

subsection \<open>Registering a callsite\<close>

lemma rebuild_unfold:
  "callsite_meta s c = Some m \<Longrightarrow>
     rebuild_callsite_interest t r c s = set_interest c (rebuilt_interest t s r m) s"
  by (simp add: rebuild_callsite_interest_def)

lemma decode_interest_repr [simp]: "decode_interest (interest_repr i) = i"
  by (cases i) (auto simp: decode_interest_def interest_repr_def callsite_consts)

text \<open>The effect of the first registration of a callsite that is not the head of the list.\<close>

lemma callsite_register_first:
  assumes "cs_heap s a = Some d" and "dc_registration d = UNREGISTERED" and "cs_head s \<noteq> Some a"
    and i: "i = rebuilt_interest t s (dispatchers_rebuilder s) (dc_meta d)"
  shows "callsite_register t a s =
     Some (i, s\<lparr>cs_head := Some a, cs_heap := (cs_heap s)(a :=
        Some (d\<lparr>dc_next := cs_head s, dc_interest := interest_repr i, dc_registration := REGISTERED\<rparr>))\<rparr>)"
  using assms
  by (simp add: callsite_register_def push_default_def rebuild_callsite_interest_def
      callsite_meta_def set_interest_def dispatchers_rebuilder_def upd_callsite_def Let_def
      rebuilt_interest_cong [of "s\<lparr>cs_heap := h, cs_head := p\<rparr>" s for h p])

text \<open>
  A callsite registers itself once: the first call links it in front of the list, caches the
  interest the dispatchers agree on and returns it; a later call returns the cached interest and
  changes nothing. Either way the call does not panic and the registry stays well-formed.
\<close>

theorem callsite_register_correct:
  assumes ok: "callsites_ok s as" and a: "cs_heap s a = Some d"
  shows "(a \<in> set as \<longrightarrow> callsite_register t a s = Some (decode_interest (dc_interest d), s)) \<and>
     (a \<notin> set as \<longrightarrow>
        (\<exists>s'. callsite_register t a s =
            Some (rebuilt_interest t s (dispatchers_rebuilder s) (dc_meta d), s') \<and>
          callsites_ok s' (a # as)))"
proof (cases "a \<in> set as")
  case True
  with ok a have "dc_registration d = REGISTERED" by (simp add: callsites_ok_def)
  with a True show ?thesis by (simp add: callsite_register_def callsite_consts)
next
  case False
  from ok have linked: "linked (cs_heap s) (cs_head s) as" by (simp add: callsites_ok_def)
  with False have head: "cs_head s \<noteq> Some a" by (cases as) auto
  from ok a False have unreg: "dc_registration d = UNREGISTERED" by (simp add: callsites_ok_def)
  note run = callsite_register_first [OF a unreg head refl, of t]
  have "linked ((cs_heap s)(a := d')) (cs_head s) as = linked (cs_heap s) (cs_head s) as" for d'
    using False by (intro linked_cong) auto
  with ok False linked run show ?thesis
    by (auto simp: callsites_ok_def)
qed

definition demo_meta :: metadata where
  "demo_meta =
     \<lparr>meta_name = ''demo'', meta_target = ''app'', meta_level = INFO, meta_module_path = None,
      meta_file = None, meta_line = None, meta_fields = \<lparr>fs_names = [], fs_callsite = 9\<rparr>,
      meta_kind = EVENT\<rparr>"

definition demo_registry :: "(sub_id \<Rightarrow> subscriber option) \<Rightarrow> cs_state" where
  "demo_registry arcs = (empty_registry arcs)\<lparr>cs_heap := [9 \<mapsto> new_callsite demo_meta]\<rparr>"

lemma demo_registry_ok: "callsites_ok (demo_registry arcs) []"
  by (simp add: callsites_ok_def demo_registry_def empty_registry_def new_callsite_def)

lemma demo_callsite: "cs_heap (demo_registry arcs) 9 = Some (new_callsite demo_meta)"
  by (simp add: demo_registry_def)

theorem callsite_register_correct_witness:
  "\<exists>s'. callsite_register 0 9 (demo_registry Map.empty) =
      Some (rebuilt_interest 0 (demo_registry Map.empty) (dispatchers_rebuilder (demo_registry Map.empty))
             (dc_meta (new_callsite demo_meta)), s') \<and> callsites_ok s' [9]"
  using callsite_register_correct [OF demo_registry_ok [of Map.empty] demo_callsite, of 0] by simp

text \<open>
  With one dispatcher registered, the cache trusts the calling thread's default instead of that
  dispatcher. A callsite first reached after \<open>Dispatch::new\<close> but outside of any default is cached as
  never interesting although the one live dispatcher answers always, and making that dispatcher
  the default afterwards does not change the cached answer.
\<close>

theorem just_one_stale_never:
  assumes sub: "sub_register_callsite sub demo_meta = Always"
  shows "\<exists>s1 s2. dispatch_new 0 1 sub (demo_registry Map.empty) = Some s1 \<and>
     callsite_interest 0 9 s1 = Some (Never, s2) \<and>
     live_dispatches s2 = {Scoped 1} \<and>
     dispatch_register_callsite s2 demo_meta (Scoped 1) = Always \<and>
     (let s3 = s2\<lparr>cs_disp := snd (set_default 0 (Scoped 1) (cs_disp s2))\<rparr> in
        dispatch_default 0 (cs_disp s3) = Scoped 1 \<and> callsite_interest 0 9 s3 = Some (Never, s3))"
proof -
  let ?s0 = "(demo_registry Map.empty)\<lparr>cs_disp :=
      (cs_disp (demo_registry Map.empty))\<lparr>ds_arcs := (ds_arcs (cs_disp (demo_registry Map.empty)))(1 := Some sub)\<rparr>\<rparr>"
  obtain r s1 where reg: "dispatchers_register (Scoped 1) ?s0 = (r, s1)" by fastforce
  then have s1: "s1 = ?s0\<lparr>cs_dispatchers := [Scoped 1], cs_has_just_one := True\<rparr>" and r: "r = Vec [Scoped 1]"
    by (auto simp: dispatchers_register_def demo_registry_def empty_registry_def kind_downgrade_def Let_def)
  have ok: "callsites_ok s1 []"
    unfolding s1 by (simp add: callsites_ok_def demo_registry_def empty_registry_def new_callsite_def)
  define s2 where "s2 = s1\<lparr>cs_max_level := set_max (max_hint OFF (map (dispatch_max_level_hint s1) (rebuilder_dispatches 0 s1 r)))\<rparr>"
  have new: "dispatch_new 0 1 sub (demo_registry Map.empty) = Some s2"
    using reg rebuild_interest_eq [OF ok, of 0 r]
    by (simp add: dispatch_new_def register_dispatch_def s2_def all_callsites_def s1 demo_registry_def
        empty_registry_def)
  have s2: "cs_heap s2 9 = Some (new_callsite demo_meta)" "cs_head s2 = None" "cs_has_just_one s2"
    "cs_dispatchers s2 = [Scoped 1]" "cs_disp s2 = disp_init [1 \<mapsto> sub]"
    by (simp_all add: s2_def s1 demo_registry_def empty_registry_def disp_init_def)
  have "rebuilt_interest 0 s2 (dispatchers_rebuilder s2) demo_meta = Never"
    by (simp add: rebuilt_interest_def dispatchers_rebuilder_def rebuilder_dispatches_def s2
        dispatch_default_eq disp_init_def get_global_def NONE_def dispatch_register_callsite_def
        dispatch_subscriber_def no_subscriber_def)
  with callsite_register_first [of s2 9 "new_callsite demo_meta" Never 0] s2
  obtain s3 where s3: "callsite_interest 0 9 s2 = Some (Never, s3)" "cs_disp s3 = disp_init [1 \<mapsto> sub]"
    "cs_dispatchers s3 = [Scoped 1]" "\<exists>d. cs_heap s3 9 = Some d \<and> dc_interest d = INTEREST_NEVER"
    by (auto simp: callsite_interest_def new_callsite_def callsite_consts interest_repr_def)
  then have "live_dispatches s3 = {Scoped 1}" "dispatch_register_callsite s3 demo_meta (Scoped 1) = Always"
    using sub by (simp_all add: live_dispatches_def set_map_filter registrar_upgrade_def disp_init_def
        dispatch_register_callsite_def dispatch_subscriber_def)
  moreover have "dispatch_default 0 (snd (set_default 0 (Scoped 1) (cs_disp s3))) = Scoped 1"
    by (simp add: s3 set_default_def disp_init_def tls_init_def dispatch_default_eq entered_current_def Let_def)
  moreover have "callsite_interest 0 9 (s3\<lparr>cs_disp := x\<rparr>) = Some (Never, s3\<lparr>cs_disp := x\<rparr>)" for x
    using s3(4) by (auto simp: callsite_interest_def)
  ultimately show ?thesis
    using new s3(1) by - (rule exI [of _ s2], rule exI [of _ s3], simp add: Let_def)
qed

theorem just_one_stale_never_witness:
  "\<exists>s1. dispatch_new 0 1 \<lparr>sub_register_callsite = (\<lambda>_. Always), sub_enabled = (\<lambda>_. True),
      sub_max_level_hint = None\<rparr> (demo_registry Map.empty) = Some s1 \<and>
     fst (the (callsite_interest 0 9 s1)) = Never"
  using just_one_stale_never [of "\<lparr>sub_register_callsite = (\<lambda>_. Always), sub_enabled = (\<lambda>_. True),
      sub_max_level_hint = None\<rparr>"]
  by (auto simp: Let_def)

text \<open>
  The traversal returns exactly on lists that end: if it returns, the pointers from the head
  form a finite path, so a callsite linked twice (a cycle) makes it run for ever.
\<close>

theorem for_each_returns_iff:
  "(\<exists>s'. for_each_default (rebuild_callsite_interest t r) p s = Some s') \<longleftrightarrow>
     (\<exists>as. linked (cs_heap s) p as)"
  using rebuild_visitor.for_each_only_lists rebuild_visitor.for_each_list by blast

end
