(* ===== verification/Callsite_Push.thy ===== *)
theory Callsite_Push
  imports Callsite
begin

text \<open>
  The contended push of \<open>tracing-core/src/callsite.rs\<close>: \<open>DefaultCallsite::register\<close> claims the
  callsite with a compare-and-exchange on its registration state, then \<open>Callsites::push_default\<close>
  runs its loop (load the head, store it as the successor, exchange the head, retry on failure).

  Any number of threads run it, and a step is one atomic access of one thread. Each access of the
  source is one rule; memory is sequentially consistent. The list is read off \<open>ps_next\<close> from
  \<open>ps_head\<close>.
\<close>

datatype push_pc =
    Idle
  | Claimed addr
  | Loaded addr "addr option"
  | Stored addr "addr option"
  | Linked addr
  | Panicked

record push_state =
  ps_head :: "addr option"
  ps_next :: "addr \<Rightarrow> addr option"
  ps_registration :: "addr \<Rightarrow> u8"
  ps_pc :: "thread \<Rightarrow> push_pc"

definition push_init :: push_state where
  "push_init =
     \<lparr>ps_head = None, ps_next = (\<lambda>_. None), ps_registration = (\<lambda>_. UNREGISTERED), ps_pc = (\<lambda>_. Idle)\<rparr>"

inductive push_step :: "push_state \<Rightarrow> push_state \<Rightarrow> bool" where
  ps_claim: "ps_pc s t = Idle \<Longrightarrow> ps_registration s a = UNREGISTERED \<Longrightarrow>
     push_step s (s\<lparr>ps_registration := (ps_registration s)(a := REGISTERING),
                    ps_pc := (ps_pc s)(t := Claimed a)\<rparr>)"
| ps_load: "ps_pc s t = Claimed a \<Longrightarrow>
     push_step s (s\<lparr>ps_pc := (ps_pc s)(t := Loaded a (ps_head s))\<rparr>)"
| ps_store: "ps_pc s t = Loaded a h \<Longrightarrow> h \<noteq> Some a \<Longrightarrow>
     push_step s (s\<lparr>ps_next := (ps_next s)(a := h), ps_pc := (ps_pc s)(t := Stored a h)\<rparr>)"
| ps_assert: "ps_pc s t = Loaded a h \<Longrightarrow> h = Some a \<Longrightarrow>
     push_step s (s\<lparr>ps_next := (ps_next s)(a := h), ps_pc := (ps_pc s)(t := Panicked)\<rparr>)"
| ps_exchange: "ps_pc s t = Stored a h \<Longrightarrow> ps_head s = h \<Longrightarrow>
     push_step s (s\<lparr>ps_head := Some a, ps_pc := (ps_pc s)(t := Linked a)\<rparr>)"
| ps_retry: "ps_pc s t = Stored a h \<Longrightarrow> ps_head s \<noteq> h \<Longrightarrow>
     push_step s (s\<lparr>ps_pc := (ps_pc s)(t := Loaded a (ps_head s))\<rparr>)"
| ps_finish: "ps_pc s t = Linked a \<Longrightarrow>
     push_step s (s\<lparr>ps_registration := (ps_registration s)(a := REGISTERED),
                    ps_pc := (ps_pc s)(t := Idle)\<rparr>)"

inductive push_reachable :: "push_state \<Rightarrow> bool" where
  pr_init: "push_reachable push_init"
| pr_step: "push_reachable s \<Longrightarrow> push_step s s' \<Longrightarrow> push_reachable s'"

fun path :: "(addr \<Rightarrow> addr option) \<Rightarrow> addr option \<Rightarrow> addr list \<Rightarrow> bool" where
  "path nx p [] = (p = None)"
| "path nx p (a # as) = (p = Some a \<and> path nx (nx a) as)"

fun owns :: "push_pc \<Rightarrow> addr option" where
  "owns (Claimed a) = Some a"
| "owns (Loaded a h) = Some a"
| "owns (Stored a h) = Some a"
| "owns (Linked a) = Some a"
| "owns _ = None"

text \<open>
  The list is a simple path through the callsites that are registered or linked and about to be; a
  callsite in the hands of a thread is in no other thread's hands; a thread that has read a head
  has read a callsite that was already in the list.
\<close>

definition listed :: "push_state \<Rightarrow> addr set" where
  "listed s = {a. ps_registration s a = REGISTERED} \<union> {a. \<exists>t. ps_pc s t = Linked a}"

definition push_inv :: "push_state \<Rightarrow> addr list \<Rightarrow> bool" where
  "push_inv s as \<longleftrightarrow>
     path (ps_next s) (ps_head s) as \<and> distinct as \<and> set as = listed s \<and>
     (\<forall>t a. owns (ps_pc s t) = Some a \<longrightarrow> ps_registration s a = REGISTERING) \<and>
     (\<forall>t u a. owns (ps_pc s t) = Some a \<longrightarrow> owns (ps_pc s u) = Some a \<longrightarrow> t = u) \<and>
     (\<forall>t a b. ps_pc s t = Loaded a (Some b) \<or> ps_pc s t = Stored a (Some b) \<longrightarrow> b \<in> set as) \<and>
     (\<forall>t a h. ps_pc s t = Stored a h \<longrightarrow> ps_next s a = h) \<and>
     (\<forall>t. ps_pc s t \<noteq> Panicked)"

lemma registration_distinct [simp]:
  "REGISTERING \<noteq> REGISTERED" "REGISTERED \<noteq> REGISTERING"
  "UNREGISTERED \<noteq> REGISTERED" "REGISTERED \<noteq> UNREGISTERED"
  "UNREGISTERED \<noteq> REGISTERING" "REGISTERING \<noteq> UNREGISTERED"
  by (simp_all add: callsite_consts)

lemma path_upd: "a \<notin> set as \<Longrightarrow> path (nx(a := h)) p as = path nx p as"
  by (induction as arbitrary: p) auto

lemma path_head: "path nx (Some x) as \<Longrightarrow> x \<in> set as"
  by (cases as) auto

text \<open>How a change of one thread's position or of one registration changes the listed set.\<close>

lemma linked_upd:
  "{b. \<exists>u. (pc(t := q)) u = Linked b} = {b. q = Linked b} \<union> {b. \<exists>u. u \<noteq> t \<and> pc u = Linked b}"
  by auto

lemma linked_keep:
  assumes "\<And>b. pc t \<noteq> Linked b" and "\<And>b. q \<noteq> Linked b"
  shows "{b. \<exists>u. (pc(t := q)) u = Linked b} = {b. \<exists>u. pc u = Linked b}"
  unfolding linked_upd using assms by (auto intro: exI [of _ "_ :: thread"]) (metis assms(1))

lemma linked_new:
  assumes "\<And>b. pc t \<noteq> Linked b"
  shows "{b. \<exists>u. (pc(t := Linked a)) u = Linked b} = insert a {b. \<exists>u. pc u = Linked b}"
  unfolding linked_upd using assms by auto metis

lemma linked_done:
  assumes "pc t = Linked a" and "\<And>b. q \<noteq> Linked b"
  shows "insert a {b. \<exists>u. (pc(t := q)) u = Linked b} = {b. \<exists>u. pc u = Linked b}"
  unfolding linked_upd using assms by auto (metis push_pc.inject(4))

lemma registered_upd:
  "{b. (r(a := v)) b = REGISTERED} =
     (if v = REGISTERED then insert a {b. r b = REGISTERED} else {b. r b = REGISTERED} - {a})"
  by auto

lemma registered_claim:
  "r a = UNREGISTERED \<Longrightarrow> {b. (r(a := REGISTERING)) b = REGISTERED} = {b. r b = REGISTERED}"
  by (auto simp: registered_upd)

text \<open>A callsite a thread owns but has not linked yet is not in the list.\<close>

lemma owned_not_listed:
  assumes inv: "push_inv s as" and own: "owns (ps_pc s t) = Some a" and "ps_pc s t \<noteq> Linked a"
  shows "a \<notin> listed s"
proof
  assume "a \<in> listed s"
  moreover have "ps_registration s a = REGISTERING" using inv own by (simp add: push_inv_def)
  ultimately obtain u where "ps_pc s u = Linked a" by (auto simp: listed_def)
  with assms show False unfolding push_inv_def by (metis owns.simps(4))
qed

lemma push_inv_claim:
  assumes inv: "push_inv s as" and t: "ps_pc s t = Idle" and a: "ps_registration s a = UNREGISTERED"
  shows "push_inv (s\<lparr>ps_registration := (ps_registration s)(a := REGISTERING),
                    ps_pc := (ps_pc s)(t := Claimed a)\<rparr>) as" (is "push_inv ?s' as")
proof -
  have free: "owns (ps_pc s u) \<noteq> Some a" for u
    using inv a unfolding push_inv_def by (metis registration_distinct(5))
  have "listed ?s' = listed s"
    using t registered_claim [of "ps_registration s", OF a] linked_keep [of "ps_pc s" t "Claimed a"]
    by (simp add: listed_def del: fun_upd_apply)
  with inv t free show ?thesis
    unfolding push_inv_def by (auto simp: fun_upd_def split: if_splits)
qed

lemma push_inv_load:
  assumes inv: "push_inv s as" and t: "owns (ps_pc s t) = Some a" "\<And>b. ps_pc s t \<noteq> Linked b"
  shows "push_inv (s\<lparr>ps_pc := (ps_pc s)(t := Loaded a (ps_head s))\<rparr>) as" (is "push_inv ?s' as")
proof -
  have "listed ?s' = listed s"
    using t linked_keep [of "ps_pc s" t "Loaded a (ps_head s)"]
    by (simp add: listed_def del: fun_upd_apply)
  moreover have "b \<in> set as" if "ps_head s = Some b" for b
    using inv that by (auto simp: push_inv_def dest: path_head)
  ultimately show ?thesis
    using inv t(1) unfolding push_inv_def by (auto simp: fun_upd_def split: if_splits)
qed

lemma push_inv_store:
  assumes inv: "push_inv s as" and t: "ps_pc s t = Loaded a h"
  shows "push_inv (s\<lparr>ps_next := (ps_next s)(a := h), ps_pc := (ps_pc s)(t := Stored a h)\<rparr>) as"
    (is "push_inv ?s' as")
proof -
  have "a \<notin> set as" using owned_not_listed [OF inv, of t a] inv t by (simp add: push_inv_def)
  then have "path ((ps_next s)(a := h)) (ps_head s) as" using inv by (simp add: path_upd push_inv_def)
  moreover have "listed ?s' = listed s"
    using t linked_keep [of "ps_pc s" t "Stored a h"]
    by (simp add: listed_def del: fun_upd_apply)
  moreover have "ps_registration s a = REGISTERING" and "ps_pc s u = Stored a k \<Longrightarrow> u = t" for u k
    using inv t unfolding push_inv_def by (metis owns.simps(2,3))+
  ultimately show ?thesis
    using inv t unfolding push_inv_def by (auto simp: fun_upd_def split: if_splits)
qed

lemma push_inv_exchange:
  assumes inv: "push_inv s as" and t: "ps_pc s t = Stored a (ps_head s)"
  shows "push_inv (s\<lparr>ps_head := Some a, ps_pc := (ps_pc s)(t := Linked a)\<rparr>) (a # as)"
    (is "push_inv ?s' _")
proof -
  have "a \<notin> set as" using owned_not_listed [OF inv, of t a] inv t by (simp add: push_inv_def)
  moreover have "ps_next s a = ps_head s" using inv t by (simp add: push_inv_def)
  moreover have "ps_registration s a = REGISTERING"
    using inv t unfolding push_inv_def by (metis owns.simps(3))
  moreover have "listed ?s' = insert a (listed s)"
    using t linked_new [of "ps_pc s" t a]
    by (simp add: listed_def del: fun_upd_apply)
  ultimately show ?thesis
    using inv t unfolding push_inv_def by (auto simp: fun_upd_def split: if_splits)
qed

lemma push_inv_finish:
  assumes inv: "push_inv s as" and t: "ps_pc s t = Linked a"
  shows "push_inv (s\<lparr>ps_registration := (ps_registration s)(a := REGISTERED),
                    ps_pc := (ps_pc s)(t := Idle)\<rparr>) as" (is "push_inv ?s' as")
proof -
  have owner: "owns (ps_pc s u) = Some a \<Longrightarrow> u = t" for u
    using inv t unfolding push_inv_def by (metis owns.simps(4))
  have "listed ?s' = listed s"
    using linked_done [of "ps_pc s" t a Idle, OF t] unfolding listed_def
    by (auto simp: registered_upd simp del: fun_upd_apply)
  with inv t owner show ?thesis
    unfolding push_inv_def by (auto simp: fun_upd_def split: if_splits)
qed

text \<open>The callsite a thread is pushing is never at the head, so the assertion of the loop holds.\<close>

lemma push_inv_no_panic:
  assumes inv: "push_inv s as" and t: "ps_pc s t = Loaded a h"
  shows "h \<noteq> Some a"
proof
  assume "h = Some a"
  then have "a \<in> set as" using inv t by (auto simp: push_inv_def)
  moreover have "a \<notin> set as" using owned_not_listed [OF inv, of t a] inv t by (simp add: push_inv_def)
  ultimately show False by simp
qed

lemma push_inv_step:
  assumes "push_step s s'" and inv: "push_inv s as"
  shows "push_inv s' as \<or> (\<exists>a. a \<notin> set as \<and> push_inv s' (a # as))"
  using assms(1)
proof cases
  case ps_claim
  then show ?thesis using push_inv_claim [OF inv] by simp
next
  case ps_load
  then show ?thesis using push_inv_load [OF inv] by simp
next
  case ps_store
  then show ?thesis using push_inv_store [OF inv] by simp
next
  case ps_assert
  then show ?thesis using push_inv_no_panic [OF inv] by blast
next
  case (ps_exchange t a h)
  then have "push_inv s' (a # as)" using push_inv_exchange [OF inv] by simp
  then show ?thesis by (auto simp: push_inv_def)
next
  case ps_retry
  then show ?thesis using push_inv_load [OF inv] by simp
next
  case ps_finish
  then show ?thesis using push_inv_finish [OF inv] by simp
qed

lemma push_inv_init: "push_inv push_init []"
  by (simp add: push_inv_def push_init_def listed_def)

lemma push_reachable_inv: "push_reachable s \<Longrightarrow> \<exists>as. push_inv s as"
proof (induction rule: push_reachable.induct)
  case pr_init
  then show ?case using push_inv_init by blast
next
  case (pr_step s s')
  then show ?case using push_inv_step by blast
qed

lemma push_default_linearizable_facts:
  assumes "push_reachable s"
  shows "\<exists>as. path (ps_next s) (ps_head s) as \<and> distinct as \<and>
           set as = {a. ps_registration s a = REGISTERED} \<union> {a. \<exists>t. ps_pc s t = Linked a}"
    and "ps_pc s t \<noteq> Panicked"
    and "ps_pc s t = Loaded a h \<Longrightarrow> h \<noteq> Some a"
proof -
  obtain as where inv: "push_inv s as" using push_reachable_inv [OF assms] by blast
  then show "\<exists>as. path (ps_next s) (ps_head s) as \<and> distinct as \<and>
           set as = {a. ps_registration s a = REGISTERED} \<union> {a. \<exists>t. ps_pc s t = Linked a}"
    by (auto simp: push_inv_def listed_def)
  show "ps_pc s t \<noteq> Panicked" using inv by (simp add: push_inv_def)
  show "ps_pc s t = Loaded a h \<Longrightarrow> h \<noteq> Some a" using push_inv_no_panic [OF inv] by blast
qed

text \<open>
  C9. However the registrations of any number of threads interleave, the intrusive list stays a
  finite, duplicate-free path from the head: exactly the registered callsites and those whose
  pushing thread is about to mark them registered. So no registration is lost to a racing push and
  none is linked twice, and the loop's assertion that a callsite does not point to itself never
  panics.
\<close>

theorem push_default_linearizable:
  assumes "push_reachable s"
  shows "(\<exists>as. path (ps_next s) (ps_head s) as \<and> distinct as \<and>
           set as = {a. ps_registration s a = REGISTERED} \<union> {a. \<exists>t. ps_pc s t = Linked a}) \<and>
      (ps_pc s t \<noteq> Panicked) \<and>
      ((ps_pc s t = Loaded a h) \<longrightarrow> (h \<noteq> Some a))"
  using push_default_linearizable_facts [OF assms] by blast

lemma path_unique: "path nx p as \<Longrightarrow> path nx p bs \<Longrightarrow> as = bs"
proof (induction as arbitrary: p bs)
  case Nil
  then show ?case by (cases bs) auto
next
  case (Cons a as)
  then show ?case by (cases bs) auto
qed

lemma push_step_path:
  assumes "push_step s s'" and inv: "push_inv s as"
  shows "path (ps_next s') (ps_head s) as"
proof -
  have path: "path (ps_next s) (ps_head s) as" using inv by (simp add: push_inv_def)
  have fresh: "a \<notin> set as" if "ps_pc s t = Loaded a h" for a t h
    using owned_not_listed [OF inv, of t a] inv that by (simp add: push_inv_def)
  show ?thesis using assms(1) path by cases (use fresh in \<open>simp_all add: path_upd\<close>)
qed

lemma push_step_head:
  assumes "push_step s s'" and inv: "push_inv s as"
  shows "ps_head s' = ps_head s \<or> (\<exists>a. a \<notin> set as \<and> path (ps_next s') (ps_head s') (a # as))"
proof -
  consider "push_inv s' as" | a where "a \<notin> set as" "push_inv s' (a # as)"
    using push_inv_step [OF assms] by blast
  then show ?thesis
  proof cases
    case 1
    then have "path (ps_next s') (ps_head s') as" by (simp add: push_inv_def)
    then show ?thesis using push_step_path [OF assms] by (cases as) auto
  next
    case 2
    then show ?thesis by (auto simp: push_inv_def)
  qed
qed

lemma push_step_grows_facts:
  assumes "push_reachable s" and "push_step s s'" and "path (ps_next s) (ps_head s) as"
  shows "path (ps_next s') (ps_head s) as"
    and "ps_head s' = ps_head s \<or> (\<exists>a. a \<notin> set as \<and> path (ps_next s') (ps_head s') (a # as))"
proof -
  obtain bs where "push_inv s bs" using push_reachable_inv [OF assms(1)] by blast
  moreover from this have "bs = as" using assms(3) path_unique by (auto simp: push_inv_def)
  ultimately have inv: "push_inv s as" by simp
  show "path (ps_next s') (ps_head s) as" using push_step_path [OF assms(2) inv] .
  show "ps_head s' = ps_head s \<or> (\<exists>a. a \<notin> set as \<and> path (ps_next s') (ps_head s') (a # as))"
    using push_step_head [OF assms(2) inv] .
qed

text \<open>
  A registration that has reached the list stays in it: every step leaves the list as it is
  or puts one new callsite in front of it, so a reader that follows \<open>next\<close> from a head it loaded
  earlier keeps visiting the callsites it would have visited then.
\<close>

theorem push_step_grows:
  assumes "push_reachable s" and "push_step s s'" and "path (ps_next s) (ps_head s) as"
  shows "(path (ps_next s') (ps_head s) as) \<and>
      (ps_head s' = ps_head s \<or> (\<exists>a. a \<notin> set as \<and> path (ps_next s') (ps_head s') (a # as)))"
  using push_step_grows_facts [OF assms] by blast

text \<open>
  The relation run by a schedule: at each tick one thread takes its next atomic access, an idle one
  tries to claim the callsite the tick names.
\<close>

definition push_exec :: "thread \<times> addr \<Rightarrow> push_state \<Rightarrow> push_state" where
  "push_exec tick s = (let t = fst tick in
     case ps_pc s t of
       Idle \<Rightarrow>
         if ps_registration s (snd tick) = UNREGISTERED
         then s\<lparr>ps_registration := (ps_registration s)(snd tick := REGISTERING),
                ps_pc := (ps_pc s)(t := Claimed (snd tick))\<rparr>
         else s
     | Claimed a \<Rightarrow> s\<lparr>ps_pc := (ps_pc s)(t := Loaded a (ps_head s))\<rparr>
     | Loaded a h \<Rightarrow>
         s\<lparr>ps_next := (ps_next s)(a := h),
           ps_pc := (ps_pc s)(t := if h = Some a then Panicked else Stored a h)\<rparr>
     | Stored a h \<Rightarrow>
         if ps_head s = h then s\<lparr>ps_head := Some a, ps_pc := (ps_pc s)(t := Linked a)\<rparr>
         else s\<lparr>ps_pc := (ps_pc s)(t := Loaded a (ps_head s))\<rparr>
     | Linked a \<Rightarrow>
         s\<lparr>ps_registration := (ps_registration s)(a := REGISTERED), ps_pc := (ps_pc s)(t := Idle)\<rparr>
     | Panicked \<Rightarrow> s)"

definition push_run :: "(thread \<times> addr) list \<Rightarrow> push_state" where
  "push_run ticks = fold push_exec ticks push_init"

lemma push_exec_step: "push_exec tick s = s \<or> push_step s (push_exec tick s)"
  by (cases "ps_pc s (fst tick)") (auto simp: push_exec_def Let_def intro: push_step.intros)

lemma push_fold_reachable: "push_reachable s \<Longrightarrow> push_reachable (fold push_exec ticks s)"
proof (induction ticks arbitrary: s)
  case (Cons tick ticks)
  then show ?case using push_exec_step [of tick s] pr_step by fastforce
qed simp

lemma push_run_reachable: "push_reachable (push_run ticks)"
  unfolding push_run_def by (rule push_fold_reachable [OF pr_init])

lemma push_run_step: "push_run (ticks @ [tick]) = push_exec tick (push_run ticks)"
  by (simp add: push_run_def)

text \<open>
  Two threads race: both load the empty head, thread 1 links callsite 10, and the exchange of
  thread 0 fails, so that it reloads the head and stores it as the successor of callsite 20.
\<close>

definition race :: "(thread \<times> addr) list" where
  "race = [(0, 20), (1, 10), (0, 20), (1, 10), (0, 20), (1, 10), (1, 10), (0, 20), (0, 20)]"

lemma race_run:
  "ps_head (push_run race) = Some 10" "ps_next (push_run race) 10 = None"
  "ps_pc (push_run race) 0 = Stored 20 (Some 10)" "ps_pc (push_run race) 1 = Linked 10"
  by (simp_all add: push_run_def race_def push_exec_def push_init_def callsite_consts)

theorem push_default_linearizable_witness:
  "ps_pc (push_run race) 1 = Linked 10 \<and> ps_pc (push_run race) 1 \<noteq> Panicked \<and>
   (\<exists>as. path (ps_next (push_run race)) (Some 10) as \<and> distinct as \<and> 10 \<in> set as)"
proof -
  show ?thesis using push_default_linearizable [OF push_run_reachable, of race 1] race_run by auto
qed

theorem push_step_grows_witness:
  "path (ps_next (push_run (race @ [(0, 20)]))) (Some 10) [10] \<and>
   path (ps_next (push_run (race @ [(0, 20)]))) (ps_head (push_run (race @ [(0, 20)]))) [20, 10]"
proof -
  let ?s = "push_run race" and ?s' = "push_run (race @ [(0, 20)])"
  have step: "push_step ?s ?s'"
    using push_step.ps_exchange [of ?s 0 20 "Some 10"] race_run
    by (simp add: push_run_step push_exec_def)
  have head: "ps_head ?s' = Some 20" and nx: "ps_next ?s' 20 = Some 10"
    by (simp_all add: push_run_def race_def push_exec_def push_init_def callsite_consts)
  have "path (ps_next ?s) (ps_head ?s) [10]" using race_run by simp
  from push_step_grows [OF push_run_reachable step this] head nx race_run show ?thesis by auto
qed

end
