(* ===== verification/Span_Event.thy ===== *)
theory Span_Event
  imports Dispatcher
begin

text \<open>
  Spans and events as the subscriber sees them: \<open>tracing-core/src/span.rs\<close>, \<open>event.rs\<close> and
  \<open>parent.rs\<close>. A span id is a non-zero 64-bit word; \<open>'f\<close> is the type of floating-point values of
  the recorded fields.
\<close>

type_synonym span_id = u64

datatype parent = Root | Current | ExplicitParent span_id

text \<open>\<open>Id::from_u64\<close>; \<open>None\<close> is its panic.\<close>

definition id_from_u64 :: "u64 \<Rightarrow> span_id option" where
  "id_from_u64 u = (if u = 0 then None else Some u)"

definition id_into_u64 :: "span_id \<Rightarrow> u64" where
  "id_into_u64 i = i"

record 'f attributes =
  attr_metadata :: metadata
  attr_values :: "'f value_set"
  attr_parent :: parent

definition attributes_new :: "metadata \<Rightarrow> 'f value_set \<Rightarrow> 'f attributes" where
  "attributes_new meta vals = \<lparr>attr_metadata = meta, attr_values = vals, attr_parent = Current\<rparr>"

definition attributes_new_root :: "metadata \<Rightarrow> 'f value_set \<Rightarrow> 'f attributes" where
  "attributes_new_root meta vals = \<lparr>attr_metadata = meta, attr_values = vals, attr_parent = Root\<rparr>"

definition attributes_child_of :: "span_id \<Rightarrow> metadata \<Rightarrow> 'f value_set \<Rightarrow> 'f attributes" where
  "attributes_child_of p meta vals =
     \<lparr>attr_metadata = meta, attr_values = vals, attr_parent = ExplicitParent p\<rparr>"

definition parent_is_root :: "parent \<Rightarrow> bool" where
  "parent_is_root p = (case p of Root \<Rightarrow> True | _ \<Rightarrow> False)"

definition parent_is_contextual :: "parent \<Rightarrow> bool" where
  "parent_is_contextual p = (case p of Current \<Rightarrow> True | _ \<Rightarrow> False)"

definition parent_id :: "parent \<Rightarrow> span_id option" where
  "parent_id p = (case p of ExplicitParent i \<Rightarrow> Some i | _ \<Rightarrow> None)"

datatype 'f record_values = Record (record_values: "'f value_set")

datatype current_inner = CurrentSpan span_id metadata | CurrentNone | CurrentUnknown

definition current_is_known :: "current_inner \<Rightarrow> bool" where
  "current_is_known c = (case c of CurrentUnknown \<Rightarrow> False | _ \<Rightarrow> True)"

definition current_into_inner :: "current_inner \<Rightarrow> (span_id \<times> metadata) option" where
  "current_into_inner c = (case c of CurrentSpan i m \<Rightarrow> Some (i, m) | _ \<Rightarrow> None)"

definition current_id :: "current_inner \<Rightarrow> span_id option" where
  "current_id c = (case c of CurrentSpan i m \<Rightarrow> Some i | _ \<Rightarrow> None)"

definition current_metadata :: "current_inner \<Rightarrow> metadata option" where
  "current_metadata c = (case c of CurrentSpan i m \<Rightarrow> Some m | _ \<Rightarrow> None)"

subsection \<open>Events\<close>

record 'f event =
  ev_fields :: "'f value_set"
  ev_metadata :: metadata
  ev_parent :: parent

definition event_new :: "metadata \<Rightarrow> 'f value_set \<Rightarrow> 'f event" where
  "event_new meta flds = \<lparr>ev_fields = flds, ev_metadata = meta, ev_parent = Current\<rparr>"

definition event_new_child_of :: "span_id option \<Rightarrow> metadata \<Rightarrow> 'f value_set \<Rightarrow> 'f event" where
  "event_new_child_of p meta flds =
     \<lparr>ev_fields = flds, ev_metadata = meta,
      ev_parent = (case p of Some i \<Rightarrow> ExplicitParent i | None \<Rightarrow> Root)\<rparr>"

text \<open>
  \<open>Event::dispatch\<close> and \<open>Event::child_of\<close>: the event is built first and then handed to the current
  default dispatch; \<open>deliver\<close> is \<open>Dispatch::event\<close>, which calls into the subscriber.
\<close>

definition event_dispatch ::
  "(dispatch \<Rightarrow> 'f event \<Rightarrow> disp_state \<Rightarrow> disp_state) \<Rightarrow> thread \<Rightarrow> metadata \<Rightarrow> 'f value_set \<Rightarrow>
   disp_state \<Rightarrow> disp_state" where
  "event_dispatch deliver t meta flds s =
     snd (get_default t (\<lambda>d s. ((), deliver d (event_new meta flds) s)) s)"

definition event_child_of ::
  "(dispatch \<Rightarrow> 'f event \<Rightarrow> disp_state \<Rightarrow> disp_state) \<Rightarrow> thread \<Rightarrow> span_id option \<Rightarrow> metadata \<Rightarrow>
   'f value_set \<Rightarrow> disp_state \<Rightarrow> disp_state" where
  "event_child_of deliver t p meta flds s =
     snd (get_default t (\<lambda>d s. ((), deliver d (event_new_child_of p meta flds) s)) s)"

definition event_fields :: "'f event \<Rightarrow> field list" where
  "event_fields e = field_set_iter (vs_fields (ev_fields e))"

lemma parent_cases:
  "parent_is_root p \<Longrightarrow> \<not> parent_is_contextual p \<and> parent_id p = None"
  "parent_is_contextual p \<Longrightarrow> \<not> parent_is_root p \<and> parent_id p = None"
  "\<not> parent_is_root p \<Longrightarrow> \<not> parent_is_contextual p \<Longrightarrow> parent_id p \<noteq> None"
  by (cases p; simp add: parent_is_root_def parent_is_contextual_def parent_id_def)+

end
