(* ===== verification/Macro_Gate.thy ===== *)
theory Macro_Gate
  imports Callsite Span_Event
begin

text \<open>
  What the macros of \<open>tracing\<close> expand to: the checks before a span or an event is made. \<open>macros.rs\<close>
  (\<open>event!\<close>, \<open>span!\<close>, \<open>enabled!\<close>, \<open>level_enabled!\<close>), \<open>level_filters.rs\<close>, and \<open>__macro_support\<close> of \<open>lib.rs\<close>,
  without the \<open>log\<close> feature.

  Each use of a macro has a static callsite, here an address \<open>a\<close> whose metadata are in the heap of
  callsites. The expression that builds the values is evaluated only if the callsite is enabled.
  \<open>None\<close> is a panic.
\<close>

subsection \<open>The maximum level at compile time\<close>

record build_cfg =
  bc_debug_assertions :: bool
  bc_features :: "string list"

definition get_max_level_inner :: "build_cfg \<Rightarrow> level_filter" where
  "get_max_level_inner c =
     (let feature = (\<lambda>f. f \<in> set (bc_features c)); release = (\<lambda>f. \<not> bc_debug_assertions c \<and> f \<in> set (bc_features c)) in
      if release ''release_max_level_off'' then OFF
      else if release ''release_max_level_error'' then from_level ERROR
      else if release ''release_max_level_warn'' then from_level WARN
      else if release ''release_max_level_info'' then from_level INFO
      else if release ''release_max_level_debug'' then from_level DEBUG
      else if release ''release_max_level_trace'' then from_level TRACE
      else if feature ''max_level_off'' then OFF
      else if feature ''max_level_error'' then from_level ERROR
      else if feature ''max_level_warn'' then from_level WARN
      else if feature ''max_level_info'' then from_level INFO
      else if feature ''max_level_debug'' then from_level DEBUG
      else from_level TRACE)"

subsection \<open>The checks\<close>

definition level_enabled :: "level_filter \<Rightarrow> level \<Rightarrow> cs_state \<Rightarrow> bool option" where
  "level_enabled static_max lvl s =
     (if \<not> level_le_filter lvl static_max then Some False
      else map_option (level_le_filter lvl) (current_max (cs_max_level s)))"

definition macro_is_enabled :: "thread \<Rightarrow> metadata \<Rightarrow> interest \<Rightarrow> cs_state \<Rightarrow> bool" where
  "macro_is_enabled t m i s \<longleftrightarrow>
     i = Always \<or> fst (get_default t (\<lambda>d s. (dispatch_enabled s d m, s)) (cs_disp s))"

text \<open>The condition that \<open>event!\<close> and \<open>span!\<close> share.\<close>

definition callsite_gate :: "level_filter \<Rightarrow> thread \<Rightarrow> addr \<Rightarrow> cs_state \<Rightarrow> (bool \<times> cs_state) option" where
  "callsite_gate static_max t a s =
     (case cs_heap s a of
        None \<Rightarrow> None
      | Some c \<Rightarrow>
          (case level_enabled static_max (meta_level (dc_meta c)) s of
             None \<Rightarrow> None
           | Some False \<Rightarrow> Some (False, s)
           | Some True \<Rightarrow>
               (case callsite_interest t a s of
                  None \<Rightarrow> None
                | Some (i, s1) \<Rightarrow> Some (i \<noteq> Never \<and> macro_is_enabled t (dc_meta c) i s1, s1))))"

subsection \<open>The macros\<close>

text \<open>\<open>deliver\<close> is \<open>Dispatch::event\<close>. An explicit parent is given by \<open>parent:\<close>.\<close>

definition event_macro ::
  "level_filter \<Rightarrow> (dispatch \<Rightarrow> 'f event \<Rightarrow> disp_state \<Rightarrow> disp_state) \<Rightarrow> thread \<Rightarrow> addr \<Rightarrow> span_id option option \<Rightarrow>
   'f value_set \<Rightarrow> cs_state \<Rightarrow> cs_state option" where
  "event_macro static_max deliver t a parent value_set s =
     (case (callsite_gate static_max t a s, cs_heap s a) of
        (Some (enabled, s1), Some c) \<Rightarrow>
          Some (if enabled then
                  (case parent of
                     Some p \<Rightarrow> s1\<lparr>cs_disp := event_child_of deliver t p (dc_meta c) value_set (cs_disp s1)\<rparr>
                   | None \<Rightarrow> s1\<lparr>cs_disp := event_dispatch deliver t (dc_meta c) value_set (cs_disp s1)\<rparr>)
                else s1)
      | _ \<Rightarrow> None)"

text \<open>\<open>make_span\<close> is \<open>Span::new\<close> or \<open>Span::child_of\<close>, \<open>disabled\<close> the span that \<open>__disabled_span\<close> returns.\<close>

definition span_macro ::
  "level_filter \<Rightarrow> (metadata \<Rightarrow> cs_state \<Rightarrow> ('sp \<times> cs_state) option) \<Rightarrow> 'sp \<Rightarrow> thread \<Rightarrow> addr \<Rightarrow> cs_state \<Rightarrow>
   ('sp \<times> cs_state) option" where
  "span_macro static_max make_span disabled t a s =
     (case (callsite_gate static_max t a s, cs_heap s a) of
        (Some (enabled, s1), Some c) \<Rightarrow> if enabled then make_span (dc_meta c) s1 else Some (disabled, s1)
      | _ \<Rightarrow> None)"

definition enabled_macro :: "level_filter \<Rightarrow> thread \<Rightarrow> addr \<Rightarrow> cs_state \<Rightarrow> (bool \<times> cs_state) option" where
  "enabled_macro static_max t a s =
     (case (callsite_gate static_max t a s, cs_heap s a) of
        (Some (enabled, s1), Some c) \<Rightarrow>
          Some (enabled \<and> fst (get_default t (\<lambda>d s. (dispatch_enabled s d (dc_meta c), s)) (cs_disp s1)), s1)
      | _ \<Rightarrow> None)"

subsection \<open>Names of fields\<close>

text \<open>
  \<open>FieldName::len\<close> and \<open>FieldName::new\<close>, computed at compile time from the text of the field: raw
  identifiers lose their prefix. \<open>None\<close> is a failed assertion, a subtraction that overflows or an index out
  of range: a compile error.
\<close>

definition field_name_len :: "string \<Rightarrow> nat option" where
  "field_name_len input =
     (let raw = length (filter (\<lambda>c. c = CHR ''#'') input) in
      if length input < 2 * raw then None else Some (length input - 2 * raw))"

fun field_name_copy :: "string \<Rightarrow> string option" where
  "field_name_copy [] = Some []"
| "field_name_copy (c # cs) =
     (if c = CHR ''r'' \<and> cs \<noteq> [] \<and> hd cs = CHR ''#'' then
        (case cs of
           [] \<Rightarrow> None
         | _ # [] \<Rightarrow> None
         | _ # d # ds \<Rightarrow> map_option ((#) d) (field_name_copy ds))
      else map_option ((#) c) (field_name_copy cs))"

definition field_name_new :: "nat \<Rightarrow> string \<Rightarrow> string option" where
  "field_name_new n input =
     (case field_name_copy input of
        None \<Rightarrow> None
      | Some output \<Rightarrow> if length output = n then Some output else None)"

subsection \<open>The checks agree with the subscriber\<close>

lemma dispatch_enabled_tls [simp]: "dispatch_enabled (upd_tls t g s) d m = dispatch_enabled s d m"
  by (simp add: dispatch_enabled_def dispatch_subscriber_def split: sub_kind.split)

lemma get_default_enabled:
  "fst (get_default t (\<lambda>d s. (dispatch_enabled s d m, s)) s) = dispatch_enabled s (dispatch_default t s) m"
  by (simp add: get_default_def dispatch_default_def state_enter_def entered_drop_def Let_def)

text \<open>
  What a subscriber promises: \<open>never\<close> and \<open>always\<close> are its answers to \<open>enabled\<close>, and it enables nothing above
  its level hint.
\<close>

definition sub_lawful :: "subscriber \<Rightarrow> bool" where
  "sub_lawful sub \<longleftrightarrow>
     (\<forall>m. (sub_register_callsite sub m = Never \<longrightarrow> \<not> sub_enabled sub m) \<and>
          (sub_register_callsite sub m = Always \<longrightarrow> sub_enabled sub m) \<and>
          (\<forall>h. sub_max_level_hint sub = Some h \<longrightarrow> sub_enabled sub m \<longrightarrow> level_le_filter (meta_level m) h))"

text \<open>
  The state of the callsites with respect to the dispatches \<open>D\<close>: the registered ones (\<open>as\<close>) are cached soundly,
  the others have not been asked, and the maximum level admits every hint.
\<close>

definition gate_sound :: "dispatch set \<Rightarrow> addr list \<Rightarrow> cs_state \<Rightarrow> bool" where
  "gate_sound D as s \<longleftrightarrow>
     callsites_ok s as \<and>
     (\<exists>mx. current_max (cs_max_level s) = Some mx \<and>
        (\<forall>d \<in> D. (case dispatch_max_level_hint s d of Some h \<Rightarrow> h | None \<Rightarrow> from_level TRACE) \<le> mx)) \<and>
     (\<forall>a c. cs_heap s a = Some c \<longrightarrow>
        (if a \<in> set as then \<exists>i. dc_interest c = interest_repr i \<and>
           (\<forall>d \<in> D. (i = Never \<longrightarrow> dispatch_register_callsite s (dc_meta c) d = Never) \<and>
                    (i = Always \<longrightarrow> dispatch_register_callsite s (dc_meta c) d = Always))
         else dc_interest c = 255))"

lemma gate_soundD:
  assumes "gate_sound D as s" "cs_heap s a = Some c"
  shows "a \<in> set as \<Longrightarrow> \<exists>i. dc_interest c = interest_repr i \<and>
           (\<forall>d \<in> D. (i = Never \<longrightarrow> dispatch_register_callsite s (dc_meta c) d = Never) \<and>
                    (i = Always \<longrightarrow> dispatch_register_callsite s (dc_meta c) d = Always))"
    and "a \<notin> set as \<Longrightarrow> dc_interest c = 255"
  using assms unfolding gate_sound_def by meson+

lemma rebuilt_Always_all:
  "rebuilt_interest t s r m = Always \<Longrightarrow> e \<in> set (rebuilder_dispatches t s r) \<Longrightarrow>
     dispatch_register_callsite s m e = Always"
  by (cases "rebuilder_dispatches t s r")
    (auto simp: rebuilt_interest_def combine_interest_None split: if_splits)

lemma interest_cached: "callsite_interest t a s = Some (i, s)"
  if "cs_heap s a = Some c" "dc_interest c = interest_repr i"
  using that by (cases i) (simp_all add: callsite_interest_def interest_repr_def callsite_consts)

lemma gate_register:
  assumes "gate_sound D as s" "cs_heap s a = Some c" "a \<notin> set as"
    and vis: "D \<subseteq> set (rebuilder_dispatches t s (dispatchers_rebuilder s))"
  defines "i \<equiv> rebuilt_interest t s (dispatchers_rebuilder s) (dc_meta c)"
  defines "s' \<equiv> s\<lparr>cs_head := Some a, cs_heap := (cs_heap s)(a :=
        Some (c\<lparr>dc_next := cs_head s, dc_interest := interest_repr i, dc_registration := REGISTERED\<rparr>))\<rparr>"
  shows "callsite_interest t a s = Some (i, s')" and "gate_sound D (a # as) s'"
proof -
  have ok: "callsites_ok s as" using assms(1) by (simp add: gate_sound_def)
  have c: "dc_interest c = 255" using gate_soundD(2) [OF assms(1,2,3)] .
  from ok have linked: "linked (cs_heap s) (cs_head s) as" and unreg: "dc_registration c = UNREGISTERED"
    using assms(2,3) by (simp_all add: callsites_ok_def)
  have head: "cs_head s \<noteq> Some a" using linked assms(3) by (cases as) auto
  show "callsite_interest t a s = Some (i, s')"
    using callsite_register_first [OF assms(2) unreg head refl, of t] assms(2) c
    by (simp add: callsite_interest_def callsite_consts i_def s'_def)
  have "linked ((cs_heap s)(a := c')) (cs_head s) as = linked (cs_heap s) (cs_head s) as" for c'
    using assms(3) by (intro linked_cong) auto
  then have ok': "callsites_ok s' (a # as)" using ok linked assms(3) by (auto simp: callsites_ok_def s'_def)
  have ask: "dispatch_register_callsite s' = dispatch_register_callsite s" "dispatch_max_level_hint s' = dispatch_max_level_hint s"
    by (simp_all add: fun_eq_iff dispatch_register_callsite_def dispatch_max_level_hint_def s'_def)
  have "\<forall>d \<in> D. (i = Never \<longrightarrow> dispatch_register_callsite s (dc_meta c) d = Never) \<and>
      (i = Always \<longrightarrow> dispatch_register_callsite s (dc_meta c) d = Always)"
    using vis rebuilt_Never_all rebuilt_Always_all unfolding i_def by blast
  moreover have "cs_heap s' b = (if b = a then Some (c\<lparr>dc_next := cs_head s, dc_interest := interest_repr i,
      dc_registration := REGISTERED\<rparr>) else cs_heap s b)" "cs_max_level s' = cs_max_level s" for b
    by (simp_all add: s'_def)
  ultimately show "gate_sound D (a # as) s'"
    using assms(1) ok' unfolding gate_sound_def ask by (auto split: if_splits)
qed

text \<open>What a pass through the checks leaves as it was.\<close>

definition gate_frame :: "cs_state \<Rightarrow> cs_state \<Rightarrow> bool" where
  "gate_frame s s' \<longleftrightarrow> cs_disp s' = cs_disp s \<and> cs_dispatchers s' = cs_dispatchers s \<and>
     cs_has_just_one s' = cs_has_just_one s \<and> (\<forall>a. map_option dc_meta (cs_heap s' a) = map_option dc_meta (cs_heap s a))"

lemma gate_frame_refl: "gate_frame s s"
  by (simp add: gate_frame_def)

lemma gate_frame_visits: "gate_frame s s' \<Longrightarrow>
  rebuilder_dispatches t s' (dispatchers_rebuilder s') = rebuilder_dispatches t s (dispatchers_rebuilder s)"
  by (simp add: gate_frame_def rebuilder_dispatches_def dispatchers_rebuilder_def)

lemma gate_interest:
  assumes "gate_sound D as s" "cs_heap s a = Some c" "D \<subseteq> set (rebuilder_dispatches t s (dispatchers_rebuilder s))"
  shows "\<exists>i s' as'. callsite_interest t a s = Some (i, s') \<and> gate_sound D as' s' \<and> gate_frame s s' \<and>
    (\<forall>d \<in> D. (i = Never \<longrightarrow> dispatch_register_callsite s (dc_meta c) d = Never) \<and>
             (i = Always \<longrightarrow> dispatch_register_callsite s (dc_meta c) d = Always))"
proof (cases "a \<in> set as")
  case True
  then obtain i where i: "dc_interest c = interest_repr i"
    "\<forall>d \<in> D. (i = Never \<longrightarrow> dispatch_register_callsite s (dc_meta c) d = Never) \<and>
             (i = Always \<longrightarrow> dispatch_register_callsite s (dc_meta c) d = Always)"
    using gate_soundD(1) [OF assms(1,2)] by blast
  with interest_cached [OF assms(2) i(1)] assms(1) gate_frame_refl show ?thesis by blast
next
  case False
  let ?i = "rebuilt_interest t s (dispatchers_rebuilder s) (dc_meta c)"
  let ?s = "s\<lparr>cs_head := Some a, cs_heap := (cs_heap s)(a :=
        Some (c\<lparr>dc_next := cs_head s, dc_interest := interest_repr ?i, dc_registration := REGISTERED\<rparr>))\<rparr>"
  have "gate_frame s ?s" using assms(2) by (simp add: gate_frame_def)
  moreover have "\<forall>d \<in> D. (?i = Never \<longrightarrow> dispatch_register_callsite s (dc_meta c) d = Never) \<and>
             (?i = Always \<longrightarrow> dispatch_register_callsite s (dc_meta c) d = Always)"
    using assms(3) rebuilt_Never_all rebuilt_Always_all by blast
  ultimately show ?thesis using gate_register [OF assms(1,2) False assms(3)] by blast
qed

lemma callsite_gate_step:
  assumes "gate_sound D as s" "cs_heap s a = Some c" "D \<subseteq> set (rebuilder_dispatches t s (dispatchers_rebuilder s))"
    and d: "dispatch_default t (cs_disp s) \<in> D"
    and sub: "dispatch_subscriber (cs_disp s) (dispatch_default t (cs_disp s)) = Some sub" "sub_lawful sub"
  shows "\<exists>s' as'. callsite_gate static_max t a s =
      Some (level_le_filter (meta_level (dc_meta c)) static_max \<and> sub_enabled sub (dc_meta c), s') \<and>
    gate_sound D as' s' \<and> gate_frame s s'"
proof -
  let ?d = "dispatch_default t (cs_disp s)" and ?l = "meta_level (dc_meta c)"
  obtain mx where mx: "current_max (cs_max_level s) = Some mx"
      "(case dispatch_max_level_hint s ?d of Some h \<Rightarrow> h | None \<Rightarrow> from_level TRACE) \<le> mx"
    using assms(1) d by (auto simp: gate_sound_def)
  have reg: "dispatch_register_callsite s m ?d = sub_register_callsite sub m"
    "dispatch_max_level_hint s ?d = sub_max_level_hint sub" for m
    using sub(1) by (simp_all add: dispatch_register_callsite_def dispatch_max_level_hint_def)
  have above: "\<not> sub_enabled sub (dc_meta c)" if "\<not> level_le_filter ?l mx"
  proof
    assume "sub_enabled sub (dc_meta c)"
    then have "level_le_filter ?l (case sub_max_level_hint sub of Some h \<Rightarrow> h | None \<Rightarrow> from_level TRACE)"
      using sub(2) by (auto simp: sub_lawful_def from_level_def split: option.split)
    with mx(2) reg(2) that show False using level_le_filter_trans by metis
  qed
  show ?thesis
  proof (cases "level_le_filter ?l static_max \<and> level_le_filter ?l mx")
    case False
    then have "callsite_gate static_max t a s = Some (False, s)"
      using assms(2) mx(1) by (auto simp: callsite_gate_def level_enabled_def)
    with False above assms(1) gate_frame_refl show ?thesis by auto
  next
    case True
    from gate_interest [OF assms(1-3)] d obtain i s' as' where i: "callsite_interest t a s = Some (i, s')"
      "gate_sound D as' s'" "gate_frame s s'" "i = Never \<longrightarrow> sub_register_callsite sub (dc_meta c) = Never"
      "i = Always \<longrightarrow> sub_register_callsite sub (dc_meta c) = Always" by (metis reg(1))
    have "macro_is_enabled t (dc_meta c) i s' \<longleftrightarrow> i = Always \<or> sub_enabled sub (dc_meta c)"
      unfolding macro_is_enabled_def get_default_enabled
      using i(3) sub(1) by (simp add: gate_frame_def dispatch_enabled_def)
    moreover have "i = Never \<longrightarrow> \<not> sub_enabled sub (dc_meta c)" "i = Always \<longrightarrow> sub_enabled sub (dc_meta c)"
      using i(4,5) sub(2) by (auto simp: sub_lawful_def)
    ultimately have "callsite_gate static_max t a s = Some (sub_enabled sub (dc_meta c), s')"
      using True assms(2) mx(1) i(1) by (auto simp: callsite_gate_def level_enabled_def)
    with True i(2,3) show ?thesis by auto
  qed
qed

text \<open>Threads execute callsites one after the other; the answers of the checks.\<close>

fun run_gates :: "level_filter \<Rightarrow> (thread \<times> addr) list \<Rightarrow> cs_state \<Rightarrow> bool list option" where
  "run_gates static_max [] s = Some []"
| "run_gates static_max ((t, a) # xs) s =
     (case callsite_gate static_max t a s of
        None \<Rightarrow> None
      | Some (b, s1) \<Rightarrow> map_option ((#) b) (run_gates static_max xs s1))"

text \<open>The reference: the subscriber of the thread's default dispatcher is asked each time.\<close>

definition subscriber_enables :: "cs_state \<Rightarrow> thread \<Rightarrow> addr \<Rightarrow> bool" where
  "subscriber_enables s t a \<longleftrightarrow>
     (\<exists>m. map_option dc_meta (cs_heap s a) = Some m \<and> dispatch_enabled (cs_disp s) (dispatch_default t (cs_disp s)) m)"

definition within_static :: "level_filter \<Rightarrow> cs_state \<Rightarrow> addr \<Rightarrow> bool" where
  "within_static static_max s a \<longleftrightarrow>
     (\<forall>m. map_option dc_meta (cs_heap s a) = Some m \<longrightarrow> level_le_filter (meta_level m) static_max)"

lemma gate_frame_enables:
  assumes "gate_frame s s'"
  shows "subscriber_enables s' t a = subscriber_enables s t a" "within_static l s' a = within_static l s a"
  using assms by (simp_all add: gate_frame_def subscriber_enables_def within_static_def)

text \<open>Threads whose default dispatchers are lawful and are visited by every rebuild.\<close>

definition gate_threads :: "dispatch set \<Rightarrow> thread set \<Rightarrow> cs_state \<Rightarrow> bool" where
  "gate_threads D T s \<longleftrightarrow>
     (\<forall>t \<in> T. D \<subseteq> set (rebuilder_dispatches t s (dispatchers_rebuilder s)) \<and>
        dispatch_default t (cs_disp s) \<in> D \<and>
        (\<exists>sub. dispatch_subscriber (cs_disp s) (dispatch_default t (cs_disp s)) = Some sub \<and> sub_lawful sub))"

lemma gate_frame_threads: "gate_frame s s' \<Longrightarrow> gate_threads D T s' = gate_threads D T s"
  unfolding gate_threads_def by (simp add: gate_frame_visits) (simp add: gate_frame_def)

text \<open>
  C7. The fast path of the macros is exact. Whether a use of \<open>event!\<close>, \<open>span!\<close> or \<open>enabled!\<close> goes on is decided by
  comparing levels and by the interest cached in its callsite, which registers itself when it is first
  reached; the subscriber is asked only if the cache says \<open>sometimes\<close>. Through any sequence of callsites
  reached by any threads this never panics and decides as if the subscriber of the thread's default
  dispatcher had been asked each time, within the static maximum level; provided that the subscribers keep
  their promises and that what a rebuild visits includes the dispatchers in use.
\<close>

theorem macro_gate_exact:
  assumes "gate_sound D as s" and "gate_threads D (fst ` set xs) s"
    and "\<forall>(t, a) \<in> set xs. cs_heap s a \<noteq> None"
  shows "run_gates static_max xs s =
    Some (map (\<lambda>(t, a). within_static static_max s a \<and> subscriber_enables s t a) xs)"
  using assms
proof (induction xs arbitrary: s as)
  case (Cons x xs)
  obtain t a where x: "x = (t, a)" by fastforce
  with Cons.prems(3) obtain c where c: "cs_heap s a = Some c" by auto
  from Cons.prems(2) x obtain sub where t: "D \<subseteq> set (rebuilder_dispatches t s (dispatchers_rebuilder s))"
      "dispatch_default t (cs_disp s) \<in> D" "dispatch_subscriber (cs_disp s) (dispatch_default t (cs_disp s)) = Some sub"
      "sub_lawful sub" by (auto simp: gate_threads_def)
  from callsite_gate_step [OF Cons.prems(1) c t] obtain s' as' where g: "callsite_gate static_max t a s =
      Some (level_le_filter (meta_level (dc_meta c)) static_max \<and> sub_enabled sub (dc_meta c), s')"
      "gate_sound D as' s'" "gate_frame s s'" by blast
  have "gate_threads D (fst ` set xs) s'"
    using Cons.prems(2) gate_frame_threads [OF g(3)] by (auto simp: gate_threads_def)
  moreover have "(cs_heap s' b = None) = (cs_heap s b = None)" for b
    using g(3) by (metis gate_frame_def option.map_disc_iff)
  then have "\<forall>(t, a) \<in> set xs. cs_heap s' a \<noteq> None"
    using Cons.prems(3) by auto
  ultimately have "run_gates static_max xs s' =
      Some (map (\<lambda>(t, a). within_static static_max s' a \<and> subscriber_enables s' t a) xs)"
    using Cons.IH [OF g(2)] by blast
  moreover have "subscriber_enables s t a = sub_enabled sub (dc_meta c)"
    "within_static static_max s a = level_le_filter (meta_level (dc_meta c)) static_max"
    using c t(3) by (simp_all add: subscriber_enables_def within_static_def dispatch_enabled_def)
  ultimately show ?case using g(1) x gate_frame_enables [OF g(3)] by simp
qed simp

definition demo_sub :: subscriber where
  "demo_sub =
     \<lparr>sub_register_callsite = (\<lambda>m. if meta_level m = INFO then Sometimes else Never),
      sub_enabled = (\<lambda>m. meta_level m = INFO), sub_max_level_hint = Some (from_level INFO)\<rparr>"

definition demo_gate :: cs_state where
  "demo_gate = (demo_registry [1 \<mapsto> demo_sub])
     \<lparr>cs_max_level := set_max (from_level INFO), cs_has_just_one := True, cs_dispatchers := [Scoped 1],
      cs_disp := snd (set_default 0 (Scoped 1) (disp_init [1 \<mapsto> demo_sub]))\<rparr>"

theorem macro_gate_exact_witness:
  "run_gates (from_level TRACE) [(0, 9), (0, 9)] demo_gate = Some [True, True]"
proof -
  have dflt: "dispatch_default 0 (cs_disp demo_gate) = Scoped 1" "dispatch_subscriber (cs_disp demo_gate) (Scoped 1) = Some demo_sub"
    "cs_heap demo_gate = [9 \<mapsto> new_callsite demo_meta]" "cs_has_just_one demo_gate"
    by (simp_all add: demo_gate_def demo_registry_def empty_registry_def set_default_def disp_init_def tls_init_def dispatch_default_eq
        entered_current_def dispatch_subscriber_def Let_def)
  have "current_max (cs_max_level demo_gate) = Some (from_level INFO)"
    by (simp add: demo_gate_def current_max_encoding)
  moreover have "callsites_ok demo_gate []"
    by (simp add: callsites_ok_def demo_gate_def demo_registry_def empty_registry_def new_callsite_def)
  ultimately have "gate_sound {Scoped 1} [] demo_gate"
    using dflt(2) by (simp add: gate_sound_def dflt dispatch_max_level_hint_def demo_sub_def new_callsite_def)
  moreover have "gate_threads {Scoped 1} (fst ` set [(0, 9), (0, 9)]) demo_gate"
    using dflt(2) by (simp add: gate_threads_def rebuilder_dispatches_def dispatchers_rebuilder_def dflt sub_lawful_def demo_sub_def
        level_le_filter_def from_level_def)
  ultimately have "run_gates (from_level TRACE) [(0, 9), (0, 9)] demo_gate =
    Some (map (\<lambda>(t, a). within_static (from_level TRACE) demo_gate a \<and> subscriber_enables demo_gate t a) [(0, 9), (0, 9)])"
    by (rule macro_gate_exact) (simp add: dflt)
  then show ?thesis
    using dflt(2) by (simp add: within_static_def subscriber_enables_def dflt dispatch_enabled_def demo_sub_def new_callsite_def demo_meta_def
        from_level_def)
qed

text \<open>The state after a rebuild satisfies what the theorem needs.\<close>

lemma gate_sound_rebuilt:
  assumes "callsites_ok s as" "D \<subseteq> set (rebuilder_dispatches t s r)"
    and "\<forall>a c. cs_heap s a = Some c \<longrightarrow> a \<notin> set as \<longrightarrow> dc_interest c = 255"
  shows "\<exists>s'. rebuild_interest t r s = Some s' \<and> gate_sound D as s'"
proof -
  let ?M = "max_hint OFF (map (dispatch_max_level_hint s) (rebuilder_dispatches t s r))"
  define s1 where "s1 = (fold (rebuild_callsite_interest t r) (all_callsites s as) s)
       \<lparr>cs_max_level := set_max (max_hint OFF (map (dispatch_max_level_hint s) (rebuilder_dispatches t s r)))\<rparr>"
  have run: "rebuild_interest t r s = Some s1" unfolding s1_def by (rule rebuild_interest_eq [OF assms(1)])
  have ok: "callsites_ok s1 as" unfolding s1_def by (rule callsites_ok_rebuild [OF assms(1)])
  have ask: "dispatch_register_callsite s1 = dispatch_register_callsite s" "dispatch_max_level_hint s1 = dispatch_max_level_hint s"
    by (simp_all add: fun_eq_iff dispatch_register_callsite_def dispatch_max_level_hint_def s1_def)
  have mx: "current_max (cs_max_level s1) = Some ?M" by (simp add: s1_def current_max_encoding)
  have hints: "\<forall>d \<in> D. (case dispatch_max_level_hint s d of Some h \<Rightarrow> h | None \<Rightarrow> from_level TRACE) \<le>
      max_hint OFF (map (dispatch_max_level_hint s) (rebuilder_dispatches t s r))"
    using assms(2) by (auto intro!: max_hint_ge)
  have cached: "if a \<in> set as then \<exists>i. dc_interest c = interest_repr i \<and>
           (\<forall>d \<in> D. (i = Never \<longrightarrow> dispatch_register_callsite s (dc_meta c) d = Never) \<and>
                    (i = Always \<longrightarrow> dispatch_register_callsite s (dc_meta c) d = Always))
         else dc_interest c = 255" if "cs_heap s1 a = Some c" for a c
  proof (cases "a \<in> set as")
    case True
    with that obtain z where z: "cs_heap s a = Some z"
        "c = z\<lparr>dc_interest := interest_repr (rebuilt_interest t s r (dc_meta z))\<rparr>" by (auto simp: s1_def fold_rebuild_heap)
    moreover have "\<forall>d \<in> D. (rebuilt_interest t s r k = Never \<longrightarrow> dispatch_register_callsite s k d = Never) \<and>
                    (rebuilt_interest t s r k = Always \<longrightarrow> dispatch_register_callsite s k d = Always)" for k
      using assms(2) rebuilt_Never_all rebuilt_Always_all by blast
    ultimately show ?thesis using True by auto
  next
    case False
    with that assms(3) show ?thesis by (auto simp: s1_def fold_rebuild_heap)
  qed
  have "gate_sound D as s1"
    unfolding gate_sound_def ask using ok mx hints cached by blast
  with run show ?thesis by blast
qed

text \<open>What \<open>event!\<close> does when the checks have passed: the event is handed to the default dispatcher once.\<close>

lemma event_macro_delivers:
  assumes "gate_sound D as s" "gate_threads D {t} s" "cs_heap s a = Some c"
  shows "\<exists>s'. gate_frame s s' \<and> event_macro static_max deliver t a None vs s =
    Some (if level_le_filter (meta_level (dc_meta c)) static_max \<and> subscriber_enables s t a
          then s'\<lparr>cs_disp := event_dispatch deliver t (dc_meta c) vs (cs_disp s)\<rparr> else s')"
proof -
  from assms(2) obtain sub where t: "D \<subseteq> set (rebuilder_dispatches t s (dispatchers_rebuilder s))"
      "dispatch_default t (cs_disp s) \<in> D" "dispatch_subscriber (cs_disp s) (dispatch_default t (cs_disp s)) = Some sub"
      "sub_lawful sub" by (auto simp: gate_threads_def)
  from callsite_gate_step [OF assms(1,3) t] obtain s' where "callsite_gate static_max t a s =
      Some (level_le_filter (meta_level (dc_meta c)) static_max \<and> sub_enabled sub (dc_meta c), s')" "gate_frame s s'" by blast
  then show ?thesis
    using assms(3) t(3)
    by (intro exI [of _ s']) (auto simp: event_macro_def subscriber_enables_def dispatch_enabled_def gate_frame_def)
qed

subsection \<open>Names of fields lose the prefixes of raw identifiers\<close>

text \<open>The text of a field: identifiers, each with or without \<open>r#\<close>, joined by dots.\<close>

definition raw_text :: "(bool \<times> string) list \<Rightarrow> string" where
  "raw_text parts = join_with ''.'' (map (\<lambda>(raw, x). (if raw then ''r#'' else []) @ x) parts)"

definition bare_text :: "(bool \<times> string) list \<Rightarrow> string" where
  "bare_text parts = join_with ''.'' (map snd parts)"

lemma field_name_copy_plain: "CHR ''#'' \<notin> set xs \<Longrightarrow> (ys = [] \<or> hd ys \<noteq> CHR ''#'') \<Longrightarrow>
  field_name_copy (xs @ ys) = map_option ((@) xs) (field_name_copy ys)"
proof (induction xs)
  case (Cons x xs)
  have "\<not> (x = CHR ''r'' \<and> xs @ ys \<noteq> [] \<and> hd (xs @ ys) = CHR ''#'')"
    using Cons.prems by (cases xs) auto
  then have "field_name_copy (x # xs @ ys) = map_option ((#) x) (field_name_copy (xs @ ys))"
    by (simp only: field_name_copy.simps if_False)
  then show ?case using Cons by (auto simp: option.map_comp comp_def intro!: option.map_cong0)
qed (simp add: option.map_id0 map_option_idI)

lemma field_name_copy_raw: "x \<noteq> [] \<Longrightarrow> CHR ''#'' \<notin> set x \<Longrightarrow> (ys = [] \<or> hd ys \<noteq> CHR ''#'') \<Longrightarrow>
  field_name_copy (''r#'' @ x @ ys) = map_option ((@) x) (field_name_copy ys)"
  by (cases x) (auto simp: field_name_copy_plain option.map_comp comp_def intro!: option.map_cong0)

lemma field_name_copy_text:
  "\<forall>(raw, x) \<in> set parts. x \<noteq> [] \<and> CHR ''#'' \<notin> set x \<Longrightarrow> field_name_copy (raw_text parts) = Some (bare_text parts)"
proof (induction parts)
  case (Cons p parts)
  obtain raw x where p: "p = (raw, x)" by fastforce
  have x: "x \<noteq> []" "CHR ''#'' \<notin> set x" using Cons.prems p by auto
  have IH: "field_name_copy (raw_text parts) = Some (bare_text parts)" using Cons by simp
  show ?case
  proof (cases parts)
    case Nil
    then show ?thesis using field_name_copy_raw [OF x, of "[]"] field_name_copy_plain [OF x(2), of "[]"] p
      by (simp add: raw_text_def bare_text_def)
  next
    case (Cons q qs)
    let ?r = "CHR ''.'' # raw_text parts"
    have "raw_text (p # parts) = (if raw then ''r#'' else []) @ x @ ?r" "bare_text (p # parts) = x @ CHR ''.'' # bare_text parts"
      using Cons p by (simp_all add: raw_text_def bare_text_def)
    moreover have "field_name_copy ?r = Some (CHR ''.'' # bare_text parts)" using IH by simp
    ultimately show ?thesis
      using field_name_copy_raw [OF x, of ?r] field_name_copy_plain [OF x(2), of ?r] by simp
  qed
qed (simp add: raw_text_def bare_text_def)

lemma field_name_len_text:
  "\<forall>(raw, x) \<in> set parts. x \<noteq> [] \<and> CHR ''#'' \<notin> set x \<Longrightarrow> field_name_len (raw_text parts) = Some (length (bare_text parts))"
proof -
  let ?h = "\<lambda>s. length (filter (\<lambda>c. c = CHR ''#'') s)"
  assume "\<forall>(raw, x) \<in> set parts. x \<noteq> [] \<and> CHR ''#'' \<notin> set x"
  then have "length (raw_text parts) = length (bare_text parts) + 2 * ?h (raw_text parts)"
  proof (induction parts)
    case (Cons p parts)
    obtain raw x where p: "p = (raw, x)" by fastforce
    have "?h x = 0" using Cons.prems p by (auto simp: filter_empty_conv)
    with Cons p show ?case by (cases parts) (auto simp: raw_text_def bare_text_def)
  qed (simp add: raw_text_def bare_text_def)
  then show ?thesis by (simp add: field_name_len_def Let_def)
qed

text \<open>
  The name of a field is computed without a compile error and is the text of the field without the
  prefixes: the length that \<open>len\<close> predicts is the one that \<open>new\<close> asserts.
\<close>

theorem field_name_roundtrip:
  assumes "\<forall>(raw, x) \<in> set parts. x \<noteq> [] \<and> CHR ''#'' \<notin> set x"
  shows "\<exists>n. field_name_len (raw_text parts) = Some n \<and> field_name_new n (raw_text parts) = Some (bare_text parts)"
  using field_name_copy_text [OF assms] field_name_len_text [OF assms] by (simp add: field_name_new_def)

end
