(* ===== verification/Span_Stack.thy ===== *)
theory Span_Stack
  imports Span_Event
begin

text \<open>
  The stack of spans a thread is executing: \<open>tracing-subscriber/src/registry/stack.rs\<close>. A span may
  be entered again while it is on the stack, and exits need not come in the reverse order of entries.
\<close>

record context_id =
  ctx_id :: span_id
  ctx_duplicate :: bool

type_synonym span_stack = "context_id list"

definition stack_push :: "span_id \<Rightarrow> span_stack \<Rightarrow> span_stack" where
  "stack_push i s =
     (let duplicate = list_ex (\<lambda>c. ctx_id c = i) s
      in s @ [\<lparr>ctx_id = i, ctx_duplicate = duplicate\<rparr>])"

text \<open>The index \<open>iter().enumerate().rev().find(..)\<close> returns: the last position that matches.\<close>

fun rposition :: "('a \<Rightarrow> bool) \<Rightarrow> 'a list \<Rightarrow> nat option" where
  "rposition P [] = None"
| "rposition P (x # xs) =
     (case rposition P xs of
        Some i \<Rightarrow> Some (Suc i)
      | None \<Rightarrow> if P x then Some 0 else None)"

definition vec_remove :: "nat \<Rightarrow> 'a list \<Rightarrow> 'a list" where
  "vec_remove i xs = take i xs @ drop (Suc i) xs"

definition stack_pop :: "span_id \<Rightarrow> span_stack \<Rightarrow> bool \<times> span_stack" where
  "stack_pop expected_id s =
     (case rposition (\<lambda>c. ctx_id c = expected_id) s of
        Some idx \<Rightarrow> (\<not> ctx_duplicate (s ! idx), vec_remove idx s)
      | None \<Rightarrow> (False, s))"

definition stack_iter :: "span_stack \<Rightarrow> span_id list" where
  "stack_iter s = map ctx_id (filter (\<lambda>c. \<not> ctx_duplicate c) (rev s))"

definition stack_current :: "span_stack \<Rightarrow> span_id option" where
  "stack_current s = (case stack_iter s of [] \<Rightarrow> None | i # _ \<Rightarrow> Some i)"

subsection \<open>Abstraction: the sequence of entered spans\<close>

definition entered :: "span_stack \<Rightarrow> span_id list" where
  "entered s = map ctx_id s"

text \<open>An entry is a duplicate exactly when the span was already on the stack below it.\<close>

definition stack_ok :: "span_stack \<Rightarrow> bool" where
  "stack_ok s \<longleftrightarrow> (\<forall>k < length s. ctx_duplicate (s ! k) \<longleftrightarrow> ctx_id (s ! k) \<in> set (take k (entered s)))"

fun remove_last :: "'a \<Rightarrow> 'a list \<Rightarrow> 'a list" where
  "remove_last a [] = []"
| "remove_last a (x # xs) = (if a \<in> set xs then x # remove_last a xs else if x = a then xs else x # xs)"

fun first_occurrences :: "'a list \<Rightarrow> 'a list" where
  "first_occurrences [] = []"
| "first_occurrences (x # xs) = x # filter (\<lambda>y. y \<noteq> x) (first_occurrences xs)"

lemma rposition_None: "rposition P xs = None \<longleftrightarrow> (\<forall>x \<in> set xs. \<not> P x)"
  by (induction xs) (auto split: option.splits)

lemma rposition_Some:
  "rposition P xs = Some i \<Longrightarrow> i < length xs \<and> P (xs ! i) \<and> (\<forall>j < length xs. i < j \<longrightarrow> \<not> P (xs ! j))"
proof (induction xs arbitrary: i)
  case (Cons x xs)
  show ?case
  proof (cases "rposition P xs")
    case None
    with Cons.prems have "i = 0" "P x" by (auto split: if_splits)
    moreover have "\<not> P (xs ! j)" if "j < length xs" for j
      using None that by (simp add: rposition_None)
    ultimately show ?thesis by (auto simp: nth_Cons')
  next
    case (Some j)
    with Cons show ?thesis by (auto simp: nth_Cons split: nat.splits)
  qed
qed simp

lemma rposition_snoc: "rposition P (xs @ [x]) = (if P x then Some (length xs) else rposition P xs)"
  by (induction xs) (auto split: option.splits)

lemma remove_last_vec_remove:
  "rposition (\<lambda>c. c = a) xs = Some i \<Longrightarrow> vec_remove i xs = remove_last a xs"
proof (induction xs arbitrary: i)
  case (Cons x xs)
  show ?case
  proof (cases "rposition (\<lambda>c. c = a) xs")
    case None
    with Cons.prems show ?thesis by (auto simp: rposition_None vec_remove_def split: if_splits)
  next
    case (Some j)
    then have "a \<in> set xs" using rposition_Some [OF Some] by (auto simp: in_set_conv_nth)
    with Cons Some show ?thesis by (auto simp: vec_remove_def)
  qed
qed simp

lemma rposition_map: "rposition (\<lambda>c. f c = a) xs = rposition (\<lambda>c. c = a) (map f xs)"
  by (induction xs) auto

lemma first_occurrences_snoc:
  "first_occurrences (xs @ [a]) = first_occurrences xs @ (if a \<in> set xs then [] else [a])"
  by (induction xs) auto

lemma set_first_occurrences [simp]: "set (first_occurrences xs) = set xs"
  by (induction xs) auto

lemma distinct_first_occurrences: "distinct (first_occurrences xs)"
  by (induction xs) auto

lemma stack_ok_snoc:
  "stack_ok (s @ [c]) \<longleftrightarrow> stack_ok s \<and> (ctx_duplicate c \<longleftrightarrow> ctx_id c \<in> set (entered s))"
  by (auto simp: stack_ok_def entered_def nth_append less_Suc_eq)

lemma stack_ok_Nil [simp]: "stack_ok []"
  by (simp add: stack_ok_def)

lemma entered_simps [simp]: "entered [] = []" "entered (s @ [c]) = entered s @ [ctx_id c]"
  by (simp_all add: entered_def)

lemma stack_push_ok: "stack_ok s \<Longrightarrow> stack_ok (stack_push i s)"
  by (auto simp: stack_push_def stack_ok_snoc entered_def list_ex_iff Let_def)

lemma entered_push: "entered (stack_push i s) = entered s @ [i]"
  by (simp add: stack_push_def Let_def)

lemma stack_iter_eq: "stack_ok s \<Longrightarrow> stack_iter s = rev (first_occurrences (entered s))"
proof (induction s rule: rev_induct)
  case (snoc c s)
  then show ?case by (auto simp: stack_iter_def stack_ok_snoc first_occurrences_snoc)
qed (simp add: stack_iter_def)

text \<open>Removing the last entry for a span leaves the flags of the others right.\<close>

lemma stack_ok_vec_remove:
  assumes ok: "stack_ok s" and pos: "rposition (\<lambda>c. ctx_id c = a) s = Some i"
  shows "stack_ok (vec_remove i s)"
  using assms
proof (induction s arbitrary: i rule: rev_induct)
  case (snoc c s)
  show ?case
  proof (cases "ctx_id c = a")
    case True
    then have "rposition (\<lambda>c. ctx_id c = a) (s @ [c]) = Some (length s)"
      by (simp add: rposition_snoc)
    with snoc.prems show ?thesis by (simp add: vec_remove_def stack_ok_snoc)
  next
    case False
    have pos: "rposition (\<lambda>c. ctx_id c = a) s = Some i"
      using snoc.prems(2) False by (simp add: rposition_snoc)
    then have i: "i < length s" using rposition_Some by fast
    have "ctx_id c \<in> set (entered (vec_remove i s)) \<longleftrightarrow> ctx_id c \<in> set (entered s)"
    proof -
      have "ctx_id (s ! i) = a" using rposition_Some [OF pos] by blast
      moreover have "set (entered s) = insert (ctx_id (s ! i)) (set (entered (vec_remove i s)))"
        using arg_cong [OF id_take_nth_drop [OF i], of "\<lambda>s. set (entered s)"]
        by (simp add: entered_def vec_remove_def)
      ultimately show ?thesis using False by auto
    qed
    moreover have "vec_remove i (s @ [c]) = vec_remove i s @ [c]"
      using i by (simp add: vec_remove_def)
    ultimately show ?thesis
      using snoc.IH [OF _ pos] snoc.prems(1) by (simp add: stack_ok_snoc)
  qed
qed simp

lemma stack_pop_present:
  assumes ok: "stack_ok s" and "a \<in> set (entered s)"
  shows "stack_pop a s = (count_list (entered s) a = 1, snd (stack_pop a s))"
    and "entered (snd (stack_pop a s)) = remove_last a (entered s)"
    and "stack_ok (snd (stack_pop a s))"
proof -
  obtain i where pos: "rposition (\<lambda>c. ctx_id c = a) s = Some i"
    using assms(2) by (cases "rposition (\<lambda>c. ctx_id c = a) s") (auto simp: rposition_None entered_def)
  note at = rposition_Some [OF pos]
  have dup: "ctx_duplicate (s ! i) \<longleftrightarrow> a \<in> set (take i (entered s))"
    using ok at by (auto simp: stack_ok_def)
  have split: "entered s = take i (entered s) @ a # drop (Suc i) (entered s)"
    using at id_take_nth_drop [of i "entered s"] by (simp add: entered_def)
  have "a \<notin> set (drop (Suc i) (entered s))"
    using at by (auto simp: in_set_conv_nth entered_def)
  then have "count_list (take i (entered s) @ a # drop (Suc i) (entered s)) a =
      Suc (count_list (take i (entered s)) a)"
    by simp
  then have "count_list (entered s) a = Suc (count_list (take i (entered s)) a)"
    unfolding split [symmetric] .
  then show "stack_pop a s = (count_list (entered s) a = 1, snd (stack_pop a s))"
    using pos dup by (simp add: stack_pop_def count_list_0_iff)
  have "rposition (\<lambda>c. c = a) (entered s) = Some i"
    using pos rposition_map [of ctx_id a s] by (simp add: entered_def)
  from remove_last_vec_remove [OF this]
  show "entered (snd (stack_pop a s)) = remove_last a (entered s)"
    using pos by (simp add: stack_pop_def entered_def vec_remove_def take_map drop_map)
  show "stack_ok (snd (stack_pop a s))"
    using stack_ok_vec_remove [OF ok pos] pos by (simp add: stack_pop_def)
qed

lemma span_stack_correct_facts:
  assumes "stack_ok s"
  shows "stack_ok (stack_push i s)" and "entered (stack_push i s) = entered s @ [i]"
    and "stack_ok (snd (stack_pop i s))"
    and "entered (snd (stack_pop i s)) = remove_last i (entered s)"
    and "fst (stack_pop i s) \<longleftrightarrow> count_list (entered s) i = 1"
    and "stack_iter s = rev (first_occurrences (entered s))"
    and "distinct (stack_iter s)" and "set (stack_iter s) = set (entered s)"
proof -
  show "stack_ok (stack_push i s)" and "entered (stack_push i s) = entered s @ [i]"
    using assms by (simp_all add: stack_push_ok entered_push)
  show "stack_iter s = rev (first_occurrences (entered s))" "distinct (stack_iter s)"
    "set (stack_iter s) = set (entered s)"
    using assms by (simp_all add: stack_iter_eq distinct_first_occurrences)
  have absent: "stack_pop i s = (False, s)" "remove_last i (entered s) = entered s"
    if "i \<notin> set (entered s)"
  proof -
    have "rposition (\<lambda>c. ctx_id c = i) s = None" using that by (auto simp: rposition_None entered_def)
    then show "stack_pop i s = (False, s)" by (simp add: stack_pop_def)
    have "j \<notin> set xs \<Longrightarrow> remove_last j xs = xs" for j :: span_id and xs by (induction xs) auto
    then show "remove_last i (entered s) = entered s" using that .
  qed
  show "stack_ok (snd (stack_pop i s))"
    and "entered (snd (stack_pop i s)) = remove_last i (entered s)"
    and "fst (stack_pop i s) \<longleftrightarrow> count_list (entered s) i = 1"
    using assms stack_pop_present [OF assms, of i] absent
    by (cases "i \<in> set (entered s)"; simp add: prod_eq_iff)+
qed

text \<open>
  C32. The span stack behaves as the sequence of entered spans: entering appends, exiting removes the
  most recent entry of that span wherever it is, and reports true exactly when the span is then no
  longer on the stack. Iterating yields every entered span once, the most recently first-entered
  one first. The invariant on the duplicate flags, on which this rests, holds from the empty stack
  on.
\<close>

theorem span_stack_correct:
  assumes "stack_ok s"
  shows "(stack_ok (stack_push i s)) \<and>
      (entered (stack_push i s) = entered s @ [i]) \<and>
      (stack_ok (snd (stack_pop i s))) \<and>
      (entered (snd (stack_pop i s)) = remove_last i (entered s)) \<and>
      (fst (stack_pop i s) \<longleftrightarrow> count_list (entered s) i = 1) \<and>
      (stack_iter s = rev (first_occurrences (entered s))) \<and>
      (distinct (stack_iter s)) \<and>
      (set (stack_iter s) = set (entered s))"
  using span_stack_correct_facts [OF assms] by blast

theorem span_stack_correct_witness:
  "stack_iter (stack_push 1 (stack_push 2 (stack_push 1 []))) = [2, 1] \<and>
   \<not> fst (stack_pop 1 (stack_push 1 (stack_push 2 (stack_push 1 []))))"
proof -
  have ok: "stack_ok (stack_push 1 (stack_push 2 (stack_push 1 [])))"
    by (intro stack_push_ok) simp
  show ?thesis
    using span_stack_correct [OF ok, of 1]
    by (simp add: entered_push)
qed

end
