(* ===== verification/Filter_Map.thy ===== *)
theory Filter_Map
  imports Subscriber
begin

text \<open>
  Per-layer filter identifiers and the thread's filtering state:
  \<open>FilterId\<close>, \<open>FilterMap\<close> and \<open>FilterState\<close> of
  \<open>tracing-subscriber/src/filter/layer_filters/mod.rs\<close>.

  A filter id is a mask of 64 bits, one bit per filter; a filter map holds a one for every filter
  that disabled the span or event. \<open>FILTERING\<close> is thread local, so the state of one thread is
  modelled. The debug counters, which only exist under \<open>debug_assertions\<close>, are left out; what
  they assert, that a finished pass leaves the map empty, is proved in \<open>Layered\<close>.
\<close>

type_synonym filter_id = u64

record filter_map =
  fm_bits :: u64

definition filter_map_new :: filter_map where
  "filter_map_new = \<lparr>fm_bits = 0\<rparr>"

definition filter_id_disabled :: filter_id where
  "filter_id_disabled = - 1"

definition filter_id_none :: filter_id where
  "filter_id_none = 0"

text \<open>\<open>None\<close> is the panic of the assertion.\<close>

definition filter_id_new :: "u8 \<Rightarrow> filter_id option" where
  "filter_id_new i = (if i < 64 then Some (push_bit (unat i) 1) else None)"

definition filter_id_and :: "filter_id \<Rightarrow> filter_id \<Rightarrow> filter_id" where
  "filter_id_and self other = (if self = filter_id_disabled then other else self OR other)"

definition filter_id_is_disabled :: "filter_id \<Rightarrow> bool" where
  "filter_id_is_disabled i = (i = filter_id_disabled)"

definition filter_map_set :: "filter_map \<Rightarrow> filter_id \<Rightarrow> bool \<Rightarrow> filter_map" where
  "filter_map_set m msk enabled =
     (if msk = - 1 then m
      else if enabled then \<lparr>fm_bits = fm_bits m AND NOT msk\<rparr>
      else \<lparr>fm_bits = fm_bits m OR msk\<rparr>)"

definition filter_map_is_enabled :: "filter_map \<Rightarrow> filter_id \<Rightarrow> bool" where
  "filter_map_is_enabled m msk = (fm_bits m AND msk = 0)"

definition any_enabled :: "filter_map \<Rightarrow> bool" where
  "any_enabled m = (fm_bits m \<noteq> - 1)"

text \<open>The entries \<open>Debug for FmtBitset\<close> prints.\<close>

definition fmt_bitset :: "u64 \<Rightarrow> nat list" where
  "fmt_bitset w = filter (\<lambda>b. w AND push_bit b 1 \<noteq> 0) [0..<64]"

subsection \<open>The filtering state of a thread\<close>

record filter_state =
  fst_enabled :: filter_map
  fst_interest :: "interest option"

definition filter_state_new :: filter_state where
  "filter_state_new = \<lparr>fst_enabled = filter_map_new, fst_interest = None\<rparr>"

definition fstate_set :: "filter_id \<Rightarrow> bool \<Rightarrow> filter_state \<Rightarrow> filter_state" where
  "fstate_set i enabled s = s\<lparr>fst_enabled := filter_map_set (fst_enabled s) i enabled\<rparr>"

definition add_interest :: "interest \<Rightarrow> filter_state \<Rightarrow> filter_state" where
  "add_interest i s =
     (case fst_interest s of
        Some cur \<Rightarrow>
          if cur = Always \<and> i \<noteq> Always \<or> cur = Never \<and> i \<noteq> Never
          then s\<lparr>fst_interest := Some Sometimes\<rparr> else s
      | None \<Rightarrow> s\<lparr>fst_interest := Some i\<rparr>)"

definition fstate_event_enabled :: "filter_state \<Rightarrow> bool" where
  "fstate_event_enabled s = any_enabled (fst_enabled s)"

text \<open>
  \<open>did_enable\<close> runs a callback, which may use the filtering state of the thread itself: the
  callback is a function on a whole state from which the filtering state is read with \<open>get\<close> and
  written with \<open>put\<close>.
\<close>

definition did_enable ::
  "('s \<Rightarrow> filter_state) \<Rightarrow> (filter_state \<Rightarrow> 's \<Rightarrow> 's) \<Rightarrow> filter_id \<Rightarrow> ('s \<Rightarrow> 's) \<Rightarrow> 's \<Rightarrow> 's" where
  "did_enable get put i f s =
     (let map = fst_enabled (get s) in
      if filter_map_is_enabled map i then f s
      else put ((get s)\<lparr>fst_enabled := filter_map_set map i True\<rparr>) s)"

definition fstate_and :: "filter_id \<Rightarrow> bool \<Rightarrow> filter_state \<Rightarrow> bool \<times> filter_state" where
  "fstate_and i f s =
     (let map = fst_enabled s;
          enabled = filter_map_is_enabled map i \<and> f
      in (enabled, s\<lparr>fst_enabled := filter_map_set map i enabled\<rparr>))"

definition clear_enabled :: "filter_state \<Rightarrow> filter_state" where
  "clear_enabled s = s\<lparr>fst_enabled := filter_map_new\<rparr>"

definition take_interest :: "filter_state \<Rightarrow> interest option \<times> filter_state" where
  "take_interest s = (fst_interest s, s\<lparr>fst_interest := None\<rparr>)"

subsection \<open>The bits\<close>

text \<open>The ids the registry hands out: one bit each.\<close>

definition nth_id :: "nat \<Rightarrow> filter_id" where
  "nth_id n = push_bit n 1"

lemma filter_id_new_eq: "unat i < 64 \<Longrightarrow> filter_id_new i = Some (nth_id (unat i))"
  by (simp add: filter_id_new_def nth_id_def word_less_nat_alt)

lemma bit_nth_id [simp]: "bit (nth_id n) k \<longleftrightarrow> k = n \<and> n < 64"
  by (auto simp: nth_id_def bit_simps)

lemma nth_id_not_max [simp]: "nth_id n \<noteq> - 1"
proof
  assume "nth_id n = - 1"
  then have "bit (nth_id n) 0" "bit (nth_id n) 1" by simp_all
  then show False by simp
qed

lemma is_enabled_nth_id: "n < 64 \<Longrightarrow> filter_map_is_enabled m (nth_id n) \<longleftrightarrow> \<not> bit (fm_bits m) n"
proof -
  assume n: "n < 64"
  have "fm_bits m AND nth_id n = 0 \<longleftrightarrow> (\<forall>k < 64. \<not> (bit (fm_bits m) k \<and> k = n))"
  proof
    assume "fm_bits m AND nth_id n = 0"
    then have "\<not> bit (fm_bits m AND nth_id n) k" for k by simp
    then show "\<forall>k < 64. \<not> (bit (fm_bits m) k \<and> k = n)" using n by (simp add: bit_and_iff)
  next
    assume "\<forall>k < 64. \<not> (bit (fm_bits m) k \<and> k = n)"
    then show "fm_bits m AND nth_id n = 0" by (intro bit_word_eqI) (auto simp: bit_and_iff)
  qed
  with n show ?thesis by (auto simp: filter_map_is_enabled_def)
qed

lemma bit_set_nth_id:
  "n < 64 \<Longrightarrow> bit (fm_bits (filter_map_set m (nth_id n) e)) k \<longleftrightarrow>
     k < 64 \<and> (if k = n then \<not> e else bit (fm_bits m) k)"
  using bit_imp_le_length [of "fm_bits m" k]
  by (auto simp: filter_map_set_def bit_simps)

lemma filter_map_eqI: "(\<And>k. k < 64 \<Longrightarrow> bit (fm_bits a) k = bit (fm_bits b) k) \<Longrightarrow> a = (b :: filter_map)"
  by (cases a, cases b) (auto intro: bit_word_eqI)

lemma bit_filter_map_new [simp]: "\<not> bit (fm_bits filter_map_new) k"
  by (simp add: filter_map_new_def)

text \<open>Querying a combined id asks every filter that it is made of.\<close>

lemma is_enabled_and:
  "a \<noteq> filter_id_disabled \<Longrightarrow>
   filter_map_is_enabled m (filter_id_and a b) \<longleftrightarrow>
     filter_map_is_enabled m a \<and> filter_map_is_enabled m b"
  by (auto simp: filter_map_is_enabled_def filter_id_and_def bit_eq_iff bit_simps)

lemma any_enabled_iff: "any_enabled m \<longleftrightarrow> (\<exists>k < 64. \<not> bit (fm_bits m) k)"
  by (auto simp: any_enabled_def bit_eq_iff)

lemma filter_map_is_a_set_facts:
  assumes "i < 64" and "j < 64"
  shows "filter_map_is_enabled (filter_map_set m (nth_id i) e) (nth_id j) \<longleftrightarrow>
      (if i = j then e else filter_map_is_enabled m (nth_id j))"
    and "filter_map_is_enabled m (filter_id_and (nth_id i) (nth_id j)) \<longleftrightarrow>
      filter_map_is_enabled m (nth_id i) \<and> filter_map_is_enabled m (nth_id j)"
    and "filter_map_set m filter_id_disabled e = m"
    and "filter_id_and filter_id_disabled (nth_id i) = nth_id i"
proof -
  show "filter_map_is_enabled (filter_map_set m (nth_id i) e) (nth_id j) \<longleftrightarrow>
      (if i = j then e else filter_map_is_enabled m (nth_id j))"
    using assms by (auto simp: is_enabled_nth_id bit_set_nth_id)
  show "filter_map_is_enabled m (filter_id_and (nth_id i) (nth_id j)) \<longleftrightarrow>
      filter_map_is_enabled m (nth_id i) \<and> filter_map_is_enabled m (nth_id j)"
    by (rule is_enabled_and) (simp add: filter_id_disabled_def)
  show "filter_map_set m filter_id_disabled e = m"
    by (simp add: filter_map_set_def filter_id_disabled_def)
  show "filter_id_and filter_id_disabled (nth_id i) = nth_id i"
    by (simp add: filter_id_and_def)
qed

text \<open>
  A filter map is a set of up to 64 filters: setting the bit of one filter changes the answer
  for that filter and for no other, and an id that a nested filter combined from two masks is
  enabled exactly when both filters enabled the span. The id of a filter that was never registered
  changes nothing.
\<close>

theorem filter_map_is_a_set:
  assumes "i < 64" and "j < 64"
  shows "(filter_map_is_enabled (filter_map_set m (nth_id i) e) (nth_id j) \<longleftrightarrow>
      (if i = j then e else filter_map_is_enabled m (nth_id j))) \<and>
      (filter_map_is_enabled m (filter_id_and (nth_id i) (nth_id j)) \<longleftrightarrow>
      filter_map_is_enabled m (nth_id i) \<and> filter_map_is_enabled m (nth_id j)) \<and>
      (filter_map_set m filter_id_disabled e = m) \<and>
      (filter_id_and filter_id_disabled (nth_id i) = nth_id i)"
  using filter_map_is_a_set_facts [OF assms] by blast

theorem filter_map_is_a_set_witness:
  "\<not> filter_map_is_enabled (filter_map_set filter_map_new (nth_id 63) False) (nth_id 63) \<and>
   filter_map_is_enabled (filter_map_set filter_map_new (nth_id 63) False) (nth_id 0)"
  using filter_map_is_a_set [of 63 63 filter_map_new False] filter_map_is_a_set [of 63 0 filter_map_new False]
  by (simp add: is_enabled_nth_id)

lemma all_disabled_not_detected_facts:
  assumes "n < 64"
  shows "any_enabled (fold (\<lambda>i m. filter_map_set m (nth_id i) False) [0..<n] filter_map_new)"
    and "\<not> any_enabled (fold (\<lambda>i m. filter_map_set m (nth_id i) False) [0..<64] filter_map_new)"
proof -
  have bits: "bit (fm_bits (fold (\<lambda>i m. filter_map_set m (nth_id i) False) [0..<k] filter_map_new)) j \<longleftrightarrow>
      j < k" if "k \<le> 64" for k j
    using that
  proof (induction k)
    case (Suc k)
    then have "k < 64" and IH: "bit (fm_bits (fold (\<lambda>i m. filter_map_set m (nth_id i) False) [0..<k]
        filter_map_new)) j \<longleftrightarrow> j < k" by simp_all
    then show ?case by (simp add: bit_set_nth_id) linarith
  qed simp
  show "any_enabled (fold (\<lambda>i m. filter_map_set m (nth_id i) False) [0..<n] filter_map_new)"
    unfolding any_enabled_iff using assms bits [OF less_imp_le [OF assms]] by blast
  show "\<not> any_enabled (fold (\<lambda>i m. filter_map_set m (nth_id i) False) [0..<64] filter_map_new)"
    unfolding any_enabled_iff using bits [OF order_refl] by blast
qed

text \<open>
  The registry can only tell that every filter disabled an event when all 64 filters exist: with
  any smaller number of registered filters the map of a pass in which each of them disabled the
  event still counts as enabled, so the short circuit that \<open>FilterState\<close>'s documentation describes
  (\<open>enabled\<close> of the registry returns false) never happens.
\<close>

theorem all_disabled_not_detected:
  assumes "n < 64"
  shows "(any_enabled (fold (\<lambda>i m. filter_map_set m (nth_id i) False) [0..<n] filter_map_new)) \<and>
      (\<not> any_enabled (fold (\<lambda>i m. filter_map_set m (nth_id i) False) [0..<64] filter_map_new))"
  using all_disabled_not_detected_facts [OF assms] by blast

theorem all_disabled_not_detected_witness:
  "any_enabled (filter_map_set filter_map_new (nth_id 0) False)"
  using all_disabled_not_detected [of 1] by simp

text \<open>The interests of the filters of one pass, combined.\<close>

lemma add_interest_Some:
  "fst_interest s = Some c \<Longrightarrow> fst_interest (add_interest i s) = Some (if i = c then c else Sometimes)"
  by (cases c; cases i) (auto simp: add_interest_def)

lemma fold_add_interest_Some:
  "fst_interest s = Some c \<Longrightarrow>
   fst_interest (fold add_interest js s) = Some (if \<forall>i \<in> set js. i = c then c else Sometimes)"
proof (induction "js" arbitrary: s c)
  case (Cons i js')
  show ?case using Cons.IH [OF add_interest_Some [OF Cons.prems, of i]] by auto
qed simp

text \<open>Interests of a pass: unanimous, or \<open>Sometimes\<close>.\<close>

lemma fold_add_interest:
  "fst_interest s = None \<Longrightarrow> js \<noteq> [] \<Longrightarrow>
   fst_interest (fold add_interest js s) = Some (if \<forall>i \<in> set js. i = hd js then hd js else Sometimes)"
  by (cases "js") (auto simp: add_interest_def [of _ s] fold_add_interest_Some)

end
