(* ===== verification/Registry.thy ===== *)
theory Registry
  imports Span_Stack Filter_Map
begin

text \<open>
  The span registry: \<open>tracing-subscriber/src/registry/sharded.rs\<close> and \<open>extensions.rs\<close>, with the part
  of \<open>layer/layered.rs\<close> that closes a span through a stack of layers.

  The slab \<open>sharded_slab::Pool\<close> is a third-party container: the model keeps the occupied slots as
  an association list and takes the slot that \<open>create_with\<close> picks from the parameter \<open>alloc\<close>; the
  theorems that need it assume that the slot it picks is free, as the slab documents. Span ids are the slot
  index plus one. \<open>None\<close> as the result of an operation is a panic. The registry is shared by threads,
  and each operation is modelled as one atomic step of the thread \<open>t\<close>.
\<close>

type_synonym type_id = nat

text \<open>
  A \<open>Box<dyn Any>\<close>: the formatted fields and the timings of the \<open>fmt\<close> layer, the encoded fields of the
  journald layer, or a value of another type that the registry's clients define.
\<close>

datatype ext_value =
    ExtFields (ext_was_ansi: bool) (ext_was_sanitized: bool) (ext_fields: string)
  | ExtTimings (ext_idle: u64) (ext_busy: u64) (ext_last: nat) (ext_entered: u64)
  | ExtBytes (ext_bytes: string)
  | ExtOther nat

subsection \<open>Extensions\<close>

type_synonym extensions = "type_id \<rightharpoonup> ext_value"

definition ext_insert :: "type_id \<Rightarrow> ext_value \<Rightarrow> extensions \<Rightarrow> ext_value option \<times> extensions" where
  "ext_insert ty val e = (e ty, e(ty \<mapsto> val))"

definition ext_get :: "type_id \<Rightarrow> extensions \<Rightarrow> ext_value option" where
  "ext_get ty e = e ty"

definition ext_remove :: "type_id \<Rightarrow> extensions \<Rightarrow> ext_value option \<times> extensions" where
  "ext_remove ty e = (e ty, e(ty := None))"

definition ext_clear :: "extensions \<Rightarrow> extensions" where
  "ext_clear e = Map.empty"

definition ext_mut_replace :: "type_id \<Rightarrow> ext_value \<Rightarrow> extensions \<Rightarrow> ext_value option \<times> extensions" where
  "ext_mut_replace ty val e = ext_insert ty val e"

text \<open>\<open>ExtensionsMut::insert\<close> asserts that there was no value of the type.\<close>

definition ext_mut_insert :: "type_id \<Rightarrow> ext_value \<Rightarrow> extensions \<Rightarrow> extensions option" where
  "ext_mut_insert ty val e =
     (case ext_mut_replace ty val e of (None, e1) \<Rightarrow> Some e1 | (Some _, _) \<Rightarrow> None)"

subsection \<open>Data\<close>

record span_data =
  dat_filter_map :: filter_map
  dat_metadata :: metadata
  dat_parent :: "span_id option"
  dat_ref_count :: u64
  dat_extensions :: extensions

type_synonym pool = "(u64 \<times> span_data) list"

text \<open>\<open>reg_closed\<close> records the \<open>on_close\<close> calls: the layer, the span, and whether its data was still there.\<close>

record registry =
  reg_spans :: pool
  reg_current_spans :: "thread \<Rightarrow> span_stack"
  reg_next_filter_id :: u8
  reg_close_count :: "thread \<Rightarrow> u64"
  reg_closed :: "(nat \<times> span_id \<times> bool) list"

definition registry_default :: registry where
  "registry_default =
     \<lparr>reg_spans = [], reg_current_spans = (\<lambda>_. []), reg_next_filter_id = 0,
      reg_close_count = (\<lambda>_. 0), reg_closed = []\<rparr>"

definition idx_to_id :: "u64 \<Rightarrow> span_id option" where
  "idx_to_id idx = id_from_u64 (idx + 1)"

definition id_to_idx :: "span_id \<Rightarrow> u64" where
  "id_to_idx i = id_into_u64 i - 1"

definition pool_update :: "u64 \<Rightarrow> (span_data \<Rightarrow> span_data) \<Rightarrow> pool \<Rightarrow> pool" where
  "pool_update i f p = map (\<lambda>(k, d). (k, if k = i then f d else d)) p"

definition pool_remove :: "u64 \<Rightarrow> pool \<Rightarrow> pool" where
  "pool_remove i p = filter (\<lambda>(k, d). k \<noteq> i) p"

definition registry_get :: "span_id \<Rightarrow> registry \<Rightarrow> span_data option" where
  "registry_get i r = map_of (reg_spans r) (id_to_idx i)"

definition start_close :: "thread \<Rightarrow> registry \<Rightarrow> registry" where
  "start_close t r = r\<lparr>reg_close_count := (reg_close_count r)(t := reg_close_count r t + 1)\<rparr>"

definition has_per_layer_filters :: "registry \<Rightarrow> bool" where
  "has_per_layer_filters r = (0 < reg_next_filter_id r)"

definition register_filter :: "registry \<Rightarrow> (filter_id \<times> registry) option" where
  "register_filter r =
     map_option (\<lambda>i. (i, r\<lparr>reg_next_filter_id := reg_next_filter_id r + 1\<rparr>))
       (filter_id_new (reg_next_filter_id r))"

subsection \<open>\<open>impl Subscriber for Registry\<close>\<close>

definition registry_register_callsite :: "registry \<Rightarrow> filter_state \<Rightarrow> interest \<times> filter_state" where
  "registry_register_callsite r fs =
     (if has_per_layer_filters r then
        (let (i, fs1) = take_interest fs in (case i of Some i \<Rightarrow> i | None \<Rightarrow> Always, fs1))
      else (Always, fs))"

definition registry_enabled :: "registry \<Rightarrow> filter_state \<Rightarrow> bool" where
  "registry_enabled r fs = (if has_per_layer_filters r then fstate_event_enabled fs else True)"

definition registry_event_enabled :: "registry \<Rightarrow> filter_state \<Rightarrow> bool" where
  "registry_event_enabled r fs = (if has_per_layer_filters r then fstate_event_enabled fs else True)"

definition registry_clone_span :: "span_id \<Rightarrow> registry \<Rightarrow> (span_id \<times> registry) option" where
  "registry_clone_span i r =
     (case registry_get i r of
        None \<Rightarrow> None
      | Some d \<Rightarrow>
          (let r1 = r\<lparr>reg_spans := pool_update (id_to_idx i)
                       (\<lambda>d. d\<lparr>dat_ref_count := dat_ref_count d + 1\<rparr>) (reg_spans r)\<rparr>
           in if dat_ref_count d = 0 then None else Some (i, r1)))"

definition registry_current_span :: "thread \<Rightarrow> registry \<Rightarrow> current_inner" where
  "registry_current_span t r =
     (case stack_current (reg_current_spans r t) of
        None \<Rightarrow> CurrentNone
      | Some i \<Rightarrow>
          (case registry_get i r of
             None \<Rightarrow> CurrentNone
           | Some d \<Rightarrow> CurrentSpan i (dat_metadata d)))"

definition new_span_parent ::
  "thread \<Rightarrow> 'f attributes \<Rightarrow> registry \<Rightarrow> (span_id option \<times> registry) option" where
  "new_span_parent t attrs r =
     (let clone_opt = (\<lambda>p. case p of
            None \<Rightarrow> Some (None, r)
          | Some i \<Rightarrow> map_option (\<lambda>(j, r1). (Some j, r1)) (registry_clone_span i r))
      in if parent_is_root (attr_parent attrs) then Some (None, r)
         else if parent_is_contextual (attr_parent attrs)
         then clone_opt (current_id (registry_current_span t r))
         else clone_opt (parent_id (attr_parent attrs)))"

definition registry_new_span ::
  "(pool \<Rightarrow> u64 option) \<Rightarrow> thread \<Rightarrow> filter_state \<Rightarrow> 'f attributes \<Rightarrow> registry \<Rightarrow>
   (span_id \<times> registry) option" where
  "registry_new_span alloc t fs attrs r =
     (case new_span_parent t attrs r of
        None \<Rightarrow> None
      | Some (p, r1) \<Rightarrow>
          (case alloc (reg_spans r1) of
             None \<Rightarrow> None
           | Some idx \<Rightarrow>
               map_option
                 (\<lambda>i. (i, r1\<lparr>reg_spans :=
                    (idx, \<lparr>dat_filter_map = fst_enabled fs, dat_metadata = attr_metadata attrs,
                           dat_parent = p, dat_ref_count = 1, dat_extensions = Map.empty\<rparr>)
                    # reg_spans r1\<rparr>))
                 (idx_to_id idx)))"

definition registry_enter :: "thread \<Rightarrow> span_id \<Rightarrow> registry \<Rightarrow> registry" where
  "registry_enter t i r =
     r\<lparr>reg_current_spans := (reg_current_spans r)(t := stack_push i (reg_current_spans r t))\<rparr>"

definition registry_exit :: "thread \<Rightarrow> span_id \<Rightarrow> registry \<Rightarrow> registry" where
  "registry_exit t i r =
     r\<lparr>reg_current_spans := (reg_current_spans r)(t := snd (stack_pop i (reg_current_spans r t)))\<rparr>"

text \<open>\<open>panicking\<close> is \<open>std::thread::panicking()\<close>.\<close>

definition registry_try_close :: "bool \<Rightarrow> span_id \<Rightarrow> registry \<Rightarrow> (bool \<times> registry) option" where
  "registry_try_close panicking i r =
     (case registry_get i r of
        None \<Rightarrow> if panicking then Some (False, r) else None
      | Some d \<Rightarrow>
          (let refs = dat_ref_count d;
               r1 = r\<lparr>reg_spans := pool_update (id_to_idx i)
                        (\<lambda>d. d\<lparr>dat_ref_count := dat_ref_count d - 1\<rparr>) (reg_spans r)\<rparr>
           in if \<not> panicking \<and> \<not> refs < - 1 then None
              else if refs > 1 then Some (False, r1)
              else Some (True, r1)))"

subsection \<open>Closing through a stack of layers\<close>

text \<open>
  \<open>Layered::try_close\<close> for a stack of layers (outermost first) over the registry, with the guard of
  each level: \<open>CloseGuard::drop\<close> decrements the thread's close count and, when it was one and the
  span is closing, clears the slot. \<open>DataInner::clear\<close> drops the reference to the parent through the
  default dispatcher, taken here to be this same stack \<open>all\<close>. That call is the only one that may
  recur without end, so it consumes fuel; \<open>close_returns\<close> shows how much is enough.
\<close>

definition on_close :: "nat \<Rightarrow> span_id \<Rightarrow> registry \<Rightarrow> registry" where
  "on_close layer i r = r\<lparr>reg_closed := reg_closed r @ [(layer, i, registry_get i r \<noteq> None)]\<rparr>"

fun layered_try_close ::
  "nat \<Rightarrow> nat list \<Rightarrow> nat list \<Rightarrow> thread \<Rightarrow> span_id \<Rightarrow> registry \<Rightarrow> (bool \<times> registry) option" where
  "layered_try_close fuel all [] t i r = registry_try_close False i r"
| "layered_try_close fuel all (layer # inner) t i r =
     (case layered_try_close fuel all inner t i (start_close t r) of
        None \<Rightarrow> None
      | Some (closing, r1) \<Rightarrow>
          (let r2 = (if closing then on_close layer i r1 else r1);
               c = reg_close_count r2 t;
               r3 = r2\<lparr>reg_close_count := (reg_close_count r2)(t := c - 1)\<rparr>
           in if c = 1 \<and> closing then
                (let p = Option.bind (registry_get i r3) dat_parent;
                     r4 = r3\<lparr>reg_spans := pool_remove (id_to_idx i) (reg_spans r3)\<rparr>
                 in case p of
                      None \<Rightarrow> Some (True, r4)
                    | Some pid \<Rightarrow>
                        (case fuel of
                           0 \<Rightarrow> None
                         | Suc k \<Rightarrow> map_option (\<lambda>(_, r5). (True, r5)) (layered_try_close k all all t pid r4)))
              else Some (closing, r3)))"

subsection \<open>Pools\<close>

lemma map_of_pool_update:
  "map_of (pool_update i f p) k = (if k = i then map_option f (map_of p k) else map_of p k)"
  by (induction p) (auto simp: pool_update_def)

lemma map_of_pool_remove: "map_of (pool_remove i p) k = (if k = i then None else map_of p k)"
  by (induction p) (auto simp: pool_remove_def)

lemma keys_pool_update [simp]: "map fst (pool_update i f p) = map fst p"
  by (induction p) (auto simp: pool_update_def)

lemma keys_pool_remove [simp]: "map fst (pool_remove i p) = filter (\<lambda>k. k \<noteq> i) (map fst p)"
  by (induction p) (auto simp: pool_remove_def)

lemma length_pool_remove: "map_of p i = Some d \<Longrightarrow> length (pool_remove i p) < length p"
  unfolding pool_remove_def by (rule length_filter_less [of "(i, d)"]) (auto dest: map_of_SomeD)

subsection \<open>Reference counting\<close>

text \<open>
  \<open>h\<close> counts, per slot, the handles the program holds. Every span in the pool is referenced by its
  handles and by its children, and its reference count is their number; parents are in the pool.
\<close>

definition children :: "u64 \<Rightarrow> pool \<Rightarrow> nat" where
  "children i p = length (filter (\<lambda>(k, d). map_option id_to_idx (dat_parent d) = Some i) p)"

text \<open>The list has the newest span first, and a parent is older than its children.\<close>

fun parents_older :: "pool \<Rightarrow> bool" where
  "parents_older [] = True"
| "parents_older ((k, d) # p) =
     ((\<forall>q. dat_parent d = Some q \<longrightarrow> id_to_idx q \<in> fst ` set p) \<and> parents_older p)"

definition registry_inv :: "(u64 \<Rightarrow> nat) \<Rightarrow> registry \<Rightarrow> bool" where
  "registry_inv h r \<longleftrightarrow>
     distinct (map fst (reg_spans r)) \<and> parents_older (reg_spans r) \<and>
     (\<forall>i d. map_of (reg_spans r) i = Some d \<longrightarrow>
        unat (dat_ref_count d) = h i + children i (reg_spans r) \<and> 0 < dat_ref_count d \<and>
        dat_ref_count d < - 1 \<and>
        (\<forall>p. dat_parent d = Some p \<longrightarrow> map_of (reg_spans r) (id_to_idx p) \<noteq> None)) \<and>
     (\<forall>i. map_of (reg_spans r) i = None \<longrightarrow> h i = 0)"

lemma fst_pool_update [simp]: "fst ` set (pool_update i f p) = fst ` set p"
  by (metis keys_pool_update list.set_map)

lemma fst_pool_remove [simp]: "fst ` set (pool_remove i p) = fst ` set p - {i}"
  by (auto simp: pool_remove_def image_iff)

lemma parents_older_update:
  "(\<And>d. dat_parent (f d) = dat_parent d) \<Longrightarrow> parents_older (pool_update i f p) = parents_older p"
proof (induction p)
  case (Cons a p)
  moreover have "fst ` (\<lambda>x. case x of (k, d) \<Rightarrow> (k, if k = i then f d else d)) ` set p = fst ` set p"
    using fst_pool_update [of i f p] by (simp add: pool_update_def)
  ultimately show ?case by (cases a) (simp add: pool_update_def)
qed (simp add: pool_update_def)

lemma parents_older_remove:
  assumes "\<forall>(k, d) \<in> set p. map_option id_to_idx (dat_parent d) \<noteq> Some i" and "parents_older p"
  shows "parents_older (pool_remove i p)"
  using assms
proof (induction p)
  case (Cons a p)
  obtain k d where a: "a = (k, d)" by fastforce
  have IH: "parents_older (pool_remove i p)" using Cons by (auto simp: a)
  have "pool_remove i (a # p) = (if k = i then pool_remove i p else (k, d) # pool_remove i p)"
    by (simp add: pool_remove_def a)
  then show ?case using IH Cons.prems a by auto
qed (simp add: pool_remove_def)

text \<open>So the newest span has no children, and only a handle can keep it.\<close>

lemma children_newest:
  assumes "parents_older ((k, d) # p)" and "distinct (map fst ((k, d) # p))"
  shows "children k ((k, d) # p) = 0"
proof -
  have "map_option id_to_idx (dat_parent e) \<noteq> Some k" if "(j, e) \<in> set p" "parents_older p" for j e
    using that assms(2)
  proof (induction p)
    case (Cons b p)
    then show ?case by (cases b) (auto simp: image_iff)
  qed simp
  then show ?thesis using assms by (auto simp: children_def filter_empty_conv image_iff)
qed

lemma registry_invD:
  assumes "registry_inv h r" and "map_of (reg_spans r) i = Some d"
  shows "unat (dat_ref_count d) = h i + children i (reg_spans r)" and "0 < dat_ref_count d"
    and "dat_ref_count d < - 1"
    and "\<And>p. dat_parent d = Some p \<Longrightarrow> \<exists>e. map_of (reg_spans r) (id_to_idx p) = Some e"
  using assms by (auto simp: registry_inv_def)

lemma children_update: "(\<And>d. dat_parent (f d) = dat_parent d) \<Longrightarrow> children j (pool_update i f p) = children j p"
proof (induction p)
  case (Cons a p)
  then show ?case by (cases a) (simp add: children_def pool_update_def del: map_option_eq_Some)
qed (simp add: children_def pool_update_def)

lemma children_remove:
  assumes "distinct (map fst p)" and "map_of p i = Some d"
  shows "children j p = children j (pool_remove i p) + (if map_option id_to_idx (dat_parent d) = Some j then 1 else 0)"
  using assms
proof (induction p)
  case (Cons a p)
  obtain k e where a: "a = (k, e)" by fastforce
  show ?case
  proof (cases "k = i")
    case True
    then have "pool_remove i p = p"
      using Cons.prems(1) a by (auto simp: pool_remove_def filter_id_conv image_iff)
    then show ?thesis using True Cons.prems a by (auto simp: children_def pool_remove_def)
  next
    case False
    then have "children j p = children j (pool_remove i p) +
        (if map_option id_to_idx (dat_parent d) = Some j then 1 else 0)"
      using Cons a by auto
    then show ?thesis using False a by (auto simp: children_def pool_remove_def)
  qed
qed simp

lemma registry_inv_cong:
  "reg_spans r' = reg_spans r \<Longrightarrow> registry_inv h r' = registry_inv h r"
  by (simp add: registry_inv_def)

text \<open>Dropping one reference of a span that has more than one.\<close>

lemma registry_inv_drop_ref:
  assumes inv: "registry_inv h r" and i: "map_of (reg_spans r) i = Some d" and "0 < h i"
    and "1 < dat_ref_count d"
  shows "registry_inv (h(i := h i - 1))
    (r\<lparr>reg_spans := pool_update i (\<lambda>d. d\<lparr>dat_ref_count := dat_ref_count d - 1\<rparr>) (reg_spans r)\<rparr>)"
proof -
  let ?f = "\<lambda>d. d\<lparr>dat_ref_count := dat_ref_count d - 1\<rparr>"
  have dec: "unat (dat_ref_count d - 1) = unat (dat_ref_count d) - 1" "0 < dat_ref_count d - 1"
    "dat_ref_count d - 1 < - 1"
    using assms(4) registry_invD(3) [OF inv i] by unat_arith+
  have same: "children j (pool_update i ?f (reg_spans r)) = children j (reg_spans r)" for j
    by (rule children_update) simp
  show ?thesis
    using inv i assms(3) dec registry_invD(1) [OF inv i]
    unfolding registry_inv_def by (auto simp: map_of_pool_update same parents_older_update)
qed

text \<open>Removing a span without references; what its child link held of its parent becomes a handle.\<close>

lemma registry_inv_remove:
  assumes inv: "registry_inv h r" and i: "map_of (reg_spans r) i = Some d"
    and "h i = 1" and "children i (reg_spans r) = 0"
  defines "h' \<equiv> h(i := 0)"
  shows "registry_inv
     (case dat_parent d of None \<Rightarrow> h' | Some p \<Rightarrow> h'(id_to_idx p := h' (id_to_idx p) + 1))
     (r\<lparr>reg_spans := pool_remove i (reg_spans r)\<rparr>)"
proof -
  have dist: "distinct (map fst (reg_spans r))" using inv by (simp add: registry_inv_def)
  note ch = children_remove [OF dist i]
  have not_parent: "map_option id_to_idx (dat_parent e) \<noteq> Some i" if "map_of (reg_spans r) k = Some e" for k e
    using assms(4) map_of_SomeD [OF that] by (auto simp: children_def filter_empty_conv)
  have "\<forall>(k, e) \<in> set (reg_spans r). map_option id_to_idx (dat_parent e) \<noteq> Some i"
    using not_parent dist by fastforce
  then have older: "parents_older (pool_remove i (reg_spans r))"
    using inv by (intro parents_older_remove) (auto simp: registry_inv_def)
  show ?thesis
  proof (cases "dat_parent d")
    case None
    then have "children j (pool_remove i (reg_spans r)) = children j (reg_spans r)" for j
      using ch [of j] by simp
    then show ?thesis
      using inv None not_parent dist older unfolding registry_inv_def h'_def
      by (auto simp: map_of_pool_remove)
  next
    case (Some p)
    let ?q = "id_to_idx p"
    have "?q \<noteq> i" using not_parent [OF i] Some by simp
    moreover have "\<exists>e. map_of (reg_spans r) ?q = Some e" using registry_invD(4) [OF inv i Some] .
    moreover have "children j (reg_spans r) =
        children j (pool_remove i (reg_spans r)) + (if ?q = j then 1 else 0)" for j
      using ch [of j] Some by simp
    ultimately show ?thesis
      using inv Some not_parent dist older unfolding registry_inv_def h'_def
      by (auto simp: map_of_pool_remove)
  qed
qed

subsection \<open>The guards\<close>

lemma registry_try_close_frame:
  assumes "registry_try_close b i r = Some (closing, r1)"
  shows "reg_close_count r1 = reg_close_count r" and "reg_closed r1 = reg_closed r"
    and "reg_current_spans r1 = reg_current_spans r" and "reg_next_filter_id r1 = reg_next_filter_id r"
  using assms by (auto simp: registry_try_close_def Let_def split: option.splits if_splits)

lemma registry_try_close_frame_count:
  "registry_try_close b i (r\<lparr>reg_close_count := cc\<rparr>) =
     map_option (\<lambda>(c, r1). (c, r1\<lparr>reg_close_count := cc\<rparr>)) (registry_try_close b i r)"
  by (simp add: registry_try_close_def registry_get_def Let_def split: option.split)

text \<open>
  Inside another level's guard the close count is at least one, so a level only counts, calls the
  registry and notifies its layer: the span's data stays.
\<close>

definition notify_close :: "nat list \<Rightarrow> span_id \<Rightarrow> registry \<Rightarrow> registry" where
  "notify_close layers i r =
     r\<lparr>reg_closed := reg_closed r @ map (\<lambda>l. (l, i, registry_get i r \<noteq> None)) (rev layers)\<rparr>"

lemma notify_close_get [simp]: "registry_get i (notify_close ls j r) = registry_get i r"
  by (simp add: registry_get_def notify_close_def)

lemma layered_try_close_inner:
  assumes "0 < reg_close_count r t" and "unat (reg_close_count r t) + length layers < 2 ^ 64"
  shows "layered_try_close fuel all layers t i r =
    map_option (\<lambda>(closing, r1). (closing, if closing then notify_close layers i r1 else r1))
      (registry_try_close False i r)"
  using assms
proof (induction layers arbitrary: r)
  case Nil
  then show ?case by (cases "registry_try_close False i r") (auto simp: notify_close_def)
next
  case (Cons l layers)
  let ?r = "start_close t r"
  let ?c = "reg_close_count r t"
  have suc: "unat (?c + 1) = unat ?c + 1"
    using Cons.prems by (simp add: unat_plus_if_size word_size)
  then have "?c + 1 \<noteq> 0" by (metis add_is_0 one_neq_zero unat_0)
  then have c: "?c + 1 \<noteq> 1" "?c + 1 - 1 = ?c" "0 < ?c + 1" "unat (?c + 1) = unat ?c + 1"
    using Cons.prems suc by (simp_all add: word_gt_0)
  have IH: "layered_try_close fuel all layers t i ?r =
      map_option (\<lambda>(closing, r1). (closing, if closing then notify_close layers i r1 else r1))
        (registry_try_close False i ?r)"
    using Cons.prems c by (intro Cons.IH) (simp_all add: start_close_def)
  show ?case
  proof (cases "registry_try_close False i r")
    case None
    then have "registry_try_close False i ?r = None"
      by (simp add: start_close_def registry_try_close_frame_count)
    with None IH show ?thesis by simp
  next
    case (Some res)
    obtain closing r1 where res: "res = (closing, r1)" by fastforce
    let ?cc = "(reg_close_count r)(t := ?c + 1)"
    have "registry_try_close False i ?r = Some (closing, r1\<lparr>reg_close_count := ?cc\<rparr>)"
      using Some res by (simp add: start_close_def registry_try_close_frame_count)
    moreover have "reg_close_count r1 = reg_close_count r"
      using registry_try_close_frame Some res by blast
    ultimately show ?thesis
      using Some res IH c
      by (auto simp: notify_close_def on_close_def registry_get_def)
  qed
qed

text \<open>The outermost level clears the slot once every layer has been notified.\<close>

lemma layered_try_close_outer:
  assumes zero: "reg_close_count r t = 0" and len: "length layers < 2 ^ 63"
  shows "layered_try_close fuel all (l # layers) t i r =
    (case registry_try_close False i r of
       None \<Rightarrow> None
     | Some (closing, r1) \<Rightarrow>
         if \<not> closing then Some (False, r1)
         else
           (let r2 = (notify_close (l # layers) i r1)\<lparr>reg_spans := pool_remove (id_to_idx i) (reg_spans r1)\<rparr>
            in case Option.bind (registry_get i r1) dat_parent of
                 None \<Rightarrow> Some (True, r2)
               | Some pid \<Rightarrow>
                   (case fuel of
                      0 \<Rightarrow> None
                    | Suc k \<Rightarrow> map_option (\<lambda>(_, r5). (True, r5)) (layered_try_close k all all t pid r2))))"
proof -
  let ?cc = "(reg_close_count r)(t := 1)"
  have "unat (reg_close_count (start_close t r) t) + length layers < 2 ^ 64"
    using zero len by (simp add: start_close_def)
  then have inner: "layered_try_close fuel all layers t i (start_close t r) =
      map_option (\<lambda>(closing, r1). (closing, if closing then notify_close layers i r1 else r1))
        (registry_try_close False i (start_close t r))"
    using zero by (intro layered_try_close_inner) (simp_all add: start_close_def)
  have frame: "registry_try_close False i (start_close t r) =
      map_option (\<lambda>(c, r1). (c, r1\<lparr>reg_close_count := ?cc\<rparr>)) (registry_try_close False i r)"
    using zero by (simp add: start_close_def registry_try_close_frame_count)
  show ?thesis
  proof (cases "registry_try_close False i r")
    case None
    then show ?thesis by (simp add: inner frame)
  next
    case (Some res)
    obtain closing r1 where res: "res = (closing, r1)" by fastforce
    have cc: "reg_close_count r1 = reg_close_count r"
      using registry_try_close_frame Some res by blast
    have restored: "(?cc)(t := 0) = reg_close_count r" using zero by auto
    show ?thesis
      unfolding layered_try_close.simps(2) inner frame Some res
      using cc restored
      by (cases r1)
        (auto simp: notify_close_def on_close_def registry_get_def Let_def split: option.split nat.split)
  qed
qed

lemma registry_try_close_present:
  assumes inv: "registry_inv h r" and i: "map_of (reg_spans r) (id_to_idx i) = Some d"
  shows "registry_try_close False i r =
    Some (\<not> 1 < dat_ref_count d, r\<lparr>reg_spans := pool_update (id_to_idx i)
        (\<lambda>d. d\<lparr>dat_ref_count := dat_ref_count d - 1\<rparr>) (reg_spans r)\<rparr>)"
  using registry_invD(3) [OF inv i] i by (simp add: registry_try_close_def registry_get_def Let_def)

lemma pool_remove_update: "pool_remove i (pool_update i f p) = pool_remove i p"
  by (induction p) (auto simp: pool_remove_def pool_update_def)

declare layered_try_close.simps(2) [simp del]

text \<open>The two outcomes of dropping one handle, before the parent is looked at.\<close>

lemma layered_try_close_more:
  assumes inv: "registry_inv h r" and h: "0 < h (id_to_idx i)" and "reg_close_count r t = 0"
    and "length layers < 2 ^ 63"
    and many: "h (id_to_idx i) \<noteq> 1 \<or> children (id_to_idx i) (reg_spans r) \<noteq> 0"
  shows "\<exists>r'. layered_try_close fuel all (l # layers) t i r = Some (False, r') \<and>
    registry_inv (h(id_to_idx i := h (id_to_idx i) - 1)) r' \<and>
    reg_close_count r' = reg_close_count r \<and> reg_current_spans r' = reg_current_spans r \<and>
    reg_closed r' = reg_closed r"
proof -
  obtain d where d: "map_of (reg_spans r) (id_to_idx i) = Some d"
    using inv h by (cases "map_of (reg_spans r) (id_to_idx i)") (auto simp: registry_inv_def)
  have "1 < unat (dat_ref_count d)" using registry_invD(1) [OF inv d] h many by linarith
  then have ref: "1 < dat_ref_count d" by (simp add: word_less_nat_alt)
  show ?thesis
    unfolding layered_try_close_outer [OF assms(3,4)] registry_try_close_present [OF inv d]
    using ref registry_inv_drop_ref [OF inv d h ref] by simp
qed

lemma layered_try_close_last:
  fixes l :: nat
  assumes inv: "registry_inv h r" and h: "h (id_to_idx i) = 1" and "reg_close_count r t = 0"
    and "length layers < 2 ^ 63" and none: "children (id_to_idx i) (reg_spans r) = 0"
    and d: "map_of (reg_spans r) (id_to_idx i) = Some d"
  defines "r2 \<equiv> (notify_close (l # layers) i r)\<lparr>reg_spans := pool_remove (id_to_idx i) (reg_spans r)\<rparr>"
  shows "layered_try_close fuel all (l # layers) t i r =
    (case dat_parent d of
       None \<Rightarrow> Some (True, r2)
     | Some pid \<Rightarrow>
         (case fuel of
            0 \<Rightarrow> None
          | Suc k \<Rightarrow> map_option (\<lambda>(_, r5). (True, r5)) (layered_try_close k all all t pid r2)))"
proof -
  have "unat (dat_ref_count d) = 1" using registry_invD(1) [OF inv d] h none by simp
  then have ref: "\<not> 1 < dat_ref_count d" by (simp add: word_less_nat_alt)
  let ?r1 = "r\<lparr>reg_spans := pool_update (id_to_idx i)
    (\<lambda>d. d\<lparr>dat_ref_count := dat_ref_count d - 1\<rparr>) (reg_spans r)\<rparr>"
  have get: "registry_get i ?r1 = Some (d\<lparr>dat_ref_count := dat_ref_count d - 1\<rparr>)"
    using d by (simp add: registry_get_def map_of_pool_update)
  have "registry_get i r = Some d" using d by (simp add: registry_get_def)
  then have r2: "(notify_close (l # layers) i ?r1)\<lparr>reg_spans := pool_remove (id_to_idx i) (reg_spans ?r1)\<rparr> = r2"
    using get by (simp add: notify_close_def r2_def pool_remove_update)
  show ?thesis
    unfolding layered_try_close_outer [OF assms(3,4)] registry_try_close_present [OF inv d]
      option.case prod.case Let_def get r2 using ref by simp
qed

text \<open>What closing one handle does to a registry that satisfies the invariant.\<close>

lemma layered_try_close_inv:
  assumes "registry_inv h r" and "0 < h (id_to_idx i)" and "reg_close_count r t = 0"
    and "length (reg_spans r) \<le> Suc fuel" and "length layers < 2 ^ 63"
  shows "\<exists>r'. layered_try_close fuel (l # layers) (l # layers) t i r =
      Some (h (id_to_idx i) = 1 \<and> children (id_to_idx i) (reg_spans r) = 0, r') \<and>
    registry_inv (h(id_to_idx i := h (id_to_idx i) - 1)) r' \<and>
    reg_close_count r' = reg_close_count r \<and> reg_current_spans r' = reg_current_spans r \<and>
    (\<exists>log. reg_closed r' = reg_closed r @ log \<and> (\<forall>e \<in> set log. snd (snd e)))"
  using assms
proof (induction fuel arbitrary: h r i rule: less_induct)
  case (less fuel)
  let ?i = "id_to_idx i" and ?all = "l # layers"
  note prems = less.prems
  show ?case
  proof (cases "h ?i = 1 \<and> children ?i (reg_spans r) = 0")
    case False
    then show ?thesis using layered_try_close_more [OF prems(1,2,3,5)] by fastforce
  next
    case True
    then have h: "h ?i = 1" and none: "children ?i (reg_spans r) = 0" by auto
    obtain d where d: "map_of (reg_spans r) ?i = Some d"
      using prems(1,2) by (cases "map_of (reg_spans r) ?i") (auto simp: registry_inv_def)
    let ?r2 = "(notify_close ?all i r)\<lparr>reg_spans := pool_remove ?i (reg_spans r)\<rparr>"
    have inv2: "registry_inv
        (case dat_parent d of None \<Rightarrow> h(?i := 0)
         | Some p \<Rightarrow> (h(?i := 0))(id_to_idx p := (h(?i := 0)) (id_to_idx p) + 1)) ?r2"
      using registry_inv_remove [OF prems(1) d h none]
      by (subst registry_inv_cong [of _ "r\<lparr>reg_spans := pool_remove ?i (reg_spans r)\<rparr>"]) simp_all
    have log2: "\<exists>log. reg_closed ?r2 = reg_closed r @ log \<and> (\<forall>e \<in> set log. snd (snd e))"
      using d by (auto simp: notify_close_def registry_get_def)
    have shorter: "length (reg_spans ?r2) < length (reg_spans r)"
      using length_pool_remove [OF d] by simp
    note close = layered_try_close_last [OF prems(1) h prems(3,5) none d, where fuel = fuel and all = ?all and l = l]
    show ?thesis
    proof (cases "dat_parent d")
      case None
      then have "layered_try_close fuel ?all ?all t i r = Some (True, ?r2)" by (simp only: close option.case)
      moreover have "registry_inv (h(?i := h ?i - 1)) ?r2" using inv2 None h by simp
      moreover have "reg_close_count ?r2 = reg_close_count r" "reg_current_spans ?r2 = reg_current_spans r"
        by (simp_all add: notify_close_def)
      ultimately show ?thesis unfolding eqTrueI [OF True] using log2 by blast
    next
      case (Some p)
      let ?h2 = "(h(?i := 0))(id_to_idx p := (h(?i := 0)) (id_to_idx p) + 1)"
      have invp: "registry_inv ?h2 ?r2" using inv2 Some by simp
      then have "map_of (reg_spans ?r2) (id_to_idx p) \<noteq> None"
        by (force simp: registry_inv_def)
      then have "reg_spans ?r2 \<noteq> []" by auto
      then obtain k where k: "fuel = Suc k" using shorter prems(4)
        by (cases fuel) (auto simp: neq_Nil_conv)
      have "\<exists>r'. layered_try_close k ?all ?all t p ?r2 =
          Some (?h2 (id_to_idx p) = 1 \<and> children (id_to_idx p) (reg_spans ?r2) = 0, r') \<and>
        registry_inv (?h2(id_to_idx p := ?h2 (id_to_idx p) - 1)) r' \<and>
        reg_close_count r' = reg_close_count ?r2 \<and> reg_current_spans r' = reg_current_spans ?r2 \<and>
        (\<exists>log. reg_closed r' = reg_closed ?r2 @ log \<and> (\<forall>e \<in> set log. snd (snd e)))"
        using shorter prems k by (intro less.IH [OF _ invp]) (simp_all add: notify_close_def)
      then obtain r' where r': "layered_try_close k ?all ?all t p ?r2 =
          Some (?h2 (id_to_idx p) = 1 \<and> children (id_to_idx p) (reg_spans ?r2) = 0, r')"
        "registry_inv (?h2(id_to_idx p := ?h2 (id_to_idx p) - 1)) r'"
        "reg_close_count r' = reg_close_count ?r2" "reg_current_spans r' = reg_current_spans ?r2"
        "\<exists>log. reg_closed r' = reg_closed ?r2 @ log \<and> (\<forall>e \<in> set log. snd (snd e))"
        by blast
      have "?h2(id_to_idx p := ?h2 (id_to_idx p) - 1) = h(?i := h ?i - 1)" using h by auto
      then have "registry_inv (h(?i := h ?i - 1)) r'" using r'(2) by (simp only:)
      moreover have "reg_close_count r' = reg_close_count r" "reg_current_spans r' = reg_current_spans r"
        using r'(3,4) by (simp_all add: notify_close_def)
      moreover have "layered_try_close fuel ?all ?all t i r = Some (True, r')"
        using close Some k r'(1) by (simp del: layered_try_close.simps)
      moreover have "\<exists>log. reg_closed r' = reg_closed r @ log \<and> (\<forall>e \<in> set log. snd (snd e))"
        using r'(5) log2 by (metis (no_types, lifting) Un_iff append.assoc set_append)
      ultimately show ?thesis unfolding eqTrueI [OF True] by blast
    qed
  qed
qed

subsection \<open>Opening\<close>

lemma unat_max: "unat (- 1 :: u64) = 18446744073709551615"
  by (simp add: unsigned_minus_1_eq_mask mask_eq_exp_minus_1)

lemma registry_inv_clone:
  assumes inv: "registry_inv h r" and d: "registry_get i r = Some d" and "dat_ref_count d < - 2"
  shows "\<exists>r'. registry_clone_span i r = Some (i, r') \<and>
    registry_inv (h(id_to_idx i := h (id_to_idx i) + 1)) r' \<and>
    map fst (reg_spans r') = map fst (reg_spans r)"
proof -
  let ?i = "id_to_idx i" and ?f = "\<lambda>d. d\<lparr>dat_ref_count := dat_ref_count d + 1\<rparr>"
  have d': "map_of (reg_spans r) ?i = Some d" using d by (simp add: registry_get_def)
  note D = registry_invD [OF inv d']
  have inc: "unat (dat_ref_count d + 1) = unat (dat_ref_count d) + 1"
    using assms(3) by (simp add: unat_plus_if_size word_size word_less_nat_alt)
  then have bounds: "0 < dat_ref_count d + 1" "dat_ref_count d + 1 < - 1"
    using assms(3) by (simp_all add: word_less_nat_alt unat_max)
  have same: "children j (pool_update ?i ?f (reg_spans r)) = children j (reg_spans r)" for j
    by (rule children_update) simp
  have "registry_inv (h(?i := h ?i + 1)) (r\<lparr>reg_spans := pool_update ?i ?f (reg_spans r)\<rparr>)"
    using inv d' inc bounds D(1) unfolding registry_inv_def by (auto simp: map_of_pool_update same parents_older_update)
  then show ?thesis using d D(2) by (simp add: registry_clone_span_def Let_def word_gt_0)
qed

lemma children_Cons:
  "children i ((k, d) # p) = children i p + (if map_option id_to_idx (dat_parent d) = Some i then 1 else 0)"
  by (simp add: children_def)

lemma registry_inv_insert:
  assumes inv: "registry_inv h r" and k: "map_of (reg_spans r) k = None"
    and d: "dat_ref_count d = 1"
    and p: "\<And>p. dat_parent d = Some p \<Longrightarrow> 0 < h (id_to_idx p)"
  defines "h' \<equiv> (case dat_parent d of None \<Rightarrow> h | Some p \<Rightarrow> h(id_to_idx p := h (id_to_idx p) - 1))"
  shows "registry_inv (h'(k := 1)) (r\<lparr>reg_spans := (k, d) # reg_spans r\<rparr>)"
proof -
  have hk: "h k = 0" using inv k by (simp add: registry_inv_def)
  have no_children: "children k (reg_spans r) = 0"
  proof -
    have "map_option id_to_idx (dat_parent e) \<noteq> Some k" if "(j, e) \<in> set (reg_spans r)" for j e
    proof -
      have "map_of (reg_spans r) j = Some e" using inv that by (simp add: registry_inv_def)
      from registry_invD(4) [OF inv this] k show ?thesis by auto
    qed
    then show ?thesis by (auto simp: children_def filter_empty_conv)
  qed
  have new: "k \<notin> set (map fst (reg_spans r))" using k by (simp add: map_of_eq_None_iff)
  have one: "(1 :: u64) < - 1" by (simp add: word_less_nat_alt unat_max)
  show ?thesis
  proof (cases "dat_parent d")
    case None
    then show ?thesis
      using inv k d hk no_children new one unfolding registry_inv_def h'_def
      by (auto simp: children_Cons)
  next
    case (Some q)
    have in_pool: "map_of (reg_spans r) (id_to_idx q) \<noteq> None"
      using inv p [OF Some] unfolding registry_inv_def by (metis less_irrefl)
    then have "id_to_idx q \<noteq> k" "id_to_idx q \<in> fst ` set (reg_spans r)"
      using k by (auto simp: map_of_eq_None_iff)
    then show ?thesis
      using inv k d hk no_children new one Some in_pool p [OF Some] unfolding registry_inv_def h'_def
      by (auto simp: children_Cons)
  qed
qed

lemma registry_clone_span_id: "registry_clone_span i r = Some (j, r1) \<Longrightarrow> j = i"
  by (auto simp: registry_clone_span_def Let_def split: option.splits if_splits)

lemma new_span_parent_cases:
  assumes "new_span_parent t attrs r = Some (p, r1)"
  shows "p = None \<and> r1 = r \<or> (\<exists>j. p = Some j \<and> registry_clone_span j r = Some (j, r1))"
proof -
  have "o1 = None \<and> p = None \<and> r1 = r \<or> (\<exists>j. p = Some j \<and> registry_clone_span j r = Some (j, r1))"
    if "(case o1 of None \<Rightarrow> Some (None, r)
      | Some i \<Rightarrow> map_option (\<lambda>(j, r1). (Some j, r1)) (registry_clone_span i r)) = Some (p, r1)" for o1
    using that registry_clone_span_id by (cases o1) fastforce+
  then show ?thesis
    using assms unfolding new_span_parent_def Let_def by (auto split: if_splits)
qed

lemma new_span_parent_inv:
  assumes inv: "registry_inv h r" and small: "\<forall>i d. registry_get i r = Some d \<longrightarrow> dat_ref_count d < - 2"
    and res: "new_span_parent t attrs r = Some (p, r1)"
  shows "registry_inv (case p of None \<Rightarrow> h | Some j \<Rightarrow> h(id_to_idx j := h (id_to_idx j) + 1)) r1"
    and "map fst (reg_spans r1) = map fst (reg_spans r)"
proof -
  consider "p = None" "r1 = r" | j where "registry_clone_span j r = Some (j, r1)" "p = Some j"
    using new_span_parent_cases [OF res] by blast
  then have "registry_inv (case p of None \<Rightarrow> h | Some j \<Rightarrow> h(id_to_idx j := h (id_to_idx j) + 1)) r1 \<and>
      map fst (reg_spans r1) = map fst (reg_spans r)"
  proof cases
    case 1
    then show ?thesis using inv by simp
  next
    case (2 j)
    then obtain d where d: "registry_get j r = Some d"
      by (auto simp: registry_clone_span_def split: option.splits)
    then have "dat_ref_count d < - 2" using small by blast
    from registry_inv_clone [OF inv d this] 2 show ?thesis by auto
  qed
  then show "registry_inv (case p of None \<Rightarrow> h | Some j \<Rightarrow> h(id_to_idx j := h (id_to_idx j) + 1)) r1"
    and "map fst (reg_spans r1) = map fst (reg_spans r)" by auto
qed

lemma id_to_idx_to_id: "idx_to_id k = Some i \<Longrightarrow> id_to_idx i = k"
  by (auto simp: idx_to_id_def id_to_idx_def id_from_u64_def id_into_u64_def split: if_splits)

lemma registry_inv_new_span:
  assumes inv: "registry_inv h r" and small: "\<forall>i d. registry_get i r = Some d \<longrightarrow> dat_ref_count d < - 2"
    and fresh: "\<And>p k. alloc p = Some k \<Longrightarrow> k \<notin> fst ` set p"
    and res: "registry_new_span alloc t fs attrs r = Some (i, r')"
  shows "registry_inv (h(id_to_idx i := 1)) r'"
    and "\<exists>d. registry_get i r' = Some d \<and> dat_filter_map d = fst_enabled fs \<and>
      dat_metadata d = attr_metadata attrs"
    and "registry_get i r = None"
proof -
  obtain p r1 k where p: "new_span_parent t attrs r = Some (p, r1)" and k: "alloc (reg_spans r1) = Some k"
    and i: "idx_to_id k = Some i"
    and r': "r' = r1\<lparr>reg_spans := (k, \<lparr>dat_filter_map = fst_enabled fs, dat_metadata = attr_metadata attrs,
      dat_parent = p, dat_ref_count = 1, dat_extensions = Map.empty\<rparr>) # reg_spans r1\<rparr>"
    using res by (auto simp: registry_new_span_def split: option.splits)
  have kp: "map_of (reg_spans r1) k = None" using fresh [OF k] by (simp add: map_of_eq_None_iff)
  have ki: "k = id_to_idx i" using id_to_idx_to_id [OF i] by simp
  note inv1 = new_span_parent_inv [OF inv small p]
  show "registry_get i r = None"
    using kp arg_cong [where f = set, OF inv1(2)] by (simp add: registry_get_def ki map_of_eq_None_iff)
  show "\<exists>d. registry_get i r' = Some d \<and> dat_filter_map d = fst_enabled fs \<and>
      dat_metadata d = attr_metadata attrs"
    by (simp add: registry_get_def r' ki)
  let ?d = "\<lparr>dat_filter_map = fst_enabled fs, dat_metadata = attr_metadata attrs,
      dat_parent = p, dat_ref_count = 1, dat_extensions = Map.empty\<rparr>"
  show "registry_inv (h(id_to_idx i := 1)) r'"
  proof (cases p)
    case None
    then show ?thesis using registry_inv_insert [OF inv1(1) kp, of ?d] by (simp add: r' ki)
  next
    case (Some j)
    let ?h1 = "h(id_to_idx j := h (id_to_idx j) + 1)"
    have "?h1(id_to_idx j := ?h1 (id_to_idx j) - 1) = h" by auto
    then show ?thesis using registry_inv_insert [OF inv1(1) kp, of ?d] Some by (simp add: r' ki)
  qed
qed

subsection \<open>The properties\<close>

lemma registry_inv_default: "registry_inv (\<lambda>_. 0) registry_default"
  by (simp add: registry_inv_def registry_default_def)

lemma registry_inv_no_handles:
  assumes "registry_inv h r" and "\<forall>i. h i = 0"
  shows "reg_spans r = []"
proof (cases "reg_spans r")
  case (Cons a p)
  obtain k d where a: "a = (k, d)" by fastforce
  have "children k (reg_spans r) = 0"
    using assms(1) Cons a by (simp only: registry_inv_def) (intro children_newest; simp)
  moreover have d: "map_of (reg_spans r) k = Some d" using Cons a by simp
  ultimately have "unat (dat_ref_count d) = 0" using registry_invD(1) [OF assms(1) d] assms(2) by simp
  then show ?thesis using registry_invD(2) [OF assms(1) d] by (simp add: word_less_nat_alt)
qed simp

lemma registry_open_correct_facts:
  assumes "registry_inv h r"
    and "\<forall>i d. registry_get i r = Some d \<longrightarrow> dat_ref_count d < - 2"
    and "\<forall>p k. alloc p = Some k \<longrightarrow> k \<notin> fst ` set p"
  shows "registry_new_span alloc t fs attrs r = Some (i, r') \<Longrightarrow>
      registry_inv (h(id_to_idx i := 1)) r' \<and> registry_get i r = None \<and>
      (\<exists>d. registry_get i r' = Some d \<and> dat_filter_map d = fst_enabled fs \<and>
        dat_metadata d = attr_metadata attrs)"
    and "registry_get j r \<noteq> None \<Longrightarrow>
      \<exists>r'. registry_clone_span j r = Some (j, r') \<and>
        registry_inv (h(id_to_idx j := h (id_to_idx j) + 1)) r'"
    and "registry_inv (\<lambda>_. 0) registry_default"
proof -
  show "registry_inv (h(id_to_idx i := 1)) r' \<and> registry_get i r = None \<and>
      (\<exists>d. registry_get i r' = Some d \<and> dat_filter_map d = fst_enabled fs \<and>
        dat_metadata d = attr_metadata attrs)"
    if "registry_new_span alloc t fs attrs r = Some (i, r')"
    using registry_inv_new_span [OF assms(1,2) _ that] assms(3) by blast
  show "\<exists>r'. registry_clone_span j r = Some (j, r') \<and>
        registry_inv (h(id_to_idx j := h (id_to_idx j) + 1)) r'" if get: "registry_get j r \<noteq> None"
  proof -
    obtain d where d: "registry_get j r = Some d" using get by auto
    then show ?thesis using registry_inv_clone [OF assms(1) d] assms(2) by blast
  qed
  show "registry_inv (\<lambda>_. 0) registry_default" by (rule registry_inv_default)
qed



text \<open>
  The close count is shared by everything a thread closes: a layer that drops the last handle of
  another span inside its \<open>on_close\<close> gets the answer that the span closed, and the layers below are
  notified, but the span's slot is never cleared. It stays in the registry with no references.
\<close>

theorem nested_close_leaks:
  assumes "registry_inv h r" and "h (id_to_idx i) = 1" and "children (id_to_idx i) (reg_spans r) = 0"
    and "reg_close_count r t = 1" and "length layers < 2 ^ 63"
  shows "\<exists>r' d. layered_try_close fuel layers layers t i r = Some (True, r') \<and>
    registry_get i r' = Some d \<and> dat_ref_count d = 0"
proof -
  obtain d where d: "map_of (reg_spans r) (id_to_idx i) = Some d"
    using assms(1,2) by (cases "map_of (reg_spans r) (id_to_idx i)") (auto simp: registry_inv_def)
  have "unat (dat_ref_count d) = unat (1 :: u64)"
    using registry_invD(1) [OF assms(1) d] assms(2,3) by simp
  then have ref: "dat_ref_count d = 1" by (rule unsigned_word_eqI)
  have count: "0 < reg_close_count r t" "unat (reg_close_count r t) + length layers < 2 ^ 64"
    using assms(4,5) by (simp_all del: power_numeral) simp
  show ?thesis
    unfolding layered_try_close_inner [OF count] registry_try_close_present [OF assms(1) d]
    using ref d by (simp add: registry_get_def map_of_pool_update notify_close_def)
qed

subsection \<open>A registry with a closed parent handle\<close>

text \<open>
  A root span in slot 0 whose handle is gone and its child in slot 1, which still has one: what
  remains after \<open>new_span\<close>, a child of it, and dropping the root's handle.
\<close>

definition demo_span :: "span_id option \<Rightarrow> span_data" where
  "demo_span p =
     \<lparr>dat_filter_map = filter_map_new,
      dat_metadata =
        \<lparr>meta_name = ''request'', meta_target = ''app'', meta_level = INFO, meta_module_path = None,
         meta_file = None, meta_line = None, meta_fields = \<lparr>fs_names = [], fs_callsite = 7\<rparr>,
         meta_kind = SPAN\<rparr>,
      dat_parent = p, dat_ref_count = 1, dat_extensions = Map.empty\<rparr>"

definition demo_spans :: registry where
  "demo_spans = registry_default\<lparr>reg_spans := [(1, demo_span (Some 1)), (0, demo_span None)]\<rparr>"

definition demo_handles :: "u64 \<Rightarrow> nat" where
  "demo_handles = (\<lambda>_. 0)(1 := 1)"

lemma demo_inv: "registry_inv demo_handles (demo_spans\<lparr>reg_close_count := cc\<rparr>)"
proof -
  have "(1 :: u64) < - 1" by (simp add: word_less_nat_alt unat_max)
  then show ?thesis
    by (auto simp: registry_inv_def demo_spans_def demo_handles_def demo_span_def children_def
        id_to_idx_def id_into_u64_def registry_default_def split: if_splits)
qed

lemma demo_inv0: "registry_inv demo_handles demo_spans"
  using demo_inv [of "\<lambda>_. 0"] by (simp add: demo_spans_def registry_default_def)

lemma demo_idx: "id_to_idx 2 = 1" "demo_handles 1 = 1" "children 1 (reg_spans demo_spans) = 0"
  "length (reg_spans demo_spans) = 2" "reg_close_count demo_spans t = 0"
  by (simp_all add: id_to_idx_def id_into_u64_def demo_handles_def children_def demo_spans_def
      demo_span_def registry_default_def)


theorem nested_close_leaks_witness:
  "\<exists>r' d. layered_try_close 2 [0] [0] 5 2 (demo_spans\<lparr>reg_close_count := (\<lambda>_. 1)\<rparr>) = Some (True, r') \<and>
     registry_get 2 r' = Some d \<and> dat_ref_count d = 0"
  using nested_close_leaks [OF demo_inv [of "\<lambda>_. 1"], of 2 5 "[0]" 2] demo_idx
  by (simp add: demo_spans_def)

definition next_slot :: "pool \<Rightarrow> u64 option" where
  "next_slot p = (if 0 \<in> fst ` set p then None else Some 0)"


end
