(* ===== verification/Span_Handle.thy ===== *)
theory Span_Handle
  imports Registry
begin

text \<open>
  Span handles and their guards: \<open>tracing/src/span.rs\<close>, without the \<open>log\<close> feature.

  A \<open>Span\<close> owns one reference to a span of the subscriber it was made with: cloning the handle
  takes another, dropping it gives one back. \<open>Entered\<close> borrows a handle and \<open>EnteredSpan\<close> owns one;
  dropping either leaves the span. The subscriber behind a dispatcher is a \<open>span_ops\<close>; \<open>None\<close> as a
  result is a panic of the subscriber. The locale \<open>span_store\<close> states what handles need of it, and
  is interpreted for stacks of layers over the registry.
\<close>

record ('f, 'd, 's) span_ops =
  op_new_span :: "'d \<Rightarrow> thread \<Rightarrow> 'f attributes \<Rightarrow> 's \<Rightarrow> (span_id \<times> 's) option"
  op_clone_span :: "'d \<Rightarrow> span_id \<Rightarrow> 's \<Rightarrow> (span_id \<times> 's) option"
  op_try_close :: "'d \<Rightarrow> thread \<Rightarrow> span_id \<Rightarrow> 's \<Rightarrow> (bool \<times> 's) option"
  op_enter :: "'d \<Rightarrow> thread \<Rightarrow> span_id \<Rightarrow> 's \<Rightarrow> 's"
  op_exit :: "'d \<Rightarrow> thread \<Rightarrow> span_id \<Rightarrow> 's \<Rightarrow> 's"
  op_record :: "'d \<Rightarrow> span_id \<Rightarrow> 'f record_values \<Rightarrow> 's \<Rightarrow> 's"
  op_follows_from :: "'d \<Rightarrow> span_id \<Rightarrow> span_id \<Rightarrow> 's \<Rightarrow> 's"
  op_current_span :: "'d \<Rightarrow> thread \<Rightarrow> 's \<Rightarrow> current_inner"

record 'd span_inner =
  in_id :: span_id
  in_subscriber :: 'd

record 'd span =
  sp_inner :: "'d span_inner option"
  sp_meta :: "metadata option"

definition span_make_with ::
  "('f, 'd, 's) span_ops \<Rightarrow> thread \<Rightarrow> metadata \<Rightarrow> 'f attributes \<Rightarrow> 'd \<Rightarrow> 's \<Rightarrow> ('d span \<times> 's) option" where
  "span_make_with ops t meta attrs d s =
     map_option (\<lambda>(i, s1). (\<lparr>sp_inner = Some \<lparr>in_id = i, in_subscriber = d\<rparr>, sp_meta = Some meta\<rparr>, s1))
       (op_new_span ops d t attrs s)"

definition span_new_with ::
  "('f, 'd, 's) span_ops \<Rightarrow> thread \<Rightarrow> metadata \<Rightarrow> 'f value_set \<Rightarrow> 'd \<Rightarrow> 's \<Rightarrow> ('d span \<times> 's) option" where
  "span_new_with ops t meta vals d s = span_make_with ops t meta (attributes_new meta vals) d s"

definition span_new_root_with ::
  "('f, 'd, 's) span_ops \<Rightarrow> thread \<Rightarrow> metadata \<Rightarrow> 'f value_set \<Rightarrow> 'd \<Rightarrow> 's \<Rightarrow> ('d span \<times> 's) option" where
  "span_new_root_with ops t meta vals d s = span_make_with ops t meta (attributes_new_root meta vals) d s"

definition span_child_of_with ::
  "('f, 'd, 's) span_ops \<Rightarrow> thread \<Rightarrow> span_id option \<Rightarrow> metadata \<Rightarrow> 'f value_set \<Rightarrow> 'd \<Rightarrow> 's \<Rightarrow> ('d span \<times> 's) option" where
  "span_child_of_with ops t p meta vals d s =
     span_make_with ops t meta
       (case p of Some i \<Rightarrow> attributes_child_of i meta vals | None \<Rightarrow> attributes_new_root meta vals) d s"

definition span_new_disabled :: "metadata \<Rightarrow> 'd span" where
  "span_new_disabled meta = \<lparr>sp_inner = None, sp_meta = Some meta\<rparr>"

definition span_none :: "'d span" where
  "span_none = \<lparr>sp_inner = None, sp_meta = None\<rparr>"

definition span_current :: "('f, 'd, 's) span_ops \<Rightarrow> thread \<Rightarrow> 'd \<Rightarrow> 's \<Rightarrow> ('d span \<times> 's) option" where
  "span_current ops t d s =
     (case current_into_inner (op_current_span ops d t s) of
        Some (i, meta) \<Rightarrow>
          map_option (\<lambda>(j, s1). (\<lparr>sp_inner = Some \<lparr>in_id = j, in_subscriber = d\<rparr>, sp_meta = Some meta\<rparr>, s1))
            (op_clone_span ops d i s)
      | None \<Rightarrow> Some (span_none, s))"

definition span_is_disabled :: "'d span \<Rightarrow> bool" where
  "span_is_disabled sp \<longleftrightarrow> sp_inner sp = None"

definition span_is_none :: "'d span \<Rightarrow> bool" where
  "span_is_none sp \<longleftrightarrow> span_is_disabled sp \<and> sp_meta sp = None"

definition span_or_current :: "('f, 'd, 's) span_ops \<Rightarrow> thread \<Rightarrow> 'd \<Rightarrow> 'd span \<Rightarrow> 's \<Rightarrow> ('d span \<times> 's) option" where
  "span_or_current ops t d sp s = (if span_is_disabled sp then span_current ops t d s else Some (sp, s))"

definition span_do_enter :: "('f, 'd, 's) span_ops \<Rightarrow> thread \<Rightarrow> 'd span \<Rightarrow> 's \<Rightarrow> 's" where
  "span_do_enter ops t sp s =
     (case sp_inner sp of Some inn \<Rightarrow> op_enter ops (in_subscriber inn) t (in_id inn) s | None \<Rightarrow> s)"

definition span_do_exit :: "('f, 'd, 's) span_ops \<Rightarrow> thread \<Rightarrow> 'd span \<Rightarrow> 's \<Rightarrow> 's" where
  "span_do_exit ops t sp s =
     (case sp_inner sp of Some inn \<Rightarrow> op_exit ops (in_subscriber inn) t (in_id inn) s | None \<Rightarrow> s)"

definition span_in_scope :: "('f, 'd, 's) span_ops \<Rightarrow> thread \<Rightarrow> 'd span \<Rightarrow> ('s \<Rightarrow> 'r \<times> 's) \<Rightarrow> 's \<Rightarrow> 'r \<times> 's" where
  "span_in_scope ops t sp f s = (case f (span_do_enter ops t sp s) of (r, s1) \<Rightarrow> (r, span_do_exit ops t sp s1))"

definition span_field :: "'d span \<Rightarrow> string \<Rightarrow> field option" where
  "span_field sp name = Option.bind (sp_meta sp) (\<lambda>meta. field_lookup (meta_fields meta) name)"

definition span_has_field :: "'d span \<Rightarrow> string \<Rightarrow> bool" where
  "span_has_field sp name \<longleftrightarrow> span_field sp name \<noteq> None"

definition span_record_all :: "('f, 'd, 's) span_ops \<Rightarrow> 'd span \<Rightarrow> 'f value_set \<Rightarrow> 's \<Rightarrow> 's" where
  "span_record_all ops sp vals s =
     (case sp_inner sp of Some inn \<Rightarrow> op_record ops (in_subscriber inn) (in_id inn) (Record vals) s | None \<Rightarrow> s)"

definition span_record :: "('f, 'd, 's) span_ops \<Rightarrow> 'd span \<Rightarrow> string \<Rightarrow> 'f tvalue \<Rightarrow> 's \<Rightarrow> 's" where
  "span_record ops sp name v s =
     (case sp_meta sp of
        None \<Rightarrow> s
      | Some meta \<Rightarrow>
          (case field_lookup (meta_fields meta) name of
             None \<Rightarrow> s
           | Some f \<Rightarrow> span_record_all ops sp \<lparr>vs_values = Explicit [(f, Some v)], vs_fields = meta_fields meta\<rparr> s))"

definition span_follows_from :: "('f, 'd, 's) span_ops \<Rightarrow> 'd span \<Rightarrow> span_id option \<Rightarrow> 's \<Rightarrow> 's" where
  "span_follows_from ops sp other s =
     (case (sp_inner sp, other) of
        (Some inn, Some i) \<Rightarrow> op_follows_from ops (in_subscriber inn) (in_id inn) i s
      | _ \<Rightarrow> s)"

definition span_id_of :: "'d span \<Rightarrow> span_id option" where
  "span_id_of sp = map_option in_id (sp_inner sp)"

definition span_eq :: "'d span \<Rightarrow> 'd span \<Rightarrow> bool" where
  "span_eq a b =
     (case (sp_meta a, sp_meta b) of
        (Some this, Some that) \<Rightarrow>
          meta_callsite this = meta_callsite that \<and> map_option in_id (sp_inner a) = map_option in_id (sp_inner b)
      | _ \<Rightarrow> False)"

definition span_clone :: "('f, 'd, 's) span_ops \<Rightarrow> 'd span \<Rightarrow> 's \<Rightarrow> ('d span \<times> 's) option" where
  "span_clone ops sp s =
     (case sp_inner sp of
        None \<Rightarrow> Some (sp, s)
      | Some inn \<Rightarrow>
          map_option (\<lambda>(j, s1). (sp\<lparr>sp_inner := Some (inn\<lparr>in_id := j\<rparr>)\<rparr>, s1))
            (op_clone_span ops (in_subscriber inn) (in_id inn) s))"

definition span_drop :: "('f, 'd, 's) span_ops \<Rightarrow> thread \<Rightarrow> 'd span \<Rightarrow> 's \<Rightarrow> 's option" where
  "span_drop ops t sp s =
     (case sp_inner sp of
        None \<Rightarrow> Some s
      | Some inn \<Rightarrow> map_option snd (op_try_close ops (in_subscriber inn) t (in_id inn) s))"

text \<open>\<open>Entered\<close> holds a reference to a handle, \<open>EnteredSpan\<close> the handle itself; both stay on their thread.\<close>

datatype 'd guard =
    Entered (guard_thread: thread) nat (guard_span: "'d span")
  | EnteredSpan (guard_thread: thread) (guard_span: "'d span")

definition span_guard_drop :: "('f, 'd, 's) span_ops \<Rightarrow> 'd guard \<Rightarrow> 's \<Rightarrow> 's option" where
  "span_guard_drop ops g s =
     (case g of
        Entered t k sp \<Rightarrow> Some (span_do_exit ops t sp s)
      | EnteredSpan t sp \<Rightarrow> span_drop ops t sp (span_do_exit ops t sp s))"

text \<open>\<open>EnteredSpan::exit\<close> puts a handle without a span in its own place, which its drop then leaves and drops.\<close>

definition entered_exit :: "('f, 'd, 's) span_ops \<Rightarrow> thread \<Rightarrow> 'd span \<Rightarrow> 's \<Rightarrow> ('d span \<times> 's) option" where
  "entered_exit ops t sp s =
     map_option (\<lambda>s1. (sp, s1)) (span_guard_drop ops (EnteredSpan t span_none) (span_do_exit ops t sp s))"

subsection \<open>Programs\<close>

text \<open>
  A program holds handles and guards under names of its own and uses them one operation at a time,
  from any thread. \<open>well_typed\<close> is what the borrow checker makes sure of: an operation uses values
  that exist, makes new ones under fresh names, and does not move or drop a handle that a guard
  borrows. \<open>dflt t\<close> is the default dispatcher of the thread. A span is given as a parent only to
  spans of its own subscriber.
\<close>

record ('d, 's) prog =
  pg_store :: 's
  pg_spans :: "(nat \<times> 'd span) list"
  pg_guards :: "(nat \<times> 'd guard) list"

datatype parent_arg = OfContext | OfRoot | OfSpan nat

datatype 'f span_op =
    NewSpan nat thread parent_arg metadata "'f value_set"
  | NewDisabled nat metadata
  | NewNone nat
  | GetCurrent nat thread
  | OrCurrent nat thread
  | CloneSpan nat nat
  | DropSpan thread nat
  | Enter thread nat nat
  | IntoEntered thread nat nat
  | DropGuard nat
  | ExitGuard nat nat
  | RecordField nat string "'f tvalue"
  | FollowsFrom nat nat

definition alist_remove :: "nat \<Rightarrow> (nat \<times> 'a) list \<Rightarrow> (nat \<times> 'a) list" where
  "alist_remove k xs = filter (\<lambda>(j, _). j \<noteq> k) xs"

definition borrows :: "nat \<Rightarrow> 'd guard \<Rightarrow> bool" where
  "borrows k g = (case g of Entered t j sp \<Rightarrow> j = k | EnteredSpan t sp \<Rightarrow> False)"

definition owned_by_program :: "nat \<Rightarrow> ('d, 's) prog \<Rightarrow> bool" where
  "owned_by_program k p \<longleftrightarrow> map_of (pg_spans p) k \<noteq> None \<and> list_all (\<lambda>(_, g). \<not> borrows k g) (pg_guards p)"

abbreviation fresh_span :: "nat \<Rightarrow> ('d, 's) prog \<Rightarrow> bool" where
  "fresh_span k p \<equiv> map_of (pg_spans p) k = None"

abbreviation fresh_guard :: "nat \<Rightarrow> ('d, 's) prog \<Rightarrow> bool" where
  "fresh_guard k p \<equiv> map_of (pg_guards p) k = None"

fun well_typed :: "(thread \<Rightarrow> 'd) \<Rightarrow> 'f span_op \<Rightarrow> ('d, 's) prog \<Rightarrow> bool" where
  "well_typed dflt (NewSpan k t pa meta vals) p \<longleftrightarrow> fresh_span k p \<and>
     (case pa of
        OfSpan j \<Rightarrow> (case map_of (pg_spans p) j of
            None \<Rightarrow> False
          | Some sp \<Rightarrow> (case sp_inner sp of None \<Rightarrow> True | Some inn \<Rightarrow> in_subscriber inn = dflt t))
      | _ \<Rightarrow> True)"
| "well_typed dflt (NewDisabled k meta) p \<longleftrightarrow> fresh_span k p"
| "well_typed dflt (NewNone k) p \<longleftrightarrow> fresh_span k p"
| "well_typed dflt (GetCurrent k t) p \<longleftrightarrow> fresh_span k p"
| "well_typed dflt (OrCurrent k t) p \<longleftrightarrow> owned_by_program k p"
| "well_typed dflt (CloneSpan j k) p \<longleftrightarrow> map_of (pg_spans p) j \<noteq> None \<and> fresh_span k p"
| "well_typed dflt (DropSpan t k) p \<longleftrightarrow> owned_by_program k p"
| "well_typed dflt (Enter t g k) p \<longleftrightarrow> fresh_guard g p \<and> map_of (pg_spans p) k \<noteq> None"
| "well_typed dflt (IntoEntered t g k) p \<longleftrightarrow> fresh_guard g p \<and> owned_by_program k p"
| "well_typed dflt (DropGuard g) p \<longleftrightarrow> map_of (pg_guards p) g \<noteq> None"
| "well_typed dflt (ExitGuard g k) p \<longleftrightarrow> fresh_span k p \<and> (\<exists>t sp. map_of (pg_guards p) g = Some (EnteredSpan t sp))"
| "well_typed dflt (RecordField k name v) p \<longleftrightarrow> map_of (pg_spans p) k \<noteq> None"
| "well_typed dflt (FollowsFrom k j) p \<longleftrightarrow> map_of (pg_spans p) k \<noteq> None \<and> map_of (pg_spans p) j \<noteq> None"

definition add_span :: "nat \<Rightarrow> ('d span \<times> 's) option \<Rightarrow> ('d, 's) prog \<Rightarrow> ('d, 's) prog option" where
  "add_span k r p = map_option (\<lambda>(sp, s). p\<lparr>pg_store := s, pg_spans := (k, sp) # pg_spans p\<rparr>) r"

fun exec :: "('f, 'd, 's) span_ops \<Rightarrow> (thread \<Rightarrow> 'd) \<Rightarrow> 'f span_op \<Rightarrow> ('d, 's) prog \<Rightarrow> ('d, 's) prog option" where
  "exec ops dflt (NewSpan k t pa meta vals) p = add_span k
     (case pa of
        OfContext \<Rightarrow> span_new_with ops t meta vals (dflt t) (pg_store p)
      | OfRoot \<Rightarrow> span_new_root_with ops t meta vals (dflt t) (pg_store p)
      | OfSpan j \<Rightarrow> span_child_of_with ops t (Option.bind (map_of (pg_spans p) j) span_id_of) meta vals (dflt t) (pg_store p)) p"
| "exec ops dflt (NewDisabled k meta) p = add_span k (Some (span_new_disabled meta, pg_store p)) p"
| "exec ops dflt (NewNone k) p = add_span k (Some (span_none, pg_store p)) p"
| "exec ops dflt (GetCurrent k t) p = add_span k (span_current ops t (dflt t) (pg_store p)) p"
| "exec ops dflt (OrCurrent k t) p =
     add_span k (span_or_current ops t (dflt t) (the (map_of (pg_spans p) k)) (pg_store p))
       (p\<lparr>pg_spans := alist_remove k (pg_spans p)\<rparr>)"
| "exec ops dflt (CloneSpan j k) p = add_span k (span_clone ops (the (map_of (pg_spans p) j)) (pg_store p)) p"
| "exec ops dflt (DropSpan t k) p =
     map_option (\<lambda>s. p\<lparr>pg_store := s, pg_spans := alist_remove k (pg_spans p)\<rparr>)
       (span_drop ops t (the (map_of (pg_spans p) k)) (pg_store p))"
| "exec ops dflt (Enter t g k) p =
     (let sp = the (map_of (pg_spans p) k)
      in Some (p\<lparr>pg_store := span_do_enter ops t sp (pg_store p), pg_guards := (g, Entered t k sp) # pg_guards p\<rparr>))"
| "exec ops dflt (IntoEntered t g k) p =
     (let sp = the (map_of (pg_spans p) k)
      in Some (p\<lparr>pg_store := span_do_enter ops t sp (pg_store p), pg_spans := alist_remove k (pg_spans p),
           pg_guards := (g, EnteredSpan t sp) # pg_guards p\<rparr>))"
| "exec ops dflt (DropGuard g) p =
     map_option (\<lambda>s. p\<lparr>pg_store := s, pg_guards := alist_remove g (pg_guards p)\<rparr>)
       (span_guard_drop ops (the (map_of (pg_guards p) g)) (pg_store p))"
| "exec ops dflt (ExitGuard g k) p =
     (let gd = the (map_of (pg_guards p) g)
      in add_span k (entered_exit ops (guard_thread gd) (guard_span gd) (pg_store p))
           (p\<lparr>pg_guards := alist_remove g (pg_guards p)\<rparr>))"
| "exec ops dflt (RecordField k name v) p =
     Some (p\<lparr>pg_store := span_record ops (the (map_of (pg_spans p) k)) name v (pg_store p)\<rparr>)"
| "exec ops dflt (FollowsFrom k j) p =
     Some (p\<lparr>pg_store := span_follows_from ops (the (map_of (pg_spans p) k))
       (Option.bind (map_of (pg_spans p) j) span_id_of) (pg_store p)\<rparr>)"

text \<open>How many references the program holds to a span, and which spans it has entered on a thread.\<close>

definition owns :: "'d \<Rightarrow> span_id \<Rightarrow> 'd span \<Rightarrow> nat" where
  "owns d i sp = (if sp_inner sp = Some \<lparr>in_id = i, in_subscriber = d\<rparr> then 1 else 0)"

definition guard_owns :: "'d \<Rightarrow> span_id \<Rightarrow> 'd guard \<Rightarrow> nat" where
  "guard_owns d i g = (case g of Entered t k sp \<Rightarrow> 0 | EnteredSpan t sp \<Rightarrow> owns d i sp)"

definition handles :: "('d, 's) prog \<Rightarrow> 'd \<Rightarrow> span_id \<Rightarrow> nat" where
  "handles p d i = (\<Sum>(_, sp) \<leftarrow> pg_spans p. owns d i sp) + (\<Sum>(_, g) \<leftarrow> pg_guards p. guard_owns d i g)"

definition inside :: "('d, 's) prog \<Rightarrow> 'd \<Rightarrow> thread \<Rightarrow> span_id \<Rightarrow> nat" where
  "inside p d t i = (\<Sum>(_, g) \<leftarrow> pg_guards p. if guard_thread g = t then owns d i (guard_span g) else 0)"

lemma sum_remove:
  assumes "distinct (map fst xs)" and "map_of xs k = Some v"
  shows "(\<Sum>(_, x) \<leftarrow> xs. f x) = f v + (\<Sum>(_, x) \<leftarrow> alist_remove k xs. f x :: nat)"
  using assms
proof (induction xs)
  case (Cons a xs)
  obtain j w where a: "a = (j, w)" by (cases a)
  have "alist_remove k xs = xs" if "k \<notin> fst ` set xs"
    using that by (force simp: alist_remove_def filter_id_conv)
  then show ?case using Cons a by (auto simp: alist_remove_def)
qed simp

lemma alist_remove_map_of [simp]: "map_of (alist_remove k xs) j = (if j = k then None else map_of xs j)"
  by (induction xs) (auto simp: alist_remove_def)

lemma alist_remove_set [simp]: "set (alist_remove k xs) = {x \<in> set xs. fst x \<noteq> k}"
  by (auto simp: alist_remove_def)

lemma alist_remove_distinct [simp]: "distinct (map fst xs) \<Longrightarrow> distinct (map fst (alist_remove k xs))"
  by (simp add: alist_remove_def distinct_map_filter)

lemma guard_owns_simps [simp]: "guard_owns d i (Entered t k sp) = 0" "guard_owns d i (EnteredSpan t sp) = owns d i sp"
  by (simp_all add: guard_owns_def)

lemma owns_simps [simp]:
  "sp_inner sp = None \<Longrightarrow> owns d i sp = 0"
  "sp_inner sp = Some inn \<Longrightarrow> owns d i sp = (if d = in_subscriber inn \<and> i = in_id inn then 1 else 0)"
  by (auto simp: owns_def)

lemma sum_pos: "(k, x) \<in> set xs \<Longrightarrow> 0 < f x \<Longrightarrow> 0 < (\<Sum>(_, y) \<leftarrow> xs. f y :: nat)"
  by (induction xs) auto

lemma handles_pos:
  "(k, sp) \<in> set (pg_spans p) \<Longrightarrow> sp_inner sp = Some inn \<Longrightarrow> 0 < handles p (in_subscriber inn) (in_id inn)"
  "(k, EnteredSpan t sp) \<in> set (pg_guards p) \<Longrightarrow> sp_inner sp = Some inn \<Longrightarrow> 0 < handles p (in_subscriber inn) (in_id inn)"
  unfolding handles_def
  using sum_pos [of k sp "pg_spans p" "owns (in_subscriber inn) (in_id inn)"]
    sum_pos [of k "EnteredSpan t sp" "pg_guards p" "guard_owns (in_subscriber inn) (in_id inn)"]
  by simp_all

definition plus_owns :: "('d \<Rightarrow> span_id \<Rightarrow> nat) \<Rightarrow> 'd span \<Rightarrow> 'd \<Rightarrow> span_id \<Rightarrow> nat" where
  "plus_owns h sp d i = h d i + owns d i sp"

definition minus_owns :: "('d \<Rightarrow> span_id \<Rightarrow> nat) \<Rightarrow> 'd span \<Rightarrow> 'd \<Rightarrow> span_id \<Rightarrow> nat" where
  "minus_owns h sp d i = h d i - owns d i sp"

definition upd2 :: "('d \<Rightarrow> span_id \<Rightarrow> nat) \<Rightarrow> 'd \<Rightarrow> span_id \<Rightarrow> nat \<Rightarrow> 'd \<Rightarrow> span_id \<Rightarrow> nat" where
  "upd2 h d i n = h(d := (h d)(i := n))"

lemma plus_minus_simps [simp]:
  "sp_inner sp = None \<Longrightarrow> plus_owns h sp = h" "sp_inner sp = None \<Longrightarrow> minus_owns h sp = h"
  "sp_inner sp = Some inn \<Longrightarrow> plus_owns h sp = upd2 h (in_subscriber inn) (in_id inn) (Suc (h (in_subscriber inn) (in_id inn)))"
  "sp_inner sp = Some inn \<Longrightarrow> minus_owns h sp = upd2 h (in_subscriber inn) (in_id inn) (h (in_subscriber inn) (in_id inn) - 1)"
  by (auto simp: plus_owns_def minus_owns_def upd2_def fun_eq_iff)

text \<open>What handles need of the subscriber: \<open>inv h s\<close> says that the store counts \<open>h\<close> references, and
  \<open>ent\<close> how often a span is entered on a thread.\<close>

locale span_store =
  fixes ops :: "('f, 'd, 's) span_ops" and inv :: "('d \<Rightarrow> span_id \<Rightarrow> nat) \<Rightarrow> 's \<Rightarrow> bool"
    and room :: "'s \<Rightarrow> bool" and ent :: "'s \<Rightarrow> 'd \<Rightarrow> thread \<Rightarrow> span_id \<Rightarrow> nat"
  assumes new_ok: "inv h s \<Longrightarrow> room s \<Longrightarrow> (\<And>j. attr_parent a = ExplicitParent j \<Longrightarrow> 0 < h d j) \<Longrightarrow>
      \<exists>i s1. op_new_span ops d t a s = Some (i, s1) \<and> inv (upd2 h d i (Suc (h d i))) s1 \<and> ent s1 = ent s"
    and clone_ok: "inv h s \<Longrightarrow> room s \<Longrightarrow> 0 < h d i \<Longrightarrow>
      \<exists>s1. op_clone_span ops d i s = Some (i, s1) \<and> inv (upd2 h d i (Suc (h d i))) s1 \<and> ent s1 = ent s"
    and current_ok: "inv h s \<Longrightarrow> room s \<Longrightarrow> op_current_span ops d t s = CurrentSpan i m \<Longrightarrow>
      \<exists>s1. op_clone_span ops d i s = Some (i, s1) \<and> inv (upd2 h d i (Suc (h d i))) s1 \<and> ent s1 = ent s"
    and close_ok: "inv h s \<Longrightarrow> 0 < h d i \<Longrightarrow>
      \<exists>b s1. op_try_close ops d t i s = Some (b, s1) \<and> inv (upd2 h d i (h d i - 1)) s1 \<and> ent s1 = ent s"
    and enter_ok: "inv h s \<Longrightarrow> inv h (op_enter ops d t i s)"
      "inv h s \<Longrightarrow> ent (op_enter ops d t i s) d1 t1 i1 = ent s d1 t1 i1 + (if d1 = d \<and> t1 = t \<and> i1 = i then 1 else 0)"
    and exit_ok: "inv h s \<Longrightarrow> inv h (op_exit ops d t i s)"
      "inv h s \<Longrightarrow> ent (op_exit ops d t i s) d1 t1 i1 = ent s d1 t1 i1 - (if d1 = d \<and> t1 = t \<and> i1 = i then 1 else 0)"
    and record_ok: "inv h s \<Longrightarrow> inv h (op_record ops d i vals s)" "inv h s \<Longrightarrow> ent (op_record ops d i vals s) = ent s"
    and follows_ok: "inv h s \<Longrightarrow> inv h (op_follows_from ops d i j s)" "inv h s \<Longrightarrow> ent (op_follows_from ops d i j s) = ent s"
begin

lemma make_ok:
  assumes "inv h s" "room s" and "\<And>j. attr_parent a = ExplicitParent j \<Longrightarrow> 0 < h d j"
  shows "\<exists>sp s1. span_make_with ops t meta a d s = Some (sp, s1) \<and> inv (plus_owns h sp) s1 \<and> ent s1 = ent s"
  proof -
  obtain i s1 where "op_new_span ops d t a s = Some (i, s1)" "inv (upd2 h d i (Suc (h d i))) s1" "ent s1 = ent s"
    using new_ok [OF assms(1,2), of a d t] assms(3) by blast
  then show ?thesis by (simp add: span_make_with_def)
qed

lemma span_current_ok:
  assumes "inv h s" "room s"
  shows "\<exists>sp s1. span_current ops t d s = Some (sp, s1) \<and> inv (plus_owns h sp) s1 \<and> ent s1 = ent s"
proof (cases "op_current_span ops d t s")
  case (CurrentSpan i m)
  from current_ok [OF assms this] CurrentSpan show ?thesis by (auto simp: span_current_def current_into_inner_def)
qed (use assms in \<open>auto simp: span_current_def current_into_inner_def span_none_def\<close>)

lemma span_clone_ok:
  assumes "inv h s" "room s" and "\<And>inn. sp_inner sp = Some inn \<Longrightarrow> 0 < h (in_subscriber inn) (in_id inn)"
  shows "\<exists>s1. span_clone ops sp s = Some (sp, s1) \<and> inv (plus_owns h sp) s1 \<and> ent s1 = ent s"
proof (cases "sp_inner sp")
  case None
  then show ?thesis using assms by (simp add: span_clone_def)
next
  case (Some inn)
  from clone_ok [OF assms(1,2) assms(3) [OF Some]] Some show ?thesis by (auto simp: span_clone_def)
qed

lemma span_drop_ok:
  assumes "inv h s" and "\<And>inn. sp_inner sp = Some inn \<Longrightarrow> 0 < h (in_subscriber inn) (in_id inn)"
  shows "\<exists>s1. span_drop ops t sp s = Some s1 \<and> inv (minus_owns h sp) s1 \<and> ent s1 = ent s"
proof (cases "sp_inner sp")
  case None
  then show ?thesis using assms by (simp add: span_drop_def)
next
  case (Some inn)
  from close_ok [OF assms(1) assms(2) [OF Some], where t = t] Some show ?thesis by (auto simp: span_drop_def)
qed

lemma do_enter_ok:
  assumes "inv h s"
  shows "inv h (span_do_enter ops t sp s)"
    and "ent (span_do_enter ops t sp s) d1 t1 i1 = ent s d1 t1 i1 + (if t1 = t then owns d1 i1 sp else 0)"
  using assms enter_ok by (cases "sp_inner sp"; simp add: span_do_enter_def)+

lemma do_exit_ok:
  assumes "inv h s"
  shows "inv h (span_do_exit ops t sp s)"
    and "ent (span_do_exit ops t sp s) d1 t1 i1 = ent s d1 t1 i1 - (if t1 = t then owns d1 i1 sp else 0)"
  using assms exit_ok by (cases "sp_inner sp"; simp add: span_do_exit_def)+

lemma span_guard_drop_ok:
  assumes "inv h s" and "\<And>t sp inn. g = EnteredSpan t sp \<Longrightarrow> sp_inner sp = Some inn \<Longrightarrow> 0 < h (in_subscriber inn) (in_id inn)"
  shows "\<exists>s1. span_guard_drop ops g s = Some s1 \<and> inv (\<lambda>d i. h d i - guard_owns d i g) s1 \<and>
    (\<forall>d t i. ent s1 d t i = ent s d t i - (if t = guard_thread g then owns d i (guard_span g) else 0))"
proof (cases g)
  case (Entered t k sp)
  then show ?thesis using do_exit_ok [OF assms(1)] by (simp add: span_guard_drop_def)
next
  case (EnteredSpan t sp)
  have "minus_owns h sp = (\<lambda>d i. h d i - guard_owns d i g)" by (auto simp: minus_owns_def EnteredSpan fun_eq_iff)
  then show ?thesis
    using span_drop_ok [OF do_exit_ok(1) [OF assms(1), where t = t and sp = sp], where t = t and sp = sp] assms(2) do_exit_ok(2) [OF assms(1)] EnteredSpan
    by (auto simp: span_guard_drop_def)
qed

definition prog_inv :: "('d, 's) prog \<Rightarrow> bool" where
  "prog_inv p \<longleftrightarrow> distinct (map fst (pg_spans p)) \<and> distinct (map fst (pg_guards p)) \<and>
     inv (handles p) (pg_store p) \<and> (\<forall>d t i. ent (pg_store p) d t i = inside p d t i) \<and>
     (\<forall>g t k sp. (g, Entered t k sp) \<in> set (pg_guards p) \<longrightarrow> map_of (pg_spans p) k = Some sp)"

lemma prog_invI:
  assumes "distinct (map fst (pg_spans p))" "distinct (map fst (pg_guards p))" "inv (handles p) (pg_store p)"
    and "\<And>d t i. ent (pg_store p) d t i = inside p d t i"
    and "\<And>g t k sp. (g, Entered t k sp) \<in> set (pg_guards p) \<Longrightarrow> map_of (pg_spans p) k = Some sp"
  shows "prog_inv p"
  using assms by (simp add: prog_inv_def)

lemma prog_inv_borrow: "prog_inv p \<Longrightarrow> (g, Entered t k sp) \<in> set (pg_guards p) \<Longrightarrow> map_of (pg_spans p) k = Some sp"
  unfolding prog_inv_def by blast

lemma prog_inv_handle:
  assumes "prog_inv p" and "map_of (pg_spans p) k = Some sp" "sp_inner sp = Some inn"
  shows "0 < handles p (in_subscriber inn) (in_id inn)"
  using handles_pos(1) [OF map_of_SomeD [OF assms(2)] assms(3)] .

text \<open>A new handle, under a name that is not in use.\<close>

lemma add_span_inv:
  assumes "prog_inv p" and "fresh_span k p" and "inv (plus_owns (handles p) sp) s1" and "ent s1 = ent (pg_store p)"
  shows "prog_inv (p\<lparr>pg_store := s1, pg_spans := (k, sp) # pg_spans p\<rparr>)"
proof -
  have "handles (p\<lparr>pg_store := s1, pg_spans := (k, sp) # pg_spans p\<rparr>) = plus_owns (handles p) sp"
    by (auto simp: handles_def plus_owns_def fun_eq_iff)
  moreover have "map_of ((k, sp) # pg_spans p) j = Some sp'" if "(g, Entered t j sp') \<in> set (pg_guards p)" for g t j sp'
  proof -
    have "map_of (pg_spans p) j = Some sp'" using assms(1) that unfolding prog_inv_def by blast
    then show ?thesis using assms(2) by auto
  qed
  moreover have "k \<notin> fst ` set (pg_spans p)" using assms(2) by (simp add: map_of_eq_None_iff)
  ultimately show ?thesis
    using assms(1,3,4) unfolding prog_inv_def by (simp add: inside_def)
qed

lemma remove_span_handles:
  assumes "prog_inv p" and "map_of (pg_spans p) k = Some sp"
  shows "handles p d i = owns d i sp + handles (p\<lparr>pg_spans := alist_remove k (pg_spans p)\<rparr>) d i"
  using assms sum_remove [of "pg_spans p" k sp "owns d i"] by (simp add: prog_inv_def handles_def)

lemma remove_guard_counts:
  assumes "prog_inv p" and "map_of (pg_guards p) k = Some g"
  shows "handles p d i = guard_owns d i g + handles (p\<lparr>pg_guards := alist_remove k (pg_guards p)\<rparr>) d i"
    and "inside p d t i = (if guard_thread g = t then owns d i (guard_span g) else 0) +
      inside (p\<lparr>pg_guards := alist_remove k (pg_guards p)\<rparr>) d t i"
  using assms sum_remove [of "pg_guards p" k g "guard_owns d i"]
    sum_remove [of "pg_guards p" k g "\<lambda>g. if guard_thread g = t then owns d i (guard_span g) else 0"]
  by (simp_all add: prog_inv_def handles_def inside_def)

text \<open>Taking a handle that no guard borrows out of the program.\<close>

lemma take_span_inv:
  assumes "prog_inv p" and "owned_by_program k p" and "map_of (pg_spans p) k = Some sp"
  shows "distinct (map fst (alist_remove k (pg_spans p)))"
    and "(g, Entered t j sp') \<in> set (pg_guards p) \<Longrightarrow> map_of (alist_remove k (pg_spans p)) j = Some sp'"
    and "minus_owns (handles p) sp = handles (p\<lparr>pg_spans := alist_remove k (pg_spans p)\<rparr>)"
proof -
  show "distinct (map fst (alist_remove k (pg_spans p)))" using assms(1) by (simp add: prog_inv_def)
  show "map_of (alist_remove k (pg_spans p)) j = Some sp'" if g: "(g, Entered t j sp') \<in> set (pg_guards p)"
  proof -
    have "map_of (pg_spans p) j = Some sp'" using assms(1) g unfolding prog_inv_def by blast
    moreover have "j \<noteq> k" using assms(2) g by (auto simp: owned_by_program_def list_all_iff borrows_def)
    ultimately show ?thesis by simp
  qed
  show "minus_owns (handles p) sp = handles (p\<lparr>pg_spans := alist_remove k (pg_spans p)\<rparr>)"
    using remove_span_handles [OF assms(1,3)] by (simp add: minus_owns_def fun_eq_iff)
qed

lemma exec_new_ok:
  assumes p: "prog_inv p" and "room (pg_store p)" and wt: "well_typed dflt (NewSpan k t pa meta vals) p"
  shows "\<exists>p'. exec ops dflt (NewSpan k t pa meta vals) p = Some p' \<and> prog_inv p'"
proof -
  define a where "a = (case pa of
      OfContext \<Rightarrow> attributes_new meta vals
    | OfRoot \<Rightarrow> attributes_new_root meta vals
    | OfSpan j \<Rightarrow> (case Option.bind (map_of (pg_spans p) j) span_id_of of
        Some i \<Rightarrow> attributes_child_of i meta vals | None \<Rightarrow> attributes_new_root meta vals))"
  have parent: "0 < handles p (dflt t) i" if par: "attr_parent a = ExplicitParent i" for i
  proof -
    obtain j sp where sp: "pa = OfSpan j" "map_of (pg_spans p) j = Some sp" "span_id_of sp = Some i"
      using par by (auto simp: a_def attributes_new_def attributes_new_root_def attributes_child_of_def
          split: parent_arg.splits option.splits bind_splits)
    then obtain inn where inn: "sp_inner sp = Some inn" "in_id inn = i" by (auto simp: span_id_of_def)
    then have "in_subscriber inn = dflt t" using wt sp by simp
    then show ?thesis using prog_inv_handle [OF p sp(2) inn(1)] inn(2) by simp
  qed
  have "inv (handles p) (pg_store p)" using p by (simp add: prog_inv_def)
  then obtain sp s1 where sp: "span_make_with ops t meta a (dflt t) (pg_store p) = Some (sp, s1)"
    "inv (plus_owns (handles p) sp) s1" "ent s1 = ent (pg_store p)"
    using make_ok [OF _ assms(2), of "handles p" a "dflt t" t meta] parent by blast
  have "exec ops dflt (NewSpan k t pa meta vals) p = add_span k (Some (sp, s1)) p"
    using sp(1) by (cases pa) (simp_all add: a_def span_new_with_def span_new_root_with_def span_child_of_with_def)
  moreover have "fresh_span k p" using wt by simp
  ultimately show ?thesis
    using add_span_inv [OF p _ sp(2,3), of k] by (simp only: add_span_def option.map prod.case) blast
qed

lemma exec_drop_ok:
  assumes p: "prog_inv p" and wt: "well_typed dflt (DropSpan t k) p"
  shows "\<exists>p'. exec ops dflt (DropSpan t k) p = Some p' \<and> prog_inv p'"
proof -
  obtain sp where sp: "map_of (pg_spans p) k = Some sp" using wt by (auto simp: owned_by_program_def)
  have own: "owned_by_program k p" using wt by simp
  note take = take_span_inv [OF p own sp]
  have inv: "inv (handles p) (pg_store p)" using p by (simp add: prog_inv_def)
  obtain s1 where s1: "span_drop ops t sp (pg_store p) = Some s1" "inv (minus_owns (handles p) sp) s1" "ent s1 = ent (pg_store p)"
    using span_drop_ok [OF inv prog_inv_handle [OF p sp], where t = t] by blast
  have "handles (p\<lparr>pg_store := s1, pg_spans := alist_remove k (pg_spans p)\<rparr>) = handles (p\<lparr>pg_spans := alist_remove k (pg_spans p)\<rparr>)"
    by (simp add: handles_def fun_eq_iff)
  then have "prog_inv (p\<lparr>pg_store := s1, pg_spans := alist_remove k (pg_spans p)\<rparr>)"
    using p s1 take unfolding prog_inv_def by (simp add: inside_def)
  then show ?thesis using s1(1) sp by simp
qed

lemma exec_enter_ok:
  assumes p: "prog_inv p" and wt: "well_typed dflt (Enter t g k) p"
  shows "\<exists>p'. exec ops dflt (Enter t g k) p = Some p' \<and> prog_inv p'"
proof -
  obtain sp where sp: "map_of (pg_spans p) k = Some sp" using wt by auto
  have inv: "inv (handles p) (pg_store p)" using p by (simp add: prog_inv_def)
  let ?q = "p\<lparr>pg_store := span_do_enter ops t sp (pg_store p), pg_guards := (g, Entered t k sp) # pg_guards p\<rparr>"
  have "handles ?q = handles p" by (simp add: handles_def fun_eq_iff)
  moreover have "g \<notin> fst ` set (pg_guards p)" using wt by (simp add: map_of_eq_None_iff)
  moreover have "inside ?q d u i = inside p d u i + (if u = t then owns d i sp else 0)" for d u i
    by (auto simp: inside_def)
  ultimately have "prog_inv ?q"
    using p sp do_enter_ok [OF inv] unfolding prog_inv_def by auto
  then show ?thesis using sp by (simp add: Let_def)
qed

lemma exec_into_entered_ok:
  assumes p: "prog_inv p" and wt: "well_typed dflt (IntoEntered t g k) p"
  shows "\<exists>p'. exec ops dflt (IntoEntered t g k) p = Some p' \<and> prog_inv p'"
proof -
  obtain sp where sp: "map_of (pg_spans p) k = Some sp" using wt by (auto simp: owned_by_program_def)
  have own: "owned_by_program k p" using wt by simp
  note take = take_span_inv [OF p own sp]
  have inv: "inv (handles p) (pg_store p)" using p by (simp add: prog_inv_def)
  let ?q = "p\<lparr>pg_store := span_do_enter ops t sp (pg_store p), pg_spans := alist_remove k (pg_spans p),
      pg_guards := (g, EnteredSpan t sp) # pg_guards p\<rparr>"
  have "handles ?q = handles p"
    using remove_span_handles [OF p sp] by (simp add: handles_def fun_eq_iff)
  moreover have "g \<notin> fst ` set (pg_guards p)" using wt by (simp add: map_of_eq_None_iff)
  moreover have "inside ?q d u i = inside p d u i + (if u = t then owns d i sp else 0)" for d u i
    by (auto simp: inside_def)
  ultimately have "prog_inv ?q"
    using p take(1,2) do_enter_ok [OF inv] unfolding prog_inv_def by auto
  then show ?thesis using sp by (simp add: Let_def)
qed

lemma exec_drop_guard_ok:
  assumes p: "prog_inv p" and wt: "well_typed dflt (DropGuard k) p"
  shows "\<exists>p'. exec ops dflt (DropGuard k) p = Some p' \<and> prog_inv p'"
proof -
  obtain g where g: "map_of (pg_guards p) k = Some g" using wt by auto
  note rem = remove_guard_counts [OF p g]
  have inv: "inv (handles p) (pg_store p)" using p by (simp add: prog_inv_def)
  obtain s1 where s1: "span_guard_drop ops g (pg_store p) = Some s1" "inv (\<lambda>d i. handles p d i - guard_owns d i g) s1"
    "\<And>d t i. ent s1 d t i = ent (pg_store p) d t i - (if t = guard_thread g then owns d i (guard_span g) else 0)"
    using span_guard_drop_ok [OF inv, of g] handles_pos(2) map_of_SomeD [OF g] by blast
  let ?q = "p\<lparr>pg_store := s1, pg_guards := alist_remove k (pg_guards p)\<rparr>"
  have "handles ?q = (\<lambda>d i. handles p d i - guard_owns d i g)"
    using rem(1) by (simp add: handles_def fun_eq_iff)
  moreover have "ent s1 d t i = inside ?q d t i" for d t i
    using p rem(2) [of d t i] unfolding s1(3) by (simp add: prog_inv_def inside_def)
  ultimately have "prog_inv ?q"
    using p s1(2) prog_inv_borrow [OF p] by (intro prog_invI) (auto simp: prog_inv_def)
  then show ?thesis using s1(1) g by simp
qed

lemma exec_exit_guard_ok:
  assumes p: "prog_inv p" and wt: "well_typed dflt (ExitGuard g k) p"
  shows "\<exists>p'. exec ops dflt (ExitGuard g k) p = Some p' \<and> prog_inv p'"
proof -
  obtain t sp where g: "map_of (pg_guards p) g = Some (EnteredSpan t sp)" using wt by auto
  let ?s = "span_do_exit ops t sp (pg_store p)"
  let ?q = "p\<lparr>pg_guards := alist_remove g (pg_guards p), pg_store := ?s, pg_spans := (k, sp) # pg_spans p\<rparr>"
  note rem = remove_guard_counts [OF p g]
  have inv: "inv (handles p) (pg_store p)" using p by (simp add: prog_inv_def)
  have "prog_inv ?q"
  proof (rule prog_invI)
    have "handles ?q = handles p" using rem(1) by (simp add: handles_def fun_eq_iff)
    then show "inv (handles ?q) (pg_store ?q)" using do_exit_ok(1) [OF inv, of t sp] by simp
    show "ent (pg_store ?q) d u i = inside ?q d u i" for d u i
      using p rem(2) [of d u i] do_exit_ok(2) [OF inv] by (simp add: prog_inv_def inside_def)
    show "map_of (pg_spans ?q) j = Some sp'" if "(g', Entered u j sp') \<in> set (pg_guards ?q)" for g' u j sp'
      using prog_inv_borrow [OF p, of g' u j sp'] that wt by auto
    show "distinct (map fst (pg_spans ?q))" using p wt by (simp add: prog_inv_def map_of_eq_None_iff)
    show "distinct (map fst (pg_guards ?q))" using p by (simp add: prog_inv_def)
  qed
  moreover have "entered_exit ops t sp (pg_store p) = Some (sp, ?s)"
    by (simp add: entered_exit_def span_guard_drop_def span_drop_def span_do_exit_def span_none_def)
  ultimately show ?thesis using g by (simp add: Let_def add_span_def)
qed

lemma prog_inv_store:
  assumes "prog_inv p" and "inv (handles p) s1" and "ent s1 = ent (pg_store p)"
  shows "prog_inv (p\<lparr>pg_store := s1\<rparr>)"
proof -
  have "handles (p\<lparr>pg_store := s1\<rparr>) = handles p" by (simp add: handles_def fun_eq_iff)
  then show ?thesis using assms by (simp add: prog_inv_def inside_def)
qed

lemma exec_or_current_ok:
  assumes p: "prog_inv p" and "room (pg_store p)" and wt: "well_typed dflt (OrCurrent k t) p"
  shows "\<exists>p'. exec ops dflt (OrCurrent k t) p = Some p' \<and> prog_inv p'"
proof -
  have own: "owned_by_program k p" using wt by simp
  obtain sp where sp: "map_of (pg_spans p) k = Some sp" using own by (auto simp: owned_by_program_def)
  note take = take_span_inv [OF p own sp]
  let ?q = "p\<lparr>pg_spans := alist_remove k (pg_spans p)\<rparr>"
  have inv: "inv (handles p) (pg_store p)" using p by (simp add: prog_inv_def)
  show ?thesis
  proof (cases "sp_inner sp")
    case None
    then have "handles ?q = handles p" using take(3) by simp
    then have q: "prog_inv ?q" using p take(1,2) unfolding prog_inv_def by (simp add: inside_def)
    obtain sp1 s1 where s1: "span_current ops t (dflt t) (pg_store p) = Some (sp1, s1)"
      "inv (plus_owns (handles p) sp1) s1" "ent s1 = ent (pg_store p)"
      using span_current_ok [OF inv assms(2)] by blast
    have "prog_inv (?q\<lparr>pg_store := s1, pg_spans := (k, sp1) # pg_spans ?q\<rparr>)"
      using add_span_inv [OF q, of k sp1 s1] s1 \<open>handles ?q = handles p\<close> by simp
    then show ?thesis using s1(1) sp None by (simp add: span_or_current_def span_is_disabled_def add_span_def)
  next
    case (Some inn)
    have "handles (p\<lparr>pg_spans := (k, sp) # alist_remove k (pg_spans p)\<rparr>) = handles p"
      using remove_span_handles [OF p sp] by (simp add: handles_def fun_eq_iff)
    moreover have "map_of ((k, sp) # alist_remove k (pg_spans p)) j = map_of (pg_spans p) j" for j using sp by simp
    moreover have "k \<notin> fst ` set (alist_remove k (pg_spans p))" by auto
    ultimately have "prog_inv (p\<lparr>pg_spans := (k, sp) # alist_remove k (pg_spans p)\<rparr>)"
      using p take(1) unfolding prog_inv_def by (simp add: inside_def del: map_of.simps)
    then show ?thesis using sp Some by (simp add: span_or_current_def span_is_disabled_def add_span_def)
  qed
qed

theorem exec_ok:
  assumes p: "prog_inv p" and r: "room (pg_store p)" and wt: "well_typed dflt op p"
  shows "\<exists>p'. exec ops dflt op p = Some p' \<and> prog_inv p'"
proof (cases op)
  case (NewSpan k t pa meta vals)
  then show ?thesis using exec_new_ok p r wt by simp
next
  case (NewDisabled k meta)
  then show ?thesis using add_span_inv [OF p, of k "span_new_disabled meta" "pg_store p"] wt p
    by (simp add: add_span_def span_new_disabled_def prog_inv_def)
next
  case (NewNone k)
  then show ?thesis using add_span_inv [OF p, of k span_none "pg_store p"] wt p
    by (simp add: add_span_def span_none_def prog_inv_def)
next
  case (GetCurrent k t)
  have "inv (handles p) (pg_store p)" using p by (simp add: prog_inv_def)
  then obtain sp s1 where s1: "span_current ops t (dflt t) (pg_store p) = Some (sp, s1)"
    "inv (plus_owns (handles p) sp) s1" "ent s1 = ent (pg_store p)"
    using span_current_ok [OF _ r] by blast
  then show ?thesis using add_span_inv [OF p _ s1(2,3), of k] wt GetCurrent by (simp add: add_span_def)
next
  case (OrCurrent k t)
  then show ?thesis using exec_or_current_ok p r wt by simp
next
  case (CloneSpan j k)
  then obtain sp where sp: "map_of (pg_spans p) j = Some sp" using wt by auto
  have "inv (handles p) (pg_store p)" using p by (simp add: prog_inv_def)
  then obtain s1 where s1: "span_clone ops sp (pg_store p) = Some (sp, s1)"
    "inv (plus_owns (handles p) sp) s1" "ent s1 = ent (pg_store p)"
    using span_clone_ok [of "handles p" "pg_store p" sp] r prog_inv_handle [OF p sp] by blast
  then show ?thesis using add_span_inv [OF p _ s1(2,3), of k] wt CloneSpan sp by (simp add: add_span_def)
next
  case (DropSpan t k)
  then show ?thesis using exec_drop_ok p wt by simp
next
  case (Enter t g k)
  then show ?thesis using exec_enter_ok [OF p, of dflt t g k] wt by (simp del: exec.simps)
next
  case (IntoEntered t g k)
  then show ?thesis using exec_into_entered_ok [OF p, of dflt t g k] wt by (simp del: exec.simps)
next
  case (DropGuard g)
  then show ?thesis using exec_drop_guard_ok p wt by (simp del: exec.simps)
next
  case (ExitGuard g k)
  then show ?thesis using exec_exit_guard_ok [OF p, of dflt g k] wt by (simp del: exec.simps)
next
  case (RecordField k name v)
  have inv: "inv (handles p) (pg_store p)" using p by (simp add: prog_inv_def)
  let ?s = "span_record ops (the (map_of (pg_spans p) k)) name v (pg_store p)"
  have "inv (handles p) ?s \<and> ent ?s = ent (pg_store p)"
    using record_ok [OF inv] inv by (simp add: span_record_def span_record_all_def split: option.split)
  then show ?thesis using prog_inv_store [OF p, of ?s] RecordField by simp
next
  case (FollowsFrom k j)
  have inv: "inv (handles p) (pg_store p)" using p by (simp add: prog_inv_def)
  let ?s = "span_follows_from ops (the (map_of (pg_spans p) k)) (Option.bind (map_of (pg_spans p) j) span_id_of) (pg_store p)"
  have "inv (handles p) ?s \<and> ent ?s = ent (pg_store p)"
    using follows_ok [OF inv] inv by (simp add: span_follows_from_def split: option.split)
  then show ?thesis using prog_inv_store [OF p, of ?s] FollowsFrom by simp
qed

end

subsection \<open>Runs\<close>

definition prog_start :: "'s \<Rightarrow> ('d, 's) prog" where
  "prog_start s = \<lparr>pg_store = s, pg_spans = [], pg_guards = []\<rparr>"

fun run_ops :: "('f, 'd, 's) span_ops \<Rightarrow> (thread \<Rightarrow> 'd) \<Rightarrow> 'f span_op list \<Rightarrow> ('d, 's) prog \<Rightarrow> ('d, 's) prog option" where
  "run_ops ops dflt [] p = Some p"
| "run_ops ops dflt (x # xs) p = Option.bind (exec ops dflt x p) (run_ops ops dflt xs)"

fun typed_run ::
  "('f, 'd, 's) span_ops \<Rightarrow> (thread \<Rightarrow> 'd) \<Rightarrow> ('s \<Rightarrow> bool) \<Rightarrow> 'f span_op list \<Rightarrow> ('d, 's) prog \<Rightarrow> bool" where
  "typed_run ops dflt room [] p \<longleftrightarrow> True"
| "typed_run ops dflt room (x # xs) p \<longleftrightarrow> well_typed dflt x p \<and> room (pg_store p) \<and>
     (case exec ops dflt x p of None \<Rightarrow> True | Some q \<Rightarrow> typed_run ops dflt room xs q)"

context span_store
begin

lemma run_ok:
  "prog_inv p \<Longrightarrow> typed_run ops dflt room xs p \<Longrightarrow> \<exists>p'. run_ops ops dflt xs p = Some p' \<and> prog_inv p'"
proof (induction xs arbitrary: p)
  case (Cons x xs)
  then obtain q where q: "exec ops dflt x p = Some q" "prog_inv q" using exec_ok [of p dflt x] by auto
  then have "typed_run ops dflt room xs q" using Cons.prems(2) by simp
  from Cons.IH [OF q(2) this] q(1) show ?case by simp
qed simp

lemma start_inv: "inv (\<lambda>_ _. 0) s \<Longrightarrow> (\<And>d t i. ent s d t i = 0) \<Longrightarrow> prog_inv (prog_start s)"
proof -
  assume "inv (\<lambda>_ _. 0) s" and "\<And>d t i. ent s d t i = 0"
  moreover have "handles (prog_start s :: ('d, 's) prog) = (\<lambda>_ _. 0)" by (simp add: prog_start_def handles_def fun_eq_iff)
  ultimately show ?thesis by (simp add: prog_inv_def) (simp add: prog_start_def inside_def)
qed

end

subsection \<open>Handles over registries\<close>

text \<open>Each dispatcher is a stack of layers over a registry of its own. Layers observe what passes through
  them; record and follows-from calls leave the registry as it is.\<close>

definition registry_ops ::
  "(pool \<Rightarrow> u64 option) \<Rightarrow> filter_state \<Rightarrow> nat list \<Rightarrow> ('f, 'd, 'd \<Rightarrow> registry) span_ops" where
  "registry_ops alloc fs layers =
     \<lparr>op_new_span = (\<lambda>d t attrs s. map_option (\<lambda>(i, r). (i, s(d := r))) (registry_new_span alloc t fs attrs (s d))),
      op_clone_span = (\<lambda>d i s. map_option (\<lambda>(j, r). (j, s(d := r))) (registry_clone_span i (s d))),
      op_try_close = (\<lambda>d t i s. map_option (\<lambda>(b, r). (b, s(d := r)))
        (layered_try_close (length (reg_spans (s d))) layers layers t i (s d))),
      op_enter = (\<lambda>d t i s. s(d := registry_enter t i (s d))),
      op_exit = (\<lambda>d t i s. s(d := registry_exit t i (s d))),
      op_record = (\<lambda>d i vals s. s),
      op_follows_from = (\<lambda>d i j s. s),
      op_current_span = (\<lambda>d t s. registry_current_span t (s d))\<rparr>"

text \<open>No reference count is within one of overflow, and the slab has a free slot to give.\<close>

definition registry_room :: "(pool \<Rightarrow> u64 option) \<Rightarrow> ('d \<Rightarrow> registry) \<Rightarrow> bool" where
  "registry_room alloc s \<longleftrightarrow>
     (\<forall>d i dat. registry_get i (s d) = Some dat \<longrightarrow> dat_ref_count dat < - 2) \<and>
     (\<forall>p k. alloc p = Some k \<longrightarrow> k \<notin> fst ` set p) \<and>
     (\<forall>d p. map fst p = map fst (reg_spans (s d)) \<longrightarrow> (\<exists>k. alloc p = Some k \<and> k \<noteq> - 1))"

definition stores_inv :: "('d \<Rightarrow> span_id \<Rightarrow> nat) \<Rightarrow> ('d \<Rightarrow> registry) \<Rightarrow> bool" where
  "stores_inv h s \<longleftrightarrow> (\<forall>d. registry_inv (\<lambda>k. h d (k + 1)) (s d) \<and> (\<forall>t. reg_close_count (s d) t = 0) \<and>
     (\<forall>t. stack_ok (reg_current_spans (s d) t)))"

definition entered_count :: "('d \<Rightarrow> registry) \<Rightarrow> 'd \<Rightarrow> thread \<Rightarrow> span_id \<Rightarrow> nat" where
  "entered_count s d t i = count_list (entered (reg_current_spans (s d) t)) i"

lemma upd2_slot: "(\<lambda>k. upd2 h d i n e (k + 1)) =
    (if e = d then (\<lambda>k. h d (k + 1))(id_to_idx i := n) else (\<lambda>k. h e (k + 1)))"
  by (auto simp: upd2_def id_to_idx_def id_into_u64_def fun_eq_iff eq_diff_eq)

lemma slot_handles: "(\<lambda>k. h (k + 1)) (id_to_idx i) = h i"
  by (simp add: id_to_idx_def id_into_u64_def)

lemma stores_inv_upd:
  assumes "stores_inv h s" and "registry_inv ((\<lambda>k. h d (k + 1))(id_to_idx i := n)) r"
    and "reg_close_count r = reg_close_count (s d)" "reg_current_spans r = reg_current_spans (s d)"
  shows "stores_inv (upd2 h d i n) (s(d := r))" "entered_count (s(d := r)) = entered_count s"
  using assms by (auto simp: stores_inv_def upd2_slot entered_count_def fun_eq_iff)

lemma registry_clone_frame:
  "registry_clone_span i r = Some (j, r1) \<Longrightarrow>
   reg_close_count r1 = reg_close_count r \<and> reg_current_spans r1 = reg_current_spans r"
  by (auto simp: registry_clone_span_def Let_def split: option.splits if_splits)

lemma stores_clone:
  assumes inv: "stores_inv h s" and room: "registry_room alloc s" and "registry_get i (s d) \<noteq> None"
  shows "\<exists>s1. op_clone_span (registry_ops alloc fs layers) d i s = Some (i, s1) \<and>
    stores_inv (upd2 h d i (Suc (h d i))) s1 \<and> entered_count s1 = entered_count s"
proof -
  obtain dat where dat: "registry_get i (s d) = Some dat" using assms(3) by auto
  have "registry_inv (\<lambda>k. h d (k + 1)) (s d)" using inv by (simp add: stores_inv_def)
  moreover have "dat_ref_count dat < - 2" using room dat unfolding registry_room_def by blast
  ultimately obtain r where r: "registry_clone_span i (s d) = Some (i, r)"
    "registry_inv ((\<lambda>k. h d (k + 1))(id_to_idx i := Suc (h d i))) r"
    using registry_inv_clone [OF _ dat] slot_handles [of "h d" i] by fastforce
  show ?thesis
    using stores_inv_upd [OF inv r(2)] registry_clone_frame [OF r(1)] r(1) by (simp add: registry_ops_def)
qed

lemma new_span_parent_frame:
  "new_span_parent t attrs r = Some (p, r1) \<Longrightarrow>
   reg_close_count r1 = reg_close_count r \<and> reg_current_spans r1 = reg_current_spans r"
  using new_span_parent_cases registry_clone_frame by blast

lemma registry_new_span_frame:
  "registry_new_span alloc t fs attrs r = Some (i, r1) \<Longrightarrow>
   reg_close_count r1 = reg_close_count r \<and> reg_current_spans r1 = reg_current_spans r"
proof -
  assume "registry_new_span alloc t fs attrs r = Some (i, r1)"
  then obtain p r0 q where "new_span_parent t attrs r = Some (p, r0)" "r1 = r0\<lparr>reg_spans := q\<rparr>"
    by (auto simp: registry_new_span_def split: option.splits)
  then show ?thesis using new_span_parent_frame [of t attrs r p r0] by simp
qed

lemma new_span_parent_total:
  assumes "\<And>i. registry_get i r \<noteq> None \<Longrightarrow> \<exists>r1. registry_clone_span i r = Some (i, r1)"
    and "\<And>j. attr_parent attrs = ExplicitParent j \<Longrightarrow> registry_get j r \<noteq> None"
  shows "\<exists>x. new_span_parent t attrs r = Some x"
proof -
  have "registry_get i r \<noteq> None" if "current_id (registry_current_span t r) = Some i" for i
    using that by (auto simp: current_id_def registry_current_span_def split: option.splits)
  then show ?thesis
    using assms by (cases "attr_parent attrs"; cases "current_id (registry_current_span t r)")
      (fastforce simp: new_span_parent_def Let_def parent_is_root_def parent_is_contextual_def parent_id_def)+
qed

lemma stores_get:
  assumes "stores_inv h s" and "0 < h d i"
  shows "registry_get i (s d) \<noteq> None"
proof -
  have "registry_inv (\<lambda>k. h d (k + 1)) (s d)" using assms(1) by (simp add: stores_inv_def)
  then show ?thesis
    using assms(2) slot_handles [of "h d" i] unfolding registry_inv_def registry_get_def by (metis less_irrefl)
qed

lemma stores_new:
  assumes inv: "stores_inv h s" and room: "registry_room alloc s"
    and parent: "\<And>j. attr_parent attrs = ExplicitParent j \<Longrightarrow> 0 < h d j"
  shows "\<exists>i s1. op_new_span (registry_ops alloc fs layers) d t attrs s = Some (i, s1) \<and>
    stores_inv (upd2 h d i (Suc (h d i))) s1 \<and> entered_count s1 = entered_count s"
proof -
  let ?h = "\<lambda>k. h d (k + 1)"
  have reg: "registry_inv ?h (s d)" using inv by (simp add: stores_inv_def)
  have small: "\<forall>i dat. registry_get i (s d) = Some dat \<longrightarrow> dat_ref_count dat < - 2"
    using room unfolding registry_room_def by blast
  have "\<exists>x. new_span_parent t attrs (s d) = Some x"
  proof (rule new_span_parent_total)
    show "\<exists>r1. registry_clone_span i (s d) = Some (i, r1)" if "registry_get i (s d) \<noteq> None" for i
      using that small registry_inv_clone [OF reg] by blast
  qed (use stores_get [OF inv] parent in blast)
  then obtain p r1 where p: "new_span_parent t attrs (s d) = Some (p, r1)" by auto
  obtain k where k: "alloc (reg_spans r1) = Some k" "k \<noteq> - 1"
    using room new_span_parent_inv(2) [OF reg small p] unfolding registry_room_def by blast
  then have "idx_to_id k \<noteq> None" by (simp add: idx_to_id_def id_from_u64_def eq_neg_iff_add_eq_0)
  then obtain i r where r: "registry_new_span alloc t fs attrs (s d) = Some (i, r)"
    using p k(1) by (auto simp: registry_new_span_def)
  have fresh: "k \<notin> fst ` set q" if "alloc q = Some k" for q k
    using room that unfolding registry_room_def by blast
  note new = registry_inv_new_span [OF reg small fresh r]
  have "h d i = 0" using new(3) stores_get [OF inv, of d i] by blast
  then show ?thesis
    using stores_inv_upd [OF inv new(1)] registry_new_span_frame [OF r] r by (auto simp: registry_ops_def)
qed

lemma stores_close:
  assumes inv: "stores_inv h s" and "0 < h d i" and "length layers < 2 ^ 63"
  shows "\<exists>b s1. op_try_close (registry_ops alloc fs (l # layers)) d t i s = Some (b, s1) \<and>
    stores_inv (upd2 h d i (h d i - 1)) s1 \<and> entered_count s1 = entered_count s"
proof -
  let ?h = "\<lambda>k. h d (k + 1)"
  have reg: "registry_inv ?h (s d)" "reg_close_count (s d) t = 0" using inv by (simp_all add: stores_inv_def)
  have pos: "0 < ?h (id_to_idx i)" using assms(2) slot_handles [of "h d" i] by simp
  have "length (reg_spans (s d)) \<le> Suc (length (reg_spans (s d)))" by simp
  from layered_try_close_inv [OF reg(1) pos reg(2) this assms(3)]
  obtain b r where r: "layered_try_close (length (reg_spans (s d))) (l # layers) (l # layers) t i (s d) = Some (b, r)"
    "registry_inv (?h(id_to_idx i := h d i - 1)) r"
    "reg_close_count r = reg_close_count (s d)" "reg_current_spans r = reg_current_spans (s d)"
    unfolding slot_handles [of "h d" i] by blast
  show ?thesis
    using stores_inv_upd [OF inv r(2-4)] r(1) by (simp add: registry_ops_def del: layered_try_close.simps)
qed

lemma count_remove_last: "count_list (remove_last a xs) b = count_list xs b - (if b = a then 1 else 0)"
proof (induction xs)
  case (Cons x xs)
  have "count_list xs a \<noteq> 0" if "a \<in> set xs" using that by (simp add: count_list_0_iff)
  then show ?case using Cons by (cases "count_list xs a") (auto simp: count_list_0_iff)
qed simp

lemma stores_enter:
  assumes "stores_inv h s"
  shows "stores_inv h (op_enter (registry_ops alloc fs layers) d t i s)"
    and "entered_count (op_enter (registry_ops alloc fs layers) d t i s) d1 t1 i1 =
      entered_count s d1 t1 i1 + (if d1 = d \<and> t1 = t \<and> i1 = i then 1 else 0)"
  using assms
  by (auto simp: stores_inv_def registry_ops_def registry_enter_def entered_count_def entered_push stack_push_ok
      registry_inv_cong [of "s d\<lparr>reg_current_spans := _\<rparr>" "s d"])

lemma stores_exit:
  assumes "stores_inv h s"
  shows "stores_inv h (op_exit (registry_ops alloc fs layers) d t i s)"
    and "entered_count (op_exit (registry_ops alloc fs layers) d t i s) d1 t1 i1 =
      entered_count s d1 t1 i1 - (if d1 = d \<and> t1 = t \<and> i1 = i then 1 else 0)"
proof -
  have ok: "stack_ok (reg_current_spans (s d) t)" using assms by (simp add: stores_inv_def)
  note pop = span_stack_correct_facts(3,4) [OF ok, of i]
  show "stores_inv h (op_exit (registry_ops alloc fs layers) d t i s)"
    using assms pop by (auto simp: stores_inv_def registry_ops_def registry_exit_def
        registry_inv_cong [of "s d\<lparr>reg_current_spans := _\<rparr>" "s d"])
  show "entered_count (op_exit (registry_ops alloc fs layers) d t i s) d1 t1 i1 =
      entered_count s d1 t1 i1 - (if d1 = d \<and> t1 = t \<and> i1 = i then 1 else 0)"
    using pop by (auto simp: registry_ops_def registry_exit_def entered_count_def count_remove_last)
qed

definition layers_ok :: "nat list \<Rightarrow> bool" where
  "layers_ok layers \<longleftrightarrow> layers \<noteq> [] \<and> length layers \<le> 2 ^ 63"

interpretation reg_store: span_store "registry_ops alloc fs layers"
  "\<lambda>h s. layers_ok layers \<and> stores_inv h s" "registry_room alloc" entered_count
proof (unfold_locales, goal_cases)
  case (1 h s a d t)
  then show ?case using stores_new [of h s alloc a d fs layers t] by blast
next
  case (2 h s d i)
  then show ?case using stores_clone [of h s alloc i d fs layers] stores_get [of h s d i] by blast
next
  case (3 h s d t i m)
  then have "registry_get i (s d) \<noteq> None"
    by (auto simp: registry_ops_def registry_current_span_def split: option.splits)
  with 3 show ?case using stores_clone [of h s alloc i d fs layers] by blast
next
  case (4 h s d i t)
  then obtain l ls where "layers = l # ls" "length ls < 2 ^ 63" by (cases layers) (auto simp: layers_ok_def)
  then show ?case using stores_close [of h s d i ls alloc fs l t] 4 by blast
next
  case 5
  then show ?case by (simp add: stores_enter(1))
next
  case 6
  then show ?case by (blast intro: stores_enter(2))
next
  case 7
  then show ?case by (simp add: stores_exit(1))
next
  case 8
  then show ?case by (blast intro: stores_exit(2))
qed (auto simp: registry_ops_def)


subsection \<open>A concrete run\<close>

text \<open>A slab of two slots, and a program that makes a span, enters it, clones its handle, and lets go of all.\<close>

definition two_slots :: "pool \<Rightarrow> u64 option" where
  "two_slots p = (if 0 \<notin> fst ` set p then Some 0 else if 1 \<notin> fst ` set p then Some 1 else None)"

definition demo_run :: "unit span_op list" where
  "demo_run = [NewSpan 0 5 OfRoot (dat_metadata (demo_span None)) \<lparr>vs_values = All [], vs_fields = \<lparr>fs_names = [], fs_callsite = 7\<rparr>\<rparr>,
     Enter 5 0 0, CloneSpan 0 1, DropGuard 0, DropSpan 5 0, DropSpan 5 1]"

lemma two_slots_fresh: "two_slots p = Some k \<Longrightarrow> k \<notin> fst ` set p"
  by (auto simp: two_slots_def split: if_splits)

lemma two_slots_room:
  assumes "reg_spans (s ()) = [] \<or> (\<exists>dat. reg_spans (s ()) = [(0, dat)] \<and> dat_ref_count dat < - 2)"
  shows "registry_room two_slots s"
proof -
  have "\<exists>k. two_slots p = Some k \<and> k \<noteq> - 1" if "map fst p = map fst (reg_spans (s ()))" for p
  proof -
    have "fst ` set p = fst ` set (reg_spans (s ()))" by (metis that list.set_map)
    then show ?thesis using assms by (auto simp: two_slots_def)
  qed
  then show ?thesis using assms two_slots_fresh
    by (auto simp: registry_room_def registry_get_def split: if_splits)
qed

lemma registry_ops_simps:
  "op_new_span (registry_ops alloc fs layers) d t attrs s =
     map_option (\<lambda>(i, r). (i, s(d := r))) (registry_new_span alloc t fs attrs (s d))"
  "op_clone_span (registry_ops alloc fs layers) d i s = map_option (\<lambda>(j, r). (j, s(d := r))) (registry_clone_span i (s d))"
  "op_try_close (registry_ops alloc fs layers) d t i s = map_option (\<lambda>(b, r). (b, s(d := r)))
     (layered_try_close (length (reg_spans (s d))) layers layers t i (s d))"
  "op_enter (registry_ops alloc fs layers) d t i s = s(d := registry_enter t i (s d))"
  "op_exit (registry_ops alloc fs layers) d t i s = s(d := registry_exit t i (s d))"
  by (simp_all add: registry_ops_def)

lemma small_counts: "(1 :: u64) < - 1" "(2 :: u64) < - 1" "(1 :: u64) < - 2" "(2 :: u64) < - 2"
  by code_simp+

lemmas demo_run_defs = small_counts
  demo_run_def prog_start_def add_span_def alist_remove_def owned_by_program_def borrows_def
  span_new_root_with_def span_make_with_def span_do_enter_def span_do_exit_def span_clone_def span_drop_def span_guard_drop_def
  registry_ops_simps registry_new_span_def new_span_parent_def attributes_new_root_def parent_is_root_def
  registry_clone_span_def registry_enter_def registry_exit_def registry_get_def two_slots_def registry_default_def
  idx_to_id_def id_from_u64_def id_to_idx_def id_into_u64_def Let_def pool_update_def pool_remove_def
  layered_try_close.simps registry_try_close_def start_close_def on_close_def demo_span_def

lemma demo_run_typed:
  "typed_run (registry_ops two_slots filter_state_new [0]) (\<lambda>_. ()) (registry_room two_slots) demo_run
     (prog_start (\<lambda>_. registry_default))"
  by (simp add: demo_run_defs two_slots_room)

lemma demo_run_result:
  "map_option (\<lambda>p. (pg_spans p, pg_guards p)) (run_ops (registry_ops two_slots filter_state_new [0]) (\<lambda>_. ()) demo_run
     (prog_start (\<lambda>_. registry_default))) = Some ([], [])"
  by (simp add: demo_run_defs)


end
