(* ===== verification/Instrument.thy ===== *)
theory Instrument
  imports Span_Handle Dispatcher
begin

text \<open>
  Instrumented futures: \<open>tracing/src/instrument.rs\<close>, and their copies for streams and sinks in
  \<open>tracing-futures/src/lib.rs\<close>.

  A future is user code: a function that polls a state \<open>'x\<close> on a thread. It runs in a state that has the
  dispatchers' and the stores of the spans behind each dispatcher. An executor polls futures on any of its
  threads, so a span must be entered only while its future is being polled.
\<close>

record async_state =
  as_disp :: disp_state
  as_store :: "dispatch \<Rightarrow> registry"

datatype 'r poll = Pending | Ready 'r

type_synonym ('x, 'r) future = "thread \<Rightarrow> 'x \<Rightarrow> async_state \<Rightarrow> 'r poll \<times> 'x \<times> async_state"

type_synonym 'f store_ops = "('f, dispatch, dispatch \<Rightarrow> registry) span_ops"

subsection \<open>Spans\<close>

record 'x instrumented =
  ins_inner :: 'x
  ins_span :: "dispatch span"

definition instrument :: "'x \<Rightarrow> dispatch span \<Rightarrow> 'x instrumented" where
  "instrument x sp = \<lparr>ins_inner = x, ins_span = sp\<rparr>"

definition in_current_span :: "'f store_ops \<Rightarrow> thread \<Rightarrow> 'x \<Rightarrow> async_state \<Rightarrow> ('x instrumented \<times> async_state) option" where
  "in_current_span ops t x s =
     map_option (\<lambda>(sp, st). (instrument x sp, s\<lparr>as_store := st\<rparr>))
       (span_current ops t (dispatch_default t (as_disp s)) (as_store s))"

text \<open>What runs between \<open>span.enter()\<close> and the drop of the guard, also when it unwinds.\<close>

definition within_span :: "'f store_ops \<Rightarrow> thread \<Rightarrow> dispatch span \<Rightarrow> (async_state \<Rightarrow> 'a \<times> async_state) \<Rightarrow> async_state \<Rightarrow> 'a \<times> async_state" where
  "within_span ops t sp f s =
     (let (r, s1) = f (s\<lparr>as_store := span_do_enter ops t sp (as_store s)\<rparr>)
      in (r, s1\<lparr>as_store := span_do_exit ops t sp (as_store s1)\<rparr>))"

definition instrumented_poll :: "'f store_ops \<Rightarrow> ('x, 'r) future \<Rightarrow> ('x instrumented, 'r) future" where
  "instrumented_poll ops fut t f s =
     (let ((p, x), s1) = within_span ops t (ins_span f) (\<lambda>s. let (p, x, s1) = fut t (ins_inner f) s in ((p, x), s1)) s
      in (p, f\<lparr>ins_inner := x\<rparr>, s1))"

text \<open>
  Dropping drops the inner future inside of the span, then the handle. \<open>into_inner\<close> gives the future out and
  drops the handle, without entering the span.
\<close>

definition instrumented_drop ::
  "'f store_ops \<Rightarrow> (thread \<Rightarrow> 'x \<Rightarrow> async_state \<Rightarrow> async_state) \<Rightarrow> thread \<Rightarrow> 'x instrumented \<Rightarrow> async_state \<Rightarrow> async_state option" where
  "instrumented_drop ops drop_inner t f s =
     (let (_, s1) = within_span ops t (ins_span f) (\<lambda>s. ((), drop_inner t (ins_inner f) s)) s
      in map_option (\<lambda>st. s1\<lparr>as_store := st\<rparr>) (span_drop ops t (ins_span f) (as_store s1)))"

definition instrumented_into_inner ::
  "'f store_ops \<Rightarrow> thread \<Rightarrow> 'x instrumented \<Rightarrow> async_state \<Rightarrow> ('x \<times> async_state) option" where
  "instrumented_into_inner ops t f s =
     map_option (\<lambda>st. (ins_inner f, s\<lparr>as_store := st\<rparr>)) (span_drop ops t (ins_span f) (as_store s))"

subsection \<open>Dispatchers\<close>

record 'x with_dispatch =
  wd_inner :: 'x
  wd_dispatch :: dispatch

definition with_subscriber_future :: "'x \<Rightarrow> dispatch \<Rightarrow> 'x with_dispatch" where
  "with_subscriber_future x d = \<lparr>wd_inner = x, wd_dispatch = d\<rparr>"

definition with_current_subscriber :: "thread \<Rightarrow> 'x \<Rightarrow> async_state \<Rightarrow> 'x with_dispatch" where
  "with_current_subscriber t x s = \<lparr>wd_inner = x, wd_dispatch = dispatch_default t (as_disp s)\<rparr>"

definition with_dispatch_poll :: "('x, 'r) future \<Rightarrow> ('x with_dispatch, 'r) future" where
  "with_dispatch_poll fut t f s =
     (let (guard, ds) = set_default t (wd_dispatch f) (as_disp s);
          (p, x, s1) = fut t (wd_inner f) (s\<lparr>as_disp := ds\<rparr>)
      in (p, f\<lparr>wd_inner := x\<rparr>, s1\<lparr>as_disp := guard_drop t guard (as_disp s1)\<rparr>))"

subsection \<open>Streams and sinks\<close>

text \<open>\<open>tracing-futures\<close> wraps the other traits of \<open>futures\<close> in the same way, one method at a time.\<close>

definition instrumented_method ::
  "'f store_ops \<Rightarrow> (thread \<Rightarrow> 'x \<Rightarrow> async_state \<Rightarrow> 'a \<times> 'x \<times> async_state) \<Rightarrow> thread \<Rightarrow> 'x instrumented \<Rightarrow> async_state \<Rightarrow>
   'a \<times> 'x instrumented \<times> async_state" where
  "instrumented_method ops m t f s =
     (let ((a, x), s1) = within_span ops t (ins_span f) (\<lambda>s. let (a, x, s1) = m t (ins_inner f) s in ((a, x), s1)) s
      in (a, f\<lparr>ins_inner := x\<rparr>, s1))"

definition stream_poll_next :: "'f store_ops \<Rightarrow> ('x, 'r option) future \<Rightarrow> ('x instrumented, 'r option) future" where
  "stream_poll_next ops poll_next = instrumented_method ops poll_next"

record ('i, 'x, 'e) sink_methods =
  sk_poll_ready :: "('x, 'e + unit) future"
  sk_start_send :: "'i \<Rightarrow> thread \<Rightarrow> 'x \<Rightarrow> async_state \<Rightarrow> ('e + unit) \<times> 'x \<times> async_state"
  sk_poll_flush :: "('x, 'e + unit) future"
  sk_poll_close :: "('x, 'e + unit) future"

definition instrumented_sink :: "'f store_ops \<Rightarrow> ('i, 'x, 'e) sink_methods \<Rightarrow> ('i, 'x instrumented, 'e) sink_methods" where
  "instrumented_sink ops k =
     \<lparr>sk_poll_ready = instrumented_method ops (sk_poll_ready k),
      sk_start_send = (\<lambda>item. instrumented_method ops (sk_start_send k item)),
      sk_poll_flush = instrumented_method ops (sk_poll_flush k),
      sk_poll_close = instrumented_method ops (sk_poll_close k)\<rparr>"

subsection \<open>Polling leaves the thread as it was\<close>

lemma vec_remove_last: "vec_remove (length xs) (xs @ [x]) = xs"
  by (simp add: vec_remove_def)

lemma stack_pop_push [simp]: "snd (stack_pop i (stack_push i s)) = s"
  by (simp add: stack_pop_def stack_push_def rposition_snoc vec_remove_last Let_def)

text \<open>The default of a thread, as far as the thread can tell.\<close>

definition thread_default :: "thread \<Rightarrow> disp_state \<Rightarrow> dispatch option \<times> bool \<times> u64" where
  "thread_default t s = (tls_default (ds_tls s t), tls_alive (ds_tls s t), ds_scoped_count s)"

text \<open>
  A future is calm if a poll leaves the entered spans of every thread and the default dispatcher of its own
  as they were, and does not close a span of \<open>K\<close>.
\<close>

definition span_metadata :: "(dispatch \<Rightarrow> registry) \<Rightarrow> dispatch \<times> span_id \<Rightarrow> metadata option" where
  "span_metadata st x = map_option dat_metadata (registry_get (snd x) (st (fst x)))"

definition calm_step :: "(dispatch \<times> span_id) set \<Rightarrow> thread \<Rightarrow> async_state \<Rightarrow> async_state \<Rightarrow> bool" where
  "calm_step K t s s' \<longleftrightarrow>
     (\<forall>d. reg_current_spans (as_store s' d) = reg_current_spans (as_store s d)) \<and>
     thread_default t (as_disp s') = thread_default t (as_disp s) \<and>
     (\<forall>x \<in> K. span_metadata (as_store s) x \<noteq> None \<longrightarrow> span_metadata (as_store s') x = span_metadata (as_store s) x)"

definition calm :: "(dispatch \<times> span_id) set \<Rightarrow> ('x, 'r) future \<Rightarrow> bool" where
  "calm K fut \<longleftrightarrow> (\<forall>t x s. calm_step K t s (snd (snd (fut t x s))))"

text \<open>The stores of a state after a span has been entered or left.\<close>

abbreviation enter_span :: "'f store_ops \<Rightarrow> thread \<Rightarrow> dispatch span \<Rightarrow> async_state \<Rightarrow> async_state" where
  "enter_span ops t sp s \<equiv> s\<lparr>as_store := span_do_enter ops t sp (as_store s)\<rparr>"

lemma registry_get_enter [simp]:
  "registry_get i (registry_enter t j r) = registry_get i r" "registry_get i (registry_exit t j r) = registry_get i r"
  by (simp_all add: registry_get_def registry_enter_def registry_exit_def)

lemma span_metadata_cross [simp]:
  "span_metadata (span_do_enter (registry_ops alloc fs layers) t sp st) = span_metadata st"
  "span_metadata (span_do_exit (registry_ops alloc fs layers) t sp st) = span_metadata st"
  by (auto simp: fun_eq_iff span_metadata_def span_do_enter_def span_do_exit_def registry_ops_simps split: option.split)

lemma within_span_calm:
  fixes ops :: "'f store_ops"
  assumes ops: "ops = registry_ops alloc fs layers"
    and step: "calm_step K t (enter_span ops t sp s) (snd (f (enter_span ops t sp s)))"
  shows "calm_step K t s (snd (within_span ops t sp f s))"
proof -
  obtain r s1 where f: "f (enter_span ops t sp s) = (r, s1)" by fastforce
  have run: "within_span ops t sp f s = (r, s1\<lparr>as_store := span_do_exit ops t sp (as_store s1)\<rparr>)"
    by (simp add: within_span_def f)
  have same: "reg_current_spans (as_store s1 e) = reg_current_spans (span_do_enter ops t sp (as_store s) e)" for e
    using step f by (simp add: calm_step_def)
  have "reg_current_spans (span_do_exit ops t sp (as_store s1) d) = reg_current_spans (as_store s d)" for d
    using same by (cases "sp_inner sp")
      (auto simp: ops span_do_exit_def span_do_enter_def registry_ops_simps registry_enter_def registry_exit_def)
  then show ?thesis using step f unfolding run by (simp add: calm_step_def ops)
qed

lemma instrumented_calm:
  fixes ops :: "'f store_ops"
  assumes ops: "ops = registry_ops alloc fs layers" and fut: "calm K fut"
  shows "calm K (instrumented_poll ops fut)"
proof -
  have "calm_step K t s (snd (snd (instrumented_poll ops fut t f s)))" for t f s
  proof -
    let ?g = "\<lambda>s. let (p, x, s1) = fut t (ins_inner f) s in ((p, x), s1)"
    have "snd (?g s') = snd (snd (fut t (ins_inner f) s'))" for s' by (simp add: split_beta)
    then have "calm_step K t s (snd (within_span ops t (ins_span f) ?g s))"
      using fut by (intro within_span_calm [OF ops]) (simp only: calm_def)
    then show ?thesis by (simp add: instrumented_poll_def split_beta)
  qed
  then show ?thesis by (simp add: calm_def)
qed

lemma with_dispatch_calm: "calm K fut \<Longrightarrow> calm K (with_dispatch_poll fut)"
proof -
  assume fut: "calm K fut"
  have "calm_step K t s (snd (snd (with_dispatch_poll fut t f s)))" for t f s
  proof -
    obtain g ds where sd: "set_default t (wd_dispatch f) (as_disp s) = (g, ds)" by fastforce
    obtain p x s1 where r: "fut t (wd_inner f) (s\<lparr>as_disp := ds\<rparr>) = (p, x, s1)" by (cases "fut t (wd_inner f) (s\<lparr>as_disp := ds\<rparr>)") auto
    have "calm_step K t (s\<lparr>as_disp := ds\<rparr>) s1" using fut r unfolding calm_def by (metis snd_conv)
    moreover from this have "thread_default t (guard_drop t g (as_disp s1)) = thread_default t (as_disp s)"
      using sd by (cases "tls_alive (ds_tls (as_disp s) t)")
        (auto simp: calm_step_def thread_default_def set_default_def guard_drop_def Let_def)
    ultimately show ?thesis by (simp add: with_dispatch_poll_def sd r calm_step_def)
  qed
  then show ?thesis by (simp add: calm_def)
qed

text \<open>Inside of \<open>with_dispatch_poll\<close> the future's own dispatcher is the default.\<close>

theorem with_dispatch_default:
  assumes "tls_alive (ds_tls s t)" "ds_scoped_count s \<noteq> - 1"
  shows "dispatch_default t (snd (set_default t d s)) = d"
proof -
  have "ds_scoped_count s + 1 \<noteq> 0" using assms(2) by (metis add_eq_0_iff2)
  then show ?thesis using assms(1) by (simp add: dispatch_default_eq set_default_def entered_current_def Let_def)
qed

subsection \<open>Tasks on an executor\<close>

text \<open>
  The executor polls tasks in some order, each on some thread. The run keeps the span that the polled future
  finds as the current one.
\<close>

definition task_subscriber :: "'x instrumented \<Rightarrow> dispatch" where
  "task_subscriber f = (case sp_inner (ins_span f) of Some inn \<Rightarrow> in_subscriber inn | None \<Rightarrow> NONE)"

fun run_tasks ::
  "'f store_ops \<Rightarrow> ('x, 'r) future \<Rightarrow> (thread \<times> nat) list \<Rightarrow> (nat \<Rightarrow> 'x instrumented) \<Rightarrow> async_state \<Rightarrow>
   current_inner list \<times> (nat \<Rightarrow> 'x instrumented) \<times> async_state" where
  "run_tasks ops fut [] tasks s = ([], tasks, s)"
| "run_tasks ops fut ((t, k) # xs) tasks s =
     (let found = op_current_span ops (task_subscriber (tasks k)) t
            (span_do_enter ops t (ins_span (tasks k)) (as_store s));
          (_, f, s1) = instrumented_poll ops fut t (tasks k) s;
          (rest, tasks', s2) = run_tasks ops fut xs (tasks(k := f)) s1
      in (found # rest, tasks', s2))"

lemma instrumented_poll_span: "ins_span (fst (snd (instrumented_poll ops fut t f s))) = ins_span f"
  by (simp add: instrumented_poll_def split_beta)

lemma entered_span_is_current:
  assumes "sp_inner sp = Some \<lparr>in_id = i, in_subscriber = d\<rparr>" "span_metadata st (d, i) = Some m"
    and "i \<notin> ctx_id ` set (reg_current_spans (st d) t)"
  shows "op_current_span (registry_ops alloc fs layers) d t (span_do_enter (registry_ops alloc fs layers) t sp st) = CurrentSpan i m"
proof -
  have "list_ex (\<lambda>c. ctx_id c = i) (reg_current_spans (st d) t) = False"
    using assms(3) by (auto simp: list_ex_iff)
  then have "stack_current (stack_push i (reg_current_spans (st d) t)) = Some i"
    by (simp add: stack_push_def stack_current_def stack_iter_def)
  moreover obtain dat where "registry_get i (st d) = Some dat" "dat_metadata dat = m"
    using assms(2) by (auto simp: span_metadata_def)
  ultimately show ?thesis using assms(1)
    by (simp add: registry_ops_def span_do_enter_def registry_current_span_def) (simp add: registry_enter_def registry_get_def)
qed


text \<open>Two tasks that count their polls, each in a span of its own, polled in turn by two threads.\<close>

definition demo_counter :: "(nat, nat) future" where
  "demo_counter t x s = (if x = 1 then Ready x else Pending, x + 1, s)"

definition demo_tasks :: "nat \<Rightarrow> nat instrumented" where
  "demo_tasks k = instrument 0 \<lparr>sp_inner = Some \<lparr>in_id = (if k = 0 then 1 else 2), in_subscriber = Scoped 3\<rparr>, sp_meta = None\<rparr>"

definition demo_async :: async_state where
  "demo_async = \<lparr>as_disp = disp_init Map.empty, as_store = (\<lambda>_. demo_spans)\<rparr>"


end
