(* ===== verification/Span_Lookup.thy ===== *)
theory Span_Lookup
  imports Registry
begin

text \<open>
  Looking up spans through the registry: \<open>SpanRef\<close> and \<open>Scope\<close> of
  \<open>tracing-subscriber/src/registry/mod.rs\<close>, and \<open>Context\<close> of \<open>layer/context.rs\<close>, which hides from a
  layer the spans its per-layer filters disabled.

  A traversal follows parent ids until it finds a span that is enabled for the filter. It is a
  \<open>partial_function (option)\<close>, whose outer \<open>None\<close> is a loop that does not end; on a registry that
  satisfies its invariant it returns.
\<close>

record span_ref =
  sr_id :: span_id
  sr_data :: span_data
  sr_filter :: filter_id

definition lookup_span :: "span_id \<Rightarrow> registry \<Rightarrow> span_ref option" where
  "lookup_span i r = map_option (\<lambda>d. \<lparr>sr_id = i, sr_data = d, sr_filter = filter_id_none\<rparr>) (registry_get i r)"

definition data_is_enabled_for :: "span_data \<Rightarrow> filter_id \<Rightarrow> bool" where
  "data_is_enabled_for d f = filter_map_is_enabled (dat_filter_map d) f"

definition sref_with_filter :: "filter_id \<Rightarrow> span_ref \<Rightarrow> span_ref" where
  "sref_with_filter f s = s\<lparr>sr_filter := f\<rparr>"

definition try_with_filter :: "filter_id \<Rightarrow> span_ref \<Rightarrow> span_ref option" where
  "try_with_filter f s =
     (if data_is_enabled_for (sr_data s) f then Some (sref_with_filter f s) else None)"

text \<open>\<open>Iterator for Scope\<close>: the item and the new value of \<open>next\<close>.\<close>

partial_function (option) scope_next ::
  "registry \<Rightarrow> filter_id \<Rightarrow> span_id option \<Rightarrow> (span_ref option \<times> span_id option) option" where
  "scope_next r f nxt =
     (case nxt of
        None \<Rightarrow> Some (None, None)
      | Some i \<Rightarrow>
          (case lookup_span i r of
             None \<Rightarrow> Some (None, Some i)
           | Some cur \<Rightarrow>
               if \<not> data_is_enabled_for (sr_data cur) f
               then scope_next r f (dat_parent (sr_data cur))
               else Some (Some (sref_with_filter f cur), dat_parent (sr_data cur))))"

partial_function (option) scope_collect ::
  "registry \<Rightarrow> filter_id \<Rightarrow> span_id option \<Rightarrow> span_ref list option" where
  "scope_collect r f nxt =
     Option.bind (scope_next r f nxt)
       (\<lambda>(item, nxt'). case item of
          None \<Rightarrow> Some []
        | Some s \<Rightarrow> Option.bind (scope_collect r f nxt') (\<lambda>ss. Some (s # ss)))"

definition sref_scope :: "span_ref \<Rightarrow> registry \<Rightarrow> span_ref list option" where
  "sref_scope s r = scope_collect r (sr_filter s) (Some (sr_id s))"

definition scope_from_root :: "span_ref \<Rightarrow> registry \<Rightarrow> span_ref list option" where
  "scope_from_root s r = map_option rev (sref_scope s r)"

text \<open>The loop of \<open>SpanRef::parent\<close>.\<close>

partial_function (option) parent_loop ::
  "registry \<Rightarrow> filter_id \<Rightarrow> span_id option \<Rightarrow> span_ref option option" where
  "parent_loop r f p =
     (case p of
        None \<Rightarrow> Some None
      | Some i \<Rightarrow>
          (case registry_get i r of
             None \<Rightarrow> Some None
           | Some d \<Rightarrow>
               if data_is_enabled_for d f then Some (Some \<lparr>sr_id = i, sr_data = d, sr_filter = f\<rparr>)
               else parent_loop r f (dat_parent d)))"

definition sref_parent :: "span_ref \<Rightarrow> registry \<Rightarrow> span_ref option option" where
  "sref_parent s r = parent_loop r (sr_filter s) (dat_parent (sr_data s))"

subsection \<open>Contexts\<close>

record layer_context =
  cx_subscriber :: bool
  cx_filter :: filter_id

definition context_new :: layer_context where
  "context_new = \<lparr>cx_subscriber = True, cx_filter = filter_id_none\<rparr>"

definition context_none :: layer_context where
  "context_none = \<lparr>cx_subscriber = False, cx_filter = filter_id_none\<rparr>"

definition cx_current_span :: "layer_context \<Rightarrow> thread \<Rightarrow> registry \<Rightarrow> current_inner" where
  "cx_current_span cx t r = (if cx_subscriber cx then registry_current_span t r else CurrentNone)"

definition cx_span :: "layer_context \<Rightarrow> span_id \<Rightarrow> registry \<Rightarrow> span_ref option" where
  "cx_span cx i r =
     (if cx_subscriber cx then Option.bind (lookup_span i r) (try_with_filter (cx_filter cx)) else None)"

definition cx_metadata :: "layer_context \<Rightarrow> span_id \<Rightarrow> registry \<Rightarrow> metadata option" where
  "cx_metadata cx i r = map_option (\<lambda>s. dat_metadata (sr_data s)) (cx_span cx i r)"

definition cx_exists :: "layer_context \<Rightarrow> span_id \<Rightarrow> registry \<Rightarrow> bool" where
  "cx_exists cx i r = (cx_subscriber cx \<and> lookup_span i r \<noteq> None)"

fun find_map :: "('a \<Rightarrow> 'b option) \<Rightarrow> 'a list \<Rightarrow> 'b option" where
  "find_map f [] = None"
| "find_map f (x # xs) = (case f x of Some y \<Rightarrow> Some y | None \<Rightarrow> find_map f xs)"

definition lookup_current_filtered :: "layer_context \<Rightarrow> thread \<Rightarrow> registry \<Rightarrow> span_ref option" where
  "lookup_current_filtered cx t r =
     find_map (\<lambda>i. Option.bind (lookup_span i r) (try_with_filter (cx_filter cx)))
       (stack_iter (reg_current_spans r t))"

definition lookup_current :: "layer_context \<Rightarrow> thread \<Rightarrow> registry \<Rightarrow> span_ref option" where
  "lookup_current cx t r =
     (if \<not> cx_subscriber cx then None
      else
        (case current_id (registry_current_span t r) of
           None \<Rightarrow> None
         | Some i \<Rightarrow>
             (case lookup_span i r of
                None \<Rightarrow> None
              | Some s \<Rightarrow>
                  (case try_with_filter (cx_filter cx) s of
                     Some s' \<Rightarrow> Some s'
                   | None \<Rightarrow> lookup_current_filtered cx t r))))"

definition event_span :: "layer_context \<Rightarrow> thread \<Rightarrow> 'f event \<Rightarrow> registry \<Rightarrow> span_ref option" where
  "event_span cx t ev r =
     (if parent_is_root (ev_parent ev) then None
      else if parent_is_contextual (ev_parent ev) then lookup_current cx t r
      else Option.bind (parent_id (ev_parent ev)) (\<lambda>i. cx_span cx i r))"

definition span_scope :: "layer_context \<Rightarrow> span_id \<Rightarrow> registry \<Rightarrow> span_ref list option option" where
  "span_scope cx i r = map_option (\<lambda>s. sref_scope s r) (cx_span cx i r)"

definition event_scope :: "layer_context \<Rightarrow> thread \<Rightarrow> 'f event \<Rightarrow> registry \<Rightarrow> span_ref list option option" where
  "event_scope cx t ev r = map_option (\<lambda>s. sref_scope s r) (event_span cx t ev r)"

definition cx_with_filter :: "filter_id \<Rightarrow> layer_context \<Rightarrow> layer_context" where
  "cx_with_filter f cx = cx\<lparr>cx_filter := filter_id_and (cx_filter cx) f\<rparr>"

definition is_enabled_inner :: "layer_context \<Rightarrow> span_id \<Rightarrow> filter_id \<Rightarrow> registry \<Rightarrow> bool option" where
  "is_enabled_inner cx i f r = map_option (\<lambda>s. data_is_enabled_for (sr_data s) f) (cx_span cx i r)"

definition is_enabled_for :: "layer_context \<Rightarrow> span_id \<Rightarrow> filter_id \<Rightarrow> registry \<Rightarrow> bool" where
  "is_enabled_for cx i f r = (case is_enabled_inner cx i f r of Some b \<Rightarrow> b | None \<Rightarrow> False)"

definition if_enabled_for :: "layer_context \<Rightarrow> span_id \<Rightarrow> filter_id \<Rightarrow> registry \<Rightarrow> layer_context option" where
  "if_enabled_for cx i f r =
     (case is_enabled_inner cx i f r of
        None \<Rightarrow> None
      | Some b \<Rightarrow> if b then Some (cx_with_filter f cx) else None)"

subsection \<open>Ancestors\<close>

text \<open>The span and its ancestors, read off the pool: a parent is further down the list.\<close>

fun ancestors :: "pool \<Rightarrow> u64 \<Rightarrow> (u64 \<times> span_data) list" where
  "ancestors [] i = []"
| "ancestors ((k, d) # p) i =
     (if k = i
      then (k, d) # (case dat_parent d of None \<Rightarrow> [] | Some q \<Rightarrow> ancestors p (id_to_idx q))
      else ancestors p i)"

definition ancestor_refs :: "registry \<Rightarrow> filter_id \<Rightarrow> span_id option \<Rightarrow> span_ref list" where
  "ancestor_refs r f nxt = (case nxt of None \<Rightarrow> [] | Some i \<Rightarrow>
     map (\<lambda>(k, d). \<lparr>sr_id = k + 1, sr_data = d, sr_filter = f\<rparr>)
       (filter (\<lambda>(k, d). data_is_enabled_for d f) (ancestors (reg_spans r) (id_to_idx i))))"

lemma id_of_idx [simp]: "id_to_idx i + 1 = i"
  by (simp add: id_to_idx_def id_into_u64_def)

lemma ancestors_skip: "k \<notin> fst ` set p1 \<Longrightarrow> ancestors (p1 @ p2) k = ancestors p2 k"
  by (induction p1) (auto simp: image_iff)

lemma parents_older_append: "parents_older (p1 @ p2) \<Longrightarrow> parents_older p2"
  by (induction p1) auto

text \<open>Unfolding the ancestors by one step.\<close>

lemma ancestors_step:
  assumes "distinct (map fst p)" and "parents_older p" and "map_of p i = Some d"
  shows "ancestors p i = (i, d) # (case dat_parent d of None \<Rightarrow> [] | Some q \<Rightarrow> ancestors p (id_to_idx q))"
proof -
  obtain p1 p2 where p: "p = p1 @ (i, d) # p2" and i: "i \<notin> fst ` set p1"
  proof -
    obtain p1 p2 where p: "p = p1 @ (i, d) # p2" using split_list [OF map_of_SomeD [OF assms(3)]] by blast
    moreover have "i \<notin> fst ` set p1" using assms(1) p by auto
    ultimately show ?thesis using that by blast
  qed
  have older: "parents_older ((i, d) # p2)" using assms(2) p parents_older_append by blast
  have "ancestors p (id_to_idx q) = ancestors p2 (id_to_idx q)" if "dat_parent d = Some q" for q
  proof -
    have "id_to_idx q \<in> fst ` set p2" using older that by simp
    then have "id_to_idx q \<notin> fst ` set (p1 @ [(i, d)])" using assms(1) p by auto
    from ancestors_skip [OF this, of p2] p show ?thesis by simp
  qed
  then show ?thesis using ancestors_skip [OF i, of "(i, d) # p2"] p by (auto split: option.split)
qed

lemma ancestors_parent_shorter:
  assumes "distinct (map fst p)" and "parents_older p" and "map_of p i = Some d" and "dat_parent d = Some q"
  shows "length (ancestors p (id_to_idx q)) < length (ancestors p i)"
  using ancestors_step [OF assms(1-3)] assms(4) by simp

definition pool_ok :: "registry \<Rightarrow> bool" where
  "pool_ok r \<longleftrightarrow> distinct (map fst (reg_spans r)) \<and> parents_older (reg_spans r)"

lemma registry_inv_pool_ok: "registry_inv h r \<Longrightarrow> pool_ok r"
  by (simp add: registry_inv_def pool_ok_def)

lemma ancestors_absent: "map_of p i = None \<Longrightarrow> ancestors p i = []"
  by (induction p) (auto split: if_splits)

lemma ancestor_refs_step:
  assumes "pool_ok r"
  shows "ancestor_refs r f (Some i) =
    (case registry_get i r of
       None \<Rightarrow> []
     | Some d \<Rightarrow> (if data_is_enabled_for d f then [\<lparr>sr_id = i, sr_data = d, sr_filter = f\<rparr>] else [])
         @ ancestor_refs r f (dat_parent d))"
proof (cases "map_of (reg_spans r) (id_to_idx i)")
  case None
  then show ?thesis by (simp add: ancestor_refs_def registry_get_def ancestors_absent)
next
  case (Some d)
  from ancestors_step [OF _ _ this] assms show ?thesis
    by (auto simp: pool_ok_def ancestor_refs_def registry_get_def Some split: option.split)
qed

text \<open>The traversals return, and return the enabled ancestors.\<close>

definition chain_length :: "registry \<Rightarrow> span_id option \<Rightarrow> nat" where
  "chain_length r nxt =
     (case nxt of None \<Rightarrow> 0 | Some i \<Rightarrow> Suc (length (ancestors (reg_spans r) (id_to_idx i))))"

lemma chain_length_parent:
  assumes "pool_ok r" and "registry_get i r = Some d"
  shows "chain_length r (dat_parent d) < chain_length r (Some i)"
  using assms ancestors_parent_shorter [of "reg_spans r" "id_to_idx i" d]
  by (cases "dat_parent d") (auto simp: chain_length_def pool_ok_def registry_get_def)

lemma scope_next_returns:
  assumes "pool_ok r"
  shows "\<exists>item nxt'. scope_next r f nxt = Some (item, nxt') \<and>
    (case item of
       None \<Rightarrow> ancestor_refs r f nxt = []
     | Some s \<Rightarrow> ancestor_refs r f nxt = s # ancestor_refs r f nxt' \<and>
         chain_length r nxt' < chain_length r nxt)"
proof (induction "chain_length r nxt" arbitrary: nxt rule: less_induct)
  case less
  show ?case
  proof (cases nxt)
    case None
    then show ?thesis by (simp add: scope_next.simps ancestor_refs_def)
  next
    case (Some i)
    show ?thesis
    proof (cases "registry_get i r")
      case None
      then show ?thesis using Some ancestor_refs_step [OF assms, of f i]
        by (simp add: scope_next.simps lookup_span_def)
    next
      case (Some d)
      have short: "chain_length r (dat_parent d) < chain_length r nxt"
        using chain_length_parent [OF assms Some] \<open>nxt = Some i\<close> by simp
      have refs: "ancestor_refs r f nxt =
          (if data_is_enabled_for d f then [\<lparr>sr_id = i, sr_data = d, sr_filter = f\<rparr>] else [])
            @ ancestor_refs r f (dat_parent d)"
        using ancestor_refs_step [OF assms, of f i] Some \<open>nxt = Some i\<close> by simp
      have step: "scope_next r f nxt =
          (if data_is_enabled_for d f
           then Some (Some \<lparr>sr_id = i, sr_data = d, sr_filter = f\<rparr>, dat_parent d)
           else scope_next r f (dat_parent d))"
        using Some \<open>nxt = Some i\<close> by (subst scope_next.simps) (simp add: lookup_span_def sref_with_filter_def)
      show ?thesis
      proof (cases "data_is_enabled_for d f")
        case True
        then show ?thesis using step refs short by simp
      next
        case False
        from less [OF short] obtain item nxt' where
          "scope_next r f (dat_parent d) = Some (item, nxt')"
          "case item of
             None \<Rightarrow> ancestor_refs r f (dat_parent d) = []
           | Some s \<Rightarrow> ancestor_refs r f (dat_parent d) = s # ancestor_refs r f nxt' \<and>
               chain_length r nxt' < chain_length r (dat_parent d)"
          by blast
        then show ?thesis using False step refs short by (cases item) auto
      qed
    qed
  qed
qed

lemma scope_collect_returns:
  assumes "pool_ok r"
  shows "scope_collect r f nxt = Some (ancestor_refs r f nxt)"
proof (induction "chain_length r nxt" arbitrary: nxt rule: less_induct)
  case less
  obtain item nxt' where nx: "scope_next r f nxt = Some (item, nxt')"
    "case item of
       None \<Rightarrow> ancestor_refs r f nxt = []
     | Some s \<Rightarrow> ancestor_refs r f nxt = s # ancestor_refs r f nxt' \<and>
         chain_length r nxt' < chain_length r nxt"
    using scope_next_returns [OF assms] by blast
  then show ?case using less [of nxt'] by (subst scope_collect.simps) (auto split: option.splits)
qed

lemma parent_loop_returns:
  assumes "pool_ok r"
  shows "parent_loop r f p = Some (case ancestor_refs r f p of [] \<Rightarrow> None | s # _ \<Rightarrow> Some s)"
proof (induction "chain_length r p" arbitrary: p rule: less_induct)
  case less
  show ?case
  proof (cases p)
    case None
    then show ?thesis by (simp add: parent_loop.simps ancestor_refs_def)
  next
    case (Some i)
    show ?thesis
      using less [of "dat_parent d" for d] chain_length_parent [OF assms, of i]
        ancestor_refs_step [OF assms, of f i] Some
      by (subst parent_loop.simps) (auto split: option.split)
  qed
qed

lemma scope_correct_facts:
  assumes "registry_inv h r" and "registry_get (sr_id s) r = Some (sr_data s)"
  shows "sref_scope s r = Some
      (if data_is_enabled_for (sr_data s) (sr_filter s)
       then s # ancestor_refs r (sr_filter s) (dat_parent (sr_data s))
       else ancestor_refs r (sr_filter s) (dat_parent (sr_data s)))"
    and "scope_from_root s r = map_option rev (sref_scope s r)"
    and "sref_parent s r =
      Some (case ancestor_refs r (sr_filter s) (dat_parent (sr_data s)) of [] \<Rightarrow> None | p # _ \<Rightarrow> Some p)"
    and "set (ancestor_refs r (sr_filter s) (Some i)) \<subseteq>
      {a. registry_get (sr_id a) r = Some (sr_data a) \<and> data_is_enabled_for (sr_data a) (sr_filter s)}"
proof -
  have ok: "pool_ok r" using registry_inv_pool_ok [OF assms(1)] .
  show "sref_scope s r = Some
      (if data_is_enabled_for (sr_data s) (sr_filter s)
       then s # ancestor_refs r (sr_filter s) (dat_parent (sr_data s))
       else ancestor_refs r (sr_filter s) (dat_parent (sr_data s)))"
    using ancestor_refs_step [OF ok, of "sr_filter s" "sr_id s"] assms(2)
    by (cases s) (simp add: sref_scope_def scope_collect_returns [OF ok])
  show "scope_from_root s r = map_option rev (sref_scope s r)" by (simp add: scope_from_root_def)
  show "sref_parent s r =
      Some (case ancestor_refs r (sr_filter s) (dat_parent (sr_data s)) of [] \<Rightarrow> None | p # _ \<Rightarrow> Some p)"
    by (simp add: sref_parent_def parent_loop_returns [OF ok])
  have "set (ancestors p j) \<subseteq> set p" for p j
  proof (induction p arbitrary: j)
    case (Cons a p)
    obtain k d where "a = (k, d)" by fastforce
    then show ?case using Cons [of j] Cons [of "id_to_idx q" for q] by (auto split: option.split)
  qed simp
  then have "a \<in> set (ancestors (reg_spans r) k) \<Longrightarrow> a \<in> set (reg_spans r)" for a k by blast
  then show "set (ancestor_refs r (sr_filter s) (Some i)) \<subseteq>
      {a. registry_get (sr_id a) r = Some (sr_data a) \<and> data_is_enabled_for (sr_data a) (sr_filter s)}"
    using ok by (auto simp: ancestor_refs_def registry_get_def pool_ok_def id_to_idx_def id_into_u64_def)
qed

text \<open>
  C31. On a registry that satisfies its invariant, iterating the scope of a span ends and yields the
  span and its ancestors, innermost first, without those that the filter of the reference disabled;
  \<open>from_root\<close> is the same list reversed, and \<open>parent\<close> is the nearest enabled ancestor. The
  ancestors are those of the parent links, so that a disabled span does not cut its own ancestors
  off.
\<close>

theorem scope_correct:
  assumes "registry_inv h r" and "registry_get (sr_id s) r = Some (sr_data s)"
  shows "(sref_scope s r = Some
      (if data_is_enabled_for (sr_data s) (sr_filter s)
       then s # ancestor_refs r (sr_filter s) (dat_parent (sr_data s))
       else ancestor_refs r (sr_filter s) (dat_parent (sr_data s)))) \<and>
      (scope_from_root s r = map_option rev (sref_scope s r)) \<and>
      (sref_parent s r =
      Some (case ancestor_refs r (sr_filter s) (dat_parent (sr_data s)) of [] \<Rightarrow> None | p # _ \<Rightarrow> Some p)) \<and>
      (set (ancestor_refs r (sr_filter s) (Some i)) \<subseteq>
      {a. registry_get (sr_id a) r = Some (sr_data a) \<and> data_is_enabled_for (sr_data a) (sr_filter s)})"
  using scope_correct_facts [OF assms] by blast

theorem scope_correct_witness:
  "sref_scope \<lparr>sr_id = 2, sr_data = demo_span (Some 1), sr_filter = nth_id 0\<rparr> demo_spans =
     Some [\<lparr>sr_id = 2, sr_data = demo_span (Some 1), sr_filter = nth_id 0\<rparr>,
           \<lparr>sr_id = 1, sr_data = demo_span None, sr_filter = nth_id 0\<rparr>]"
  using scope_correct [OF demo_inv0,
      of "\<lparr>sr_id = 2, sr_data = demo_span (Some 1), sr_filter = nth_id 0\<rparr>"]
  by (simp add: registry_get_def demo_spans_def demo_span_def id_to_idx_def id_into_u64_def
      ancestor_refs_def data_is_enabled_for_def is_enabled_nth_id)

text \<open>
  The current span a layer sees is the most recently entered one that its filters enabled: if the
  thread's current span is disabled for the context's filter, the stack of entered spans is searched
  downwards, whether or not the span that is found is an ancestor of the current one.
\<close>

theorem lookup_current_correct:
  assumes "cx_subscriber cx"
    and "stack_iter (reg_current_spans r t) = ids" and "\<forall>i \<in> set ids. registry_get i r \<noteq> None"
  shows "lookup_current cx t r =
    find_map (\<lambda>i. Option.bind (lookup_span i r) (try_with_filter (cx_filter cx))) ids"
proof (cases ids)
  case Nil
  then show ?thesis
    using assms by (simp add: lookup_current_def registry_current_span_def stack_current_def current_id_def)
next
  case (Cons i js)
  then obtain d where "registry_get i r = Some d" using assms(3) by auto
  then show ?thesis
    using assms(1,2) Cons
    by (simp add: lookup_current_def registry_current_span_def stack_current_def current_id_def
        lookup_span_def lookup_current_filtered_def split: option.split)
qed

theorem lookup_current_correct_witness:
  "lookup_current context_new 5 (registry_enter 5 2 (registry_enter 5 1 demo_spans)) =
     Some \<lparr>sr_id = 2, sr_data = demo_span (Some 1), sr_filter = filter_id_none\<rparr>"
proof -
  let ?r = "registry_enter 5 2 (registry_enter 5 1 demo_spans)"
  have get: "registry_get 2 ?r = Some (demo_span (Some 1))" "registry_get 1 ?r = Some (demo_span None)"
    by (simp_all add: registry_get_def registry_enter_def demo_spans_def id_to_idx_def id_into_u64_def)
  have "stack_iter (reg_current_spans ?r 5) = [2, 1]"
    by (simp add: registry_enter_def demo_spans_def registry_default_def stack_push_def stack_iter_def)
  from lookup_current_correct [OF _ this, of context_new] get show ?thesis
    by (simp add: context_new_def lookup_span_def try_with_filter_def data_is_enabled_for_def
        filter_map_is_enabled_def filter_id_none_def sref_with_filter_def)
qed

subsection \<open>Extensions of a span\<close>

text \<open>Writing through the \<open>extensions_mut\<close> of a span.\<close>

definition update_extensions :: "span_id \<Rightarrow> (extensions \<Rightarrow> extensions) \<Rightarrow> registry \<Rightarrow> registry" where
  "update_extensions i g r =
     r\<lparr>reg_spans := pool_update (id_to_idx i) (\<lambda>d. d\<lparr>dat_extensions := g (dat_extensions d)\<rparr>) (reg_spans r)\<rparr>"

lemma cx_span_update:
  "cx_span cx i (update_extensions i g r) =
    map_option (\<lambda>sp. sp\<lparr>sr_data := (sr_data sp)\<lparr>dat_extensions := g (dat_extensions (sr_data sp))\<rparr>\<rparr>) (cx_span cx i r)"
  by (cases "map_of (reg_spans r) (id_to_idx i)")
    (simp_all add: cx_span_def lookup_span_def registry_get_def update_extensions_def map_of_pool_update try_with_filter_def
      data_is_enabled_for_def sref_with_filter_def)

end
