(* ===== verification/Filter_Directive.thy ===== *)
theory Filter_Directive
  imports Metadata
begin

text \<open>
  Static filter directives: \<open>tracing-subscriber/src/filter/directive.rs\<close>.

  \<open>DirectiveSet<T>\<close> keeps a vector sorted by \<open>T\<close>'s \<open>Ord\<close>, most specific directive first, and the
  most verbose level any directive enables. It is generic in \<open>T: Match + Ord\<close>; the locale
  \<open>directive_impl\<close> is that bound (\<open>ord_impl\<close> of the prelude is its \<open>Ord\<close> part), and the lemmas
  proved in it are interpreted for \<open>StaticDirective\<close>.
\<close>

subsection \<open>Errors\<close>

datatype parse_error_kind =
    KField string
  | KLevel parse_level_filter_error
  | KOther "string option"

datatype parse_error = ParseError (error_kind: parse_error_kind)

definition parse_error_new :: parse_error where
  "parse_error_new = ParseError (KOther None)"

definition parse_error_msg :: "string \<Rightarrow> parse_error" where
  "parse_error_msg s = ParseError (KOther (Some s))"

definition parse_error_from_level :: "parse_level_filter_error \<Rightarrow> parse_error" where
  "parse_error_from_level l = ParseError (KLevel l)"

definition parse_level_filter_error_display :: "parse_level_filter_error \<Rightarrow> string" where
  "parse_level_filter_error_display e =
     ''error parsing level filter: expected one of \"off\", \"error\", '' @
     ''\"warn\", \"info\", \"debug\", \"trace\", or a number 0-5''"

definition parse_error_display :: "parse_error \<Rightarrow> string" where
  "parse_error_display e =
     (case error_kind e of
        KOther None \<Rightarrow> ''invalid filter directive''
      | KOther (Some msg) \<Rightarrow> ''invalid filter directive: '' @ msg
      | KLevel l \<Rightarrow> parse_level_filter_error_display l
      | KField d \<Rightarrow> ''invalid field filter: '' @ d)"

subsection \<open>Directive sets\<close>

record 'd directive_set =
  directives :: "'d list"
  max_level :: level_filter

definition directive_set_default :: "'d directive_set" where
  "directive_set_default = \<lparr>directives = [], max_level = OFF\<rparr>"

definition directive_set_is_empty :: "'d directive_set \<Rightarrow> bool" where
  "directive_set_is_empty s = (directives s = [])"

definition directives_for :: "('d \<Rightarrow> 'm \<Rightarrow> bool) \<Rightarrow> 'd directive_set \<Rightarrow> 'm \<Rightarrow> 'd list" where
  "directives_for cares_about s m = filter (\<lambda>d. cares_about d m) (directives s)"

definition directive_set_add ::
  "('d \<Rightarrow> 'd \<Rightarrow> ordering) \<Rightarrow> ('d \<Rightarrow> level_filter) \<Rightarrow> 'd \<Rightarrow> 'd directive_set \<Rightarrow> 'd directive_set" where
  "directive_set_add ocmp level d s =
     (let s1 = (if level d > max_level s then s\<lparr>max_level := level d\<rparr> else s)
      in s1\<lparr>directives := insert_by ocmp d (directives s1)\<rparr>)"

definition directive_set_extend ::
  "('d \<Rightarrow> 'd \<Rightarrow> ordering) \<Rightarrow> ('d \<Rightarrow> level_filter) \<Rightarrow> 'd list \<Rightarrow> 'd directive_set \<Rightarrow> 'd directive_set" where
  "directive_set_extend ocmp level ds s = fold (directive_set_add ocmp level) ds s"

definition directive_set_from_iter ::
  "('d \<Rightarrow> 'd \<Rightarrow> ordering) \<Rightarrow> ('d \<Rightarrow> level_filter) \<Rightarrow> 'd list \<Rightarrow> 'd directive_set" where
  "directive_set_from_iter ocmp level ds = directive_set_extend ocmp level ds directive_set_default"

definition directive_set_ok ::
  "('d \<Rightarrow> 'd \<Rightarrow> ordering) \<Rightarrow> ('d \<Rightarrow> level_filter) \<Rightarrow> 'd directive_set \<Rightarrow> bool" where
  "directive_set_ok ocmp level s \<longleftrightarrow>
     sorted_by ocmp (directives s) \<and> (\<forall>d \<in> set (directives s). level d \<le> max_level s)"

text \<open>The last directive of a list for each key.\<close>

fun last_by :: "('d \<Rightarrow> 'd \<Rightarrow> ordering) \<Rightarrow> 'd list \<Rightarrow> 'd list" where
  "last_by ocmp [] = []"
| "last_by ocmp (d # ds) =
     (if list_ex (\<lambda>e. ocmp d e = Equal) ds then last_by ocmp ds else d # last_by ocmp ds)"

locale directive_impl = ord_impl ocmp for ocmp :: "'d \<Rightarrow> 'd \<Rightarrow> ordering" +
  fixes level :: "'d \<Rightarrow> level_filter"
begin

lemma default_ok: "directive_set_ok ocmp level directive_set_default"
  by (simp add: directive_set_ok_def directive_set_default_def)

lemma add_max_level: "max_level (directive_set_add ocmp level d s) = max (max_level s) (level d)"
  by (auto simp: directive_set_add_def Let_def max_def less_imp_le)

lemma add_directives: "directives (directive_set_add ocmp level d s) = insert_by ocmp d (directives s)"
  by (simp add: directive_set_add_def Let_def)

lemma add_ok:
  assumes "directive_set_ok ocmp level s"
  shows "directive_set_ok ocmp level (directive_set_add ocmp level d s)"
  using assms insert_by_sorted insert_by_set [of "directives s" d]
  by (auto simp: directive_set_ok_def add_max_level add_directives le_max_iff_disj)

lemma extend_ok:
  "directive_set_ok ocmp level s \<Longrightarrow> directive_set_ok ocmp level (directive_set_extend ocmp level ds s)"
  unfolding directive_set_extend_def by (induction ds arbitrary: s) (simp_all add: add_ok)

lemma from_iter_ok: "directive_set_ok ocmp level (directive_set_from_iter ocmp level ds)"
  by (simp add: directive_set_from_iter_def extend_ok default_ok)

lemma fold_add_set:
  "directive_set_ok ocmp level s \<Longrightarrow>
   set (directives (fold (directive_set_add ocmp level) ds s)) =
     set (last_by ocmp ds) \<union> {d \<in> set (directives s). \<forall>e \<in> set ds. ocmp d e \<noteq> Equal}"
proof (induction ds arbitrary: s)
  case (Cons d ds)
  have step: "set (directives (directive_set_add ocmp level d s)) =
      insert d {y \<in> set (directives s). ocmp y d \<noteq> Equal}"
    using Cons.prems insert_by_set by (simp add: add_directives directive_set_ok_def)
  show ?case
    using Cons.IH [OF add_ok [OF Cons.prems], of d] by (auto simp: step list_ex_iff)
qed simp

text \<open>A set built from a sequence of directives holds, for each key, the last of them.\<close>

lemma from_iter_set: "set (directives (directive_set_from_iter ocmp level ds)) = set (last_by ocmp ds)"
  using fold_add_set [OF default_ok, of ds]
  by (simp add: directive_set_from_iter_def directive_set_extend_def directive_set_default_def)

text \<open>The first directive that matches is before every other one that does.\<close>

lemma first_is_most_specific:
  assumes "directive_set_ok ocmp level s" and "directives_for cares s m = d # ds"
  shows "d \<in> set (directives s)" and "cares d m"
    and "\<And>e. e \<in> set (directives s) \<Longrightarrow> cares e m \<Longrightarrow> e = d \<or> ocmp d e = Less"
    and "level d \<le> max_level s"
proof -
  have filt: "filter (\<lambda>d. cares d m) (directives s) = d # ds"
    using assms(2) by (simp add: directives_for_def)
  then have members: "{e \<in> set (directives s). cares e m} = insert d (set ds)"
    by (metis list.simps(15) set_filter)
  then have d: "d \<in> set (directives s) \<and> cares d m" by blast
  then show "d \<in> set (directives s)" "cares d m" by auto
  show "level d \<le> max_level s" using d assms(1) by (simp add: directive_set_ok_def)
  have "sorted_by ocmp (d # ds)"
    using assms(1) filt sorted_wrt_filter
    by (metis directive_set_ok_def sorted_by_def)
  then show "e = d \<or> ocmp d e = Less" if "e \<in> set (directives s)" "cares e m" for e
    using that members by auto
qed

end

subsection \<open>Static directives\<close>

record static_directive =
  sd_target :: "string option"
  sd_field_names :: "string list"
  sd_level :: level_filter

definition static_new :: "string option \<Rightarrow> string list \<Rightarrow> level_filter \<Rightarrow> static_directive" where
  "static_new target field_names level =
     \<lparr>sd_target = target, sd_field_names = field_names, sd_level = level\<rparr>"

definition static_default :: static_directive where
  "static_default = \<lparr>sd_target = None, sd_field_names = [], sd_level = from_level ERROR\<rparr>"

definition cares_about_target :: "static_directive \<Rightarrow> string \<Rightarrow> bool" where
  "cares_about_target d to_check =
     (if (case sd_target d of Some target \<Rightarrow> \<not> starts_with to_check target | None \<Rightarrow> False) then False
      else if sd_field_names d \<noteq> [] then False
      else True)"

definition static_cares_about :: "static_directive \<Rightarrow> metadata \<Rightarrow> bool" where
  "static_cares_about d meta =
     (if (case sd_target d of Some target \<Rightarrow> \<not> starts_with (meta_target meta) target | None \<Rightarrow> False)
      then False
      else if meta_is_event meta \<and> sd_field_names d \<noteq> []
      then list_all (\<lambda>name. field_lookup (meta_fields meta) name \<noteq> None) (sd_field_names d)
      else True)"

definition static_cmp :: "static_directive \<Rightarrow> static_directive \<Rightarrow> ordering" where
  "static_cmp a b = reverse_ordering
     (then_with (cmp (map_option length (sd_target a)) (map_option length (sd_target b)))
     (then_with (cmp (length (sd_field_names a)) (length (sd_field_names b)))
     (then_with (cmp (sd_target a) (sd_target b))
                (cmp (sd_field_names a) (sd_field_names b)))))"

type_synonym static_set = "static_directive directive_set"

definition static_add :: "static_directive \<Rightarrow> static_set \<Rightarrow> static_set" where
  "static_add d s = directive_set_add static_cmp sd_level d s"

definition static_from_iter :: "static_directive list \<Rightarrow> static_set" where
  "static_from_iter ds = directive_set_from_iter static_cmp sd_level ds"

definition static_enabled :: "static_set \<Rightarrow> metadata \<Rightarrow> bool" where
  "static_enabled s meta =
     (case directives_for static_cares_about s meta of
        d # _ \<Rightarrow> filter_ge_level (sd_level d) (meta_level meta)
      | [] \<Rightarrow> False)"

definition target_enabled :: "static_set \<Rightarrow> string \<Rightarrow> level \<Rightarrow> bool" where
  "target_enabled s target level =
     (case directives_for cares_about_target s target of
        d # _ \<Rightarrow> filter_ge_level (sd_level d) level
      | [] \<Rightarrow> False)"

definition static_display :: "static_directive \<Rightarrow> string" where
  "static_display d =
     (let target = (case sd_target d of Some t \<Rightarrow> t | None \<Rightarrow> []);
          fields = (if sd_field_names d \<noteq> []
                    then ''['' @ (''{'' @ join_with '','' (sd_field_names d) @ ''}'') @ '']'' else []);
          wrote_any = (sd_target d \<noteq> None \<or> sd_field_names d \<noteq> [])
      in target @ fields @ (if wrote_any then ''='' else []) @ filter_display (sd_level d))"

text \<open>\<open>FromStr for StaticDirective\<close>: the field list of the part before the equals sign, then all of it.\<close>

definition parse_fields :: "string list \<Rightarrow> parse_error + string list" where
  "parse_fields pieces =
     (case pieces of
        [] \<Rightarrow> Inr []
      | maybe_fields # rest \<Rightarrow>
          if rest \<noteq> [] then Inl (parse_error_msg ''too many '[{' in filter directive, expected 0 or 1'')
          else if \<not> ends_with maybe_fields ''}]''
          then Inl (parse_error_msg (''expected fields list to end with '}]'' @ [CHR 0x27]))
          else Inr (filter (\<lambda>s. s \<noteq> []) (split_on CHR '','' (trim_end_matches maybe_fields ''}]''))))"

definition static_from_str :: "string \<Rightarrow> parse_error + static_directive" where
  "static_from_str s =
     (case split_on CHR ''='' s of
        [] \<Rightarrow> Inl (parse_error_msg ''string must not be empty'')
      | [part0] \<Rightarrow>
          (case filter_from_str part0 of
             Inr level \<Rightarrow> Inr \<lparr>sd_target = None, sd_field_names = [], sd_level = level\<rparr>
           | Inl _ \<Rightarrow> Inr \<lparr>sd_target = Some part0, sd_field_names = [], sd_level = from_level TRACE\<rparr>)
      | part0 # part1 # rest \<Rightarrow>
          if rest \<noteq> [] then
            Inl (parse_error_msg ''too many '=' in filter directive, expected 0 or 1'')
          else
            (let pieces = split_str ''[{'' part0 in
             case parse_fields (tl pieces) of
               Inl e \<Rightarrow> Inl e
             | Inr field_names \<Rightarrow>
                 (case filter_from_str part1 of
                    Inl e \<Rightarrow> Inl (parse_error_from_level e)
                  | Inr level \<Rightarrow>
                      Inr \<lparr>sd_target = (case pieces of t # _ \<Rightarrow> Some t | [] \<Rightarrow> None),
                           sd_field_names = field_names, sd_level = level\<rparr>)))"

subsection \<open>The order of static directives\<close>

lemma static_ord_impl: "ord_impl static_cmp"
  unfolding static_cmp_def [abs_def]
  by (intro ord_impl_reverse ord_impl_then) (rule ord_impl_key)+

interpretation static: directive_impl static_cmp sd_level
  by (simp add: directive_impl_def static_ord_impl)

lemma static_cmp_Equal:
  "static_cmp a b = Equal \<longleftrightarrow> sd_target a = sd_target b \<and> sd_field_names a = sd_field_names b"
  by (auto simp: static_cmp_def)

lemma static_cmp_Less_target:
  "static_cmp a b = Less \<Longrightarrow> map_option length (sd_target b) \<le> map_option length (sd_target a)"
  by (auto simp: static_cmp_def)

text \<open>What the first match decides, over any set that satisfies the invariant.\<close>

lemma static_enabled_most_specific:
  assumes ok: "directive_set_ok static_cmp sd_level s"
  shows "static_enabled s meta \<longleftrightarrow>
    (\<exists>d \<in> set (directives s). static_cares_about d meta \<and>
       (\<forall>e \<in> set (directives s). static_cares_about e meta \<longrightarrow> e = d \<or> static_cmp d e = Less) \<and>
       level_le_filter (meta_level meta) (sd_level d))" (is "_ \<longleftrightarrow> (\<exists>d \<in> _. ?best d)")
proof (cases "directives_for static_cares_about s meta")
  case Nil
  then have "\<forall>d \<in> set (directives s). \<not> static_cares_about d meta"
    by (simp add: directives_for_def filter_empty_conv)
  with Nil show ?thesis by (auto simp: static_enabled_def)
next
  case (Cons d ds)
  note first = static.first_is_most_specific [OF ok Cons]
  have "e = d" if "e \<in> set (directives s)" "?best e" for e
    using that first(1-3) static.less_not_equal by blast
  moreover have "\<forall>e \<in> set (directives s). static_cares_about e meta \<longrightarrow> e = d \<or> static_cmp d e = Less"
    using first(3) by blast
  moreover have "static_enabled s meta = level_le_filter (meta_level meta) (sd_level d)"
    by (simp add: static_enabled_def Cons)
  ultimately show ?thesis using first(1,2) by blast
qed

lemma static_enabled_max_level:
  assumes "directive_set_ok static_cmp sd_level s" and "static_enabled s meta"
  shows "level_le_filter (meta_level meta) (max_level s)"
  using assms static_enabled_most_specific [OF assms(1), of meta] level_le_filter_trans
  unfolding directive_set_ok_def by blast

lemma static_set_enabled_correct_facts:
  shows "static_enabled (static_from_iter ds) meta \<longleftrightarrow>
      (\<exists>d \<in> set (last_by static_cmp ds). static_cares_about d meta \<and>
         (\<forall>e \<in> set (last_by static_cmp ds).
            static_cares_about e meta \<longrightarrow> e = d \<or> static_cmp d e = Less) \<and>
         level_le_filter (meta_level meta) (sd_level d))"
    and "static_enabled (static_from_iter ds) meta \<Longrightarrow>
      level_le_filter (meta_level meta) (max_level (static_from_iter ds))"
proof -
  have ok: "directive_set_ok static_cmp sd_level (static_from_iter ds)"
    and members: "set (directives (static_from_iter ds)) = set (last_by static_cmp ds)"
    by (simp_all add: static_from_iter_def static.from_iter_ok static.from_iter_set)
  show "static_enabled (static_from_iter ds) meta \<longleftrightarrow>
      (\<exists>d \<in> set (last_by static_cmp ds). static_cares_about d meta \<and>
         (\<forall>e \<in> set (last_by static_cmp ds).
            static_cares_about e meta \<longrightarrow> e = d \<or> static_cmp d e = Less) \<and>
         level_le_filter (meta_level meta) (sd_level d))"
    using static_enabled_most_specific [OF ok, of meta] unfolding members .
  show "static_enabled (static_from_iter ds) meta \<Longrightarrow>
      level_le_filter (meta_level meta) (max_level (static_from_iter ds))"
    by (rule static_enabled_max_level [OF ok])
qed


subsection \<open>Printing and parsing\<close>

lemma trim_end_matches_once:
  assumes "p \<noteq> []" and "\<not> ends_with s p"
  shows "trim_end_matches (s @ p) p = s"
proof -
  have "ends_with (s @ p) p" by (simp add: ends_with_def)
  moreover have "trim_end_matches s p = s" using assms by (subst trim_end_matches.simps) simp
  ultimately show ?thesis using assms by (subst trim_end_matches.simps) simp
qed

lemma ends_with_mem: "ends_with s (c # p) \<Longrightarrow> c \<in> set s"
  by (metis ends_with_def in_set_conv_decomp prefix_def rev.simps(2) rev_rev_ident set_append
      set_rev starts_with_prefix UnI1 append.assoc)

lemma set_join_with: "set (join_with sep ps) \<subseteq> set sep \<union> (\<Union>p \<in> set ps. set p)"
  by (induction sep ps rule: join_with.induct) auto

definition static_printable :: "static_directive \<Rightarrow> bool" where
  "static_printable d \<longleftrightarrow>
     (case sd_target d of
        None \<Rightarrow> sd_field_names d = []
      | Some t \<Rightarrow> CHR ''='' \<notin> set t \<and> CHR ''['' \<notin> set t) \<and>
     list_all (\<lambda>f. f \<noteq> [] \<and> CHR '','' \<notin> set f \<and> CHR ''='' \<notin> set f \<and> CHR ''['' \<notin> set f \<and>
       CHR ''}'' \<notin> set f) (sd_field_names d)"

lemma filter_display_chars: "c \<in> set (filter_display f) \<Longrightarrow> is_ascii_lowercase c"
  by (auto simp: filter_display_def is_ascii_lowercase_def split: option.splits level.splits)

lemma parse_fields_join:
  assumes "fs \<noteq> []" and "list_all (\<lambda>f. f \<noteq> [] \<and> CHR '','' \<notin> set f \<and> CHR ''}'' \<notin> set f) fs"
  shows "parse_fields [join_with '','' fs @ ''}]''] = Inr fs"
proof -
  have "CHR ''}'' \<notin> set (join_with '','' fs)"
    using set_join_with [of "'',''" fs] assms(2) by (auto simp: list_all_iff)
  then have trim: "trim_end_matches (join_with '','' fs @ ''}]'') ''}]'' = join_with '','' fs"
    by (intro trim_end_matches_once) (auto dest: ends_with_mem)
  have "split_on CHR '','' (join_with '','' fs) = fs"
    using assms by (intro split_on_join) (auto simp: list_all_iff)
  moreover have "filter (\<lambda>s. s \<noteq> []) fs = fs"
    using assms(2) by (simp add: list_all_iff filter_id_conv)
  moreover have "ends_with (join_with '','' fs @ ''}]'') ''}]''"
    by (simp add: ends_with_def starts_with_def)
  ultimately show ?thesis by (simp add: parse_fields_def trim)
qed

lemma lowercase_not_sep: "is_ascii_lowercase c \<Longrightarrow> c \<noteq> CHR ''='' \<and> c \<noteq> CHR '',''"
  by (auto simp: is_ascii_lowercase_def)

lemma static_from_str_parts:
  assumes "CHR ''='' \<notin> set part0" and "split_str ''[{'' part0 = t # pieces"
    and "parse_fields pieces = Inr fs"
  shows "static_from_str (part0 @ ''='' @ filter_display l) =
    Inr \<lparr>sd_target = Some t, sd_field_names = fs, sd_level = l\<rparr>"
proof -
  have "CHR ''='' \<notin> set (filter_display l)"
    using filter_display_chars lowercase_not_sep by blast
  then have "split_on CHR ''='' (part0 @ ''='' @ filter_display l) = [part0, filter_display l]"
    using assms(1) by (simp add: split_on_append_sep split_on_no_sep)
  with assms(2,3) show ?thesis
    by (simp add: static_from_str_def filter_display_parses)
qed

lemma static_display_fields:
  assumes "sd_target d = Some t" and "sd_field_names d \<noteq> []"
  shows "static_display d =
    (t @ ''[{'' @ join_with '','' (sd_field_names d) @ ''}]'') @ ''='' @ filter_display (sd_level d)"
  using assms by (simp add: static_display_def)

lemma static_from_str_display:
  assumes "static_printable d"
  shows "static_from_str (static_display d) = Inr d"
proof (cases "sd_target d")
  case None
  with assms have "sd_field_names d = []" by (simp add: static_printable_def)
  moreover have "CHR ''='' \<notin> set (filter_display (sd_level d))"
    using filter_display_chars lowercase_not_sep by blast
  ultimately show ?thesis using None
    by (simp add: static_display_def static_from_str_def split_on_no_sep filter_display_parses)
next
  case (Some t)
  let ?fs = "sd_field_names d"
  from assms Some have t: "CHR ''='' \<notin> set t" "CHR ''['' \<notin> set t"
    and fs: "list_all (\<lambda>f. f \<noteq> [] \<and> CHR '','' \<notin> set f \<and> CHR ''='' \<notin> set f \<and> CHR ''['' \<notin> set f \<and>
       CHR ''}'' \<notin> set f) ?fs"
    by (simp_all add: static_printable_def)
  show ?thesis
  proof (cases "?fs = []")
    case True
    have "split_str ''[{'' t = t # []"
      using t by (simp add: split_str_def split_str_from_absent)
    moreover have "parse_fields [] = Inr []" by (simp add: parse_fields_def)
    ultimately have "static_from_str (t @ ''='' @ filter_display (sd_level d)) =
        Inr \<lparr>sd_target = Some t, sd_field_names = [], sd_level = sd_level d\<rparr>"
      using t(1) by (intro static_from_str_parts)
    then show ?thesis using Some True by (simp add: static_display_def)
  next
    case False
    have join: "CHR ''='' \<notin> set (join_with '','' ?fs)" "CHR ''['' \<notin> set (join_with '','' ?fs)"
      using set_join_with [of "'',''" ?fs] fs by (auto simp: list_all_iff)
    have "split_str_from ''[{'' [] (join_with '','' ?fs @ ''}]'') = [join_with '','' ?fs @ ''}]'']"
      using join by (subst split_str_from_absent) auto
    then have "split_str ''[{'' (t @ ''[{'' @ join_with '','' ?fs @ ''}]'') =
        t # [join_with '','' ?fs @ ''}]'']"
      using t split_str_from_at [of "''[{''" t "[]"] by (simp add: split_str_def)
    moreover have "parse_fields [join_with '','' ?fs @ ''}]''] = Inr ?fs"
      using fs False by (intro parse_fields_join) (auto simp: list_all_iff)
    moreover have "CHR ''='' \<notin> set (t @ ''[{'' @ join_with '','' ?fs @ ''}]'')"
      using t join by simp
    ultimately have "static_from_str (static_display d) =
        Inr \<lparr>sd_target = Some t, sd_field_names = ?fs, sd_level = sd_level d\<rparr>"
      unfolding static_display_fields [OF Some False] by (intro static_from_str_parts)
    then show ?thesis using Some by simp
  qed
qed

text \<open>
  A static directive that the grammar can express (no separators inside the target or the field
  names, and field names only with a target) is read back from its printed form unchanged.
\<close>

theorem static_directive_roundtrip:
  "static_printable d \<Longrightarrow> static_from_str (static_display d) = Inr d"
  by (rule static_from_str_display)

theorem static_directive_roundtrip_witness:
  "static_from_str ''my_crate[{span_id,user}]=debug'' =
     Inr \<lparr>sd_target = Some ''my_crate'', sd_field_names = [''span_id'', ''user''],
          sd_level = from_level DEBUG\<rparr>"
  using static_directive_roundtrip
    [of "\<lparr>sd_target = Some ''my_crate'', sd_field_names = [''span_id'', ''user''],
          sd_level = from_level DEBUG\<rparr>"]
  by (simp add: static_printable_def static_display_def filter_display_def from_level_def)

definition demo_directives :: "static_directive list" where
  "demo_directives =
     [static_new None [] (from_level WARN), static_new (Some ''app'') [] (from_level TRACE),
      static_new (Some ''app::db'') [] OFF, static_new (Some ''app'') [] (from_level INFO)]"

definition demo_event :: "string \<Rightarrow> level \<Rightarrow> metadata" where
  "demo_event target lvl =
     \<lparr>meta_name = ''event'', meta_target = target, meta_level = lvl, meta_module_path = None,
      meta_file = None, meta_line = None,
      meta_fields = \<lparr>fs_names = [''message''], fs_callsite = 1\<rparr>, meta_kind = EVENT\<rparr>"


end
