(* ===== verification/Filter_Targets.thy ===== *)
theory Filter_Targets
  imports Filter_Directive Subscriber
begin

text \<open>
  The \<open>Targets\<close> filter: \<open>tracing-subscriber/src/filter/targets.rs\<close>. It is a \<open>DirectiveSet\<close> of
  static directives without field names.

  Its specification is a finite map from targets (and \<open>None\<close> for the default) to level filters, and
  the lookup of the longest prefix of a target in that map; \<open>targets_abs\<close> reads the map off the
  sorted vector, and the lemmas below show that each operation of \<open>Targets\<close> is the operation on the
  map.
\<close>

type_synonym targets = static_set

definition targets_new :: targets where
  "targets_new = directive_set_default"

definition with_target :: "string \<Rightarrow> level_filter \<Rightarrow> targets \<Rightarrow> targets" where
  "with_target target level s = static_add (static_new (Some target) [] level) s"

definition targets_extend :: "(string \<times> level_filter) list \<Rightarrow> targets \<Rightarrow> targets" where
  "targets_extend ts s =
     directive_set_extend static_cmp sd_level
       (map (\<lambda>(target, level). static_new (Some target) [] level) ts) s"

definition with_targets :: "(string \<times> level_filter) list \<Rightarrow> targets \<Rightarrow> targets" where
  "with_targets ts s = targets_extend ts s"

definition targets_with_default :: "level_filter \<Rightarrow> targets \<Rightarrow> targets" where
  "targets_with_default level s = static_add (static_new None [] level) s"

definition default_level :: "targets \<Rightarrow> level_filter option" where
  "default_level s = map_option sd_level (find (\<lambda>d. sd_target d = None) (directives s))"

definition targets_interested :: "targets \<Rightarrow> metadata \<Rightarrow> interest" where
  "targets_interested s meta = (if static_enabled s meta then Always else Never)"

definition would_enable :: "targets \<Rightarrow> string \<Rightarrow> level \<Rightarrow> bool" where
  "would_enable s target level = target_enabled s target level"

definition targets_from_iter :: "(string \<times> level_filter) list \<Rightarrow> targets" where
  "targets_from_iter ts = targets_extend ts directive_set_default"

text \<open>\<open>collect::<Result<_, _>>()\<close>: the first error ends the iteration.\<close>

fun collect_results :: "('e + 'a) list \<Rightarrow> 'e + 'a list" where
  "collect_results [] = Inr []"
| "collect_results (Inl e # rs) = Inl e"
| "collect_results (Inr a # rs) =
     (case collect_results rs of Inl e \<Rightarrow> Inl e | Inr as \<Rightarrow> Inr (a # as))"

definition targets_from_str :: "string \<Rightarrow> parse_error + targets" where
  "targets_from_str s =
     (case collect_results (map static_from_str (split_on CHR '','' s)) of
        Inl e \<Rightarrow> Inl e
      | Inr ds \<Rightarrow> Inr (static_from_iter ds))"

definition targets_enabled :: "targets \<Rightarrow> metadata \<Rightarrow> bool" where
  "targets_enabled s meta = static_enabled s meta"

definition targets_register_callsite :: "targets \<Rightarrow> metadata \<Rightarrow> interest" where
  "targets_register_callsite s meta = targets_interested s meta"

definition targets_max_level_hint :: "targets \<Rightarrow> level_filter option" where
  "targets_max_level_hint s = Some (max_level s)"

definition targets_display :: "targets \<Rightarrow> string" where
  "targets_display s = join_with '','' (map static_display (directives s))"

definition targets_iter :: "targets \<Rightarrow> (string \<times> level_filter) list" where
  "targets_iter s =
     List.map_filter (\<lambda>d. map_option (\<lambda>t. (t, sd_level d)) (sd_target d)) (directives s)"

subsection \<open>The map a set of targets stands for\<close>

definition targets_ok :: "targets \<Rightarrow> bool" where
  "targets_ok s \<longleftrightarrow>
     directive_set_ok static_cmp sd_level s \<and> list_all (\<lambda>d. sd_field_names d = []) (directives s)"

definition targets_abs :: "targets \<Rightarrow> string option \<rightharpoonup> level_filter" where
  "targets_abs s = map_of (map (\<lambda>d. (sd_target d, sd_level d)) (directives s))"

fun longest_prefix :: "(string option \<rightharpoonup> 'l) \<Rightarrow> string \<Rightarrow> nat \<Rightarrow> 'l option" where
  "longest_prefix m t 0 = (case m (Some []) of Some l \<Rightarrow> Some l | None \<Rightarrow> m None)"
| "longest_prefix m t (Suc n) =
     (case m (Some (take (Suc n) t)) of Some l \<Rightarrow> Some l | None \<Rightarrow> longest_prefix m t n)"

lemma longest_prefix_hit:
  assumes "m (Some (take k t)) = Some l" and "k \<le> n"
    and "\<And>j. k < j \<Longrightarrow> j \<le> n \<Longrightarrow> m (Some (take j t)) = None"
  shows "longest_prefix m t n = Some l"
  using assms
proof (induction n)
  case (Suc n)
  then show ?case by (cases "k = Suc n") (auto simp del: take_Suc)
qed simp

lemma longest_prefix_default:
  "(\<And>j. j \<le> n \<Longrightarrow> m (Some (take j t)) = None) \<Longrightarrow> longest_prefix m t n = m None"
  by (induction n) (auto simp del: take_Suc)

lemma sorted_targets_distinct:
  "sorted_by static_cmp ds \<Longrightarrow> list_all (\<lambda>d. sd_field_names d = []) ds \<Longrightarrow> distinct (map sd_target ds)"
proof (induction ds)
  case (Cons d ds)
  have "sd_target e \<noteq> sd_target d" if "e \<in> set ds" for e
    using that Cons.prems static_cmp_Equal [of d e] by (auto simp: list_all_iff)
  then have "sd_target d \<notin> sd_target ` set ds" by (metis imageE)
  with Cons show ?case by simp
qed simp

lemma map_ext_Some: "(\<And>k l. f k = Some l \<longleftrightarrow> g k = Some l) \<Longrightarrow> f = (g :: 'a \<rightharpoonup> 'b)"
  by (rule ext) (metis not_Some_eq)

lemma find_map_of: "map_option f (find (\<lambda>d. k d = x) ds) = map_of (map (\<lambda>d. (k d, f d)) ds) x"
  by (induction ds) auto

lemma targets_abs_Some:
  assumes "targets_ok s"
  shows "targets_abs s k = Some l \<longleftrightarrow> (\<exists>d \<in> set (directives s). sd_target d = k \<and> sd_level d = l)"
proof -
  have "distinct (map fst (map (\<lambda>d. (sd_target d, sd_level d)) (directives s)))"
    using assms sorted_targets_distinct by (simp add: targets_ok_def directive_set_ok_def comp_def)
  from map_of_eq_Some_iff [OF this, of k l] show ?thesis by (auto simp: targets_abs_def)
qed

lemma targets_abs_None:
  "targets_abs s k = None \<longleftrightarrow> (\<forall>d \<in> set (directives s). sd_target d \<noteq> k)"
  by (simp add: targets_abs_def map_of_eq_None_iff image_image) (metis imageE imageI)

lemma targets_add_ok:
  assumes "targets_ok s" and "sd_field_names d = []"
  shows "targets_ok (static_add d s)"
proof -
  have sorted: "sorted_by static_cmp (directives s)"
    using assms by (simp add: targets_ok_def directive_set_ok_def)
  show ?thesis
    using assms static.add_ok [of s d] static.insert_by_set [OF sorted, of d]
    by (auto simp: targets_ok_def static_add_def static.add_directives list_all_iff)
qed

lemma targets_add_abs:
  assumes ok: "targets_ok s" and d: "sd_field_names d = []"
  shows "targets_abs (static_add d s) = (targets_abs s)(sd_target d \<mapsto> sd_level d)"
proof (rule map_ext_Some)
  have sorted: "sorted_by static_cmp (directives s)"
    using ok by (simp add: targets_ok_def directive_set_ok_def)
  have members: "set (directives (static_add d s)) =
      insert d {e \<in> set (directives s). sd_target e \<noteq> sd_target d}"
    using static.insert_by_set [OF sorted, of d] ok d
    by (auto simp: static_add_def static.add_directives static_cmp_Equal targets_ok_def list_all_iff)
  show "targets_abs (static_add d s) k = Some l \<longleftrightarrow>
      ((targets_abs s)(sd_target d \<mapsto> sd_level d)) k = Some l" for k l
    unfolding targets_abs_Some [OF targets_add_ok [OF ok d]] members
    using targets_abs_Some [OF ok, of k l] by auto
qed

lemma targets_new_ok: "targets_ok targets_new"
  by (simp add: targets_ok_def targets_new_def directive_set_default_def directive_set_ok_def)

lemma targets_new_abs: "targets_abs targets_new = Map.empty"
  by (simp add: targets_abs_def targets_new_def directive_set_default_def)

lemma targets_from_iter_abs:
  "targets_ok (targets_from_iter ts) \<and> targets_abs (targets_from_iter ts) =
     map_of (rev (map (\<lambda>(t, l). (Some t, l)) ts))"
proof -
  have "targets_ok (targets_extend ts s) \<and>
      targets_abs (targets_extend ts s) = targets_abs s ++ map_of (rev (map (\<lambda>(t, l). (Some t, l)) ts))"
    if "targets_ok s" for s
    using that
  proof (induction ts arbitrary: s)
    case (Cons a ts)
    obtain t l where a: "a = (t, l)" by fastforce
    have ok: "targets_ok (static_add (static_new (Some t) [] l) s)"
      using Cons.prems by (intro targets_add_ok) (simp_all add: static_new_def)
    have "targets_abs (static_add (static_new (Some t) [] l) s) = (targets_abs s)(Some t \<mapsto> l)"
      using targets_add_abs [OF Cons.prems, of "static_new (Some t) [] l"] by (simp add: static_new_def)
    with Cons.IH [OF ok] show ?case
      by (simp add: a targets_extend_def directive_set_extend_def static_add_def
          map_add_upd_left [symmetric] map_add_def fun_eq_iff split: option.split)
  qed (simp add: targets_extend_def directive_set_extend_def)
  from this [OF targets_new_ok] show ?thesis
    by (simp add: targets_from_iter_def targets_new_abs [unfolded targets_new_def] targets_new_def)
qed

text \<open>The directive that decides for a target, found in the map.\<close>

lemma cares_about_target_plain:
  "sd_field_names d = [] \<Longrightarrow>
   cares_about_target d target \<longleftrightarrow> (case sd_target d of None \<Rightarrow> True | Some t \<Rightarrow> starts_with target t)"
  by (auto simp: cares_about_target_def split: option.split)

lemma first_match_longest:
  assumes ok: "targets_ok s" and first: "directives_for cares_about_target s target = d # ds"
  shows "longest_prefix (targets_abs s) target (length target) = Some (sd_level d)"
proof -
  have dok: "directive_set_ok static_cmp sd_level s" using ok by (simp add: targets_ok_def)
  note best = static.first_is_most_specific [OF dok first]
  have plain: "sd_field_names e = []" if "e \<in> set (directives s)" for e
    using ok that by (simp add: targets_ok_def list_all_iff)
  have d: "targets_abs s (sd_target d) = Some (sd_level d)"
    using best(1) targets_abs_Some [OF ok] by blast
  have longer: "targets_abs s (Some t) = None"
    if "starts_with target t" "sd_target d \<noteq> Some t" "map_option length (sd_target d) \<le> Some (length t)" for t
  proof (rule ccontr)
    assume "targets_abs s (Some t) \<noteq> None"
    then obtain e where e: "e \<in> set (directives s)" "sd_target e = Some t"
      using targets_abs_None by metis
    then have "cares_about_target e target" using plain that(1) by (simp add: cares_about_target_plain)
    then have "static_cmp d e = Less" using best(3) [OF e(1)] e(2) that(2) by auto
    then have "Some (length t) \<le> map_option length (sd_target d)"
      using static_cmp_Less_target [of d e] e(2) by simp
    then have "map_option length (sd_target d) = Some (length t)" using that(3) by simp
    then obtain u where u: "sd_target d = Some u" "length u = length t" by auto
    moreover have "starts_with target u"
      using best(1,2) u(1) plain by (simp add: cares_about_target_plain)
    ultimately show False using that(1,2) starts_with_same_length by metis
  qed
  show ?thesis
  proof (cases "sd_target d")
    case None
    have "targets_abs s (Some (take j target)) = None" if "j \<le> length target" for j
      using longer [of "take j target"] None by simp
    then show ?thesis using longest_prefix_default d None by metis
  next
    case (Some u)
    have u: "u = take (length u) target" "length u \<le> length target"
      using best(1,2) Some plain starts_with_length
      by (auto simp: cares_about_target_plain starts_with_def)
    have "targets_abs s (Some (take j target)) = None" if "length u < j" "j \<le> length target" for j
      using longer [of "take j target"] Some that by (cases "u = take j target") auto
    then show ?thesis using longest_prefix_hit [of _ "length u"] d Some u by metis
  qed
qed

lemma no_match_longest:
  assumes ok: "targets_ok s" and none: "directives_for cares_about_target s target = []"
  shows "longest_prefix (targets_abs s) target (length target) = None"
proof -
  have "\<not> cares_about_target e target \<and> sd_field_names e = []" if "e \<in> set (directives s)" for e
    using that none ok by (simp add: directives_for_def filter_empty_conv targets_ok_def list_all_iff)
  then have no: "sd_target e \<noteq> None \<and> (\<forall>t. sd_target e = Some t \<longrightarrow> \<not> starts_with target t)"
    if "e \<in> set (directives s)" for e
    using that cares_about_target_plain by (metis option.simps(4,5))
  have "targets_abs s (Some (take j target)) = None" for j
    unfolding targets_abs_None using no starts_with_take by blast
  moreover have "targets_abs s None = None" unfolding targets_abs_None using no by blast
  ultimately show ?thesis using longest_prefix_default by metis
qed

lemma would_enable_longest:
  assumes "targets_ok s"
  shows "would_enable s target level \<longleftrightarrow>
    (case longest_prefix (targets_abs s) target (length target) of
       None \<Rightarrow> False | Some f \<Rightarrow> level_le_filter level f)"
  using first_match_longest [OF assms, of target] no_match_longest [OF assms, of target]
  by (auto simp: would_enable_def target_enabled_def split: list.split)

lemma static_enabled_plain:
  assumes "targets_ok s"
  shows "static_enabled s meta = would_enable s (meta_target meta) (meta_level meta)"
proof -
  have "static_cares_about d meta = cares_about_target d (meta_target meta)"
    if "d \<in> set (directives s)" for d
    using that assms by (simp add: static_cares_about_def cares_about_target_def targets_ok_def list_all_iff)
  then have "directives_for static_cares_about s meta = directives_for cares_about_target s (meta_target meta)"
    by (simp add: directives_for_def cong: filter_cong)
  then show ?thesis by (simp add: static_enabled_def would_enable_def target_enabled_def)
qed

lemma targets_refine_map_facts:
  shows "targets_abs (targets_from_iter ts) = map_of (rev (map (\<lambda>(t, l). (Some t, l)) ts))"
    and "targets_ok s \<Longrightarrow> targets_abs (with_target t l s) = (targets_abs s)(Some t \<mapsto> l)"
    and "targets_ok s \<Longrightarrow> targets_abs (targets_with_default l s) = (targets_abs s)(None \<mapsto> l)"
    and "targets_ok s \<Longrightarrow> would_enable s target level \<longleftrightarrow>
      (case longest_prefix (targets_abs s) target (length target) of
         None \<Rightarrow> False | Some f \<Rightarrow> level_le_filter level f)"
    and "targets_ok s \<Longrightarrow> targets_register_callsite s meta = Always \<longleftrightarrow>
      would_enable s (meta_target meta) (meta_level meta)"
    and "targets_ok s \<Longrightarrow> default_level s = targets_abs s None"
proof -
  show "targets_abs (targets_from_iter ts) = map_of (rev (map (\<lambda>(t, l). (Some t, l)) ts))"
    using targets_from_iter_abs by blast
  assume ok: "targets_ok s"
  show "targets_abs (with_target t l s) = (targets_abs s)(Some t \<mapsto> l)"
    and "targets_abs (targets_with_default l s) = (targets_abs s)(None \<mapsto> l)"
    using targets_add_abs [OF ok]
    by (simp_all add: with_target_def targets_with_default_def static_new_def)
  show "would_enable s target level \<longleftrightarrow>
      (case longest_prefix (targets_abs s) target (length target) of
         None \<Rightarrow> False | Some f \<Rightarrow> level_le_filter level f)"
    by (rule would_enable_longest [OF ok])
  show "targets_register_callsite s meta = Always \<longleftrightarrow>
      would_enable s (meta_target meta) (meta_level meta)"
    by (simp add: targets_register_callsite_def targets_interested_def static_enabled_plain [OF ok])
  show "default_level s = targets_abs s None"
    unfolding default_level_def targets_abs_def by (rule find_map_of)
qed

text \<open>
  C4. \<open>Targets\<close> refines its specification: a filter collected from pairs of target and level stands
  for the map in which a later pair replaces an earlier one, adding a target or a default updates
  that map, and \<open>would_enable\<close> (and, through it, \<open>enabled\<close> and the cached interest of a callsite) is
  decided by the longest prefix of the target in the map, then by the default, and is false when
  there is neither.
\<close>

theorem targets_refine_map:
  shows "(targets_abs (targets_from_iter ts) = map_of (rev (map (\<lambda>(t, l). (Some t, l)) ts))) \<and>
      ((targets_ok s) \<longrightarrow> (targets_abs (with_target t l s) = (targets_abs s)(Some t \<mapsto> l))) \<and>
      ((targets_ok s) \<longrightarrow> (targets_abs (targets_with_default l s) = (targets_abs s)(None \<mapsto> l))) \<and>
      ((targets_ok s) \<longrightarrow> (would_enable s target level \<longleftrightarrow>
      (case longest_prefix (targets_abs s) target (length target) of
         None \<Rightarrow> False | Some f \<Rightarrow> level_le_filter level f))) \<and>
      ((targets_ok s) \<longrightarrow> (targets_register_callsite s meta = Always \<longleftrightarrow>
      would_enable s (meta_target meta) (meta_level meta))) \<and>
      ((targets_ok s) \<longrightarrow> (default_level s = targets_abs s None))"
  using targets_refine_map_facts by blast

theorem targets_refine_map_witness:
  "\<not> would_enable (with_target ''app::db'' OFF (targets_with_default (from_level INFO) targets_new))
       ''app::db::pool'' ERROR \<and>
   would_enable (with_target ''app::db'' OFF (targets_with_default (from_level INFO) targets_new))
       ''app::ui'' WARN"
proof -
  have d: "targets_ok (targets_with_default (from_level INFO) targets_new)"
    by (simp add: targets_with_default_def targets_add_ok targets_new_ok static_new_def)
  then have ok: "targets_ok (with_target ''app::db'' OFF (targets_with_default (from_level INFO) targets_new))"
    by (simp add: with_target_def targets_add_ok static_new_def)
  show ?thesis
    unfolding targets_refine_map [THEN conjunct2, THEN conjunct2, THEN conjunct2, THEN conjunct1, rule_format, OF ok]
      targets_refine_map [THEN conjunct2, THEN conjunct1, rule_format, OF d]
      targets_refine_map [THEN conjunct2, THEN conjunct2, THEN conjunct1, rule_format, OF targets_new_ok] targets_new_abs
    by (simp add: eval_nat_numeral level_le_filter_from_level from_level_def less_eq_level_filter_def
        OFF_USIZE_def)
qed

subsection \<open>Printing and parsing\<close>

lemma collect_results_map:
  "(\<And>a. a \<in> set as \<Longrightarrow> f (g a) = Inr a) \<Longrightarrow> collect_results (map f (map g as)) = Inr as"
  by (induction as) auto

lemma last_by_sorted: "sorted_by static_cmp ds \<Longrightarrow> last_by static_cmp ds = ds"
  by (induction ds) (auto simp: list_ex_iff)

lemma fold_add_max_level:
  "(\<forall>d \<in> set ds. sd_level d \<le> b) \<Longrightarrow> max_level s \<le> b \<Longrightarrow>
   max_level (fold (directive_set_add static_cmp sd_level) ds s) \<le> b"
  by (induction ds arbitrary: s) (simp_all add: static.add_max_level)

lemma static_from_iter_directives:
  assumes "directive_set_ok static_cmp sd_level s"
  shows "directives (static_from_iter (directives s)) = directives s"
    and "max_level (static_from_iter (directives s)) \<le> max_level s"
proof -
  have sorted: "sorted_by static_cmp (directives s)" using assms by (simp add: directive_set_ok_def)
  have "sorted_by static_cmp (directives (static_from_iter (directives s)))"
    using static.from_iter_ok by (simp add: static_from_iter_def directive_set_ok_def)
  then show "directives (static_from_iter (directives s)) = directives s"
    using static.sorted_unique [OF _ sorted] static.from_iter_set last_by_sorted [OF sorted]
    by (simp add: static_from_iter_def)
  show "max_level (static_from_iter (directives s)) \<le> max_level s"
    using assms unfolding static_from_iter_def directive_set_from_iter_def directive_set_extend_def
    by (intro fold_add_max_level) (auto simp: directive_set_ok_def directive_set_default_def)
qed

lemma static_display_no_comma:
  assumes "\<And>t. sd_target d = Some t \<Longrightarrow> CHR '','' \<notin> set t" and "sd_field_names d = []"
  shows "CHR '','' \<notin> set (static_display d)"
  using assms filter_display_chars [of "CHR '',''" "sd_level d"] lowercase_not_sep
  by (auto simp: static_display_def split: option.split)

text \<open>
  A \<open>Targets\<close> filter with at least one directive, whose targets contain no separator of the
  grammar, survives printing and parsing: the parsed filter has the same directives, so it enables
  the same callsites, and its level hint is at most the original one (replacing a verbose directive
  by a terser one never lowers the hint of the original).
\<close>

theorem targets_roundtrip:
  assumes "targets_ok s" and "directives s \<noteq> []"
    and "\<forall>d \<in> set (directives s). \<forall>t. sd_target d = Some t \<longrightarrow>
      CHR ''='' \<notin> set t \<and> CHR ''['' \<notin> set t \<and> CHR '','' \<notin> set t"
  shows "\<exists>s'. targets_from_str (targets_display s) = Inr s' \<and> directives s' = directives s \<and>
    max_level s' \<le> max_level s \<and> (\<forall>meta. targets_enabled s' meta = targets_enabled s meta)"
proof -
  let ?ds = "directives s"
  have plain: "sd_field_names d = []" if "d \<in> set ?ds" for d
    using assms(1) that by (simp add: targets_ok_def list_all_iff)
  have "CHR '','' \<notin> set (static_display d)" if "d \<in> set ?ds" for d
    using static_display_no_comma plain assms(3) that by blast
  then have split: "split_on CHR '','' (targets_display s) = map static_display ?ds"
    using assms(2) unfolding targets_display_def by (intro split_on_join) auto
  have "static_from_str (static_display d) = Inr d" if "d \<in> set ?ds" for d
    using assms(3) plain that
    by (intro static_from_str_display) (auto simp: static_printable_def split: option.split)
  then have parsed: "targets_from_str (targets_display s) = Inr (static_from_iter ?ds)"
    unfolding targets_from_str_def split by (simp only: collect_results_map sum.case)
  note same = static_from_iter_directives [of s]
  have "targets_enabled (static_from_iter ?ds) meta = targets_enabled s meta" for meta
    using same(1) assms(1)
    by (simp add: targets_enabled_def static_enabled_def directives_for_def targets_ok_def)
  then show ?thesis using parsed same assms(1) by (auto simp: targets_ok_def)
qed

theorem targets_roundtrip_witness:
  "\<exists>s'. targets_from_str ''app=debug,warn'' = Inr s' \<and>
     directives s' = [static_new (Some ''app'') [] (from_level DEBUG), static_new None [] (from_level WARN)]"
proof -
  let ?s = "\<lparr>directives = [static_new (Some ''app'') [] (from_level DEBUG),
    static_new None [] (from_level WARN)], max_level = from_level DEBUG\<rparr>"
  have "targets_ok ?s"
    by (simp add: targets_ok_def directive_set_ok_def static_new_def static_cmp_def cmp_def
        from_level_def less_eq_level_filter_def)
  from targets_roundtrip [OF this] show ?thesis
    by (auto simp: static_new_def targets_display_def static_display_def filter_display_def from_level_def)
qed

end
