(* ===== verification/Layer_Filters.thy ===== *)
theory Layer_Filters
  imports Span_Lookup Filter_Targets
begin

text \<open>
  Layers and per-layer filters: the \<open>Filter\<close> trait of \<open>tracing-subscriber/src/layer/mod.rs\<close>, its
  combinators (\<open>filter/layer_filters/combinator.rs\<close>) and implementations, and the \<open>Filtered\<close> layer of
  \<open>filter/layer_filters/mod.rs\<close>.

  A layer and a filter are user code behind a trait object, so they are records of functions. The
  state they run in is the registry, the thread's filtering state and a user part \<open>'w\<close>. The callbacks that
  return nothing (\<open>on_new_span\<close>, \<open>on_event\<close>, ...) are one function of the notification.
\<close>

record 'w lstate =
  ls_registry :: registry
  ls_filtering :: filter_state
  ls_world :: 'w

datatype 'f notification =
    OnNewSpan "'f attributes" span_id
  | OnRecord span_id "'f record_values"
  | OnFollowsFrom span_id span_id
  | OnEvent "'f event"
  | OnEnter span_id
  | OnExit span_id
  | OnClose span_id
  | OnIdChange span_id span_id

record ('f, 'w) layer =
  ly_register_callsite :: "metadata \<Rightarrow> 'w lstate \<Rightarrow> interest \<times> 'w lstate"
  ly_enabled :: "metadata \<Rightarrow> layer_context \<Rightarrow> 'w lstate \<Rightarrow> bool \<times> 'w lstate"
  ly_event_enabled :: "'f event \<Rightarrow> layer_context \<Rightarrow> 'w lstate \<Rightarrow> bool \<times> 'w lstate"
  ly_max_level_hint :: "level_filter option"
  ly_notify :: "'f notification \<Rightarrow> layer_context \<Rightarrow> 'w lstate \<Rightarrow> 'w lstate"
  ly_has_plf :: bool
  ly_is_none :: bool

record ('f, 'w) layer_filter =
  ft_enabled :: "metadata \<Rightarrow> layer_context \<Rightarrow> 'w lstate \<Rightarrow> bool"
  ft_callsite_enabled :: "metadata \<Rightarrow> interest"
  ft_event_enabled :: "'f event \<Rightarrow> layer_context \<Rightarrow> 'w lstate \<Rightarrow> bool"
  ft_max_level_hint :: "level_filter option"
  ft_notify :: "'f notification \<Rightarrow> layer_context \<Rightarrow> 'w lstate \<Rightarrow> 'w lstate"

subsection \<open>The trait's provided methods\<close>

definition filter_defaults ::
  "(metadata \<Rightarrow> layer_context \<Rightarrow> 'w lstate \<Rightarrow> bool) \<Rightarrow> ('f, 'w) layer_filter" where
  "filter_defaults enabled =
     \<lparr>ft_enabled = enabled, ft_callsite_enabled = (\<lambda>_. Sometimes), ft_event_enabled = (\<lambda>_ _ _. True),
      ft_max_level_hint = None, ft_notify = (\<lambda>_ _ s. s)\<rparr>"

subsection \<open>Combinators\<close>

definition and_callsite_enabled :: "interest \<Rightarrow> interest \<Rightarrow> interest" where
  "and_callsite_enabled a b = (if a = Never then a else if b \<noteq> Always then b else a)"

definition filter_and :: "('f, 'w) layer_filter \<Rightarrow> ('f, 'w) layer_filter \<Rightarrow> ('f, 'w) layer_filter" where
  "filter_and a b =
     \<lparr>ft_enabled = (\<lambda>m cx s. ft_enabled a m cx s \<and> ft_enabled b m cx s),
      ft_callsite_enabled = (\<lambda>m. and_callsite_enabled (ft_callsite_enabled a m) (ft_callsite_enabled b m)),
      ft_event_enabled = (\<lambda>e cx s. ft_event_enabled a e cx s \<and> ft_event_enabled b e cx s),
      ft_max_level_hint = min (ft_max_level_hint a) (ft_max_level_hint b),
      ft_notify = (\<lambda>n cx s. ft_notify b n cx (ft_notify a n cx s))\<rparr>"

definition or_callsite_enabled :: "interest \<Rightarrow> interest \<Rightarrow> interest" where
  "or_callsite_enabled a b =
     (if a = Always \<or> b = Always then Always
      else if a = Sometimes \<or> b = Sometimes then Sometimes
      else Never)"

definition or_max_level_hint :: "level_filter option \<Rightarrow> level_filter option \<Rightarrow> level_filter option" where
  "or_max_level_hint a b = Option.bind a (\<lambda>x. Option.bind b (\<lambda>y. Some (max x y)))"

definition filter_or :: "('f, 'w) layer_filter \<Rightarrow> ('f, 'w) layer_filter \<Rightarrow> ('f, 'w) layer_filter" where
  "filter_or a b =
     \<lparr>ft_enabled = (\<lambda>m cx s. ft_enabled a m cx s \<or> ft_enabled b m cx s),
      ft_callsite_enabled = (\<lambda>m. or_callsite_enabled (ft_callsite_enabled a m) (ft_callsite_enabled b m)),
      ft_event_enabled = (\<lambda>e cx s. ft_event_enabled a e cx s \<or> ft_event_enabled b e cx s),
      ft_max_level_hint = or_max_level_hint (ft_max_level_hint a) (ft_max_level_hint b),
      ft_notify = (\<lambda>n cx s. ft_notify b n cx (ft_notify a n cx s))\<rparr>"

definition not_callsite_enabled :: "interest \<Rightarrow> interest" where
  "not_callsite_enabled i = (if i = Always then Never else if i = Never then Always else Sometimes)"

definition filter_not :: "('f, 'w) layer_filter \<Rightarrow> ('f, 'w) layer_filter" where
  "filter_not a =
     \<lparr>ft_enabled = (\<lambda>m cx s. \<not> ft_enabled a m cx s),
      ft_callsite_enabled = (\<lambda>m. not_callsite_enabled (ft_callsite_enabled a m)),
      ft_event_enabled = (\<lambda>_ _ _. True),
      ft_max_level_hint = None,
      ft_notify = ft_notify a\<rparr>"

definition filter_option :: "('f, 'w) layer_filter option \<Rightarrow> ('f, 'w) layer_filter" where
  "filter_option o1 =
     \<lparr>ft_enabled = (\<lambda>m cx s. case o1 of Some a \<Rightarrow> ft_enabled a m cx s | None \<Rightarrow> True),
      ft_callsite_enabled = (\<lambda>m. case o1 of Some a \<Rightarrow> ft_callsite_enabled a m | None \<Rightarrow> Always),
      ft_event_enabled = (\<lambda>e cx s. case o1 of Some a \<Rightarrow> ft_event_enabled a e cx s | None \<Rightarrow> True),
      ft_max_level_hint = Option.bind o1 ft_max_level_hint,
      ft_notify = (\<lambda>n cx s. case o1 of Some a \<Rightarrow> ft_notify a n cx s | None \<Rightarrow> s)\<rparr>"

subsection \<open>Implementations\<close>

definition level_filter_filter :: "level_filter \<Rightarrow> ('f, 'w) layer_filter" where
  "level_filter_filter l =
     (filter_defaults (\<lambda>m _ _. level_le_filter (meta_level m) l))
       \<lparr>ft_callsite_enabled := (\<lambda>m. if level_le_filter (meta_level m) l then Always else Never),
        ft_max_level_hint := Some l\<rparr>"

definition targets_filter :: "targets \<Rightarrow> ('f, 'w) layer_filter" where
  "targets_filter ts =
     (filter_defaults (\<lambda>m _ _. targets_enabled ts m))
       \<lparr>ft_callsite_enabled := targets_interested ts, ft_max_level_hint := targets_max_level_hint ts\<rparr>"

text \<open>The provided methods of \<open>Layer\<close>, and \<open>Layer for LevelFilter\<close> (\<open>filter/level.rs\<close>).\<close>

definition layer_defaults :: "('f, 'w) layer" where
  "layer_defaults =
     \<lparr>ly_register_callsite = (\<lambda>m s. (Always, s)), ly_enabled = (\<lambda>_ _ s. (True, s)),
      ly_event_enabled = (\<lambda>_ _ s. (True, s)), ly_max_level_hint = None, ly_notify = (\<lambda>_ _ s. s),
      ly_has_plf = False, ly_is_none = False\<rparr>"

definition level_filter_layer :: "level_filter \<Rightarrow> ('f, 'w) layer" where
  "level_filter_layer l =
     layer_defaults
       \<lparr>ly_register_callsite :=
          (\<lambda>m s. (if filter_ge_level l (meta_level m) then Always else Never, s)),
        ly_enabled := (\<lambda>m _ s. (filter_ge_level l (meta_level m), s)),
        ly_max_level_hint := Some l\<rparr>"

definition option_layer :: "('f, 'w) layer option \<Rightarrow> ('f, 'w) layer" where
  "option_layer o1 = (case o1 of
      Some l \<Rightarrow> l
    | None \<Rightarrow> layer_defaults\<lparr>ly_max_level_hint := Some OFF, ly_is_none := True\<rparr>)"

subsection \<open>Filtered layers\<close>

definition filtered_register_callsite ::
  "('f, 'w) layer_filter \<Rightarrow> ('f, 'w) layer \<Rightarrow> metadata \<Rightarrow> 'w lstate \<Rightarrow> interest \<times> 'w lstate" where
  "filtered_register_callsite f l m s =
     (let i = ft_callsite_enabled f m;
          s1 = (if i \<noteq> Never then snd (ly_register_callsite l m s) else s)
      in (Always, s1\<lparr>ls_filtering := add_interest i (ls_filtering s1)\<rparr>))"

definition filtered_enabled ::
  "('f, 'w) layer_filter \<Rightarrow> ('f, 'w) layer \<Rightarrow> filter_id \<Rightarrow> metadata \<Rightarrow> layer_context \<Rightarrow> 'w lstate \<Rightarrow>
   bool \<times> 'w lstate" where
  "filtered_enabled f l i m cx s =
     (let cx1 = cx_with_filter i cx;
          enabled = ft_enabled f m cx1 s;
          s1 = s\<lparr>ls_filtering := fstate_set i enabled (ls_filtering s)\<rparr>
      in if enabled then ly_enabled l m cx1 s1 else (True, s1))"

definition filtered_event_enabled ::
  "('f, 'w) layer_filter \<Rightarrow> ('f, 'w) layer \<Rightarrow> filter_id \<Rightarrow> 'f event \<Rightarrow> layer_context \<Rightarrow> 'w lstate \<Rightarrow>
   bool \<times> 'w lstate" where
  "filtered_event_enabled f l i e cx s =
     (let cx1 = cx_with_filter i cx;
          (enabled, fs) = fstate_and i (ft_event_enabled f e cx1 s) (ls_filtering s);
          s1 = s\<lparr>ls_filtering := fs\<rparr>
      in if enabled then ly_event_enabled l e cx1 s1 else (True, s1))"

definition lstate_did_enable :: "filter_id \<Rightarrow> ('w lstate \<Rightarrow> 'w lstate) \<Rightarrow> 'w lstate \<Rightarrow> 'w lstate" where
  "lstate_did_enable = did_enable ls_filtering (\<lambda>fs s. s\<lparr>ls_filtering := fs\<rparr>)"

definition filtered_notify ::
  "('f, 'w) layer_filter \<Rightarrow> ('f, 'w) layer \<Rightarrow> filter_id \<Rightarrow> 'f notification \<Rightarrow> layer_context \<Rightarrow>
   'w lstate \<Rightarrow> 'w lstate" where
  "filtered_notify f l i n cx s =
     (let if_enabled = (\<lambda>sid g. case if_enabled_for cx sid i (ls_registry s) of
            Some cx1 \<Rightarrow> g cx1 | None \<Rightarrow> s);
          both = (\<lambda>cx1. ly_notify l n cx1 (ft_notify f n cx1 s))
      in case n of
           OnNewSpan attrs sid \<Rightarrow>
             lstate_did_enable i
               (\<lambda>s. let cx1 = cx_with_filter i cx in ly_notify l n cx1 (ft_notify f n cx1 s)) s
         | OnRecord sid vals \<Rightarrow> if_enabled sid both
         | OnFollowsFrom sid follows \<Rightarrow>
             if is_enabled_for cx sid i (ls_registry s) \<and> is_enabled_for cx follows i (ls_registry s)
             then ly_notify l n (cx_with_filter i cx) s else s
         | OnEvent e \<Rightarrow> lstate_did_enable i (ly_notify l n (cx_with_filter i cx)) s
         | OnEnter sid \<Rightarrow> if_enabled sid both
         | OnExit sid \<Rightarrow> if_enabled sid both
         | OnClose sid \<Rightarrow> if_enabled sid both
         | OnIdChange old new \<Rightarrow> if_enabled old (\<lambda>cx1. ly_notify l n cx1 s))"

definition filtered :: "('f, 'w) layer_filter \<Rightarrow> ('f, 'w) layer \<Rightarrow> filter_id \<Rightarrow> ('f, 'w) layer" where
  "filtered f l i =
     \<lparr>ly_register_callsite = filtered_register_callsite f l,
      ly_enabled = filtered_enabled f l i,
      ly_event_enabled = filtered_event_enabled f l i,
      ly_max_level_hint = ft_max_level_hint f,
      ly_notify = filtered_notify f l i,
      ly_has_plf = True, ly_is_none = ly_is_none l\<rparr>"

text \<open>\<open>Filtered::on_layer\<close>: the id comes from the subscriber.\<close>

definition filtered_on_layer ::
  "('f, 'w) layer_filter \<Rightarrow> ('f, 'w) layer \<Rightarrow> registry \<Rightarrow> (('f, 'w) layer \<times> registry) option" where
  "filtered_on_layer f l r = map_option (\<lambda>(i, r1). (filtered f l i, r1)) (register_filter r)"

subsection \<open>The contract of \<open>Filter\<close>\<close>

text \<open>
  A callsite whose cached interest is \<open>never\<close> or \<open>always\<close> is not asked again, and one above the
  level hint is skipped without asking: both must agree with what \<open>enabled\<close> would answer.
\<close>

definition filter_sound :: "('f, 'w) layer_filter \<Rightarrow> bool" where
  "filter_sound f \<longleftrightarrow>
     (\<forall>m cx s. ft_callsite_enabled f m = Never \<longrightarrow> \<not> ft_enabled f m cx s) \<and>
     (\<forall>m cx s. ft_callsite_enabled f m = Always \<longrightarrow> ft_enabled f m cx s) \<and>
     (\<forall>m cx s h. ft_max_level_hint f = Some h \<longrightarrow> ft_enabled f m cx s \<longrightarrow> level_le_filter (meta_level m) h)"

locale lawful_filter =
  fixes f :: "('f, 'w) layer_filter"
  assumes sound: "filter_sound f"
begin

lemma cached_decision: "ft_callsite_enabled f m \<noteq> Sometimes \<Longrightarrow>
  ft_enabled f m cx s \<longleftrightarrow> ft_callsite_enabled f m = Always"
  using sound unfolding filter_sound_def by (metis interest.exhaust)

lemma above_hint: "ft_max_level_hint f = Some h \<Longrightarrow> \<not> level_le_filter (meta_level m) h \<Longrightarrow>
  \<not> ft_enabled f m cx s"
  using sound unfolding filter_sound_def by blast

end

lemma level_filter_sound: "filter_sound (level_filter_filter l)"
  by (simp add: filter_sound_def level_filter_filter_def filter_defaults_def)

interpretation level_law: lawful_filter "level_filter_filter l" for l
  by unfold_locales (rule level_filter_sound)

lemma targets_filter_sound: "targets_ok ts \<Longrightarrow> filter_sound (targets_filter ts)"
  using static_enabled_max_level [of ts]
  by (auto simp: filter_sound_def targets_filter_def filter_defaults_def targets_interested_def
      targets_enabled_def targets_max_level_hint_def targets_ok_def)

interpretation targets_law: lawful_filter "targets_filter (targets_from_iter ts)" for ts
  by unfold_locales (rule targets_filter_sound, simp add: targets_from_iter_abs)

text \<open>The combinators keep the contract.\<close>

lemma filter_soundD:
  assumes "filter_sound f"
  shows "ft_callsite_enabled f m = Never \<Longrightarrow> \<not> ft_enabled f m cx s"
    and "ft_callsite_enabled f m = Always \<Longrightarrow> ft_enabled f m cx s"
    and "ft_max_level_hint f = Some h \<Longrightarrow> ft_enabled f m cx s \<Longrightarrow> level_le_filter (meta_level m) h"
  using assms unfolding filter_sound_def by blast+

lemma option_min_Some: "min a b = Some h \<longleftrightarrow> (\<exists>x y. a = Some x \<and> b = Some y \<and> h = min x y)"
  by (cases a; cases b) (auto simp: min_def)

lemma level_le_min: "level_le_filter l x \<Longrightarrow> level_le_filter l y \<Longrightarrow> level_le_filter l (min x y)"
  by (simp add: min_def)

lemma level_le_max: "level_le_filter l x \<or> level_le_filter l y \<Longrightarrow> level_le_filter l (max x y)"
  using level_le_filter_trans by (metis max.cobounded1 max.cobounded2)

lemma filter_and_sound:
  assumes "filter_sound a" and "filter_sound b"
  shows "filter_sound (filter_and a b)"
proof -
  note D = filter_soundD [OF assms(1)] filter_soundD [OF assms(2)]
  have "\<not> ft_enabled (filter_and a b) m cx s" if "ft_callsite_enabled (filter_and a b) m = Never" for m cx s
    using that D(1) [of m cx s] D(4) [of m cx s]
    by (auto simp: filter_and_def and_callsite_enabled_def split: if_splits)
  moreover have "ft_enabled (filter_and a b) m cx s" if "ft_callsite_enabled (filter_and a b) m = Always" for m cx s
    using that D(2) [of m cx s] D(5) [of m cx s]
    by (auto simp: filter_and_def and_callsite_enabled_def split: if_splits)
  moreover have "level_le_filter (meta_level m) h"
    if "ft_max_level_hint (filter_and a b) = Some h" "ft_enabled (filter_and a b) m cx s" for m cx s h
    using that D(3) [of _ m cx s] D(6) [of _ m cx s]
    by (auto simp: filter_and_def option_min_Some level_le_min)
  ultimately show ?thesis unfolding filter_sound_def by blast
qed

lemma filter_or_sound:
  assumes "filter_sound a" and "filter_sound b"
  shows "filter_sound (filter_or a b)"
proof -
  note D = filter_soundD [OF assms(1)] filter_soundD [OF assms(2)]
  have "\<not> ft_enabled (filter_or a b) m cx s" if "ft_callsite_enabled (filter_or a b) m = Never" for m cx s
    using that D(1) [of m cx s] D(4) [of m cx s]
    by (cases "ft_callsite_enabled a m"; cases "ft_callsite_enabled b m")
       (simp_all add: filter_or_def or_callsite_enabled_def)
  moreover have "ft_enabled (filter_or a b) m cx s" if "ft_callsite_enabled (filter_or a b) m = Always" for m cx s
    using that D(2) [of m cx s] D(5) [of m cx s]
    by (auto simp: filter_or_def or_callsite_enabled_def split: if_splits)
  moreover have "level_le_filter (meta_level m) h"
    if "ft_max_level_hint (filter_or a b) = Some h" "ft_enabled (filter_or a b) m cx s" for m cx s h
    using that D(3) [of _ m cx s] D(6) [of _ m cx s]
    by (auto simp: filter_or_def or_max_level_hint_def bind_eq_Some_conv level_le_max)
  ultimately show ?thesis unfolding filter_sound_def by blast
qed

lemma filter_not_sound: "filter_sound a \<Longrightarrow> filter_sound (filter_not a)"
  by (auto simp: filter_sound_def filter_not_def not_callsite_enabled_def split: if_splits)

lemma filter_option_sound: "(\<And>a. o1 = Some a \<Longrightarrow> filter_sound a) \<Longrightarrow> filter_sound (filter_option o1)"
  by (cases o1) (auto simp: filter_sound_def filter_option_def)

lemma filter_combinators_sound_facts:
  assumes "filter_sound a" and "filter_sound b"
  shows "filter_sound (filter_and a b)" and "filter_sound (filter_or a b)"
    and "filter_sound (filter_not a)" and "filter_sound (filter_option (Some a))"
    and "filter_sound (filter_option None)"
  using assms by (auto intro: filter_and_sound filter_or_sound filter_not_sound filter_option_sound)

text \<open>
  C37. Every filter built with \<open>and\<close>, \<open>or\<close>, \<open>not\<close> and \<open>Option\<close> from filters that keep the contract
  of \<open>Filter\<close> keeps it: if the combined interest in a callsite is \<open>never\<close> or \<open>always\<close>, so is its
  answer, and it enables nothing above its level hint. So caching the interest and skipping on the
  level hint never change what a combined filter lets through.
\<close>

theorem filter_combinators_sound:
  assumes "filter_sound a" and "filter_sound b"
  shows "(filter_sound (filter_and a b)) \<and>
      (filter_sound (filter_or a b)) \<and>
      (filter_sound (filter_not a)) \<and>
      (filter_sound (filter_option (Some a))) \<and>
      (filter_sound (filter_option None))"
  using filter_combinators_sound_facts [OF assms] by blast

theorem filter_combinators_sound_witness:
  "filter_sound (filter_and (level_filter_filter (from_level INFO))
     (filter_not (targets_filter (targets_from_iter [(''noisy'', from_level TRACE)]))))"
  by (intro filter_combinators_sound [THEN conjunct1]
      filter_combinators_sound [OF _ level_filter_sound, THEN conjunct2, THEN conjunct2, THEN conjunct1])
     (simp_all add: level_filter_sound targets_filter_sound targets_from_iter_abs)

subsection \<open>Events and combinators\<close>

text \<open>What \<open>Filtered\<close> lets through: both \<open>enabled\<close> and \<open>event_enabled\<close>.\<close>

definition filter_accepts ::
  "('f, 'w) layer_filter \<Rightarrow> 'f event \<Rightarrow> layer_context \<Rightarrow> 'w lstate \<Rightarrow> bool" where
  "filter_accepts f e cx s \<longleftrightarrow> ft_enabled f (ev_metadata e) cx s \<and> ft_event_enabled f e cx s"

definition reject_events :: "('f, 'w) layer_filter" where
  "reject_events = (filter_defaults (\<lambda>_ _ _. True))\<lparr>ft_event_enabled := (\<lambda>_ _ _. False)\<rparr>"

text \<open>
  For events the combinators are not what their names say: \<open>and\<close> accepts exactly what both
  filters accept, but \<open>or\<close> can accept an event that neither accepts (one filter passes
  \<open>enabled\<close>, the other \<open>event_enabled\<close>), and \<open>not\<close> of a filter can reject an event that the filter
  rejects, because it inverts \<open>enabled\<close> only.
\<close>

theorem combinators_on_events:
  shows "(filter_accepts (filter_and a b) e cx s \<longleftrightarrow> filter_accepts a e cx s \<and> filter_accepts b e cx s) \<and>
      ((filter_accepts a e cx s \<or> filter_accepts b e cx s) \<longrightarrow> (filter_accepts (filter_or a b) e cx s)) \<and>
      (\<not> filter_accepts (level_filter_filter OFF) e cx s \<and> \<not> filter_accepts reject_events e cx s \<and>
      filter_accepts (filter_or (level_filter_filter OFF) reject_events) e cx s) \<and>
      (\<not> filter_accepts reject_events e cx s \<and> \<not> filter_accepts (filter_not reject_events) e cx s)"
  by (auto simp: filter_accepts_def filter_and_def filter_or_def filter_not_def reject_events_def
      level_filter_filter_def filter_defaults_def)

theorem combinators_on_events_witness:
  "filter_accepts (filter_or (level_filter_filter (from_level TRACE)) reject_events)
     (event_new (demo_event ''app'' INFO) \<lparr>vs_values = (All [] :: unit tvalues), vs_fields = meta_fields (demo_event ''app'' INFO)\<rparr>)
     context_new \<lparr>ls_registry = registry_default, ls_filtering = filter_state_new, ls_world = ()\<rparr>"
  by (rule combinators_on_events [THEN conjunct2, THEN conjunct1, rule_format])
     (simp add: filter_accepts_def level_filter_filter_def filter_defaults_def from_level_def)

end
