(* ===== verification/Layered.thy ===== *)
theory Layered
  imports Layer_Filters
begin

text \<open>
  The composition of layers into a subscriber: \<open>tracing-subscriber/src/layer/layered.rs\<close>.

  A stack of \<open>Layered<L, S>\<close> over a \<open>Registry\<close> is the list of its levels, outermost first. Calls
  that ask (\<open>register_callsite\<close>, \<open>enabled\<close>, \<open>event_enabled\<close>) go from the outside in and may
  stop; calls that notify go to the inner subscriber first. (\<open>try_close\<close> of the same file is in
  \<open>Registry\<close>.)
\<close>

record ('f, 'w) layered =
  ld_layer :: "('f, 'w) layer"
  ld_inner_is_registry :: bool
  ld_has_layer_filter :: bool
  ld_inner_has_layer_filter :: bool

definition layered_new :: "('f, 'w) layer \<Rightarrow> bool \<Rightarrow> bool \<Rightarrow> ('f, 'w) layered" where
  "layered_new l inner_is_registry inner_has_layer_filter =
     \<lparr>ld_layer = l, ld_inner_is_registry = inner_is_registry,
      ld_has_layer_filter = ly_has_plf l,
      ld_inner_has_layer_filter = (inner_has_layer_filter \<or> inner_is_registry)\<rparr>"

text \<open>\<open>subscriber_has_plf\<close> and \<open>subscriber_is_none\<close>: the downcast finds the marker of any level.\<close>

definition stack_has_plf :: "('f, 'w) layered list \<Rightarrow> bool" where
  "stack_has_plf ls = list_ex (\<lambda>d. ly_has_plf (ld_layer d)) ls"

definition stack_is_none :: "('f, 'w) layered list \<Rightarrow> bool" where
  "stack_is_none ls = list_ex (\<lambda>d. ly_is_none (ld_layer d)) ls"

text \<open>\<open>Layer::with_subscriber\<close>, for a layer that \<open>on_layer\<close> has already prepared.\<close>

definition with_subscriber :: "('f, 'w) layer \<Rightarrow> ('f, 'w) layered list \<Rightarrow> ('f, 'w) layered list" where
  "with_subscriber l inner = layered_new l (inner = []) (stack_has_plf inner) # inner"

definition stack_of :: "('f, 'w) layer list \<Rightarrow> ('f, 'w) layered list" where
  "stack_of ls = foldr with_subscriber ls []"

subsection \<open>Asking\<close>

definition pick_interest ::
  "('f, 'w) layered \<Rightarrow> interest \<Rightarrow> ('w lstate \<Rightarrow> interest \<times> 'w lstate) \<Rightarrow> 'w lstate \<Rightarrow>
   interest \<times> 'w lstate" where
  "pick_interest d outer inner s =
     (if ld_has_layer_filter d then inner s
      else if outer = Never then
        (outer, s\<lparr>ls_filtering := snd (take_interest (ls_filtering s))\<rparr>)
      else
        (let (i, s1) = inner s in
         if outer = Sometimes then (outer, s1)
         else if i = Never \<and> ld_inner_has_layer_filter d then (Sometimes, s1)
         else (i, s1)))"

fun stack_register_callsite ::
  "('f, 'w) layered list \<Rightarrow> metadata \<Rightarrow> 'w lstate \<Rightarrow> interest \<times> 'w lstate" where
  "stack_register_callsite [] m s =
     (let (i, fs) = registry_register_callsite (ls_registry s) (ls_filtering s)
      in (i, s\<lparr>ls_filtering := fs\<rparr>))"
| "stack_register_callsite (d # ds) m s =
     (let (outer, s1) = ly_register_callsite (ld_layer d) m s
      in pick_interest d outer (stack_register_callsite ds m) s1)"

fun stack_enabled :: "('f, 'w) layered list \<Rightarrow> metadata \<Rightarrow> 'w lstate \<Rightarrow> bool \<times> 'w lstate" where
  "stack_enabled [] m s = (registry_enabled (ls_registry s) (ls_filtering s), s)"
| "stack_enabled (d # ds) m s =
     (let (b, s1) = ly_enabled (ld_layer d) m context_new s in
      if b then stack_enabled ds m s1
      else (False, s1\<lparr>ls_filtering := clear_enabled (ls_filtering s1)\<rparr>))"

fun stack_event_enabled :: "('f, 'w) layered list \<Rightarrow> 'f event \<Rightarrow> 'w lstate \<Rightarrow> bool \<times> 'w lstate" where
  "stack_event_enabled [] e s = (registry_event_enabled (ls_registry s) (ls_filtering s), s)"
| "stack_event_enabled (d # ds) e s =
     (let (b, s1) = ly_event_enabled (ld_layer d) e context_new s in
      if b then stack_event_enabled ds e s1 else (False, s1))"

definition pick_level_hint ::
  "('f, 'w) layered \<Rightarrow> level_filter option \<Rightarrow> level_filter option \<Rightarrow> bool \<Rightarrow> level_filter option" where
  "pick_level_hint d outer_hint inner_hint inner_is_none =
     (if ld_inner_is_registry d then outer_hint
      else if ld_has_layer_filter d \<and> ld_inner_has_layer_filter d then
        Option.bind outer_hint (\<lambda>x. Option.bind inner_hint (\<lambda>y. Some (max x y)))
      else if ld_has_layer_filter d \<and> inner_hint = None then None
      else if ld_inner_has_layer_filter d \<and> outer_hint = None then None
      else if ly_is_none (ld_layer d) then
        Option.bind inner_hint (\<lambda>y. max outer_hint (Some y))
      else if inner_is_none \<and> inner_hint = Some OFF then outer_hint
      else max outer_hint inner_hint)"

fun stack_max_level_hint :: "('f, 'w) layered list \<Rightarrow> level_filter option" where
  "stack_max_level_hint [] = default_max_level_hint"
| "stack_max_level_hint (d # ds) =
     pick_level_hint d (ly_max_level_hint (ld_layer d)) (stack_max_level_hint ds) (stack_is_none ds)"

subsection \<open>Notifying\<close>

text \<open>The registry acts on \<open>enter\<close> and \<open>exit\<close>; the layers are then notified, innermost first.\<close>

fun stack_notify :: "('f, 'w) layered list \<Rightarrow> thread \<Rightarrow> 'f notification \<Rightarrow> 'w lstate \<Rightarrow> 'w lstate" where
  "stack_notify [] t n s =
     (case n of
        OnEnter i \<Rightarrow> s\<lparr>ls_registry := registry_enter t i (ls_registry s)\<rparr>
      | OnExit i \<Rightarrow> s\<lparr>ls_registry := registry_exit t i (ls_registry s)\<rparr>
      | _ \<Rightarrow> s)"
| "stack_notify (d # ds) t n s = ly_notify (ld_layer d) n context_new (stack_notify ds t n s)"

fun stack_new_span ::
  "('f, 'w) layered list \<Rightarrow> (pool \<Rightarrow> u64 option) \<Rightarrow> thread \<Rightarrow> 'f attributes \<Rightarrow> 'w lstate \<Rightarrow>
   (span_id \<times> 'w lstate) option" where
  "stack_new_span [] alloc t attrs s =
     map_option (\<lambda>(i, r). (i, s\<lparr>ls_registry := r\<rparr>))
       (registry_new_span alloc t (ls_filtering s) attrs (ls_registry s))"
| "stack_new_span (d # ds) alloc t attrs s =
     map_option (\<lambda>(i, s1). (i, ly_notify (ld_layer d) (OnNewSpan attrs i) context_new s1))
       (stack_new_span ds alloc t attrs s)"

text \<open>\<open>Dispatch::event\<close>.\<close>

definition dispatch_event :: "('f, 'w) layered list \<Rightarrow> thread \<Rightarrow> 'f event \<Rightarrow> 'w lstate \<Rightarrow> 'w lstate" where
  "dispatch_event ds t e s =
     (let (b, s1) = stack_event_enabled ds e s in if b then stack_notify ds t (OnEvent e) s1 else s1)"

lemma stack_of_simps [simp]:
  "stack_of [] = []"
  "stack_of (l # ls) = layered_new l (ls = []) (list_ex ly_has_plf ls) # stack_of ls"
proof -
  have plf: "stack_has_plf (foldr with_subscriber ls []) = list_ex ly_has_plf ls"
    by (induction ls) (simp_all add: stack_has_plf_def with_subscriber_def layered_new_def)
  have "(foldr with_subscriber ls [] = []) = (ls = [])" by (cases ls) (simp_all add: with_subscriber_def)
  with plf show "stack_of (l # ls) = layered_new l (ls = []) (list_ex ly_has_plf ls) # stack_of ls"
    by (simp add: stack_of_def with_subscriber_def)
qed (simp add: stack_of_def)

lemma stack_of_layers: "map ld_layer (stack_of ls) = ls"
  by (induction ls) (simp_all add: layered_new_def)

lemma stack_is_none_of: "stack_is_none (stack_of ls) = list_ex ly_is_none ls"
  by (induction ls) (simp_all add: stack_is_none_def layered_new_def)

subsection \<open>The level hint of a stack\<close>

text \<open>
  \<open>global l\<close>: the layer does not disable the callsite for everyone; \<open>wants l\<close>: it would observe it.
  What \<open>max_level_hint\<close> promises of one layer: it observes nothing above its hint, and a layer that
  is not filtered disables everything above its hint globally. \<open>None\<close> as a layer observes nothing.
\<close>

definition layer_hint_ok ::
  "level \<Rightarrow> (('f, 'w) layer \<Rightarrow> bool) \<Rightarrow> (('f, 'w) layer \<Rightarrow> bool) \<Rightarrow> ('f, 'w) layer \<Rightarrow> bool" where
  "layer_hint_ok lvl global wants l \<longleftrightarrow>
     (ly_is_none l \<longrightarrow> \<not> wants l \<and> (\<not> ly_has_plf l \<longrightarrow> ly_max_level_hint l = Some OFF)) \<and>
     (\<forall>h. ly_max_level_hint l = Some h \<longrightarrow> wants l \<longrightarrow> level_le_filter lvl h) \<and>
     (\<not> ly_has_plf l \<longrightarrow> \<not> ly_is_none l \<longrightarrow>
        (\<forall>h. ly_max_level_hint l = Some h \<longrightarrow> global l \<longrightarrow> level_le_filter lvl h))"

lemma option_max_Some:
  "max (a :: level_filter option) b = Some h \<longleftrightarrow>
     (case (a, b) of (None, None) \<Rightarrow> False | (Some x, None) \<Rightarrow> h = x | (None, Some y) \<Rightarrow> h = y
      | (Some x, Some y) \<Rightarrow> h = max x y)"
  by (cases a; cases b) (auto simp: max_def)

text \<open>The rule of \<open>pick_level_hint\<close> above a non-empty inner stack, and what it needs of both sides.\<close>

definition combined_hint ::
  "bool \<Rightarrow> bool \<Rightarrow> bool \<Rightarrow> bool \<Rightarrow> level_filter option \<Rightarrow> level_filter option \<Rightarrow> level_filter option" where
  "combined_hint outer_plf inner_plf outer_none inner_none x y =
     (if outer_plf \<and> inner_plf then Option.bind x (\<lambda>x. Option.bind y (\<lambda>y. Some (max x y)))
      else if outer_plf \<and> y = None then None
      else if inner_plf \<and> x = None then None
      else if outer_none then Option.bind y (\<lambda>y. max x (Some y))
      else if inner_none \<and> y = Some OFF then x
      else max x y)"

lemma combined_hint_cases:
  assumes "combined_hint P Q N E x y = Some h"
  obtains (both) a b where "P" "Q" "x = Some a" "y = Some b" "h = max a b"
    | (outer) "x = Some h" "\<not> (P \<and> Q)" "\<not> N" "P \<longrightarrow> y \<noteq> None" "E" "y = Some OFF"
    | (inner) "x = None" "\<not> Q" "y = Some h" "N \<or> \<not> (E \<and> y = Some OFF)"
    | (plain) "x = Some h" "y = None" "\<not> P" "\<not> N"
    | (max) a b where "\<not> (P \<and> Q)" "x = Some a" "y = Some b" "h = max a b" "N \<or> \<not> (E \<and> y = Some OFF)"
  using assms
  by (cases x; cases y)
     (auto simp: combined_hint_def option_max_Some split: if_splits)

lemma combined_hint_sound:
  fixes le :: "level_filter \<Rightarrow> bool"
  assumes mx: "\<forall>a b. le a \<or> le b \<longrightarrow> le (max a b)" and off: "\<not> le OFF"
    and L1: "N \<longrightarrow> \<not> w" and L2: "N \<longrightarrow> \<not> P \<longrightarrow> x = Some OFF"
    and L3: "\<forall>h. x = Some h \<longrightarrow> w \<longrightarrow> le h"
    and L4: "\<forall>h. x = Some h \<longrightarrow> \<not> P \<longrightarrow> \<not> N \<longrightarrow> le h"
    and S1: "\<forall>h. y = Some h \<longrightarrow> W \<longrightarrow> le h" and S2: "\<forall>h. y = Some h \<longrightarrow> \<not> Q \<longrightarrow> \<not> M \<longrightarrow> le h"
    and S3: "M \<longrightarrow> \<not> Q \<longrightarrow> y = Some OFF" and S4: "M \<longrightarrow> E" and S5: "M \<longrightarrow> \<not> W"
    and hint: "combined_hint P Q N E x y = Some h"
  shows "w \<or> W \<Longrightarrow> le h" and "\<not> P \<Longrightarrow> \<not> Q \<Longrightarrow> \<not> (N \<and> M) \<Longrightarrow> le h"
proof -
  show "le h" if "w \<or> W"
    using hint
  proof (cases rule: combined_hint_cases)
    case both
    then show ?thesis using that mx L3 S1 by blast
  next
    case outer
    then show ?thesis using that L3 S1 off by blast
  next
    case inner
    then show ?thesis using that L1 S1 S2 S3 S4 S5 by blast
  next
    case plain
    then show ?thesis using that L4 by blast
  next
    case max
    then show ?thesis using that mx L3 S1 by blast
  qed
  show "le h" if "\<not> P" "\<not> Q" "\<not> (N \<and> M)"
    using hint
  proof (cases rule: combined_hint_cases)
    case both
    then show ?thesis using that by blast
  next
    case outer
    then show ?thesis using that L4 by blast
  next
    case inner
    then show ?thesis using that L2 S2 S3 S4 by blast
  next
    case plain
    then show ?thesis using that L4 by blast
  next
    case max
    then show ?thesis using that mx L4 S2 by blast
  qed
qed

text \<open>
  What the hint of a stack bounds: with a filtered layer, what some layer observes; without, whatever
  passes all layers; and a stack of nothing but \<open>None\<close> has the hint \<open>OFF\<close>.
\<close>

definition stack_hint_ok ::
  "level \<Rightarrow> (('f, 'w) layer \<Rightarrow> bool) \<Rightarrow> (('f, 'w) layer \<Rightarrow> bool) \<Rightarrow> ('f, 'w) layer list \<Rightarrow> bool" where
  "stack_hint_ok lvl global wants ls \<longleftrightarrow>
     (\<forall>h. stack_max_level_hint (stack_of ls) = Some h \<longrightarrow> list_all global ls \<longrightarrow>
        list_ex wants ls \<longrightarrow> level_le_filter lvl h) \<and>
     (\<forall>h. stack_max_level_hint (stack_of ls) = Some h \<longrightarrow> list_all global ls \<longrightarrow>
        \<not> list_ex ly_has_plf ls \<longrightarrow> list_ex (\<lambda>l. \<not> ly_is_none l) ls \<longrightarrow> level_le_filter lvl h) \<and>
     (list_all ly_is_none ls \<longrightarrow> \<not> list_ex ly_has_plf ls \<longrightarrow> ls \<noteq> [] \<longrightarrow>
        stack_max_level_hint (stack_of ls) = Some OFF)"

lemma stack_hint_cons:
  "ls \<noteq> [] \<Longrightarrow> stack_max_level_hint (stack_of (l # ls)) =
     combined_hint (ly_has_plf l) (list_ex ly_has_plf ls) (ly_is_none l) (list_ex ly_is_none ls)
       (ly_max_level_hint l) (stack_max_level_hint (stack_of ls))"
  by (simp add: combined_hint_def pick_level_hint_def layered_new_def stack_is_none_of)

lemma stack_hint_step:
  assumes l: "layer_hint_ok lvl global wants l" and ls: "stack_hint_ok lvl global wants ls"
    and lws: "list_all (layer_hint_ok lvl global wants) ls" and "ls \<noteq> []"
  shows "stack_hint_ok lvl global wants (l # ls)"
proof (cases "list_all global (l # ls)")
  case True
  then have g: "global l" "list_all global ls" by simp_all
  have not_all: "list_ex (\<lambda>l. \<not> ly_is_none l) ls \<longleftrightarrow> \<not> list_all ly_is_none ls"
    by (auto simp: list_ex_iff list_all_iff)
  have mx: "\<forall>a b. level_le_filter lvl a \<or> level_le_filter lvl b \<longrightarrow> level_le_filter lvl (max a b)"
    using level_le_max by blast
  have off: "\<not> level_le_filter lvl OFF" by simp
  have L: "ly_is_none l \<longrightarrow> \<not> wants l"
      "ly_is_none l \<longrightarrow> \<not> ly_has_plf l \<longrightarrow> ly_max_level_hint l = Some OFF"
      "\<forall>h. ly_max_level_hint l = Some h \<longrightarrow> wants l \<longrightarrow> level_le_filter lvl h"
      "\<forall>h. ly_max_level_hint l = Some h \<longrightarrow> \<not> ly_has_plf l \<longrightarrow> \<not> ly_is_none l \<longrightarrow> level_le_filter lvl h"
    using l g(1) by (simp_all add: layer_hint_ok_def)
  have S: "\<forall>h. stack_max_level_hint (stack_of ls) = Some h \<longrightarrow> list_ex wants ls \<longrightarrow> level_le_filter lvl h"
      "\<forall>h. stack_max_level_hint (stack_of ls) = Some h \<longrightarrow> \<not> list_ex ly_has_plf ls \<longrightarrow>
        \<not> list_all ly_is_none ls \<longrightarrow> level_le_filter lvl h"
      "list_all ly_is_none ls \<longrightarrow> \<not> list_ex ly_has_plf ls \<longrightarrow> stack_max_level_hint (stack_of ls) = Some OFF"
    using ls g(2) \<open>ls \<noteq> []\<close> not_all unfolding stack_hint_ok_def by blast+
  have S4: "list_all ly_is_none ls \<longrightarrow> list_ex ly_is_none ls"
    using \<open>ls \<noteq> []\<close> by (cases ls) auto
  have S5: "list_all ly_is_none ls \<longrightarrow> \<not> list_ex wants ls"
    using lws by (auto simp: list_ex_iff list_all_iff layer_hint_ok_def)
  note sound = combined_hint_sound [OF mx off L S S4 S5]
  show ?thesis
    unfolding stack_hint_ok_def stack_hint_cons [OF \<open>ls \<noteq> []\<close>]
  proof (intro conjI allI impI)
    fix h
    assume h: "combined_hint (ly_has_plf l) (list_ex ly_has_plf ls) (ly_is_none l) (list_ex ly_is_none ls)
      (ly_max_level_hint l) (stack_max_level_hint (stack_of ls)) = Some h"
    show "level_le_filter lvl h" if "list_ex wants (l # ls)" using sound(1) [OF h] that by simp
    show "level_le_filter lvl h"
      if "\<not> list_ex ly_has_plf (l # ls)" "list_ex (\<lambda>l. \<not> ly_is_none l) (l # ls)"
      using sound(2) [OF h] that not_all by simp
  next
    assume "list_all ly_is_none (l # ls)" "\<not> list_ex ly_has_plf (l # ls)"
    then show "combined_hint (ly_has_plf l) (list_ex ly_has_plf ls) (ly_is_none l) (list_ex ly_is_none ls)
      (ly_max_level_hint l) (stack_max_level_hint (stack_of ls)) = Some OFF"
      using L(2) S(3) by (simp add: combined_hint_def)
  qed
next
  case False
  have "combined_hint (ly_has_plf l) (list_ex ly_has_plf ls) (ly_is_none l) (list_ex ly_is_none ls)
      (ly_max_level_hint l) (stack_max_level_hint (stack_of ls)) = Some OFF"
    if "list_all ly_is_none (l # ls)" "\<not> list_ex ly_has_plf (l # ls)"
    using that l ls \<open>ls \<noteq> []\<close> by (simp add: combined_hint_def layer_hint_ok_def stack_hint_ok_def)
  with False show ?thesis
    unfolding stack_hint_ok_def stack_hint_cons [OF \<open>ls \<noteq> []\<close>] by blast
qed

lemma stack_hint_sound:
  "list_all (layer_hint_ok lvl global wants) ls \<Longrightarrow> ls \<noteq> [] \<Longrightarrow> stack_hint_ok lvl global wants ls"
proof (induction ls)
  case (Cons l ls)
  show ?case
  proof (cases "ls = []")
    case True
    then show ?thesis
      using Cons.prems by (auto simp: stack_hint_ok_def layer_hint_ok_def pick_level_hint_def layered_new_def)
  next
    case False
    then show ?thesis using Cons by (intro stack_hint_step) simp_all
  qed
qed simp

text \<open>
  C21. The level hint of a stack of layers over a registry never hides a callsite that some layer would
  observe: if every layer's own hint is right, an enabled callsite that passes every layer's global
  filter and that at least one layer wants is within the hint of the whole stack. This is what makes
  it sound to compare a callsite's level with the maximum level before doing anything else.
\<close>

theorem layered_level_hint_sound:
  assumes "list_all (layer_hint_ok lvl global wants) ls"
    and "stack_max_level_hint (stack_of ls) = Some h"
    and "list_all global ls" and "list_ex wants ls"
  shows "level_le_filter lvl h"
proof -
  have "ls \<noteq> []" using assms(4) by auto
  then show ?thesis using stack_hint_sound [OF assms(1)] assms(2-4) unfolding stack_hint_ok_def by blast
qed

definition demo_none :: "(unit, unit) layer" where
  "demo_none = option_layer None"

definition demo_filtered :: "(unit, unit) layer" where
  "demo_filtered = filtered (level_filter_filter (from_level INFO)) layer_defaults (nth_id 0)"

lemma demo_layer_simps:
  "ly_has_plf demo_filtered" "\<not> ly_is_none demo_filtered" "\<not> ly_has_plf demo_none" "ly_is_none demo_none"
  "ly_max_level_hint demo_filtered = Some (from_level INFO)" "ly_max_level_hint demo_none = Some OFF"
  by (simp_all add: demo_none_def demo_filtered_def option_layer_def layer_defaults_def filtered_def
      level_filter_filter_def filter_defaults_def)

theorem layered_level_hint_sound_witness:
  "stack_max_level_hint (stack_of [demo_none, demo_filtered]) = Some (from_level INFO) \<and>
   level_le_filter WARN (from_level INFO)"
proof -
  have hint: "stack_max_level_hint (stack_of [demo_none, demo_filtered]) = Some (from_level INFO)"
    by (simp add: pick_level_hint_def layered_new_def demo_layer_simps max_def)
  have ok: "list_all (layer_hint_ok WARN (\<lambda>_. True) ly_has_plf) [demo_none, demo_filtered]"
    by (simp add: layer_hint_ok_def demo_layer_simps level_le_filter_def from_level_def)
  show ?thesis
    using layered_level_hint_sound [OF ok hint] hint by (simp add: demo_layer_simps)
qed

subsection \<open>The interest of a stack\<close>

text \<open>
  What registering a callsite does to one layer: a filtered layer adds its filter's interest to the
  thread's state and answers \<open>always\<close>, any other layer answers with its interest.
\<close>

definition layer_registers :: "metadata \<Rightarrow> ('f, 'w) layer \<Rightarrow> interest \<Rightarrow> bool" where
  "layer_registers m l i \<longleftrightarrow>
     (\<forall>s. ly_register_callsite l m s =
        (if ly_has_plf l then (Always, s\<lparr>ls_filtering := add_interest i (ls_filtering s)\<rparr>) else (i, s)))"

lemma filtered_registers:
  "(\<And>s. snd (ly_register_callsite l m s) = s) \<Longrightarrow>
   layer_registers m (filtered f l fid) (ft_callsite_enabled f m)"
  by (simp add: layer_registers_def filtered_def filtered_register_callsite_def Let_def)

definition filters_interest :: "interest option \<Rightarrow> (bool \<times> interest) list \<Rightarrow> interest option" where
  "filters_interest acc pis =
     fst_interest (fold add_interest (map snd (filter fst pis)) \<lparr>fst_enabled = filter_map_new, fst_interest = acc\<rparr>)"

lemma fst_interest_add: "fst_interest s = fst_interest s' \<Longrightarrow> fst_interest (add_interest i s) = fst_interest (add_interest i s')"
  by (auto simp: add_interest_def split: option.splits)

lemma fst_interest_fold:
  "fst_interest s = fst_interest s' \<Longrightarrow>
   fst_interest (fold add_interest js s) = fst_interest (fold add_interest js s')"
proof (induction js arbitrary: s s')
  case (Cons j js)
  show ?case using Cons.IH [OF fst_interest_add [OF Cons.prems, of j]] by simp
qed simp

lemma filters_interest_simps:
  "filters_interest acc [] = acc"
  "filters_interest acc ((True, i) # pis) =
     filters_interest (fst_interest (add_interest i \<lparr>fst_enabled = filter_map_new, fst_interest = acc\<rparr>)) pis"
  "filters_interest acc ((False, i) # pis) = filters_interest acc pis"
  by (auto simp: filters_interest_def intro!: fst_interest_fold)

lemma filters_interest_Some:
  "filters_interest (Some c) pis = Some (if \<forall>(p, i) \<in> set pis. p \<longrightarrow> i = c then c else Sometimes)"
  by (auto simp: filters_interest_def fold_add_interest_Some)

text \<open>What the answer of the stack means: \<open>pis\<close> lists, per layer, whether it is filtered and its interest.\<close>

definition interest_ok :: "interest \<Rightarrow> interest option \<Rightarrow> (bool \<times> interest) list \<Rightarrow> bool" where
  "interest_ok r acc pis \<longleftrightarrow>
     (r = Never \<longrightarrow> (False, Never) \<in> set pis \<or> list_all fst pis \<and> filters_interest acc pis = Some Never) \<and>
     (r = Always \<longrightarrow> (\<forall>i. (False, i) \<in> set pis \<longrightarrow> i = Always) \<and> filters_interest acc pis \<in> {None, Some Always})"

lemma stack_interest_ok:
  assumes "list_all2 (\<lambda>l (p, i). ly_has_plf l = p \<and> layer_registers m l i) ls pis"
    and "has_per_layer_filters (ls_registry s)"
  shows "interest_ok (fst (stack_register_callsite (stack_of ls) m s)) (fst_interest (ls_filtering s)) pis"
  using assms
proof (induction ls pis arbitrary: s rule: list_all2_induct)
  case Nil
  then show ?case
    by (auto simp: interest_ok_def registry_register_callsite_def take_interest_def filters_interest_simps
        split: option.split)
next
  case (Cons l ls pi pis)
  obtain p i where pi: "pi = (p, i)" by fastforce
  have plf: "list_ex ly_has_plf ls = list_ex fst pis"
    using Cons.hyps(2) by (induction rule: list_all2_induct) auto
  have empty: "ls = [] \<longleftrightarrow> pis = []" using Cons.hyps(2) by (cases ls) auto
  have l: "ly_has_plf l = p" "layer_registers m l i" using Cons.hyps(1) by (simp_all add: pi)
  show ?case
  proof (cases p)
    case True
    let ?s1 = "s\<lparr>ls_filtering := add_interest i (ls_filtering s)\<rparr>"
    have "stack_register_callsite (stack_of (l # ls)) m s = stack_register_callsite (stack_of ls) m ?s1"
      using l True by (simp add: layer_registers_def pick_interest_def layered_new_def)
    moreover have "interest_ok (fst (stack_register_callsite (stack_of ls) m ?s1))
        (fst_interest (ls_filtering ?s1)) pis"
      using Cons.IH [of ?s1] Cons.prems by simp
    moreover have "filters_interest (fst_interest (ls_filtering s)) ((True, i) # pis) =
        filters_interest (fst_interest (ls_filtering ?s1)) pis"
      using fst_interest_add [of "\<lparr>fst_enabled = filter_map_new, fst_interest = fst_interest (ls_filtering s)\<rparr>"
          "ls_filtering s" i]
      by (simp add: filters_interest_simps)
    ultimately show ?thesis using True by (auto simp: interest_ok_def pi)
  next
    case False
    let ?inner = "stack_register_callsite (stack_of ls) m s"
    have IH: "interest_ok (fst ?inner) (fst_interest (ls_filtering s)) pis"
      using Cons.IH [of s] Cons.prems by simp
    have res: "fst (stack_register_callsite (stack_of (l # ls)) m s) =
        (if i = Never then Never else if i = Sometimes then Sometimes
         else if fst ?inner = Never \<and> (list_ex fst pis \<or> pis = []) then Sometimes else fst ?inner)"
      using l False plf empty
      by (simp add: layer_registers_def pick_interest_def layered_new_def split: prod.split)
    have "filters_interest (fst_interest (ls_filtering s)) ((False, i) # pis) =
        filters_interest (fst_interest (ls_filtering s)) pis"
      by (rule filters_interest_simps)
    moreover have "list_all fst pis \<Longrightarrow> list_ex fst pis \<or> pis = []" by (cases pis) auto
    ultimately show ?thesis
      using IH False unfolding interest_ok_def res pi by (cases i) auto
  qed
qed

lemma layered_interest_sound_facts:
  assumes "list_all2 (\<lambda>l (p, i). ly_has_plf l = p \<and> layer_registers m l i) ls pis"
    and "has_per_layer_filters (ls_registry s)" and "fst_interest (ls_filtering s) = None"
  defines "r \<equiv> fst (stack_register_callsite (stack_of ls) m s)"
  shows "r = Never \<Longrightarrow> (False, Never) \<in> set pis \<or> (\<forall>(p, i) \<in> set pis. p \<and> i = Never)"
    and "r = Always \<Longrightarrow> (p, i) \<in> set pis \<Longrightarrow> i = Always"
proof -
  have ok: "interest_ok r None pis" using stack_interest_ok [OF assms(1,2)] assms(3) by (simp add: r_def)
  have unanimous: "\<forall>q \<in> set qis. fst q \<longrightarrow> snd q = c" if "filters_interest None qis = Some c" "c \<noteq> Sometimes" for qis c
    using that
  proof (induction qis)
    case (Cons q qis)
    obtain p i where q: "q = (p, i)" by fastforce
    show ?case
    proof (cases p)
      case True
      then have "Some c = Some (if \<forall>(p, j) \<in> set qis. p \<longrightarrow> j = i then i else Sometimes)"
        using Cons.prems(1) q by (simp add: filters_interest_simps add_interest_def filters_interest_Some)
      then show ?thesis using Cons.prems(2) True q by (auto split: if_splits)
    next
      case False
      then show ?thesis using Cons q by (simp add: filters_interest_simps)
    qed
  qed simp
  show "(False, Never) \<in> set pis \<or> (\<forall>(p, i) \<in> set pis. p \<and> i = Never)" if "r = Never"
    using ok that unanimous [of pis Never] by (fastforce simp: interest_ok_def list_all_iff)
  show "i = Always" if "r = Always" "(p, i) \<in> set pis"
  proof (cases p)
    case True
    have "filters_interest None qis \<noteq> None" if "(True, i) \<in> set qis" for qis
      using that
    proof (induction qis)
      case (Cons q qis)
      then show ?case
        by (cases q; cases "fst q") (auto simp: filters_interest_simps add_interest_def filters_interest_Some)
    qed simp
    from this [of pis] have "filters_interest None pis = Some Always"
      using ok that True by (auto simp: interest_ok_def)
    then show ?thesis using unanimous [of pis Always] that True by fastforce
  next
    case False
    then show ?thesis using ok that by (auto simp: interest_ok_def)
  qed
qed

text \<open>
  C22. The interest a stack of layers reports for a callsite is sound. If it is \<open>never\<close>, some layer
  without a per-layer filter is not interested, or every layer has a filter and all of the filters
  said \<open>never\<close>; if it is \<open>always\<close>, every layer and every filter said \<open>always\<close>. In all other
  combinations of interests the answer is \<open>sometimes\<close>, so that \<open>enabled\<close> is asked each time.
\<close>

theorem layered_interest_sound:
  assumes "list_all2 (\<lambda>l (p, i). ly_has_plf l = p \<and> layer_registers m l i) ls pis"
    and "has_per_layer_filters (ls_registry s)" and "fst_interest (ls_filtering s) = None"
  shows "((fst (stack_register_callsite (stack_of ls) m s) = Never) \<longrightarrow> ((False, Never) \<in> set pis \<or> (\<forall>(p, i) \<in> set pis. p \<and> i = Never))) \<and>
      ((fst (stack_register_callsite (stack_of ls) m s) = Always) \<longrightarrow> ((p, i) \<in> set pis) \<longrightarrow> (i = Always))"
  using layered_interest_sound_facts [OF assms] by blast

theorem layered_interest_sound_witness:
  "fst (stack_register_callsite (stack_of [demo_filtered]) (demo_event ''app'' DEBUG)
      \<lparr>ls_registry = registry_default\<lparr>reg_next_filter_id := 1\<rparr>, ls_filtering = filter_state_new, ls_world = ()\<rparr>)
    = Never \<and> ft_callsite_enabled (level_filter_filter (from_level INFO) :: (unit, unit) layer_filter) (demo_event ''app'' DEBUG) = Never"
proof -
  let ?m = "demo_event ''app'' DEBUG"
  let ?s = "\<lparr>ls_registry = registry_default\<lparr>reg_next_filter_id := 1\<rparr>, ls_filtering = filter_state_new, ls_world = ()\<rparr>"
  have never: "ft_callsite_enabled (level_filter_filter (from_level INFO) :: (unit, unit) layer_filter) ?m = Never"
    by (simp add: level_filter_filter_def filter_defaults_def demo_event_def level_le_filter_def from_level_def)
  have reg: "layer_registers ?m demo_filtered Never"
    unfolding never [symmetric] demo_filtered_def
    by (rule filtered_registers) (simp add: layer_defaults_def)
  have r: "fst (stack_register_callsite (stack_of [demo_filtered]) ?m ?s) = Never"
    using reg
    by (simp add: layer_registers_def demo_layer_simps pick_interest_def layered_new_def
        registry_register_callsite_def has_per_layer_filters_def take_interest_def add_interest_def
        filter_state_new_def)
  have "list_all2 (\<lambda>l (p, i). ly_has_plf l = p \<and> layer_registers ?m l i) [demo_filtered] [(True, Never)]"
    using reg by (simp add: demo_layer_simps)
  from layered_interest_sound [OF this, of ?s] r never show ?thesis by simp
qed

subsection \<open>A filtering pass\<close>

text \<open>
  An event at a callsite whose interest is \<open>sometimes\<close>: \<open>enabled\<close> is asked, then the event is dispatched.
\<close>

definition emit_event :: "('f, 'w) layered list \<Rightarrow> thread \<Rightarrow> 'f event \<Rightarrow> 'w lstate \<Rightarrow> 'w lstate" where
  "emit_event ds t e s =
     (let (b, s1) = stack_enabled ds (ev_metadata e) s in if b then dispatch_event ds t e s1 else s1)"

abbreviation disabled_bit :: "'w lstate \<Rightarrow> nat \<Rightarrow> bool" where
  "disabled_bit s k \<equiv> bit (fm_bits (fst_enabled (ls_filtering s))) k"

text \<open>
  What a layer with a filter of its own has to be like: it leaves the filtering to the filter, and an
  event it gets changes the user part of the state only. \<open>g n\<close> is the layer with the filter id \<open>n\<close>.
\<close>

locale event_sinks =
  fixes g :: "nat \<Rightarrow> ('f, 'w) layer"
    and act :: "nat \<Rightarrow> 'f event \<Rightarrow> layer_context \<Rightarrow> registry \<Rightarrow> 'w \<Rightarrow> 'w"
  assumes sink_enabled: "ly_enabled (g n) m cx s = (True, s)"
    and sink_event_enabled: "ly_event_enabled (g n) e cx s = (True, s)"
    and sink_notify: "ly_notify (g n) (OnEvent e) cx s = s\<lparr>ls_world := act n e cx (ls_registry s) (ls_world s)\<rparr>"
begin

definition filtered_sinks :: "(nat \<Rightarrow> ('f, 'w) layer_filter) \<Rightarrow> nat list \<Rightarrow> ('f, 'w) layer list" where
  "filtered_sinks fl ns = map (\<lambda>n. filtered (fl n) (g n) (nth_id n)) ns"

definition deliver :: "'f event \<Rightarrow> registry \<Rightarrow> nat \<Rightarrow> 'w \<Rightarrow> 'w" where
  "deliver e r n = act n e (cx_with_filter (nth_id n) context_new) r"

lemma enabled_pass:
  assumes "\<forall>n \<in> set ns. n < 64 \<and> (\<forall>cx s. ft_enabled (fl n) m cx s = en n)"
  shows "\<exists>s'. stack_enabled (stack_of (filtered_sinks fl ns)) m s =
      (registry_enabled (ls_registry s') (ls_filtering s'), s') \<and>
    ls_registry s' = ls_registry s \<and> ls_world s' = ls_world s \<and>
    (\<forall>k < 64. disabled_bit s' k \<longleftrightarrow> (if k \<in> set ns then \<not> en k else disabled_bit s k))"
  using assms
proof (induction ns arbitrary: s)
  case (Cons n ns)
  let ?s1 = "s\<lparr>ls_filtering := fstate_set (nth_id n) (en n) (ls_filtering s)\<rparr>"
  have "stack_enabled (stack_of (filtered_sinks fl (n # ns))) m s =
      stack_enabled (stack_of (filtered_sinks fl ns)) m ?s1"
    using Cons.prems
    by (simp add: filtered_sinks_def layered_new_def filtered_def filtered_enabled_def sink_enabled Let_def)
  moreover obtain s' where s': "stack_enabled (stack_of (filtered_sinks fl ns)) m ?s1 =
      (registry_enabled (ls_registry s') (ls_filtering s'), s')"
    "ls_registry s' = ls_registry ?s1" "ls_world s' = ls_world ?s1"
    "\<forall>k < 64. disabled_bit s' k \<longleftrightarrow> (if k \<in> set ns then \<not> en k else disabled_bit ?s1 k)"
    using Cons.IH [of ?s1] Cons.prems by auto
  moreover have "disabled_bit ?s1 k \<longleftrightarrow> (if k = n then \<not> en k else disabled_bit s k)" if "k < 64" for k
    using Cons.prems that by (simp add: fstate_set_def bit_set_nth_id)
  ultimately show ?case by auto
qed (simp add: filtered_sinks_def)

lemma event_enabled_pass:
  assumes "\<forall>n \<in> set ns. n < 64 \<and> (\<forall>cx s. ft_event_enabled (fl n) e cx s = ev n)"
  shows "\<exists>s'. stack_event_enabled (stack_of (filtered_sinks fl ns)) e s =
      (registry_event_enabled (ls_registry s') (ls_filtering s'), s') \<and>
    ls_registry s' = ls_registry s \<and> ls_world s' = ls_world s \<and>
    (\<forall>k < 64. disabled_bit s' k \<longleftrightarrow> disabled_bit s k \<or> k \<in> set ns \<and> \<not> ev k)"
  using assms
proof (induction ns arbitrary: s)
  case (Cons n ns)
  let ?s1 = "s\<lparr>ls_filtering := snd (fstate_and (nth_id n) (ev n) (ls_filtering s))\<rparr>"
  have "stack_event_enabled (stack_of (filtered_sinks fl (n # ns))) e s =
      stack_event_enabled (stack_of (filtered_sinks fl ns)) e ?s1"
    using Cons.prems
    by (simp add: filtered_sinks_def layered_new_def filtered_def filtered_event_enabled_def sink_event_enabled
        Let_def split: prod.split)
  moreover obtain s' where s': "stack_event_enabled (stack_of (filtered_sinks fl ns)) e ?s1 =
      (registry_event_enabled (ls_registry s') (ls_filtering s'), s')"
    "ls_registry s' = ls_registry ?s1" "ls_world s' = ls_world ?s1"
    "\<forall>k < 64. disabled_bit s' k \<longleftrightarrow> disabled_bit ?s1 k \<or> k \<in> set ns \<and> \<not> ev k"
    using Cons.IH [of ?s1] Cons.prems by auto
  moreover have "disabled_bit ?s1 k \<longleftrightarrow> disabled_bit s k \<or> k = n \<and> \<not> ev k" if "k < 64" for k
    using Cons.prems that by (auto simp: fstate_and_def Let_def bit_set_nth_id is_enabled_nth_id)
  ultimately show ?case by auto
qed (simp add: filtered_sinks_def)

lemma event_pass:
  fixes fl :: "nat \<Rightarrow> ('f, 'w) layer_filter" and t e s
  assumes "\<forall>n \<in> set ns. n < 64" and "distinct ns"
  defines "s' \<equiv> stack_notify (stack_of (filtered_sinks fl ns)) t (OnEvent e) s"
  shows "ls_registry s' = ls_registry s \<and>
    ls_world s' = fold (deliver e (ls_registry s)) (filter (\<lambda>n. \<not> disabled_bit s n) (rev ns)) (ls_world s) \<and>
    (\<forall>k < 64. disabled_bit s' k \<longleftrightarrow> disabled_bit s k \<and> k \<notin> set ns)"
  using assms(1,2) unfolding s'_def
proof (induction ns)
  case (Cons n ns)
  let ?s1 = "stack_notify (stack_of (filtered_sinks fl ns)) t (OnEvent e) s"
  have IH: "ls_registry ?s1 = ls_registry s"
      "ls_world ?s1 = fold (deliver e (ls_registry s)) (filter (\<lambda>n. \<not> disabled_bit s n) (rev ns)) (ls_world s)"
      "\<forall>k < 64. disabled_bit ?s1 k \<longleftrightarrow> disabled_bit s k \<and> k \<notin> set ns"
    using Cons by simp_all
  have n: "n < 64" "disabled_bit ?s1 n \<longleftrightarrow> disabled_bit s n" using Cons.prems IH(3) by auto
  have step: "stack_notify (stack_of (filtered_sinks fl (n # ns))) t (OnEvent e) s =
      (if disabled_bit s n
       then ?s1\<lparr>ls_filtering := (ls_filtering ?s1)\<lparr>fst_enabled := filter_map_set (fst_enabled (ls_filtering ?s1)) (nth_id n) True\<rparr>\<rparr>
       else ?s1\<lparr>ls_world := deliver e (ls_registry ?s1) n (ls_world ?s1)\<rparr>)"
    using n by (simp add: filtered_sinks_def layered_new_def filtered_def filtered_notify_def deliver_def
        lstate_did_enable_def did_enable_def is_enabled_nth_id sink_notify Let_def)
  show ?case
    unfolding step using IH n Cons.prems by (auto simp: bit_set_nth_id)
qed (simp add: filtered_sinks_def)

text \<open>
  A stack that asks like the filtered layers \<open>ns\<close> and notifies like \<open>ms\<close>, the same layers, passes an
  event to exactly those whose filter accepts it.
\<close>

lemma pass_as:
  assumes "\<forall>n \<in> set ns. n < 64 \<and> (\<forall>cx s. ft_enabled (fl n) (ev_metadata e) cx s = en n) \<and>
      (\<forall>cx s. ft_event_enabled (fl n) e cx s = ev n)"
    and "distinct ms" "set ms = set ns" "length ns < 64" "fst_enabled (ls_filtering s) = filter_map_new"
    and asks: "\<And>s. stack_enabled ds (ev_metadata e) s = stack_enabled (stack_of (filtered_sinks fl ns)) (ev_metadata e) s"
      "\<And>s. stack_event_enabled ds e s = stack_event_enabled (stack_of (filtered_sinks fl ns)) e s"
    and notifies: "\<And>s. stack_notify ds t (OnEvent e) s = stack_notify (stack_of (filtered_sinks fl ms)) t (OnEvent e) s"
  shows "ls_world (emit_event ds t e s) =
      fold (deliver e (ls_registry s)) (filter (\<lambda>n. en n \<and> ev n) (rev ms)) (ls_world s)"
    and "fst_enabled (ls_filtering (emit_event ds t e s)) = filter_map_new"
proof -
  let ?ds = "stack_of (filtered_sinks fl ns)"
  have "\<not> {..<64} \<subseteq> set ns"
    using assms(4) card_mono [of "set ns" "{..<64 :: nat}"] card_length [of ns] by auto
  then obtain free where free: "free < 64" "free \<notin> set ns" by auto
  have A: "\<forall>n \<in> set ns. n < 64 \<and> (\<forall>cx s. ft_enabled (fl n) (ev_metadata e) cx s = en n)"
    and B: "\<forall>n \<in> set ns. n < 64 \<and> (\<forall>cx s. ft_event_enabled (fl n) e cx s = ev n)"
    using assms(1) by auto
  obtain s1 where s1: "stack_enabled ?ds (ev_metadata e) s = (registry_enabled (ls_registry s1) (ls_filtering s1), s1)"
    "ls_registry s1 = ls_registry s" "ls_world s1 = ls_world s" "\<forall>k < 64. disabled_bit s1 k \<longleftrightarrow> k \<in> set ns \<and> \<not> en k"
    using enabled_pass [OF A, of s] assms(5) by auto
  obtain s2 where s2: "stack_event_enabled ?ds e s1 = (registry_event_enabled (ls_registry s2) (ls_filtering s2), s2)"
    "ls_registry s2 = ls_registry s1" "ls_world s2 = ls_world s1" "\<forall>k < 64. disabled_bit s2 k \<longleftrightarrow> disabled_bit s1 k \<or> k \<in> set ns \<and> \<not> ev k"
    using event_enabled_pass [OF B, of s1] by auto
  have "registry_enabled (ls_registry s1) (ls_filtering s1)"
    "registry_event_enabled (ls_registry s2) (ls_filtering s2)"
    using free s1(4) s2(4)
    by (auto simp: registry_enabled_def registry_event_enabled_def fstate_event_enabled_def any_enabled_iff)
  then have emit: "emit_event ds t e s = stack_notify (stack_of (filtered_sinks fl ms)) t (OnEvent e) s2"
    using s1(1) s2(1) by (simp add: emit_event_def dispatch_event_def asks notifies)
  have ids: "\<forall>n \<in> set ms. n < 64" using assms(1,3) by blast
  have bits: "disabled_bit s2 k \<longleftrightarrow> k \<in> set ms \<and> \<not> (en k \<and> ev k)" if "k < 64" for k
    using s1(4) s2(4) that assms(3) by blast
  note run = event_pass [OF ids assms(2), of fl t e s2]
  have "filter (\<lambda>n. \<not> disabled_bit s2 n) (rev ms) = filter (\<lambda>n. en n \<and> ev n) (rev ms)"
    using bits ids by (intro filter_cong) auto
  then show "ls_world (emit_event ds t e s) =
      fold (deliver e (ls_registry s)) (filter (\<lambda>n. en n \<and> ev n) (rev ms)) (ls_world s)"
    using run s1(2,3) s2(2,3) unfolding emit by simp
  show "fst_enabled (ls_filtering (emit_event ds t e s)) = filter_map_new"
    using run bits unfolding emit by (intro filter_map_eqI) auto
qed

lemma pass:
  assumes "\<forall>n \<in> set ns. n < 64 \<and> (\<forall>cx s. ft_enabled (fl n) (ev_metadata e) cx s = en n) \<and>
      (\<forall>cx s. ft_event_enabled (fl n) e cx s = ev n)"
    and "distinct ns" and "length ns < 64" and "fst_enabled (ls_filtering s) = filter_map_new"
  shows "ls_world (emit_event (stack_of (filtered_sinks fl ns)) t e s) =
      fold (deliver e (ls_registry s)) (filter (\<lambda>n. en n \<and> ev n) (rev ns)) (ls_world s)"
    and "fst_enabled (ls_filtering (emit_event (stack_of (filtered_sinks fl ns)) t e s)) = filter_map_new"
  using pass_as [OF assms(1,2) refl assms(3,4)] by simp_all

end

text \<open>
  A stack of filtered layers, each of which writes the events it gets to a log. \<open>fl n\<close> is the filter
  with the id \<open>n\<close>.
\<close>

definition logger :: "nat \<Rightarrow> ('f, (nat \<times> 'f event) list) layer" where
  "logger n = layer_defaults\<lparr>ly_notify :=
     (\<lambda>nt cx s. case nt of OnEvent e \<Rightarrow> s\<lparr>ls_world := ls_world s @ [(n, e)]\<rparr> | _ \<Rightarrow> s)\<rparr>"

definition filtered_loggers ::
  "(nat \<Rightarrow> ('f, (nat \<times> 'f event) list) layer_filter) \<Rightarrow> nat list \<Rightarrow> ('f, (nat \<times> 'f event) list) layer list" where
  "filtered_loggers fl ns = map (\<lambda>n. filtered (fl n) (logger n) (nth_id n)) ns"

interpretation loggers: event_sinks logger "\<lambda>n e cx r w. w @ [(n, e)]"
  by unfold_locales (simp_all add: logger_def layer_defaults_def)

lemma filter_pass_correct_facts:
  assumes "\<forall>n \<in> set ns. n < 64 \<and> (\<forall>cx s. ft_enabled (fl n) (ev_metadata e) cx s = en n) \<and>
      (\<forall>cx s. ft_event_enabled (fl n) e cx s = ev n)"
    and "distinct ns" and "length ns < 64" and "fst_enabled (ls_filtering s) = filter_map_new"
  shows "ls_world (emit_event (stack_of (filtered_loggers fl ns)) t e s) =
      ls_world s @ map (\<lambda>n. (n, e)) (filter (\<lambda>n. en n \<and> ev n) (rev ns))"
    and "fst_enabled (ls_filtering (emit_event (stack_of (filtered_loggers fl ns)) t e s)) = filter_map_new"
proof -
  have "fold (loggers.deliver e r) xs w = w @ map (\<lambda>n. (n, e)) xs" for r xs w
    by (induction xs arbitrary: w) (simp_all add: loggers.deliver_def)
  moreover have "filtered_loggers fl ns = loggers.filtered_sinks fl ns"
    by (simp add: filtered_loggers_def loggers.filtered_sinks_def)
  ultimately show "ls_world (emit_event (stack_of (filtered_loggers fl ns)) t e s) =
      ls_world s @ map (\<lambda>n. (n, e)) (filter (\<lambda>n. en n \<and> ev n) (rev ns))"
    "fst_enabled (ls_filtering (emit_event (stack_of (filtered_loggers fl ns)) t e s)) = filter_map_new"
    using loggers.pass [OF assms] by simp_all
qed

text \<open>
  C1. One event through a stack of per-layer filters (fewer than 64, so that the registry's check does
  not cut the pass short): starting from an empty filter map, each layer receives the event exactly
  when its own filter accepts both the metadata and the event, whatever the other filters decide, and
  the pass leaves the filter map empty for the next one.
\<close>

theorem filter_pass_correct:
  assumes "\<forall>n \<in> set ns. n < 64 \<and> (\<forall>cx s. ft_enabled (fl n) (ev_metadata e) cx s = en n) \<and>
      (\<forall>cx s. ft_event_enabled (fl n) e cx s = ev n)"
    and "distinct ns" and "length ns < 64" and "fst_enabled (ls_filtering s) = filter_map_new"
  shows "(ls_world (emit_event (stack_of (filtered_loggers fl ns)) t e s) =
      ls_world s @ map (\<lambda>n. (n, e)) (filter (\<lambda>n. en n \<and> ev n) (rev ns))) \<and>
      (fst_enabled (ls_filtering (emit_event (stack_of (filtered_loggers fl ns)) t e s)) = filter_map_new)"
  using filter_pass_correct_facts [OF assms] by blast

definition demo_ev :: "level \<Rightarrow> unit event" where
  "demo_ev l = event_new (demo_event ''app'' l)
     \<lparr>vs_values = All [], vs_fields = meta_fields (demo_event ''app'' l)\<rparr>"

definition demo_lstate :: "(nat \<times> unit event) list lstate" where
  "demo_lstate =
     \<lparr>ls_registry = registry_default\<lparr>reg_next_filter_id := 2\<rparr>, ls_filtering = filter_state_new, ls_world = []\<rparr>"

definition demo_fl :: "nat \<Rightarrow> (unit, (nat \<times> unit event) list) layer_filter" where
  "demo_fl n = level_filter_filter (if n = 0 then from_level WARN else from_level TRACE)"

theorem filter_pass_correct_witness:
  "ls_world (emit_event (stack_of (filtered_loggers demo_fl [0, 1])) 0 (demo_ev INFO) demo_lstate) =
     [(1, demo_ev INFO)]"
proof -
  have "\<forall>n \<in> set [0, 1]. n < 64 \<and>
      (\<forall>cx s. ft_enabled (demo_fl n) (ev_metadata (demo_ev INFO)) cx s = (n = 1)) \<and>
      (\<forall>cx s. ft_event_enabled (demo_fl n) (demo_ev INFO) cx s = True)"
    by (auto simp: demo_fl_def level_filter_filter_def filter_defaults_def demo_ev_def event_new_def
        demo_event_def level_le_filter_def from_level_def)
  from filter_pass_correct [OF this] show ?thesis
    by (simp add: demo_lstate_def filter_state_new_def)
qed

definition veto_events :: "level \<Rightarrow> ('f, 'w) layer" where
  "veto_events l = layer_defaults\<lparr>ly_event_enabled := (\<lambda>e cx s. (meta_level (ev_metadata e) \<noteq> l, s))\<rparr>"

definition stale_stack :: "(unit, (nat \<times> unit event) list) layered list" where
  "stale_stack = stack_of [veto_events INFO, filtered (demo_fl 0) (logger 0) (nth_id 0)]"

lemma any_enabled_bit1: "\<not> bit (fm_bits m) 1 \<Longrightarrow> any_enabled m"
  unfolding any_enabled_iff by (intro exI [of _ 1]) simp

text \<open>How the stack below treats one event, by the bit of filter 0.\<close>

lemma stale_stack_dispatch:
  assumes "meta_level (ev_metadata e) \<noteq> INFO" and "\<not> disabled_bit s 1"
  shows "ls_world (dispatch_event stale_stack 0 e s) =
    ls_world s @ (if disabled_bit s 0 then [] else [(0, e)])"
proof -
  let ?s1 = "s\<lparr>ls_filtering := snd (fstate_and (nth_id 0) True (ls_filtering s))\<rparr>"
  have bits: "disabled_bit ?s1 0 \<longleftrightarrow> disabled_bit s 0" "\<not> disabled_bit ?s1 1"
    using assms(2) by (auto simp: fstate_and_def Let_def bit_set_nth_id is_enabled_nth_id)
  obtain b fs where fs: "fstate_and (nth_id 0) True (ls_filtering s) = (b, fs)"
    by (cases "fstate_and (nth_id 0) True (ls_filtering s)")
  have "any_enabled (fst_enabled fs)"
    using any_enabled_bit1 [OF bits(2)] fs by simp
  then have "stack_event_enabled stale_stack e s = (True, ?s1)"
    using assms fs
    by (simp add: stale_stack_def layered_new_def veto_events_def layer_defaults_def filtered_def
        filtered_event_enabled_def demo_fl_def level_filter_filter_def filter_defaults_def logger_def
        registry_event_enabled_def fstate_event_enabled_def Let_def)
  then show ?thesis
    using bits(1)
    by (simp add: dispatch_event_def stale_stack_def layered_new_def veto_events_def layer_defaults_def
        filtered_def filtered_notify_def lstate_did_enable_def did_enable_def is_enabled_nth_id logger_def
        Let_def)
qed

lemma stale_stack_emit:
  "ls_world (emit_event stale_stack 0 (demo_ev INFO) demo_lstate) = []"
  "disabled_bit (emit_event stale_stack 0 (demo_ev INFO) demo_lstate) 0"
  "\<not> disabled_bit (emit_event stale_stack 0 (demo_ev INFO) demo_lstate) 1"
proof -
  let ?s1 = "demo_lstate\<lparr>ls_filtering := fstate_set (nth_id 0) False (ls_filtering demo_lstate)\<rparr>"
  have bits: "disabled_bit ?s1 0" "\<not> disabled_bit ?s1 1"
    by (simp_all add: fstate_set_def bit_set_nth_id demo_lstate_def filter_state_new_def)
  have "stack_enabled stale_stack (ev_metadata (demo_ev INFO)) demo_lstate = (True, ?s1)"
    using any_enabled_bit1 [OF bits(2)]
    by (simp add: stale_stack_def layered_new_def veto_events_def layer_defaults_def filtered_def
        filtered_enabled_def demo_fl_def level_filter_filter_def filter_defaults_def logger_def demo_ev_def
        event_new_def demo_event_def level_le_filter_def from_level_def registry_enabled_def
        fstate_event_enabled_def Let_def)
  then have "emit_event stale_stack 0 (demo_ev INFO) demo_lstate = ?s1"
    by (simp add: emit_event_def dispatch_event_def stale_stack_def layered_new_def veto_events_def
        layer_defaults_def demo_ev_def event_new_def demo_event_def)
  then show "ls_world (emit_event stale_stack 0 (demo_ev INFO) demo_lstate) = []"
    "disabled_bit (emit_event stale_stack 0 (demo_ev INFO) demo_lstate) 0"
    "\<not> disabled_bit (emit_event stale_stack 0 (demo_ev INFO) demo_lstate) 1"
    using bits by (simp_all add: demo_lstate_def)
qed

lemma stale_filter_bits_facts:
  shows "ls_world (dispatch_event stale_stack 0 (demo_ev WARN) demo_lstate) = [(0, demo_ev WARN)]"
    and "fst (stack_register_callsite stale_stack (ev_metadata (demo_ev WARN)) demo_lstate) = Always"
    and "ls_world (dispatch_event stale_stack 0 (demo_ev WARN)
      (emit_event stale_stack 0 (demo_ev INFO) demo_lstate)) = []"
proof -
  have warn: "meta_level (ev_metadata (demo_ev WARN)) \<noteq> INFO"
    by (simp add: demo_ev_def event_new_def demo_event_def)
  show "ls_world (dispatch_event stale_stack 0 (demo_ev WARN) demo_lstate) = [(0, demo_ev WARN)]"
    using stale_stack_dispatch [OF warn, of demo_lstate]
    by (simp add: demo_lstate_def filter_state_new_def)
  show "fst (stack_register_callsite stale_stack (ev_metadata (demo_ev WARN)) demo_lstate) = Always"
    by (simp add: stale_stack_def layered_new_def veto_events_def layer_defaults_def filtered_def
        filtered_register_callsite_def demo_fl_def level_filter_filter_def filter_defaults_def logger_def
        demo_ev_def event_new_def demo_event_def level_le_filter_def from_level_def pick_interest_def
        registry_register_callsite_def has_per_layer_filters_def take_interest_def add_interest_def
        demo_lstate_def filter_state_new_def Let_def)
  show "ls_world (dispatch_event stale_stack 0 (demo_ev WARN)
      (emit_event stale_stack 0 (demo_ev INFO) demo_lstate)) = []"
    using stale_stack_dispatch [OF warn] stale_stack_emit by simp
qed

text \<open>
  A layer that vetoes an event in \<open>event_enabled\<close> leaves behind the bits that the per-layer filters
  set for it, because only a veto in \<open>enabled\<close> clears the filter map. The next event at a callsite
  whose interest is cached as \<open>always\<close>, for which \<open>enabled\<close> is not asked, is then withheld from a
  layer whose filter accepts it. Dispatched from an empty filter map, the same event reaches that
  layer.
\<close>

theorem stale_filter_bits:
  shows "(ls_world (dispatch_event stale_stack 0 (demo_ev WARN) demo_lstate) = [(0, demo_ev WARN)]) \<and>
      (fst (stack_register_callsite stale_stack (ev_metadata (demo_ev WARN)) demo_lstate) = Always) \<and>
      (ls_world (dispatch_event stale_stack 0 (demo_ev WARN)
      (emit_event stale_stack 0 (demo_ev INFO) demo_lstate)) = [])"
  using stale_filter_bits_facts by blast

end
