(* ===== verification/Layer_Compose.thy ===== *)
theory Layer_Compose
  imports Layered
begin

text \<open>
  Layers made of layers, and filters made of closures: \<open>Layered\<close> as a \<open>Layer\<close> (what \<open>and_then\<close>
  returns, in \<open>layer/layered.rs\<close>), \<open>Vec\<close> and \<open>Identity\<close> as layers (\<open>layer/mod.rs\<close>), \<open>FilterFn\<close> and
  \<open>DynFilterFn\<close> (\<open>filter/filter_fn.rs\<close>), all of \<open>tracing-subscriber\<close>. The debug assertions of the last
  file are left out: they check the hypothesis under which the filters are proved sound.
\<close>

subsection \<open>\<open>Layered\<close> as a layer\<close>

text \<open>
  \<open>inner.and_then(layer)\<close>. Here \<open>B\<close> is a layer, and what \<open>Layered::new\<close> compares with the type of the
  registry is the subscriber the composed layer will be put on, \<open>S\<close>.
\<close>

definition and_then_parts :: "bool \<Rightarrow> ('f, 'w) layer \<Rightarrow> ('f, 'w) layer \<Rightarrow> ('f, 'w) layered" where
  "and_then_parts s_is_registry inner l = layered_new l s_is_registry (ly_has_plf inner)"

definition and_then_register_callsite ::
  "bool \<Rightarrow> ('f, 'w) layer \<Rightarrow> ('f, 'w) layer \<Rightarrow> metadata \<Rightarrow> 'w lstate \<Rightarrow> interest \<times> 'w lstate" where
  "and_then_register_callsite s_is_registry inner l m s =
     (let (outer, s1) = ly_register_callsite l m s
      in pick_interest (and_then_parts s_is_registry inner l) outer (ly_register_callsite inner m) s1)"

definition and_then_enabled ::
  "('f, 'w) layer \<Rightarrow> ('f, 'w) layer \<Rightarrow> metadata \<Rightarrow> layer_context \<Rightarrow> 'w lstate \<Rightarrow> bool \<times> 'w lstate" where
  "and_then_enabled inner l m cx s =
     (let (b, s1) = ly_enabled l m cx s in if b then ly_enabled inner m cx s1 else (False, s1))"

definition and_then_event_enabled ::
  "('f, 'w) layer \<Rightarrow> ('f, 'w) layer \<Rightarrow> 'f event \<Rightarrow> layer_context \<Rightarrow> 'w lstate \<Rightarrow> bool \<times> 'w lstate" where
  "and_then_event_enabled inner l e cx s =
     (let (b, s1) = ly_event_enabled l e cx s in if b then ly_event_enabled inner e cx s1 else (False, s1))"

definition and_then_max_level_hint ::
  "bool \<Rightarrow> ('f, 'w) layer \<Rightarrow> ('f, 'w) layer \<Rightarrow> level_filter option" where
  "and_then_max_level_hint s_is_registry inner l =
     pick_level_hint (and_then_parts s_is_registry inner l)
       (ly_max_level_hint l) (ly_max_level_hint inner) (ly_is_none inner)"

definition and_then_notify ::
  "('f, 'w) layer \<Rightarrow> ('f, 'w) layer \<Rightarrow> 'f notification \<Rightarrow> layer_context \<Rightarrow> 'w lstate \<Rightarrow> 'w lstate" where
  "and_then_notify inner l n cx s = ly_notify l n cx (ly_notify inner n cx s)"

text \<open>The marker of per-layer filters is found if both have it, that of \<open>None\<close> if one of them has it.\<close>

definition and_then_layer :: "bool \<Rightarrow> ('f, 'w) layer \<Rightarrow> ('f, 'w) layer \<Rightarrow> ('f, 'w) layer" where
  "and_then_layer s_is_registry inner l =
     \<lparr>ly_register_callsite = and_then_register_callsite s_is_registry inner l,
      ly_enabled = and_then_enabled inner l,
      ly_event_enabled = and_then_event_enabled inner l,
      ly_max_level_hint = and_then_max_level_hint s_is_registry inner l,
      ly_notify = and_then_notify inner l,
      ly_has_plf = (ly_has_plf l \<and> ly_has_plf inner),
      ly_is_none = (ly_is_none l \<or> ly_is_none inner)\<rparr>"

subsection \<open>\<open>Vec\<close> as a layer\<close>

text \<open>The loop of \<open>register_callsite\<close>: every layer is asked, the highest interest is returned.\<close>

fun vec_register_callsite ::
  "('f, 'w) layer list \<Rightarrow> metadata \<Rightarrow> interest \<Rightarrow> 'w lstate \<Rightarrow> interest \<times> 'w lstate" where
  "vec_register_callsite [] m interest s = (interest, s)"
| "vec_register_callsite (l # ls) m interest s =
     (let (new_interest, s1) = ly_register_callsite l m s in
      vec_register_callsite ls m
        (if interest = Sometimes \<and> new_interest = Always \<or> interest = Never \<and> new_interest \<noteq> Never
         then new_interest else interest) s1)"

text \<open>\<open>Iterator::all\<close>: it stops at the first layer that says no.\<close>

fun vec_enabled ::
  "('f, 'w) layer list \<Rightarrow> metadata \<Rightarrow> layer_context \<Rightarrow> 'w lstate \<Rightarrow> bool \<times> 'w lstate" where
  "vec_enabled [] m cx s = (True, s)"
| "vec_enabled (l # ls) m cx s =
     (let (b, s1) = ly_enabled l m cx s in if b then vec_enabled ls m cx s1 else (False, s1))"

fun vec_event_enabled ::
  "('f, 'w) layer list \<Rightarrow> 'f event \<Rightarrow> layer_context \<Rightarrow> 'w lstate \<Rightarrow> bool \<times> 'w lstate" where
  "vec_event_enabled [] e cx s = (True, s)"
| "vec_event_enabled (l # ls) e cx s =
     (let (b, s1) = ly_event_enabled l e cx s in if b then vec_event_enabled ls e cx s1 else (False, s1))"

fun vec_max_level_hint :: "('f, 'w) layer list \<Rightarrow> level_filter \<Rightarrow> level_filter option" where
  "vec_max_level_hint [] mx = Some mx"
| "vec_max_level_hint (l # ls) mx =
     (case ly_max_level_hint l of
        None \<Rightarrow> None
      | Some hint \<Rightarrow> vec_max_level_hint ls (max hint mx))"

text \<open>\<open>on_id_change\<close> is the one callback that the source does not forward.\<close>

definition vec_notify ::
  "('f, 'w) layer list \<Rightarrow> 'f notification \<Rightarrow> layer_context \<Rightarrow> 'w lstate \<Rightarrow> 'w lstate" where
  "vec_notify ls n cx s =
     (case n of OnIdChange old new \<Rightarrow> s | _ \<Rightarrow> fold (\<lambda>l s. ly_notify l n cx s) ls s)"

definition vec_layer :: "('f, 'w) layer list \<Rightarrow> ('f, 'w) layer" where
  "vec_layer ls =
     \<lparr>ly_register_callsite = (\<lambda>m s. vec_register_callsite ls m Never s),
      ly_enabled = vec_enabled ls,
      ly_event_enabled = vec_event_enabled ls,
      ly_max_level_hint = vec_max_level_hint ls OFF,
      ly_notify = vec_notify ls,
      ly_has_plf = (list_all ly_has_plf ls \<and> list_ex ly_has_plf ls),
      ly_is_none = list_ex ly_is_none ls\<rparr>"

definition identity_layer :: "('f, 'w) layer" where
  "identity_layer = layer_defaults"

subsection \<open>Closures as filters\<close>

record filter_fn =
  ff_enabled :: "metadata \<Rightarrow> bool"
  ff_max_level_hint :: "level_filter option"

definition filter_fn_new :: "(metadata \<Rightarrow> bool) \<Rightarrow> filter_fn" where
  "filter_fn_new enabled = \<lparr>ff_enabled = enabled, ff_max_level_hint = None\<rparr>"

definition filter_fn_with_max_level_hint :: "filter_fn \<Rightarrow> level_filter \<Rightarrow> filter_fn" where
  "filter_fn_with_max_level_hint f hint = f\<lparr>ff_max_level_hint := Some hint\<rparr>"

definition filter_fn_is_enabled :: "filter_fn \<Rightarrow> metadata \<Rightarrow> bool" where
  "filter_fn_is_enabled f m = ff_enabled f m"

definition filter_fn_is_callsite_enabled :: "filter_fn \<Rightarrow> metadata \<Rightarrow> interest" where
  "filter_fn_is_callsite_enabled f m = (if ff_enabled f m then Always else Never)"

definition is_below_max_level :: "level_filter option \<Rightarrow> metadata \<Rightarrow> bool" where
  "is_below_max_level hint m = (case hint of Some h \<Rightarrow> level_le_filter (meta_level m) h | None \<Rightarrow> True)"

definition filter_fn_filter :: "filter_fn \<Rightarrow> ('f, 'w) layer_filter" where
  "filter_fn_filter f =
     (filter_defaults (\<lambda>m _ _. filter_fn_is_enabled f m))
       \<lparr>ft_callsite_enabled := filter_fn_is_callsite_enabled f, ft_max_level_hint := ff_max_level_hint f\<rparr>"

definition filter_fn_layer :: "filter_fn \<Rightarrow> ('f, 'w) layer" where
  "filter_fn_layer f =
     layer_defaults
       \<lparr>ly_register_callsite := (\<lambda>m s. (filter_fn_is_callsite_enabled f m, s)),
        ly_enabled := (\<lambda>m _ s. (filter_fn_is_enabled f m, s)),
        ly_max_level_hint := ff_max_level_hint f\<rparr>"

record 'w dyn_filter_fn =
  df_enabled :: "metadata \<Rightarrow> layer_context \<Rightarrow> 'w lstate \<Rightarrow> bool"
  df_register_callsite :: "(metadata \<Rightarrow> interest) option"
  df_max_level_hint :: "level_filter option"

definition dyn_filter_fn_new :: "(metadata \<Rightarrow> layer_context \<Rightarrow> 'w lstate \<Rightarrow> bool) \<Rightarrow> 'w dyn_filter_fn" where
  "dyn_filter_fn_new enabled =
     \<lparr>df_enabled = enabled, df_register_callsite = None, df_max_level_hint = None\<rparr>"

definition dyn_with_max_level_hint :: "'w dyn_filter_fn \<Rightarrow> level_filter \<Rightarrow> 'w dyn_filter_fn" where
  "dyn_with_max_level_hint f hint = f\<lparr>df_max_level_hint := Some hint\<rparr>"

definition dyn_with_callsite_filter :: "'w dyn_filter_fn \<Rightarrow> (metadata \<Rightarrow> interest) \<Rightarrow> 'w dyn_filter_fn" where
  "dyn_with_callsite_filter f callsite_enabled = f\<lparr>df_register_callsite := Some callsite_enabled\<rparr>"

definition default_callsite_enabled :: "'w dyn_filter_fn \<Rightarrow> metadata \<Rightarrow> interest" where
  "default_callsite_enabled f m =
     (if \<not> is_below_max_level (df_max_level_hint f) m then Never else Sometimes)"

definition dyn_is_enabled :: "'w dyn_filter_fn \<Rightarrow> metadata \<Rightarrow> layer_context \<Rightarrow> 'w lstate \<Rightarrow> bool" where
  "dyn_is_enabled f m cx s = df_enabled f m cx s"

definition dyn_is_callsite_enabled :: "'w dyn_filter_fn \<Rightarrow> metadata \<Rightarrow> interest" where
  "dyn_is_callsite_enabled f m =
     (case df_register_callsite f of
        Some callsite_enabled \<Rightarrow> callsite_enabled m
      | None \<Rightarrow> default_callsite_enabled f m)"

definition dyn_filter :: "'w dyn_filter_fn \<Rightarrow> ('f, 'w) layer_filter" where
  "dyn_filter f =
     (filter_defaults (dyn_is_enabled f))
       \<lparr>ft_callsite_enabled := dyn_is_callsite_enabled f, ft_max_level_hint := df_max_level_hint f\<rparr>"

definition dyn_layer :: "'w dyn_filter_fn \<Rightarrow> ('f, 'w) layer" where
  "dyn_layer f =
     layer_defaults
       \<lparr>ly_register_callsite := (\<lambda>m s. (dyn_is_callsite_enabled f m, s)),
        ly_enabled := (\<lambda>m cx s. (dyn_is_enabled f m cx s, s)),
        ly_max_level_hint := df_max_level_hint f\<rparr>"

subsection \<open>Nesting does not matter to decisions and notifications\<close>

text \<open>
  A layer put together with \<open>and_then\<close> and \<open>Vec\<close>, as a tree: \<open>AndThen inner outer\<close>. \<open>ask_order\<close> is the
  order in which its leaves are asked, \<open>notify_order\<close> that in which they are notified.
\<close>

datatype 'l layer_tree =
    Leaf 'l
  | AndThen "'l layer_tree" "'l layer_tree"
  | VecOf "'l layer_tree list"

fun tree_layer :: "bool \<Rightarrow> ('f, 'w) layer layer_tree \<Rightarrow> ('f, 'w) layer" where
  "tree_layer r (Leaf l) = l"
| "tree_layer r (AndThen a b) = and_then_layer r (tree_layer r a) (tree_layer r b)"
| "tree_layer r (VecOf ts) = vec_layer (map (tree_layer r) ts)"

text \<open>A stack of such layers: the subscriber below the last one is the registry itself.\<close>

fun tree_stack :: "('f, 'w) layer layer_tree list \<Rightarrow> ('f, 'w) layer list" where
  "tree_stack [] = []"
| "tree_stack (T # Ts) = tree_layer (Ts = []) T # tree_stack Ts"

fun ask_order :: "'l layer_tree \<Rightarrow> 'l list" where
  "ask_order (Leaf l) = [l]"
| "ask_order (AndThen a b) = ask_order b @ ask_order a"
| "ask_order (VecOf ts) = concat (map ask_order ts)"

fun notify_order :: "'l layer_tree \<Rightarrow> 'l list" where
  "notify_order (Leaf l) = [l]"
| "notify_order (AndThen a b) = notify_order a @ notify_order b"
| "notify_order (VecOf ts) = concat (map notify_order ts)"

lemma vec_enabled_append: "vec_enabled (xs @ ys) m cx s =
  (let (b, s1) = vec_enabled xs m cx s in if b then vec_enabled ys m cx s1 else (False, s1))"
  by (induction xs arbitrary: s) (simp_all split: prod.split)

lemma vec_event_enabled_append: "vec_event_enabled (xs @ ys) e cx s =
  (let (b, s1) = vec_event_enabled xs e cx s in if b then vec_event_enabled ys e cx s1 else (False, s1))"
  by (induction xs arbitrary: s) (simp_all split: prod.split)

text \<open>A list of layers whose members are asked like lists is asked like the concatenation.\<close>

lemma vec_enabled_concat:
  "(\<And>t s. t \<in> set ts \<Longrightarrow> ly_enabled (f t) m cx s = vec_enabled (g t) m cx s) \<Longrightarrow>
   vec_enabled (map f ts) m cx s = vec_enabled (concat (map g ts)) m cx s"
  by (induction ts arbitrary: s) (simp_all add: vec_enabled_append split: prod.split)

lemma vec_event_enabled_concat:
  "(\<And>t s. t \<in> set ts \<Longrightarrow> ly_event_enabled (f t) e cx s = vec_event_enabled (g t) e cx s) \<Longrightarrow>
   vec_event_enabled (map f ts) e cx s = vec_event_enabled (concat (map g ts)) e cx s"
  by (induction ts arbitrary: s) (simp_all add: vec_event_enabled_append split: prod.split)

lemma fold_notify_concat:
  "(\<And>t s. t \<in> set ts \<Longrightarrow> ly_notify (f t) n cx s = fold (\<lambda>l. ly_notify l n cx) (g t) s) \<Longrightarrow>
   fold (\<lambda>l. ly_notify l n cx) (map f ts) s = fold (\<lambda>l. ly_notify l n cx) (concat (map g ts)) s"
  by (induction ts arbitrary: s) simp_all

lemma tree_enabled: "ly_enabled (tree_layer r T) m cx s = vec_enabled (ask_order T) m cx s"
proof (induction T arbitrary: s)
  case (Leaf l)
  show ?case by (cases "ly_enabled l m cx s") simp
next
  case (AndThen a b)
  then show ?case by (simp add: and_then_layer_def and_then_enabled_def vec_enabled_append split: prod.split)
next
  case (VecOf ts)
  then show ?case by (simp add: vec_layer_def vec_enabled_concat)
qed

lemma tree_event_enabled: "ly_event_enabled (tree_layer r T) e cx s = vec_event_enabled (ask_order T) e cx s"
proof (induction T arbitrary: s)
  case (Leaf l)
  show ?case by (cases "ly_event_enabled l e cx s") simp
next
  case (AndThen a b)
  then show ?case by (simp add: and_then_layer_def and_then_event_enabled_def vec_event_enabled_append split: prod.split)
next
  case (VecOf ts)
  then show ?case by (simp add: vec_layer_def vec_event_enabled_concat)
qed

lemma tree_notify:
  assumes "\<And>old new. n \<noteq> OnIdChange old new"
  shows "ly_notify (tree_layer r T) n cx s = fold (\<lambda>l. ly_notify l n cx) (notify_order T) s"
proof (induction T arbitrary: s)
  case (AndThen a b)
  then show ?case by (simp add: and_then_layer_def and_then_notify_def)
next
  case (VecOf ts)
  have "vec_notify (map (tree_layer r) ts) n cx s = fold (\<lambda>l. ly_notify l n cx) (map (tree_layer r) ts) s"
    using assms by (auto simp: vec_notify_def split: notification.split)
  also have "\<dots> = fold (\<lambda>l. ly_notify l n cx) (concat (map notify_order ts)) s"
    using VecOf by (rule fold_notify_concat)
  finally show ?case by (simp add: vec_layer_def)
qed simp

text \<open>The same for the layers of a stack.\<close>

lemma stack_enabled_vec: "stack_enabled ds m s =
  (let (b, s1) = vec_enabled (map ld_layer ds) m context_new s in
   if b then (registry_enabled (ls_registry s1) (ls_filtering s1), s1) else (False, s1\<lparr>ls_filtering := clear_enabled (ls_filtering s1)\<rparr>))"
  by (induction ds arbitrary: s) (simp_all split: prod.split)

lemma stack_event_enabled_vec: "stack_event_enabled ds e s =
  (let (b, s1) = vec_event_enabled (map ld_layer ds) e context_new s in
   if b then (registry_event_enabled (ls_registry s1) (ls_filtering s1), s1) else (False, s1))"
  by (induction ds arbitrary: s) (simp_all split: prod.split)

lemma stack_notify_fold: "stack_notify ds t n s =
  fold (\<lambda>l. ly_notify l n context_new) (rev (map ld_layer ds)) (stack_notify [] t n s)"
  by (induction ds) simp_all

lemma stack_enabled_cong: "vec_enabled (map ld_layer ds) = vec_enabled (map ld_layer ds') \<Longrightarrow>
    stack_enabled ds m s = stack_enabled ds' m s"
  by (simp only: stack_enabled_vec)

lemma stack_event_enabled_cong: "vec_event_enabled (map ld_layer ds) = vec_event_enabled (map ld_layer ds') \<Longrightarrow>
    stack_event_enabled ds e s = stack_event_enabled ds' e s"
  by (simp only: stack_event_enabled_vec)

lemma trees_ask:
  "vec_enabled (tree_stack Ts) m cx s = vec_enabled (concat (map ask_order Ts)) m cx s"
  "vec_event_enabled (tree_stack Ts) e cx s = vec_event_enabled (concat (map ask_order Ts)) e cx s"
  by (induction Ts arbitrary: s)
    (simp_all add: vec_enabled_append vec_event_enabled_append tree_enabled tree_event_enabled split: prod.split)

lemma trees_notify:
  assumes "\<And>old new. n \<noteq> OnIdChange old new"
  shows "fold (\<lambda>l. ly_notify l n cx) (rev (tree_stack Ts)) s =
    fold (\<lambda>l. ly_notify l n cx) (concat (map notify_order (rev Ts))) s"
  by (induction Ts arbitrary: s) (simp_all add: tree_notify [OF assms])

lemma nested_asks_flat:
  "stack_enabled (stack_of (tree_stack Ts)) m s = stack_enabled (stack_of (concat (map ask_order Ts))) m s"
  "stack_event_enabled (stack_of (tree_stack Ts)) e s =
     stack_event_enabled (stack_of (concat (map ask_order Ts))) e s"
  by (rule stack_enabled_cong stack_event_enabled_cong, simp add: stack_of_layers trees_ask fun_eq_iff)+

lemma nested_notify_flat:
  assumes "\<And>old new. n \<noteq> OnIdChange old new"
  shows "stack_notify (stack_of (tree_stack Ts)) t n s =
    stack_notify (stack_of (rev (concat (map notify_order (rev Ts))))) t n s"
  unfolding stack_notify_fold [of "stack_of (tree_stack Ts)"]
    stack_notify_fold [of "stack_of (rev (concat (map notify_order (rev Ts))))"]
  by (simp only: stack_of_layers rev_rev_ident trees_notify [OF assms])

text \<open>
  However layers are nested, with \<open>and_then\<close>, in vectors and as levels of a stack, the stack asks and
  notifies its leaves like a flat one: \<open>enabled\<close> and \<open>event_enabled\<close> decide, and change the state, as in the
  stack of the leaves in the order of asking, and every notification except a changed id reaches each leaf,
  in the order in which the tree notifies, inner layers first and vectors from the front.
\<close>

theorem nested_layers_flat:
  "stack_enabled (stack_of (tree_stack Ts)) m s = stack_enabled (stack_of (concat (map ask_order Ts))) m s \<and>
   stack_event_enabled (stack_of (tree_stack Ts)) e s =
     stack_event_enabled (stack_of (concat (map ask_order Ts))) e s \<and>
   ((\<forall>old new. n \<noteq> OnIdChange old new) \<longrightarrow>
     stack_notify (stack_of (tree_stack Ts)) t n s =
       stack_notify (stack_of (rev (concat (map notify_order (rev Ts))))) t n s)"
  using nested_asks_flat nested_notify_flat by blast

text \<open>A tree of filtered layers, in which \<open>n\<close> stands for the layer \<open>g n\<close> behind the filter with the id \<open>n\<close>.\<close>

lemma ask_order_map: "ask_order (map_layer_tree f T) = map f (ask_order T)"
  by (induction T) (simp_all add: map_concat cong: map_cong)

lemma notify_order_map: "notify_order (map_layer_tree f T) = map f (notify_order T)"
  by (induction T) (simp_all add: map_concat cong: map_cong)

lemma set_notify_order: "set (notify_order T) = set (ask_order T)"
  by (induction T) auto

lemma length_notify_order: "length (notify_order T) = length (ask_order T)"
  by (induction T) (simp_all add: length_concat comp_def cong: map_cong)

lemma concat_map_order:
  "concat (map ask_order (map (map_layer_tree f) Ts)) = map f (concat (map ask_order Ts))"
  "concat (map notify_order (map (map_layer_tree f) Ts)) = map f (concat (map notify_order Ts))"
  by (simp_all add: map_concat ask_order_map notify_order_map comp_def)

text \<open>Each id occurs once in the order of asking exactly when it does so in the order of notifying.\<close>

lemma distinct_orders:
  assumes "distinct (concat (map ask_order Ts))"
  shows "distinct (rev (concat (map notify_order (rev Ts))))"
    and "set (rev (concat (map notify_order (rev Ts)))) = set (concat (map ask_order Ts))"
proof -
  show sets: "set (rev (concat (map notify_order (rev Ts)))) = set (concat (map ask_order Ts))"
    by (simp add: set_notify_order)
  have "length (rev (concat (map notify_order (rev Ts)))) = length (concat (map ask_order Ts))"
    by (simp add: length_concat length_notify_order comp_def rev_map [symmetric])
  then show "distinct (rev (concat (map notify_order (rev Ts))))"
    using assms sets by (metis distinct_card card_distinct)
qed

context event_sinks
begin

lemma nested_pass:
  fixes t :: thread
  assumes "\<forall>n \<in> set (concat (map ask_order Ts)). n < 64 \<and> (\<forall>cx s. ft_enabled (fl n) (ev_metadata e) cx s = en n) \<and>
      (\<forall>cx s. ft_event_enabled (fl n) e cx s = ev n)"
    and "distinct (concat (map ask_order Ts))" "length (concat (map ask_order Ts)) < 64"
      "fst_enabled (ls_filtering s) = filter_map_new"
  defines "ds \<equiv> stack_of (tree_stack (map (map_layer_tree (\<lambda>n. filtered (fl n) (g n) (nth_id n))) Ts))"
  shows "ls_world (emit_event ds t e s) =
      fold (deliver e (ls_registry s)) (filter (\<lambda>n. en n \<and> ev n) (concat (map notify_order (rev Ts)))) (ls_world s)"
    and "fst_enabled (ls_filtering (emit_event ds t e s)) = filter_map_new"
proof -
  let ?f = "\<lambda>n. filtered (fl n) (g n) (nth_id n)"
  have asks: "stack_enabled ds m u = stack_enabled (stack_of (filtered_sinks fl (concat (map ask_order Ts)))) m u"
    "stack_event_enabled ds e u = stack_event_enabled (stack_of (filtered_sinks fl (concat (map ask_order Ts)))) e u" for m u
    unfolding ds_def nested_asks_flat concat_map_order filtered_sinks_def by simp_all
  have notifies: "stack_notify ds t (OnEvent e) u =
      stack_notify (stack_of (filtered_sinks fl (rev (concat (map notify_order (rev Ts)))))) t (OnEvent e) u" for u
    unfolding ds_def by (subst nested_notify_flat)
      (simp_all only: filtered_sinks_def rev_map concat_map_order notification.distinct not_False_eq_True)
  show "ls_world (emit_event ds t e s) =
      fold (deliver e (ls_registry s)) (filter (\<lambda>n. en n \<and> ev n) (concat (map notify_order (rev Ts)))) (ls_world s)"
    "fst_enabled (ls_filtering (emit_event ds t e s)) = filter_map_new"
    using pass_as [OF assms(1) distinct_orders [OF assms(2)] assms(3,4) asks notifies] by simp_all
qed

end

lemma logger_delivers: "fold (loggers.deliver e r) xs w = w @ map (\<lambda>n. (n, e)) xs"
  by (induction xs arbitrary: w) (simp_all add: loggers.deliver_def)



text \<open>The order of a nested composition at a concrete input.\<close>

theorem nested_layers_flat_witness:
  "stack_notify (stack_of (tree_stack [VecOf [Leaf (logger 1), Leaf (logger 2)], Leaf (logger 0)])) 0
     (OnEvent (demo_ev INFO)) demo_lstate =
   stack_notify (stack_of [logger 2, logger 1, logger 0]) 0 (OnEvent (demo_ev INFO)) demo_lstate"
  using nested_layers_flat [where Ts = "[VecOf [Leaf (logger 1), Leaf (logger 2)], Leaf (logger 0)]" and t = 0
      and n = "OnEvent (demo_ev INFO)" and s = demo_lstate]
  by (simp del: stack_of_simps tree_stack.simps)

subsection \<open>Level hints of nested layers\<close>

text \<open>
  \<open>within l\<close>: the hint of a layer, if it has one, admits the level. \<open>fair l\<close>: so it is at least when the
  layer has no per-layer filter, for a callsite that the layer does not disable.
\<close>

definition within :: "level \<Rightarrow> ('f, 'w) layer \<Rightarrow> bool" where
  "within lvl l \<longleftrightarrow> (\<forall>h. ly_max_level_hint l = Some h \<longrightarrow> level_le_filter lvl h)"

definition fair :: "level \<Rightarrow> ('f, 'w) layer \<Rightarrow> bool" where
  "fair lvl l \<longleftrightarrow> \<not> ly_is_none l \<and> (\<not> ly_has_plf l \<longrightarrow> within lvl l)"

lemma fair_hint_ok: "fair lvl l \<Longrightarrow> layer_hint_ok lvl (\<lambda>_. True) (within lvl) l"
  by (simp add: fair_def within_def layer_hint_ok_def)

lemma hint_ok_fair: "layer_hint_ok lvl global wants l \<Longrightarrow> global l \<Longrightarrow> \<not> ly_is_none l \<Longrightarrow>
  fair lvl l \<and> (wants l \<longrightarrow> within lvl l)"
  by (auto simp: fair_def within_def layer_hint_ok_def)

lemma and_then_hint:
  "\<not> ly_is_none a \<Longrightarrow> \<not> ly_is_none b \<Longrightarrow> ly_max_level_hint (and_then_layer False a b) =
     combined_hint (ly_has_plf b) (ly_has_plf a) False False (ly_max_level_hint b) (ly_max_level_hint a)"
  by (simp add: and_then_layer_def and_then_max_level_hint_def and_then_parts_def layered_new_def pick_level_hint_def
      combined_hint_def)

lemma and_then_within:
  assumes "fair lvl a" "fair lvl b" and "within lvl a \<or> within lvl b"
  shows "within lvl (and_then_layer False a b)"
  unfolding within_def
proof (intro allI impI)
  fix h
  assume "ly_max_level_hint (and_then_layer False a b) = Some h"
  then have "combined_hint (ly_has_plf b) (ly_has_plf a) False False (ly_max_level_hint b) (ly_max_level_hint a) = Some h"
    using assms(1,2) by (simp add: and_then_hint fair_def)
  then show "level_le_filter lvl h"
    using assms by (cases rule: combined_hint_cases) (auto simp: fair_def within_def intro: level_le_max)
qed

lemma and_then_fair:
  assumes "fair lvl a" "fair lvl b"
  shows "fair lvl (and_then_layer False a b)"
proof -
  have "within lvl (and_then_layer False a b)" if "\<not> ly_has_plf (and_then_layer False a b)"
    using assms that by (intro and_then_within) (auto simp: fair_def and_then_layer_def)
  then show ?thesis using assms by (simp add: fair_def and_then_layer_def)
qed

lemma vec_hint_Some:
  "vec_max_level_hint ls x = Some h \<Longrightarrow> x \<le> h \<and> (\<forall>l \<in> set ls. \<exists>y. ly_max_level_hint l = Some y \<and> y \<le> h)"
proof (induction ls arbitrary: x)
  case (Cons l ls)
  then obtain y where y: "ly_max_level_hint l = Some y" "vec_max_level_hint ls (max y x) = Some h"
    by (auto split: option.splits)
  from Cons.IH [OF y(2)] y(1) show ?case by auto
qed simp

lemma vec_within:
  assumes "l \<in> set ls" "within lvl l"
  shows "within lvl (vec_layer ls)"
  unfolding within_def
proof (intro allI impI)
  fix h
  assume "ly_max_level_hint (vec_layer ls) = Some h"
  then obtain y where "ly_max_level_hint l = Some y" "y \<le> h"
    using vec_hint_Some [of ls OFF h] assms(1) by (auto simp: vec_layer_def)
  then show "level_le_filter lvl h" using assms(2) level_le_filter_trans by (auto simp: within_def)
qed

lemma vec_fair:
  assumes "list_all (fair lvl) ls" "ls \<noteq> []"
  shows "fair lvl (vec_layer ls)"
proof -
  have "within lvl (vec_layer ls)" if "\<not> ly_has_plf (vec_layer ls)"
  proof -
    have "list_ex (\<lambda>l. \<not> ly_has_plf l) ls"
      using that \<open>ls \<noteq> []\<close> by (cases ls) (auto simp: vec_layer_def list_all_iff list_ex_iff)
    then obtain l where "l \<in> set ls" "\<not> ly_has_plf l" by (auto simp: list_ex_iff)
    then show ?thesis using assms(1) vec_within by (auto simp: fair_def list_all_iff)
  qed
  then show ?thesis using assms(1) by (auto simp: fair_def vec_layer_def list_all_iff list_ex_iff)
qed

text \<open>Trees whose vectors are not empty.\<close>

fun no_empty_vec :: "'l layer_tree \<Rightarrow> bool" where
  "no_empty_vec (Leaf l) = True"
| "no_empty_vec (AndThen a b) = (no_empty_vec a \<and> no_empty_vec b)"
| "no_empty_vec (VecOf ts) = (ts \<noteq> [] \<and> list_all no_empty_vec ts)"

lemma tree_fair: "no_empty_vec T \<Longrightarrow> list_all (fair lvl) (ask_order T) \<Longrightarrow> fair lvl (tree_layer False T)"
proof (induction T)
  case (VecOf ts)
  then show ?case by (auto simp: list_all_iff intro!: vec_fair)
qed (simp_all add: and_then_fair)

lemma tree_within:
  "no_empty_vec T \<Longrightarrow> list_all (fair lvl) (ask_order T) \<Longrightarrow> list_ex (within lvl) (ask_order T) \<Longrightarrow>
   within lvl (tree_layer False T)"
proof (induction T)
  case (AndThen a b)
  then show ?case by (auto intro!: and_then_within tree_fair)
next
  case (VecOf ts)
  then obtain t where t: "t \<in> set ts" "list_ex (within lvl) (ask_order t)" by (auto simp: list_ex_iff)
  then have "within lvl (tree_layer False t)" using VecOf by (auto simp: list_all_iff)
  with t(1) show ?case using vec_within [of "tree_layer False t"] by simp
qed simp

text \<open>A stack of trees over a registry, the innermost of which is a plain layer.\<close>

lemma tree_stack_fair:
  assumes "list_all no_empty_vec Ts" "list_all (fair lvl) (concat (map ask_order Ts))" "\<exists>l. last Ts = Leaf l"
  shows "list_all (fair lvl) (tree_stack Ts)"
    and "list_ex (within lvl) (concat (map ask_order Ts)) \<Longrightarrow> list_ex (within lvl) (tree_stack Ts)"
proof -
  have "list_all (fair lvl) (tree_stack Ts) \<and>
    (list_ex (within lvl) (concat (map ask_order Ts)) \<longrightarrow> list_ex (within lvl) (tree_stack Ts))"
    using assms
  proof (induction Ts)
    case (Cons T Ts)
    show ?case
    proof (cases "Ts = []")
      case True
      with Cons.prems show ?thesis by auto
    next
      case False
      with Cons show ?thesis by (auto simp: tree_fair tree_within)
    qed
  qed simp
  then show "list_all (fair lvl) (tree_stack Ts)"
    "list_ex (within lvl) (concat (map ask_order Ts)) \<Longrightarrow> list_ex (within lvl) (tree_stack Ts)" by blast+
qed


definition demo_trees :: "(unit, (nat \<times> unit event) list) layer layer_tree list" where
  "demo_trees = [VecOf [Leaf (filtered (demo_fl 1) (logger 1) (nth_id 1))],
     Leaf (filtered (demo_fl 0) (logger 0) (nth_id 0))]"


text \<open>
  Directly on the registry the hint of \<open>and_then\<close> is that of its outer layer alone, because what is compared
  with the type of the registry is not the inner layer: a layer that wants everything is silenced by one
  that wants errors, though both have filters of their own and an event that reaches the stack gets to the
  first layer.
\<close>

definition silenced :: "(unit, (nat \<times> unit event) list) layer layer_tree" where
  "silenced = AndThen (Leaf (filtered (demo_fl 1) (logger 1) (nth_id 1)))
     (Leaf (filtered (demo_fl 0) (logger 0) (nth_id 0)))"

theorem and_then_hint_hides:
  "stack_max_level_hint (stack_of (tree_stack [silenced])) = Some (from_level WARN) \<and>
   \<not> level_le_filter INFO (from_level WARN) \<and>
   ls_world (emit_event (stack_of (tree_stack [silenced])) 0 (demo_ev INFO) demo_lstate) = [(1, demo_ev INFO)]"
proof (intro conjI)
  show "stack_max_level_hint (stack_of (tree_stack [silenced])) = Some (from_level WARN)"
    by (simp add: silenced_def and_then_layer_def and_then_max_level_hint_def and_then_parts_def layered_new_def
        pick_level_hint_def filtered_def demo_fl_def level_filter_filter_def)
  show "\<not> level_le_filter INFO (from_level WARN)" by (simp add: level_le_filter_def from_level_def)
  let ?Ts = "[AndThen (Leaf 1) (Leaf (0 :: nat))]"
  have a: "\<forall>n \<in> set (concat (map ask_order ?Ts)). n < 64 \<and>
      (\<forall>cx s. ft_enabled (demo_fl n) (ev_metadata (demo_ev INFO)) cx s = (n \<noteq> 0)) \<and>
      (\<forall>cx s. ft_event_enabled (demo_fl n) (demo_ev INFO) cx s = True)"
    by (auto simp: demo_fl_def level_filter_filter_def filter_defaults_def demo_ev_def event_new_def
        demo_event_def level_le_filter_def from_level_def)
  have d: "distinct (concat (map ask_order ?Ts))" "length (concat (map ask_order ?Ts)) < 64" by simp_all
  have e: "fst_enabled (ls_filtering demo_lstate) = filter_map_new"
    by (simp add: demo_lstate_def filter_state_new_def)
  have m: "map (map_layer_tree (\<lambda>n. filtered (demo_fl n) (logger n) (nth_id n))) ?Ts = [silenced]"
    by (simp add: silenced_def)
  have "ls_world (emit_event (stack_of (tree_stack [silenced])) 0 (demo_ev INFO) demo_lstate) =
    ls_world demo_lstate @ map (\<lambda>n. (n, demo_ev INFO)) (filter (\<lambda>n. n \<noteq> 0 \<and> True) (concat (map notify_order (rev ?Ts))))"
    using loggers.nested_pass(1) [OF a d e, of 0] unfolding logger_delivers m .
  then show "ls_world (emit_event (stack_of (tree_stack [silenced])) 0 (demo_ev INFO) demo_lstate) = [(1, demo_ev INFO)]"
    by (simp add: demo_lstate_def)
qed

text \<open>
  Two more edges of \<open>Vec\<close>. An empty vector has the hint \<open>OFF\<close> but not the marker of \<open>None\<close>, so it silences a
  layer without a hint below it. And the interest of a vector is the highest of its layers' although
  \<open>enabled\<close> needs all of them: here the callsite is cached as always enabled, while \<open>enabled\<close> says no.
\<close>

theorem vec_layer_edges:
  "stack_max_level_hint (stack_of [vec_layer [], layer_defaults]) = Some OFF \<and>
   (let v = vec_layer [level_filter_layer (from_level ERROR), level_filter_layer (from_level TRACE)] in
    fst (ly_register_callsite v (demo_event ''app'' INFO) s) = Always \<and>
    \<not> fst (ly_enabled v (demo_event ''app'' INFO) cx s))"
  by (simp add: vec_layer_def layered_new_def pick_level_hint_def layer_defaults_def level_filter_layer_def
      stack_is_none_def demo_event_def from_level_def filter_ge_level_def level_le_filter_def default_max_level_hint_def)

subsection \<open>Closures keep the contract\<close>

lemma filter_fn_sound_iff:
  "filter_sound (filter_fn_filter f) \<longleftrightarrow> (\<forall>m. ff_enabled f m \<longrightarrow> is_below_max_level (ff_max_level_hint f) m)"
  by (auto simp: filter_sound_def filter_fn_filter_def filter_defaults_def filter_fn_is_enabled_def
      filter_fn_is_callsite_enabled_def is_below_max_level_def split: option.split)

lemma dyn_filter_sound_iff:
  "filter_sound (dyn_filter d) \<longleftrightarrow>
     (\<forall>m cx s. df_enabled d m cx s \<longrightarrow> is_below_max_level (df_max_level_hint d) m) \<and>
     (\<forall>callsite_enabled m cx s. df_register_callsite d = Some callsite_enabled \<longrightarrow>
        (callsite_enabled m = Never \<longrightarrow> \<not> df_enabled d m cx s) \<and>
        (callsite_enabled m = Always \<longrightarrow> df_enabled d m cx s))"
  by (cases "df_register_callsite d"; cases "df_max_level_hint d")
    (auto simp: filter_sound_def dyn_filter_def filter_defaults_def dyn_is_enabled_def
      dyn_is_callsite_enabled_def default_callsite_enabled_def is_below_max_level_def)

interpretation closure_law: lawful_filter "filter_fn_filter (filter_fn_new p)" for p
  by unfold_locales (simp add: filter_fn_sound_iff filter_fn_new_def is_below_max_level_def)

interpretation dyn_closure_law: lawful_filter "dyn_filter (dyn_filter_fn_new p)" for p
  by unfold_locales (simp add: dyn_filter_sound_iff dyn_filter_fn_new_def is_below_max_level_def)

text \<open>
  A filter made of a closure keeps the contract of \<open>Filter\<close> exactly when what it was told is honest:
  the level hint, if any, admits all that the closure enables, and so does the callsite filter of a dynamic
  filter, whose \<open>never\<close> and \<open>always\<close> must be true in every context.
\<close>

theorem filter_closures_sound:
  "(filter_sound (filter_fn_filter f) \<longleftrightarrow> (\<forall>m. ff_enabled f m \<longrightarrow> is_below_max_level (ff_max_level_hint f) m)) \<and>
   (filter_sound (dyn_filter d) \<longleftrightarrow>
      (\<forall>m cx s. df_enabled d m cx s \<longrightarrow> is_below_max_level (df_max_level_hint d) m) \<and>
      (\<forall>callsite_enabled m cx s. df_register_callsite d = Some callsite_enabled \<longrightarrow>
         (callsite_enabled m = Never \<longrightarrow> \<not> df_enabled d m cx s) \<and>
         (callsite_enabled m = Always \<longrightarrow> df_enabled d m cx s)))"
  by (intro conjI filter_fn_sound_iff dyn_filter_sound_iff)

theorem filter_closures_sound_witness:
  "filter_sound (filter_fn_filter (filter_fn_with_max_level_hint (filter_fn_new (\<lambda>m. meta_level m = ERROR)) (from_level WARN)))"
  by (rule filter_closures_sound [THEN conjunct1, THEN iffD2])
    (simp add: filter_fn_with_max_level_hint_def filter_fn_new_def is_below_max_level_def level_le_filter_def from_level_def)

end
