(* ===== verification/Log_Bridge.thy ===== *)
theory Log_Bridge
  imports Span_Event
begin

text \<open>
  Records of the \<open>log\<close> crate as events: \<open>tracing-log/src/lib.rs\<close>.

  The types of the \<open>log\<close> crate are what the source uses of them: its levels, level filters, metadata and
  records. The five static callsites are compared by their addresses, which are the parameter \<open>cs\<close>, one for
  each level. \<open>None\<close> as a result is a panic.
\<close>

datatype log_level = LError | LWarn | LInfo | LDebug | LTrace

datatype log_level_filter = FOff | FError | FWarn | FInfo | FDebug | FTrace

record log_metadata =
  lm_level :: log_level
  lm_target :: string

record log_record =
  lr_metadata :: log_metadata
  lr_args :: string
  lr_module_path :: "string option"
  lr_file :: "string option"
  lr_line :: "32 word option"

subsection \<open>Levels\<close>

fun level_as_log :: "level \<Rightarrow> log_level" where
  "level_as_log ERROR = LError"
| "level_as_log WARN = LWarn"
| "level_as_log INFO = LInfo"
| "level_as_log DEBUG = LDebug"
| "level_as_log TRACE = LTrace"

fun level_as_trace :: "log_level \<Rightarrow> level" where
  "level_as_trace LError = ERROR"
| "level_as_trace LWarn = WARN"
| "level_as_trace LInfo = INFO"
| "level_as_trace LDebug = DEBUG"
| "level_as_trace LTrace = TRACE"

fun filter_as_trace :: "log_level_filter \<Rightarrow> level_filter" where
  "filter_as_trace FOff = OFF"
| "filter_as_trace FError = from_level ERROR"
| "filter_as_trace FWarn = from_level WARN"
| "filter_as_trace FInfo = from_level INFO"
| "filter_as_trace FDebug = from_level DEBUG"
| "filter_as_trace FTrace = from_level TRACE"

definition filter_as_log :: "level_filter \<Rightarrow> log_level_filter" where
  "filter_as_log f =
     (if f = OFF then FOff
      else if f = from_level ERROR then FError
      else if f = from_level WARN then FWarn
      else if f = from_level INFO then FInfo
      else if f = from_level DEBUG then FDebug
      else FTrace)"

subsection \<open>Callsites and fields\<close>

definition FIELD_NAMES :: "string list" where
  "FIELD_NAMES = [''message'', ''log.target'', ''log.module_path'', ''log.file'', ''log.line'']"

text \<open>What \<open>log_cs!\<close> declares for a level.\<close>

definition log_cs_meta :: "(level \<Rightarrow> callsite_id) \<Rightarrow> level \<Rightarrow> metadata" where
  "log_cs_meta cs l =
     \<lparr>meta_name = ''log event'', meta_target = ''log'', meta_level = l, meta_module_path = None,
      meta_file = None, meta_line = None,
      meta_fields = \<lparr>fs_names = FIELD_NAMES, fs_callsite = cs l\<rparr>, meta_kind = EVENT\<rparr>"

record log_fields =
  lf_message :: field
  lf_target :: field
  lf_module :: field
  lf_file :: field
  lf_line :: field

definition log_fields_new :: "metadata \<Rightarrow> log_fields option" where
  "log_fields_new m =
     (let fieldset = meta_fields m in
      Option.bind (field_lookup fieldset ''message'') (\<lambda>message.
      Option.bind (field_lookup fieldset ''log.target'') (\<lambda>target.
      Option.bind (field_lookup fieldset ''log.module_path'') (\<lambda>module.
      Option.bind (field_lookup fieldset ''log.file'') (\<lambda>file.
      Option.bind (field_lookup fieldset ''log.line'') (\<lambda>line.
        Some \<lparr>lf_message = message, lf_target = target, lf_module = module, lf_file = file, lf_line = line\<rparr>))))))"

definition level_to_cs :: "(level \<Rightarrow> callsite_id) \<Rightarrow> level \<Rightarrow> (callsite_id \<times> log_fields) option" where
  "level_to_cs cs l = map_option (\<lambda>fs. (cs l, fs)) (log_fields_new (log_cs_meta cs l))"

definition loglevel_to_cs ::
  "(level \<Rightarrow> callsite_id) \<Rightarrow> log_level \<Rightarrow> (callsite_id \<times> log_fields \<times> metadata) option" where
  "loglevel_to_cs cs l =
     map_option (\<lambda>fs. (cs (level_as_trace l), fs, log_cs_meta cs (level_as_trace l)))
       (log_fields_new (log_cs_meta cs (level_as_trace l)))"

subsection \<open>Metadata and records\<close>

definition metadata_as_log :: "metadata \<Rightarrow> log_metadata" where
  "metadata_as_log m = \<lparr>lm_level = level_as_log (meta_level m), lm_target = meta_target m\<rparr>"

definition log_metadata_as_trace :: "(level \<Rightarrow> callsite_id) \<Rightarrow> log_metadata \<Rightarrow> metadata option" where
  "log_metadata_as_trace cs m =
     map_option (\<lambda>(cs_id, _, _).
       \<lparr>meta_name = ''log record'', meta_target = lm_target m, meta_level = level_as_trace (lm_level m),
        meta_module_path = None, meta_file = None, meta_line = None,
        meta_fields = \<lparr>fs_names = FIELD_NAMES, fs_callsite = cs_id\<rparr>, meta_kind = EVENT\<rparr>)
       (loglevel_to_cs cs (lm_level m))"

definition record_as_trace :: "(level \<Rightarrow> callsite_id) \<Rightarrow> log_record \<Rightarrow> metadata option" where
  "record_as_trace cs r =
     map_option (\<lambda>(cs_id, _, _).
       \<lparr>meta_name = ''log record'', meta_target = lm_target (lr_metadata r),
        meta_level = level_as_trace (lm_level (lr_metadata r)),
        meta_module_path = lr_module_path r, meta_file = lr_file r, meta_line = map_option unat (lr_line r),
        meta_fields = \<lparr>fs_names = FIELD_NAMES, fs_callsite = cs_id\<rparr>, meta_kind = EVENT\<rparr>)
       (loglevel_to_cs cs (lm_level (lr_metadata r)))"

text \<open>The event that \<open>dispatch_record\<close> makes of a record.\<close>

definition record_event :: "(level \<Rightarrow> callsite_id) \<Rightarrow> log_record \<Rightarrow> 'f event option" where
  "record_event cs r =
     map_option (\<lambda>(_, keys, meta).
       event_new meta
         \<lparr>vs_values = Explicit
            [(lf_message keys, Some (VDebug (lr_args r))),
             (lf_target keys, Some (VStr (lm_target (lr_metadata r)))),
             (lf_module keys, map_option VStr (lr_module_path r)),
             (lf_file keys, map_option VStr (lr_file r)),
             (lf_line keys, map_option U32 (lr_line r))],
          vs_fields = meta_fields meta\<rparr>)
       (loglevel_to_cs cs (lm_level (lr_metadata r)))"

definition dispatch_record ::
  "(level \<Rightarrow> callsite_id) \<Rightarrow> (dispatch \<Rightarrow> 'f event \<Rightarrow> disp_state \<Rightarrow> disp_state) \<Rightarrow> thread \<Rightarrow> log_record \<Rightarrow>
   disp_state \<Rightarrow> disp_state option" where
  "dispatch_record cs deliver t r s =
     (case get_default t
        (\<lambda>d s. case record_as_trace cs r of
             None \<Rightarrow> (None, s)
           | Some filter_meta \<Rightarrow>
               if \<not> dispatch_enabled s d filter_meta then (Some (), s)
               else (case record_event cs r of
                       None \<Rightarrow> (None, s)
                     | Some e \<Rightarrow> (Some (), deliver d e s))) s of
        (Some _, s1) \<Rightarrow> Some s1
      | (None, _) \<Rightarrow> None)"

definition format_trace ::
  "(level \<Rightarrow> callsite_id) \<Rightarrow> (dispatch \<Rightarrow> 'f event \<Rightarrow> disp_state \<Rightarrow> disp_state) \<Rightarrow> thread \<Rightarrow> log_record \<Rightarrow>
   disp_state \<Rightarrow> disp_state option" where
  "format_trace cs deliver t r s = dispatch_record cs deliver t r s"

subsection \<open>Back from an event\<close>

record log_visitor =
  lv_target :: "string option"
  lv_module_path :: "string option"
  lv_file :: "string option"
  lv_line :: "64 word option"
  lv_fields :: log_fields

definition log_visitor_new :: "log_fields \<Rightarrow> log_visitor" where
  "log_visitor_new fs =
     \<lparr>lv_target = None, lv_module_path = None, lv_file = None, lv_line = None, lv_fields = fs\<rparr>"

definition log_record_u64 :: "field \<Rightarrow> 64 word \<Rightarrow> log_visitor \<Rightarrow> log_visitor" where
  "log_record_u64 f v vis = (if field_eq f (lf_line (lv_fields vis)) then vis\<lparr>lv_line := Some v\<rparr> else vis)"

definition log_record_str :: "field \<Rightarrow> string \<Rightarrow> log_visitor \<Rightarrow> log_visitor" where
  "log_record_str f v vis =
     (if field_eq f (lf_file (lv_fields vis)) then vis\<lparr>lv_file := Some v\<rparr>
      else if field_eq f (lf_target (lv_fields vis)) then vis\<lparr>lv_target := Some v\<rparr>
      else if field_eq f (lf_module (lv_fields vis)) then vis\<lparr>lv_module_path := Some v\<rparr>
      else vis)"

text \<open>The other methods of \<open>Visit\<close> end in \<open>record_debug\<close>, which ignores the value.\<close>

definition log_visit :: "field \<times> 'f recorded \<Rightarrow> log_visitor \<Rightarrow> log_visitor" where
  "log_visit x vis =
     (case snd x of
        RecU64 v \<Rightarrow> log_record_u64 (fst x) v vis
      | RecStr v \<Rightarrow> log_record_str (fst x) v vis
      | _ \<Rightarrow> vis)"

definition is_log :: "(level \<Rightarrow> callsite_id) \<Rightarrow> 'f event \<Rightarrow> bool" where
  "is_log cs e \<longleftrightarrow> meta_callsite (ev_metadata e) = cs (meta_level (ev_metadata e))"

text \<open>The outer \<open>None\<close> is a panic; \<open>lv_line\<close> is cut to 32 bits by the cast.\<close>

definition normalized_metadata :: "(level \<Rightarrow> callsite_id) \<Rightarrow> 'f event \<Rightarrow> metadata option option" where
  "normalized_metadata cs e =
     (let original = ev_metadata e in
      if is_log cs e then
        (case level_to_cs cs (meta_level original) of
           None \<Rightarrow> None
         | Some (_, keys) \<Rightarrow>
             (let vis = fold log_visit (value_set_record (ev_fields e)) (log_visitor_new keys) in
              Some (Some
                \<lparr>meta_name = ''log event'',
                 meta_target = (case lv_target vis of Some tgt \<Rightarrow> tgt | None \<Rightarrow> ''log''),
                 meta_level = meta_level original,
                 meta_module_path = lv_module_path vis,
                 meta_file = lv_file vis,
                 meta_line = map_option (\<lambda>l. unat (ucast l :: 32 word)) (lv_line vis),
                 meta_fields = \<lparr>fs_names = [''message''], fs_callsite = meta_callsite original\<rparr>,
                 meta_kind = EVENT\<rparr>)))
      else Some None)"

subsection \<open>Lemmas\<close>

lemma level_conversions [simp]: "level_as_trace (level_as_log l) = l" "level_as_log (level_as_trace k) = k"
  by (cases l; simp) (cases k; simp)

lemma filter_conversions: "filter_as_trace (filter_as_log f) = f" "filter_as_log (filter_as_trace g) = g"
proof -
  have "f = OFF \<or> (\<exists>l. f = from_level l)" by (cases f; cases "into_level f") (auto simp: from_level_def)
  then show "filter_as_trace (filter_as_log f) = f"
  proof
    assume "\<exists>l. f = from_level l"
    then obtain l where "f = from_level l" ..
    then show ?thesis by (cases l) (simp_all add: filter_as_log_def from_level_def)
  qed (simp add: filter_as_log_def)
  show "filter_as_log (filter_as_trace g) = g"
    by (cases g) (simp_all add: filter_as_log_def from_level_def)
qed

text \<open>The fields are found, each at its place.\<close>

definition log_key :: "callsite_id \<Rightarrow> nat \<Rightarrow> field" where
  "log_key c i = \<lparr>field_i = i, field_fields = \<lparr>fs_names = FIELD_NAMES, fs_callsite = c\<rparr>\<rparr>"

lemma log_fields_new_Some: "log_fields_new (log_cs_meta cs l) =
  Some \<lparr>lf_message = log_key (cs l) 0, lf_target = log_key (cs l) 1, lf_module = log_key (cs l) 2,
    lf_file = log_key (cs l) 3, lf_line = log_key (cs l) 4\<rparr>"
  by (simp add: log_fields_new_def log_cs_meta_def field_lookup_def FIELD_NAMES_def log_key_def eval_nat_numeral Let_def)

lemma log_key_eq: "field_eq (log_key c i) (log_key c j) \<longleftrightarrow> i = j" "field_callsite (log_key c i) = c"
  by (simp_all add: field_eq_def field_callsite_def log_key_def)

lemma loglevel_to_cs_Some: "\<exists>keys. loglevel_to_cs cs l = Some (cs (level_as_trace l), keys, log_cs_meta cs (level_as_trace l))"
  by (simp add: loglevel_to_cs_def log_fields_new_Some)

definition normalized_record :: "(level \<Rightarrow> callsite_id) \<Rightarrow> log_record \<Rightarrow> metadata" where
  "normalized_record cs r =
     \<lparr>meta_name = ''log event'', meta_target = lm_target (lr_metadata r),
      meta_level = level_as_trace (lm_level (lr_metadata r)), meta_module_path = lr_module_path r,
      meta_file = lr_file r, meta_line = map_option unat (lr_line r),
      meta_fields = \<lparr>fs_names = [''message''], fs_callsite = cs (level_as_trace (lm_level (lr_metadata r)))\<rparr>,
      meta_kind = EVENT\<rparr>"

lemma ucast_line: "unat (ucast (ucast (l :: 32 word) :: 64 word) :: 32 word) = unat l"
proof -
  have "unat l < 2 ^ 32" using unsigned_less [of l] by simp
  then show ?thesis by (simp add: unsigned_ucast_eq take_bit_nat_eq_self take_bit_word_eq_self)
qed

lemma record_event_normalized:
  "\<exists>e :: 'f event. record_event cs r = Some e \<and> is_log cs e \<and>
     normalized_metadata cs e = Some (Some (normalized_record cs r)) \<and>
     (log_key (cs (level_as_trace (lm_level (lr_metadata r)))) 0, RecDebug (lr_args r)) \<in> set (value_set_record (ev_fields e))"
proof -
  let ?l = "level_as_trace (lm_level (lr_metadata r))"
  let ?k = "log_key (cs ?l)"
  let ?vs = "[(?k 0, Some (VDebug (lr_args r))), (?k 1, Some (VStr (lm_target (lr_metadata r)))),
     (?k 2, map_option VStr (lr_module_path r)), (?k 3, map_option VStr (lr_file r)), (?k 4, map_option U32 (lr_line r))]"
  let ?e = "event_new (log_cs_meta cs ?l) \<lparr>vs_values = Explicit ?vs, vs_fields = meta_fields (log_cs_meta cs ?l)\<rparr> :: 'f event"
  have e: "record_event cs r = Some ?e"
    by (simp add: record_event_def loglevel_to_cs_def log_fields_new_Some)
  have rec: "value_set_record (ev_fields ?e) = record_each ?vs"
    by (simp add: value_set_record_def event_new_def value_set_callsite_def log_cs_meta_def log_key_eq)
  have log: "is_log cs ?e" by (simp add: is_log_def event_new_def log_cs_meta_def meta_callsite_def)
  have "normalized_metadata cs ?e = Some (Some (normalized_record cs r))"
    unfolding normalized_metadata_def rec using log
    by (cases "lr_module_path r"; cases "lr_file r"; cases "lr_line r")
      (simp_all add: level_to_cs_def event_new_def log_cs_meta_def [of cs ?l] log_fields_new_Some [unfolded log_cs_meta_def]
        log_visit_def log_record_str_def log_record_u64_def log_visitor_new_def log_key_eq normalized_record_def
        meta_callsite_def ucast_line Let_def)
  with e log rec show ?thesis by (intro exI [of _ ?e]) simp
qed

text \<open>
  C34. A record of the \<open>log\<close> crate survives its translation: the event that is dispatched for it is recognised
  as a log event, and its normalized metadata have the record's target, level, file, line and module path
  again, while the message is recorded as the event's message. The two translations of levels and level
  filters are inverse to each other.
\<close>

theorem log_record_roundtrip:
  "(\<exists>e :: 'f event. record_event cs r = Some e \<and> is_log cs e \<and>
      normalized_metadata cs e = Some (Some
        \<lparr>meta_name = ''log event'', meta_target = lm_target (lr_metadata r),
         meta_level = level_as_trace (lm_level (lr_metadata r)), meta_module_path = lr_module_path r,
         meta_file = lr_file r, meta_line = map_option unat (lr_line r),
         meta_fields = \<lparr>fs_names = [''message''], fs_callsite = cs (level_as_trace (lm_level (lr_metadata r)))\<rparr>,
         meta_kind = EVENT\<rparr>) \<and>
      (\<exists>f. field_name f = Some ''message'' \<and> (f, RecDebug (lr_args r)) \<in> set (value_set_record (ev_fields e)))) \<and>
   level_as_trace (level_as_log l) = l \<and> level_as_log (level_as_trace k) = k \<and>
   filter_as_trace (filter_as_log f) = f \<and> filter_as_log (filter_as_trace g) = g"
proof (intro conjI)
  have "field_name (log_key c 0) = Some ''message''" for c
    by (simp add: field_name_def log_key_def FIELD_NAMES_def)
  with record_event_normalized [where ?'f = 'f, of cs r] show "\<exists>e :: 'f event. record_event cs r = Some e \<and> is_log cs e \<and>
      normalized_metadata cs e = Some (Some
        \<lparr>meta_name = ''log event'', meta_target = lm_target (lr_metadata r),
         meta_level = level_as_trace (lm_level (lr_metadata r)), meta_module_path = lr_module_path r,
         meta_file = lr_file r, meta_line = map_option unat (lr_line r),
         meta_fields = \<lparr>fs_names = [''message''], fs_callsite = cs (level_as_trace (lm_level (lr_metadata r)))\<rparr>,
         meta_kind = EVENT\<rparr>) \<and>
      (\<exists>f. field_name f = Some ''message'' \<and> (f, RecDebug (lr_args r)) \<in> set (value_set_record (ev_fields e)))"
    unfolding normalized_record_def by blast
qed (simp_all add: filter_conversions)

end
