(* ===== verification/Reload.thy ===== *)
theory Reload
  imports Layer_Compose Callsite Log_Bridge
begin

text \<open>
  Layers and filters that can be replaced while the program runs: \<open>tracing-subscriber/src/reload.rs\<close>,
  with \<open>try_lock!\<close> of \<open>macros.rs\<close>.

  The value behind the \<open>RwLock\<close> is a cell; a handle refers to it weakly. A closure given to \<open>modify\<close> may panic
  and leaves then whatever it has written behind a poisoned lock. The subscriber that contains the cell,
  \<open>i\<close>, answers according to the value in it: \<open>wrap v\<close> is how it answers when the value is \<open>v\<close>. A handle's operation
  returns or panics, and is \<open>None\<close> if it does not end.
\<close>

record 'l reload_cell =
  rc_value :: 'l
  rc_poisoned :: bool
  rc_alive :: bool

datatype reload_error = SubscriberGone | Poisoned

datatype 'a outcome = Returned "reload_error + 'a" | Panicked

record 'l reload_sys =
  rs_cell :: "'l reload_cell"
  rs_cs :: cs_state
  rs_log_max :: log_level_filter

definition reload_new :: "'l \<Rightarrow> 'l reload_cell" where
  "reload_new inner = \<lparr>rc_value = inner, rc_poisoned = False, rc_alive = True\<rparr>"

text \<open>The outer \<open>None\<close> is the panic, the inner one the \<open>else\<close> branch.\<close>

definition try_lock :: "bool \<Rightarrow> 'l reload_cell \<Rightarrow> 'l option option" where
  "try_lock panicking c =
     (if \<not> rc_poisoned c then Some (Some (rc_value c)) else if panicking then Some None else None)"

definition reload_is_poisoned :: "reload_error \<Rightarrow> bool" where
  "reload_is_poisoned e \<longleftrightarrow> e = Poisoned"

definition reload_is_dropped :: "reload_error \<Rightarrow> bool" where
  "reload_is_dropped e \<longleftrightarrow> e = SubscriberGone"

definition reload_error_display :: "reload_error \<Rightarrow> string" where
  "reload_error_display e =
     (case e of SubscriberGone \<Rightarrow> ''subscriber no longer exists'' | Poisoned \<Rightarrow> ''lock poisoned'')"

subsection \<open>As a layer and as a filter\<close>

text \<open>The layer at the time of a call. Only the marker of \<open>None\<close> can be found by downcasting.\<close>

definition reload_layer :: "bool \<Rightarrow> ('f, 'w) layer reload_cell \<Rightarrow> ('f, 'w) layer option" where
  "reload_layer panicking c =
     (case try_lock panicking c of
        None \<Rightarrow> None
      | Some (Some l) \<Rightarrow> Some (l\<lparr>ly_has_plf := False\<rparr>)
      | Some None \<Rightarrow>
          Some \<lparr>ly_register_callsite = (\<lambda>m s. (Sometimes, s)), ly_enabled = (\<lambda>_ _ s. (False, s)),
                ly_event_enabled = (\<lambda>_ _ s. (False, s)), ly_max_level_hint = None, ly_notify = (\<lambda>_ _ s. s),
                ly_has_plf = False, ly_is_none = False\<rparr>)"

text \<open>As a filter it has no \<open>event_enabled\<close> of its own: the provided method says yes.\<close>

definition reload_filter :: "bool \<Rightarrow> ('f, 'w) layer_filter reload_cell \<Rightarrow> ('f, 'w) layer_filter option" where
  "reload_filter panicking c =
     (case try_lock panicking c of
        None \<Rightarrow> None
      | Some (Some f) \<Rightarrow>
          Some ((filter_defaults (ft_enabled f))
            \<lparr>ft_callsite_enabled := ft_callsite_enabled f, ft_max_level_hint := ft_max_level_hint f,
             ft_notify := ft_notify f\<rparr>)
      | Some None \<Rightarrow> Some (filter_defaults (\<lambda>_ _ _. False)))"

subsection \<open>Handles\<close>

definition sync_subscriber :: "sub_id \<Rightarrow> ('l \<Rightarrow> subscriber) \<Rightarrow> 'l reload_sys \<Rightarrow> 'l reload_sys" where
  "sync_subscriber i wrap st =
     st\<lparr>rs_cs := (rs_cs st)\<lparr>cs_disp := (cs_disp (rs_cs st))
       \<lparr>ds_arcs := (ds_arcs (cs_disp (rs_cs st)))(i := Some (wrap (rc_value (rs_cell st))))\<rparr>\<rparr>\<rparr>"

definition handle_modify ::
  "bool \<Rightarrow> thread \<Rightarrow> sub_id \<Rightarrow> ('l \<Rightarrow> subscriber) \<Rightarrow> ('l \<Rightarrow> 'l \<times> bool) \<Rightarrow> 'l reload_sys \<Rightarrow>
   (unit outcome \<times> 'l reload_sys) option" where
  "handle_modify panicking t i wrap f st =
     (if \<not> rc_alive (rs_cell st) then Some (Returned (Inl SubscriberGone), st)
      else case try_lock panicking (rs_cell st) of
        None \<Rightarrow> Some (Panicked, st)
      | Some None \<Rightarrow> Some (Returned (Inl Poisoned), st)
      | Some (Some v) \<Rightarrow>
          (let (v1, finished) = f v;
               st1 = sync_subscriber i wrap (st\<lparr>rs_cell := (rs_cell st)\<lparr>rc_value := v1\<rparr>\<rparr>)
           in if \<not> finished then Some (Panicked, st1\<lparr>rs_cell := (rs_cell st1)\<lparr>rc_poisoned := True\<rparr>\<rparr>)
              else case rebuild_interest_cache t (rs_cs st1) of
                None \<Rightarrow> None
              | Some cs1 \<Rightarrow>
                  (case current_max (cs_max_level cs1) of
                     None \<Rightarrow> Some (Panicked, st1\<lparr>rs_cs := cs1\<rparr>)
                   | Some mx \<Rightarrow> Some (Returned (Inr ()), st1\<lparr>rs_cs := cs1, rs_log_max := filter_as_log mx\<rparr>))))"

definition handle_reload ::
  "bool \<Rightarrow> thread \<Rightarrow> sub_id \<Rightarrow> ('l \<Rightarrow> subscriber) \<Rightarrow> 'l \<Rightarrow> 'l reload_sys \<Rightarrow>
   (unit outcome \<times> 'l reload_sys) option" where
  "handle_reload panicking t i wrap new_value st =
     handle_modify panicking t i wrap (\<lambda>_. (new_value, True)) st"

definition handle_with_current :: "bool \<Rightarrow> ('l \<Rightarrow> 'a) \<Rightarrow> 'l reload_cell \<Rightarrow> 'a outcome" where
  "handle_with_current panicking f c =
     (if \<not> rc_alive c then Returned (Inl SubscriberGone)
      else case try_lock panicking c of
        None \<Rightarrow> Panicked
      | Some None \<Rightarrow> Returned (Inl Poisoned)
      | Some (Some v) \<Rightarrow> Returned (Inr (f v)))"

text \<open>\<open>.ok()\<close> of the result; the outer \<open>None\<close> is the panic.\<close>

definition handle_clone_current :: "bool \<Rightarrow> 'l reload_cell \<Rightarrow> 'l option option" where
  "handle_clone_current panicking c =
     (case handle_with_current panicking id c of
        Panicked \<Rightarrow> None
      | Returned (Inr v) \<Rightarrow> Some (Some v)
      | Returned (Inl _) \<Rightarrow> Some None)"

subsection \<open>A reload takes effect\<close>

lemma get_global_arcs [simp]: "get_global (s\<lparr>ds_arcs := x\<rparr>) = get_global s"
  by (simp add: get_global_def)

lemma dispatch_default_arcs [simp]: "dispatch_default t (s\<lparr>ds_arcs := x\<rparr>) = dispatch_default t s"
  by (simp add: dispatch_default_eq entered_current_def split: option.split)

text \<open>The rebuild after a modification that has succeeded, on the state with the new value.\<close>

lemma modify_rebuilds:
  fixes st :: "'l reload_sys" and i :: sub_id and wrap :: "'l \<Rightarrow> subscriber"
  assumes "rc_alive (rs_cell st)" "\<not> rc_poisoned (rs_cell st)" "callsites_ok (rs_cs st) as" "f (rc_value (rs_cell st)) = (v, True)"
  defines "cs0 \<equiv> rs_cs (sync_subscriber i wrap (st\<lparr>rs_cell := (rs_cell st)\<lparr>rc_value := v\<rparr>\<rparr>))"
  shows "\<exists>cs1 mx. handle_modify panicking t i wrap f st =
      Some (Returned (Inr ()), \<lparr>rs_cell = (rs_cell st)\<lparr>rc_value := v\<rparr>, rs_cs = cs1, rs_log_max = filter_as_log mx\<rparr>) \<and>
    callsites_ok cs1 as \<and> current_max (cs_max_level cs1) = Some mx \<and>
    mx = max_hint OFF (map (dispatch_max_level_hint cs0) (rebuilder_dispatches t cs0 (dispatchers_rebuilder cs0))) \<and>
    (\<forall>a d. a \<in> set as \<longrightarrow> cs_heap cs1 a = Some d \<longrightarrow>
       decode_interest (dc_interest d) = rebuilt_interest t cs0 (dispatchers_rebuilder cs0) (dc_meta d))"
proof -
  let ?st1 = "sync_subscriber i wrap (st\<lparr>rs_cell := (rs_cell st)\<lparr>rc_value := v\<rparr>\<rparr>)"
  have "callsites_ok cs0 as" using assms(3) by (simp add: cs0_def sync_subscriber_def callsites_ok_def)
  from rebuilt_cache [OF this, of t "dispatchers_rebuilder cs0"] obtain cs1 where cs1:
      "rebuild_interest_cache t cs0 = Some cs1" "callsites_ok cs1 as"
      "\<forall>a d. a \<in> set as \<longrightarrow> cs_heap cs1 a = Some d \<longrightarrow>
        decode_interest (dc_interest d) = rebuilt_interest t cs0 (dispatchers_rebuilder cs0) (dc_meta d)"
      "current_max (cs_max_level cs1) =
        Some (max_hint OFF (map (dispatch_max_level_hint cs0) (rebuilder_dispatches t cs0 (dispatchers_rebuilder cs0))))"
    unfolding rebuild_interest_cache_def by blast
  have "?st1\<lparr>rs_cs := cs1, rs_log_max := k\<rparr> = \<lparr>rs_cell = (rs_cell st)\<lparr>rc_value := v\<rparr>, rs_cs = cs1, rs_log_max = k\<rparr>" for k
    by (simp add: sync_subscriber_def)
  then have "handle_modify panicking t i wrap f st = Some (Returned (Inr ()), \<lparr>rs_cell = (rs_cell st)\<lparr>rc_value := v\<rparr>, rs_cs = cs1,
      rs_log_max = filter_as_log (max_hint OFF (map (dispatch_max_level_hint cs0)
        (rebuilder_dispatches t cs0 (dispatchers_rebuilder cs0))))\<rparr>)"
    using assms(1,2,4) cs1(1,4) by (simp add: handle_modify_def try_lock_def cs0_def Let_def)
  with cs1 show ?thesis by blast
qed

text \<open>The dispatches that the rebuild visits, and how the reloaded subscriber answers.\<close>

lemma sync_disp:
  "cs_disp (rs_cs (sync_subscriber i wrap st)) =
     (cs_disp (rs_cs st))\<lparr>ds_arcs := (ds_arcs (cs_disp (rs_cs st)))(i := Some (wrap (rc_value (rs_cell st))))\<rparr>"
  "cs_has_just_one (rs_cs (sync_subscriber i wrap st)) = cs_has_just_one (rs_cs st)"
  "cs_dispatchers (rs_cs (sync_subscriber i wrap st)) = cs_dispatchers (rs_cs st)"
  by (simp_all add: sync_subscriber_def)

lemma sync_answers:
  "dispatch_register_callsite (rs_cs (sync_subscriber i wrap st)) m (Scoped i) =
     sub_register_callsite (wrap (rc_value (rs_cell st))) m"
  "dispatch_max_level_hint (rs_cs (sync_subscriber i wrap st)) (Scoped i) =
     sub_max_level_hint (wrap (rc_value (rs_cell st)))"
  by (simp_all add: dispatch_register_callsite_def dispatch_max_level_hint_def dispatch_subscriber_def sync_disp)

lemma sync_visits:
  fixes wrap :: "'l \<Rightarrow> subscriber"
  assumes "Scoped i \<in> set (cs_dispatchers (rs_cs st))"
    and "cs_has_just_one (rs_cs st) \<longrightarrow> dispatch_default t (cs_disp (rs_cs st)) = Scoped i"
  defines "cs0 \<equiv> rs_cs (sync_subscriber i wrap st)"
  shows "Scoped i \<in> set (rebuilder_dispatches t cs0 (dispatchers_rebuilder cs0))"
proof -
  have "registrar_upgrade (cs_disp cs0) (Scoped i) = Some (Scoped i)"
    by (simp add: cs0_def sync_disp registrar_upgrade_def)
  with assms(1) have "Scoped i \<in> {y. \<exists>x \<in> set (cs_dispatchers cs0). registrar_upgrade (cs_disp cs0) x = Some y}"
    by (auto simp: cs0_def sync_disp)
  then show ?thesis
    using assms(2)
    by (simp add: rebuilder_dispatches_def dispatchers_rebuilder_def set_map_filter cs0_def sync_disp)
qed


text \<open>A subscriber made of a stack of layers that keep no state.\<close>

definition stack_subscriber :: "('f, 'w) layered list \<Rightarrow> 'w lstate \<Rightarrow> subscriber" where
  "stack_subscriber ds s =
     \<lparr>sub_register_callsite = (\<lambda>m. fst (stack_register_callsite ds m s)),
      sub_enabled = (\<lambda>m. fst (stack_enabled ds m s)),
      sub_max_level_hint = stack_max_level_hint ds\<rparr>"

definition level_wrap :: "level_filter \<Rightarrow> subscriber" where
  "level_wrap l = stack_subscriber (stack_of [level_filter_layer l :: (unit, (nat \<times> unit event) list) layer]) demo_lstate"

lemma level_wrap_answers:
  "sub_register_callsite (level_wrap l) m = (if level_le_filter (meta_level m) l then Always else Never)"
  "sub_max_level_hint (level_wrap l) = Some l"
  by (simp_all add: level_wrap_def stack_subscriber_def layered_new_def pick_interest_def level_filter_layer_def
      layer_defaults_def registry_register_callsite_def demo_lstate_def filter_state_new_def filter_ge_level_def
      level_le_filter_def take_interest_def pick_level_hint_def Let_def)

definition demo_reload :: "level_filter reload_sys" where
  "demo_reload =
     \<lparr>rs_cell = reload_new (from_level WARN),
      rs_cs = (demo_registry [1 \<mapsto> level_wrap (from_level WARN)])
        \<lparr>cs_heap := [9 \<mapsto> (new_callsite (demo_event ''app'' INFO))\<lparr>dc_registration := REGISTERED, dc_interest := INTEREST_NEVER\<rparr>],
         cs_head := Some 9, cs_has_just_one := True, cs_dispatchers := [Scoped 1],
         cs_disp := snd (set_default 0 (Scoped 1) (disp_init [1 \<mapsto> level_wrap (from_level WARN)]))\<rparr>,
      rs_log_max = FWarn\<rparr>"

lemma demo_reload_facts:
  "rc_alive (rs_cell demo_reload)" "\<not> rc_poisoned (rs_cell demo_reload)" "callsites_ok (rs_cs demo_reload) [9]"
  "Scoped 1 \<in> set (cs_dispatchers (rs_cs demo_reload))" "cs_has_just_one (rs_cs demo_reload)"
  "dispatch_default 0 (cs_disp (rs_cs demo_reload)) = Scoped 1" "dispatch_default 5 (cs_disp (rs_cs demo_reload)) = NONE"
  by (simp_all add: demo_reload_def reload_new_def callsites_ok_def demo_registry_def empty_registry_def new_callsite_def
      set_default_def disp_init_def tls_init_def dispatch_default_eq entered_current_def get_global_def Let_def)


text \<open>
  With one dispatcher registered the rebuild asks the calling thread's default instead. A reload from a
  thread that has none returns without an error and leaves every callsite cached as never interesting,
  whatever the new value.
\<close>

theorem reload_from_other_thread:
  assumes "rc_alive (rs_cell st)" "\<not> rc_poisoned (rs_cell st)" "callsites_ok (rs_cs st) as"
    and "cs_has_just_one (rs_cs st)" "dispatch_default t (cs_disp (rs_cs st)) = NONE"
  shows "\<exists>st'. handle_reload panicking t i wrap v st = Some (Returned (Inr ()), st') \<and>
    (\<forall>a d. a \<in> set as \<longrightarrow> cs_heap (rs_cs st') a = Some d \<longrightarrow> decode_interest (dc_interest d) = Never)"
proof -
  let ?cs0 = "rs_cs (sync_subscriber i wrap (st\<lparr>rs_cell := (rs_cell st)\<lparr>rc_value := v\<rparr>\<rparr>))"
  have "rebuilt_interest t ?cs0 (dispatchers_rebuilder ?cs0) k = Never" for k
    using assms(4,5) by (simp add: rebuilt_interest_def rebuilder_dispatches_def dispatchers_rebuilder_def sync_disp
        dispatch_register_callsite_def NONE_def dispatch_subscriber_def no_subscriber_def)
  with modify_rebuilds [OF assms(1-3), of "\<lambda>_. (v, True)" v panicking t i wrap] show ?thesis
    unfolding handle_reload_def by auto
qed

theorem reload_from_other_thread_witness:
  "\<exists>st'. handle_reload False 5 1 level_wrap (from_level TRACE) demo_reload = Some (Returned (Inr ()), st') \<and>
     (\<forall>d. cs_heap (rs_cs st') 9 = Some d \<longrightarrow> decode_interest (dc_interest d) = Never)"
  using reload_from_other_thread [OF demo_reload_facts(1,2,3,5,7), of False 1 level_wrap "from_level TRACE"] by simp

subsection \<open>When the lock is poisoned or the layer gone\<close>

text \<open>
  Every outcome of a modification. The error for a poisoned lock is returned only to a thread that is
  already panicking; any other thread panics itself.
\<close>

theorem modify_outcomes:
  "(\<not> rc_alive (rs_cell st) \<longrightarrow> handle_modify panicking t i wrap f st = Some (Returned (Inl SubscriberGone), st)) \<and>
   (rc_alive (rs_cell st) \<and> rc_poisoned (rs_cell st) \<longrightarrow> handle_modify panicking t i wrap f st =
      Some (if panicking then Returned (Inl Poisoned) else Panicked, st)) \<and>
   (rc_alive (rs_cell st) \<and> \<not> rc_poisoned (rs_cell st) \<and> \<not> snd (f (rc_value (rs_cell st))) \<longrightarrow>
      (\<exists>st'. handle_modify panicking t i wrap f st = Some (Panicked, st') \<and> rc_poisoned (rs_cell st') \<and>
         rc_value (rs_cell st') = fst (f (rc_value (rs_cell st)))))"
  by (auto simp: handle_modify_def try_lock_def sync_subscriber_def Let_def split: prod.split)

theorem modify_outcomes_witness:
  "handle_modify False 0 1 level_wrap (\<lambda>l. (l, True)) (demo_reload\<lparr>rs_cell := (rs_cell demo_reload)\<lparr>rc_poisoned := True\<rparr>\<rparr>) =
     Some (Panicked, demo_reload\<lparr>rs_cell := (rs_cell demo_reload)\<lparr>rc_poisoned := True\<rparr>\<rparr>)"
  using modify_outcomes [of "demo_reload\<lparr>rs_cell := (rs_cell demo_reload)\<lparr>rc_poisoned := True\<rparr>\<rparr>"] demo_reload_facts(1) by simp

text \<open>
  A reloadable filter does not pass on \<open>event_enabled\<close>: a filter that rejects events by their fields lets
  all of them through once it is wrapped.
\<close>

theorem reload_filter_event_enabled:
  "reload_filter panicking (reload_new f) = Some g \<Longrightarrow>
   ft_enabled g = ft_enabled f \<and> ft_callsite_enabled g = ft_callsite_enabled f \<and> ft_event_enabled g e cx s"
  by (auto simp: reload_filter_def try_lock_def reload_new_def filter_defaults_def)

text \<open>
  As a filter, the wrapper keeps the contract of \<open>Filter\<close> if the filter in it does, also while the thread is
  unwinding and the lock cannot be had.
\<close>

theorem reload_filter_sound:
  assumes "filter_sound (rc_value c)" and "reload_filter panicking c = Some g"
  shows "filter_sound g"
proof (cases "rc_poisoned c")
  case False
  with assms(2) have "ft_enabled g = ft_enabled (rc_value c)" "ft_callsite_enabled g = ft_callsite_enabled (rc_value c)"
    "ft_max_level_hint g = ft_max_level_hint (rc_value c)"
    by (auto simp: reload_filter_def try_lock_def filter_defaults_def)
  with assms(1) show ?thesis by (simp add: filter_sound_def)
next
  case True
  with assms(2) have "g = filter_defaults (\<lambda>_ _ _. False)" by (auto simp: reload_filter_def try_lock_def split: if_splits)
  then show ?thesis by (simp add: filter_sound_def filter_defaults_def)
qed

end
