(* ===== verification/Log_Tracer.thy ===== *)
theory Log_Tracer
  imports Log_Bridge
begin

text \<open>
  The logger that turns records of the \<open>log\<close> crate into events, and its cache of decisions:
  \<open>tracing-log/src/log_tracer.rs\<close> and \<open>interest_cache.rs\<close>.

  The cache is the \<open>lru\<close> crate's and its hash the \<open>ahash\<close> crate's, which the repository only calls: both are
  the parameter \<open>log_lib\<close>, and \<open>lru_ok\<close> states what the first documents. Each thread has a cache of its own,
  which is thrown away when the global epoch has changed; a callsite that the core notifies of every
  rebuild (the sentinel) advances the epoch. The \<open>RefCell\<close> around the thread's state is a flag, and borrowing
  it twice a panic, \<open>None\<close>. The lock of the configuration is never poisoned.
\<close>

unbundle bit_operations_syntax

record cache_config =
  cc_min_verbosity :: log_level
  cc_lru_cache_size :: nat

definition cache_config_default :: cache_config where
  "cache_config_default = \<lparr>cc_min_verbosity = LDebug, cc_lru_cache_size = 1024\<rparr>"

definition cache_config_disabled :: cache_config where
  "cache_config_disabled = cache_config_default\<lparr>cc_lru_cache_size := 0\<rparr>"

definition with_min_verbosity :: "cache_config \<Rightarrow> log_level \<Rightarrow> cache_config" where
  "with_min_verbosity c l = c\<lparr>cc_min_verbosity := l\<rparr>"

definition with_lru_cache_size :: "cache_config \<Rightarrow> nat \<Rightarrow> cache_config" where
  "with_lru_cache_size c n = c\<lparr>cc_lru_cache_size := n\<rparr>"

record cache_key =
  ck_target_address :: u64
  ck_level_and_length :: u64

record 'c log_lib =
  ll_new :: "nat \<Rightarrow> 'c"
  ll_cap :: "'c \<Rightarrow> nat"
  ll_get :: "cache_key \<Rightarrow> 'c \<Rightarrow> u64 option \<times> 'c"
  ll_put :: "cache_key \<Rightarrow> u64 \<Rightarrow> 'c \<Rightarrow> 'c"
  ll_hash :: "string \<Rightarrow> u64"

record 'c cache_state =
  cst_min_verbosity :: log_level
  cst_epoch :: u64
  cst_cache :: 'c

definition cache_state_new :: "'c log_lib \<Rightarrow> u64 \<Rightarrow> cache_config \<Rightarrow> 'c cache_state" where
  "cache_state_new lib epoch config =
     \<lparr>cst_min_verbosity = cc_min_verbosity config, cst_epoch = epoch,
      cst_cache = ll_new lib (cc_lru_cache_size config)\<rparr>"

text \<open>
  \<open>INTEREST_CACHE_EPOCH\<close>, \<open>CONFIG\<close>, whether its initialiser has registered the sentinel, and for each
  thread its \<open>STATE\<close>, made when it is first used, with its borrow flag.
\<close>

record 'c cache_world =
  cw_epoch :: u64
  cw_config :: cache_config
  cw_registered :: bool
  cw_state :: "thread \<Rightarrow> 'c cache_state option"
  cw_borrowed :: "thread \<Rightarrow> bool"

definition cache_world_init :: "'c cache_world" where
  "cache_world_init =
     \<lparr>cw_epoch = 0, cw_config = cache_config_disabled, cw_registered = False,
      cw_state = (\<lambda>_. None), cw_borrowed = (\<lambda>_. False)\<rparr>"

definition interest_cache_epoch :: "'c cache_world \<Rightarrow> u64" where
  "interest_cache_epoch w = cw_epoch w"

text \<open>\<open>SentinelCallsite::set_interest\<close>, which the core calls at each rebuild once the sentinel is registered.\<close>

definition sentinel_set_interest :: "'c cache_world \<Rightarrow> 'c cache_world" where
  "sentinel_set_interest w = w\<lparr>cw_epoch := cw_epoch w + 1\<rparr>"

definition on_rebuild :: "'c cache_world \<Rightarrow> 'c cache_world" where
  "on_rebuild w = (if cw_registered w then sentinel_set_interest w else w)"

text \<open>The initialiser of \<open>CONFIG\<close>: registering the sentinel sets its interest.\<close>

definition force_config :: "'c cache_world \<Rightarrow> 'c cache_world" where
  "force_config w = (if cw_registered w then w else sentinel_set_interest (w\<lparr>cw_registered := True\<rparr>))"

definition configure :: "cache_config option \<Rightarrow> 'c cache_world \<Rightarrow> 'c cache_world" where
  "configure new_config w =
     (let w1 = force_config w;
          w2 = w1\<lparr>cw_config := (case new_config of Some c \<Rightarrow> c | None \<Rightarrow> cache_config_disabled)\<rparr>
      in w2\<lparr>cw_epoch := cw_epoch w2 + 1\<rparr>)"

definition local_state :: "'c log_lib \<Rightarrow> thread \<Rightarrow> 'c cache_world \<Rightarrow> 'c cache_state \<times> 'c cache_world" where
  "local_state lib t w =
     (case cw_state w t of
        Some st \<Rightarrow> (st, w)
      | None \<Rightarrow>
          (let w1 = force_config w;
               st = cache_state_new lib (interest_cache_epoch w1) (cw_config w1)
           in (st, w1\<lparr>cw_state := (cw_state w1)(t := Some st)\<rparr>)))"

text \<open>The discriminants of \<open>log::Level\<close>, which the key packs, and the order they give.\<close>

fun log_level_usize :: "log_level \<Rightarrow> nat" where
  "log_level_usize LError = 1"
| "log_level_usize LWarn = 2"
| "log_level_usize LInfo = 3"
| "log_level_usize LDebug = 4"
| "log_level_usize LTrace = 5"

definition HASH_MASK :: u64 where "HASH_MASK = NOT 1"
definition INTEREST_MASK :: u64 where "INTEREST_MASK = 1"

text \<open>A target is a string at an address.\<close>

definition cache_key_of :: "log_level \<Rightarrow> u64 \<Rightarrow> string \<Rightarrow> cache_key" where
  "cache_key_of level addr target =
     \<lparr>ck_target_address = addr,
      ck_level_and_length = of_nat (log_level_usize level) OR push_bit 3 (of_nat (length target))\<rparr>"

text \<open>The part of \<open>try_cache\<close> after the state has been brought up to date.\<close>

definition cache_lookup ::
  "'c log_lib \<Rightarrow> thread \<Rightarrow> log_metadata \<Rightarrow> u64 \<Rightarrow> ('c cache_world \<Rightarrow> (bool \<times> 'c cache_world) option) \<Rightarrow>
   'c cache_state \<Rightarrow> 'c cache_world \<Rightarrow> (bool \<times> 'c cache_world) option" where
  "cache_lookup lib t m addr callback st w =
     (let target_hash = ll_hash lib (lm_target m) AND HASH_MASK;
          key = cache_key_of (lm_level m) addr (lm_target m);
          (found, cache1) = ll_get lib key (cst_cache st);
          w1 = w\<lparr>cw_state := (cw_state w)(t := Some (st\<lparr>cst_cache := cache1\<rparr>))\<rparr>;
          miss = (case callback w1 of
             None \<Rightarrow> None
           | Some (interest, w2) \<Rightarrow>
               Some (interest, w2\<lparr>cw_state := (cw_state w2)(t := Some (st\<lparr>cst_cache :=
                 ll_put lib key (target_hash OR (if interest then 1 else 0)) cache1\<rparr>))\<rparr>))
      in case found of
           Some cached \<Rightarrow>
             if cached AND HASH_MASK = target_hash then Some (cached AND INTEREST_MASK \<noteq> 0, w1) else miss
         | None \<Rightarrow> miss)"

definition try_cache ::
  "'c log_lib \<Rightarrow> thread \<Rightarrow> log_metadata \<Rightarrow> u64 \<Rightarrow> ('c cache_world \<Rightarrow> (bool \<times> 'c cache_world) option) \<Rightarrow>
   'c cache_world \<Rightarrow> (bool \<times> 'c cache_world) option" where
  "try_cache lib t m addr callback w =
     (let (st0, w0) = local_state lib t w in
      if cw_borrowed w0 t then None
      else
        (let epoch = interest_cache_epoch w0;
             st = (if epoch \<noteq> cst_epoch st0 then cache_state_new lib epoch (cw_config w0) else st0);
             w1 = w0\<lparr>cw_borrowed := (cw_borrowed w0)(t := True), cw_state := (cw_state w0)(t := Some st)\<rparr>
         in map_option (\<lambda>(b, w2). (b, w2\<lparr>cw_borrowed := (cw_borrowed w2)(t := False)\<rparr>))
              (if ll_cap lib (cst_cache st) = 0 \<or> log_level_usize (lm_level m) < log_level_usize (cst_min_verbosity st)
               then callback w1
               else cache_lookup lib t m addr callback st w1)))"

subsection \<open>The logger\<close>

record log_tracer =
  lt_ignore_crates :: "string list"

definition log_tracer_new :: log_tracer where
  "log_tracer_new = \<lparr>lt_ignore_crates = []\<rparr>"

text \<open>
  \<open>LogTracer::enabled\<close>, with the \<open>interest-cache\<close> feature: \<open>mx\<close> is what \<open>LevelFilter::current\<close> returns, and the
  callback asks the thread's default dispatcher.
\<close>

definition log_tracer_callback ::
  "(level \<Rightarrow> callsite_id) \<Rightarrow> thread \<Rightarrow> log_metadata \<Rightarrow> disp_state \<Rightarrow> 'c cache_world \<Rightarrow>
   (bool \<times> 'c cache_world) option" where
  "log_tracer_callback cs t m s w =
     map_option (\<lambda>meta. (fst (get_default t (\<lambda>d s. (dispatch_enabled s d meta, s)) s), w)) (log_metadata_as_trace cs m)"

definition log_tracer_enabled ::
  "'c log_lib \<Rightarrow> (level \<Rightarrow> callsite_id) \<Rightarrow> log_tracer \<Rightarrow> thread \<Rightarrow> level_filter \<Rightarrow> log_metadata \<Rightarrow> u64 \<Rightarrow>
   disp_state \<Rightarrow> 'c cache_world \<Rightarrow> (bool \<times> 'c cache_world) option" where
  "log_tracer_enabled lib cs tr t mx m addr s w =
     (if \<not> level_le_filter (level_as_trace (lm_level m)) mx then Some (False, w)
      else if list_ex (starts_with (lm_target m)) (lt_ignore_crates tr) then Some (False, w)
      else try_cache lib t m addr (log_tracer_callback cs t m s) w)"

definition log_tracer_log ::
  "'c log_lib \<Rightarrow> (level \<Rightarrow> callsite_id) \<Rightarrow> (dispatch \<Rightarrow> 'f event \<Rightarrow> disp_state \<Rightarrow> disp_state) \<Rightarrow> log_tracer \<Rightarrow>
   thread \<Rightarrow> level_filter \<Rightarrow> log_record \<Rightarrow> u64 \<Rightarrow> disp_state \<Rightarrow> 'c cache_world \<Rightarrow>
   (disp_state \<times> 'c cache_world) option" where
  "log_tracer_log lib cs deliver tr t mx r addr s w =
     (case log_tracer_enabled lib cs tr t mx (lr_metadata r) addr s w of
        None \<Rightarrow> None
      | Some (b, w1) \<Rightarrow>
          if b then map_option (\<lambda>s1. (s1, w1)) (dispatch_record cs deliver t r s) else Some (s, w1))"

subsection \<open>The builder\<close>

record log_builder =
  lb_ignore_crates :: "string list"
  lb_filter :: log_level_filter
  lb_interest_cache_config :: "cache_config option"

definition log_builder_default :: log_builder where
  "log_builder_default = \<lparr>lb_ignore_crates = [], lb_filter = FTrace, lb_interest_cache_config = None\<rparr>"

definition lb_with_max_level :: "log_builder \<Rightarrow> log_level_filter \<Rightarrow> log_builder" where
  "lb_with_max_level b f = b\<lparr>lb_filter := f\<rparr>"

definition ignore_crate :: "log_builder \<Rightarrow> string \<Rightarrow> log_builder" where
  "ignore_crate b name = b\<lparr>lb_ignore_crates := lb_ignore_crates b @ [name]\<rparr>"

definition ignore_all :: "log_builder \<Rightarrow> string list \<Rightarrow> log_builder" where
  "ignore_all b crates = fold (\<lambda>name b. ignore_crate b name) crates b"

definition with_interest_cache :: "log_builder \<Rightarrow> cache_config \<Rightarrow> log_builder" where
  "with_interest_cache b c = b\<lparr>lb_interest_cache_config := Some c\<rparr>"

text \<open>The statics of the \<open>log\<close> crate that \<open>init\<close> sets: a logger can be set once.\<close>

record log_statics =
  lg_logger :: "log_tracer option"
  lg_max_level :: log_level_filter

datatype set_logger_error = SetLoggerError

definition log_builder_init ::
  "log_builder \<Rightarrow> log_statics \<times> 'c cache_world \<Rightarrow> (set_logger_error + unit) \<times> log_statics \<times> 'c cache_world" where
  "log_builder_init b gw =
     (let (g, w) = gw;
          w1 = configure (lb_interest_cache_config b) w;
          logger = \<lparr>lt_ignore_crates = lb_ignore_crates b\<rparr>
      in if lg_logger g \<noteq> None then (Inl SetLoggerError, g, w1)
         else (Inr (), g\<lparr>lg_logger := Some logger, lg_max_level := lb_filter b\<rparr>, w1))"

definition log_tracer_init ::
  "log_statics \<times> 'c cache_world \<Rightarrow> (set_logger_error + unit) \<times> log_statics \<times> 'c cache_world" where
  "log_tracer_init = log_builder_init log_builder_default"

definition init_with_filter ::
  "log_level_filter \<Rightarrow> log_statics \<times> 'c cache_world \<Rightarrow> (set_logger_error + unit) \<times> log_statics \<times> 'c cache_world" where
  "init_with_filter l = log_builder_init (lb_with_max_level log_builder_default l)"

subsection \<open>The packed key and the packed decision\<close>

lemma log_level_usize_inj: "log_level_usize a = log_level_usize b \<longleftrightarrow> a = b"
  by (cases a; cases b) simp_all

lemma log_level_usize_less: "log_level_usize a < 8"
  by (cases a) simp_all

lemma pack_level_length:
  assumes "l < 8"
  shows "of_nat l OR push_bit 3 (of_nat n) = (of_nat (l + 8 * n) :: u64)"
proof -
  have "\<not> bit (of_nat l :: u64) i \<or> \<not> bit (push_bit 3 (of_nat n) :: u64) i" for i
  proof (cases "i < 3")
    case False
    have "l < 2 ^ i" using assms power_increasing [of 3 i "2 :: nat"] False by simp
    then show ?thesis by (simp add: bit_simps bit_iff_odd [of l])
  qed (simp add: bit_simps)
  then have "of_nat l OR push_bit 3 (of_nat n) = of_nat l + (push_bit 3 (of_nat n) :: u64)"
    by (intro disjunctive_add_eq_or [symmetric]) (auto simp: bit_eq_iff bit_and_iff)
  then show ?thesis by (simp add: push_bit_eq_mult mult.commute)
qed

lemma div_mod_digits: "p < 8 \<Longrightarrow> q < 8 \<Longrightarrow> p + 8 * n = q + 8 * m \<longleftrightarrow> p = q \<and> n = (m :: nat)"
  by presburger

lemma of_nat_u64_inj: "x < 2 ^ 64 \<Longrightarrow> y < 2 ^ 64 \<Longrightarrow> (of_nat x :: u64) = of_nat y \<longleftrightarrow> x = y"
  by (simp add: word_of_nat_eq_iff take_bit_nat_eq_self)

lemma cache_key_inj:
  assumes "length x < 2 ^ 61" "length y < 2 ^ 61"
  shows "cache_key_of l a x = cache_key_of k b y \<longleftrightarrow> l = k \<and> a = b \<and> length x = length y"
proof -
  have "log_level_usize l + 8 * length x < 2 ^ 64" "log_level_usize k + 8 * length y < 2 ^ 64"
    using assms log_level_usize_less [of l] log_level_usize_less [of k] by simp_all
  then have "cache_key_of l a x = cache_key_of k b y \<longleftrightarrow>
      a = b \<and> log_level_usize l + 8 * length x = log_level_usize k + 8 * length y"
    unfolding cache_key_of_def pack_level_length [OF log_level_usize_less] cache_key.iffs by (simp add: of_nat_u64_inj del: of_nat_add of_nat_mult)
  also have "\<dots> \<longleftrightarrow> l = k \<and> a = b \<and> length x = length y"
    using div_mod_digits [OF log_level_usize_less log_level_usize_less] log_level_usize_inj by blast
  finally show ?thesis .
qed

definition pack_decision :: "u64 \<Rightarrow> bool \<Rightarrow> u64" where
  "pack_decision h b = (h AND HASH_MASK) OR (if b then 1 else 0)"

lemma pack_decision:
  "pack_decision h b AND HASH_MASK = h AND HASH_MASK" "(pack_decision h b AND INTEREST_MASK \<noteq> 0) = b"
proof -
  show "pack_decision h b AND HASH_MASK = h AND HASH_MASK"
    by (rule bit_eqI) (auto simp: pack_decision_def HASH_MASK_def bit_simps)
  have "pack_decision h b AND INTEREST_MASK = (if b then 1 else 0)"
    by (rule bit_eqI) (auto simp: pack_decision_def HASH_MASK_def INTEREST_MASK_def bit_simps)
  then show "(pack_decision h b AND INTEREST_MASK \<noteq> 0) = b" by simp
qed

subsection \<open>The cache gives the decisions in force\<close>

text \<open>
  What the \<open>lru\<close> crate documents, for a view \<open>con\<close> of a cache as a map: looking up changes no entry, and after
  putting an entry the cache has that entry and otherwise only entries it had.
\<close>

definition lru_ok :: "'c log_lib \<Rightarrow> ('c \<Rightarrow> cache_key \<Rightarrow> u64 option) \<Rightarrow> bool" where
  "lru_ok lib con \<longleftrightarrow>
     (\<forall>n k. con (ll_new lib n) k = None) \<and> (\<forall>n. ll_cap lib (ll_new lib n) = n) \<and>
     (\<forall>k c. fst (ll_get lib k c) = con c k \<and> con (snd (ll_get lib k c)) = con c \<and>
        ll_cap lib (snd (ll_get lib k c)) = ll_cap lib c) \<and>
     (\<forall>k v c. 0 < ll_cap lib c \<longrightarrow> con (ll_put lib k v c) k = Some v \<and>
        con (ll_put lib k v c) \<subseteq>\<^sub>m (con c)(k \<mapsto> v) \<and> ll_cap lib (ll_put lib k v c) = ll_cap lib c)"

lemma lru_get:
  "lru_ok lib con \<Longrightarrow> ll_get lib k c = (found, c1) \<Longrightarrow> found = con c k \<and> con c1 = con c \<and> ll_cap lib c1 = ll_cap lib c"
  unfolding lru_ok_def by (metis fst_conv snd_conv)

lemma lru_put:
  "lru_ok lib con \<Longrightarrow> 0 < ll_cap lib c \<Longrightarrow> con (ll_put lib k v c) k = Some v \<and>
     con (ll_put lib k v c) \<subseteq>\<^sub>m (con c)(k \<mapsto> v) \<and> ll_cap lib (ll_put lib k v c) = ll_cap lib c"
  by (simp add: lru_ok_def)

text \<open>
  The targets that are asked about, with their addresses: their lengths leave room for the level, and no two
  different ones of the same length are seen at one address with the same hash.
\<close>

definition targets_apart :: "'c log_lib \<Rightarrow> (u64 \<times> string) set \<Rightarrow> bool" where
  "targets_apart lib X \<longleftrightarrow>
     (\<forall>(a, x) \<in> X. length x < 2 ^ 61) \<and>
     (\<forall>(a, x) \<in> X. \<forall>(b, y) \<in> X. a = b \<longrightarrow> length x = length y \<longrightarrow>
        ll_hash lib x AND HASH_MASK = ll_hash lib y AND HASH_MASK \<longrightarrow> x = y)"

definition cache_valid ::
  "'c log_lib \<Rightarrow> (u64 \<times> string) set \<Rightarrow> (log_level \<Rightarrow> string \<Rightarrow> bool) \<Rightarrow> (cache_key \<Rightarrow> u64 option) \<Rightarrow> bool" where
  "cache_valid lib X D c \<longleftrightarrow>
     (\<forall>k v. c k = Some v \<longrightarrow> (\<exists>l a x. (a, x) \<in> X \<and> k = cache_key_of l a x \<and> v = pack_decision (ll_hash lib x) (D l x)))"

lemma cache_valid_hit:
  assumes "cache_valid lib X D c" "targets_apart lib X" "(a, x) \<in> X"
    and "c (cache_key_of l a x) = Some v" "v AND HASH_MASK = ll_hash lib x AND HASH_MASK"
  shows "(v AND INTEREST_MASK \<noteq> 0) = D l x"
proof -
  obtain k b y where y: "(b, y) \<in> X" "cache_key_of l a x = cache_key_of k b y"
      "v = pack_decision (ll_hash lib y) (D k y)"
    using assms(1,4) unfolding cache_valid_def by blast
  have "length x < 2 ^ 61" "length y < 2 ^ 61" using assms(2,3) y(1) unfolding targets_apart_def by blast+
  then have eq: "l = k" "a = b" "length x = length y" using y(2) by (simp_all add: cache_key_inj)
  moreover have "ll_hash lib x AND HASH_MASK = ll_hash lib y AND HASH_MASK"
    using assms(5) y(3) by (simp add: pack_decision)
  ultimately have "x = y" using assms(2,3) y(1) unfolding targets_apart_def by blast
  then show ?thesis using y(3) eq(1) by (simp add: pack_decision)
qed

lemma cache_valid_put:
  assumes "cache_valid lib X D c" "(a, x) \<in> X"
    and "c' \<subseteq>\<^sub>m c(cache_key_of l a x \<mapsto> pack_decision (ll_hash lib x) (D l x))"
  shows "cache_valid lib X D c'"
  unfolding cache_valid_def
proof (intro allI impI)
  fix k v
  assume "c' k = Some v"
  then have "(c(cache_key_of l a x \<mapsto> pack_decision (ll_hash lib x) (D l x))) k = Some v"
    using assms(3) by (auto simp: map_le_def dom_def)
  then show "\<exists>l a x. (a, x) \<in> X \<and> k = cache_key_of l a x \<and> v = pack_decision (ll_hash lib x) (D l x)"
    using assms(1,2) unfolding cache_valid_def by (auto split: if_splits)
qed

text \<open>
  A run of the program: threads ask, and the decisions change when the core rebuilds its interest cache or
  the logger is configured. \<open>run_cache\<close> pairs each answer with the decision in force.
\<close>

datatype cache_op =
    Ask thread log_metadata u64
  | Rebuild "log_level \<Rightarrow> string \<Rightarrow> bool"
  | Reconfigure "cache_config option" "log_level \<Rightarrow> string \<Rightarrow> bool"

fun run_cache ::
  "'c log_lib \<Rightarrow> (log_level \<Rightarrow> string \<Rightarrow> bool) \<Rightarrow> cache_op list \<Rightarrow> 'c cache_world \<Rightarrow> (bool \<times> bool) list option" where
  "run_cache lib D [] w = Some []"
| "run_cache lib D (Ask t m a # ops) w =
     (let d = D (lm_level m) (lm_target m) in
      case try_cache lib t m a (\<lambda>w. Some (d, w)) w of
        None \<Rightarrow> None
      | Some (b, w1) \<Rightarrow> map_option ((#) (b, d)) (run_cache lib D ops w1))"
| "run_cache lib D (Rebuild D' # ops) w = run_cache lib D' ops (on_rebuild w)"
| "run_cache lib D (Reconfigure c D' # ops) w = run_cache lib D' ops (configure c w)"

fun asked :: "cache_op \<Rightarrow> (u64 \<times> string) list" where
  "asked (Ask t m a) = [(a, lm_target m)]"
| "asked _ = []"

text \<open>
  The invariant: nothing is borrowed, states exist only once the sentinel is registered, no state is from a
  later epoch, and the cache of a state of the current epoch holds decisions in force. \<open>n\<close> operations more
  do not make the epoch wrap around.
\<close>

definition cache_inv ::
  "'c log_lib \<Rightarrow> ('c \<Rightarrow> cache_key \<Rightarrow> u64 option) \<Rightarrow> (u64 \<times> string) set \<Rightarrow> nat \<Rightarrow> (log_level \<Rightarrow> string \<Rightarrow> bool) \<Rightarrow>
   'c cache_world \<Rightarrow> bool" where
  "cache_inv lib con X n D w \<longleftrightarrow>
     (\<forall>t. \<not> cw_borrowed w t) \<and>
     (\<not> cw_registered w \<longrightarrow> (\<forall>t. cw_state w t = None)) \<and>
     unat (cw_epoch w) + (if cw_registered w then 0 else 1) + n < 2 ^ 64 \<and>
     (\<forall>t st. cw_state w t = Some st \<longrightarrow> unat (cst_epoch st) \<le> unat (cw_epoch w) \<and>
        (cst_epoch st = cw_epoch w \<longrightarrow> cache_valid lib X D (con (cst_cache st))))"

lemma epoch_step: "unat (e :: u64) + 1 < 2 ^ 64 \<Longrightarrow> unat (e + 1) = unat e + 1"
  by (simp add: unat_plus_if')

text \<open>A new epoch makes every cache obsolete, so that any decisions may come into force.\<close>

lemma cache_inv_new_epoch:
  assumes "cache_inv lib con X (Suc n) D w" "cw_registered w"
  shows "cache_inv lib con X n D' (sentinel_set_interest w)"
proof -
  have e: "unat (cw_epoch w + 1) = unat (cw_epoch w) + 1"
    using assms by (intro epoch_step) (simp add: cache_inv_def)
  then have "st = cw_epoch w + 1 \<Longrightarrow> \<not> unat st \<le> unat (cw_epoch w)" for st by simp
  then show ?thesis
    using assms e unfolding cache_inv_def sentinel_set_interest_def by fastforce
qed

lemma cache_inv_force:
  assumes "cache_inv lib con X n D w"
  shows "cache_inv lib con X n D (force_config w)" and "cw_registered (force_config w)"
    and "cw_state (force_config w) = cw_state w"
proof -
  have "unat (cw_epoch w + 1) = unat (cw_epoch w) + 1" if "\<not> cw_registered w"
    using assms that by (intro epoch_step) (auto simp: cache_inv_def)
  then show "cache_inv lib con X n D (force_config w)"
    using assms by (auto simp: cache_inv_def force_config_def sentinel_set_interest_def)
  show "cw_registered (force_config w)" "cw_state (force_config w) = cw_state w"
    by (simp_all add: force_config_def sentinel_set_interest_def)
qed

lemma cache_inv_rebuild:
  assumes "cache_inv lib con X (Suc n) D w"
  shows "cache_inv lib con X n D' (on_rebuild w)"
proof (cases "cw_registered w")
  case True
  with cache_inv_new_epoch [OF assms] show ?thesis by (simp add: on_rebuild_def)
next
  case False
  with assms show ?thesis by (simp add: on_rebuild_def cache_inv_def)
qed

lemma cache_inv_config: "cache_inv lib con X n D (w\<lparr>cw_config := c\<rparr>) = cache_inv lib con X n D w"
  by (simp add: cache_inv_def)

lemma cache_inv_configure:
  assumes "cache_inv lib con X (Suc n) D w"
  shows "cache_inv lib con X n D' (configure c w)"
proof -
  let ?w = "(force_config w)\<lparr>cw_config := (case c of Some c \<Rightarrow> c | None \<Rightarrow> cache_config_disabled)\<rparr>"
  have "cache_inv lib con X (Suc n) D ?w" "cw_registered ?w"
    using cache_inv_force [OF assms] by (simp_all add: cache_inv_config)
  from cache_inv_new_epoch [OF this] show ?thesis
    by (simp add: configure_def Let_def sentinel_set_interest_def)
qed

text \<open>A thread's state, made when there is none.\<close>

lemma cache_valid_new: "lru_ok lib con \<Longrightarrow> cache_valid lib X D (con (cst_cache (cache_state_new lib e c)))"
  by (simp add: lru_ok_def cache_valid_def cache_state_new_def)

lemma cache_inv_set_state:
  assumes "cache_inv lib con X n D w" "cw_registered w" "unat (cst_epoch st) \<le> unat (cw_epoch w)"
    and "cst_epoch st = cw_epoch w \<Longrightarrow> cache_valid lib X D (con (cst_cache st))"
  shows "cache_inv lib con X n D (w\<lparr>cw_state := (cw_state w)(t := Some st)\<rparr>)"
  using assms by (auto simp: cache_inv_def)

lemma local_state_inv:
  assumes "cache_inv lib con X n D w" "lru_ok lib con"
  shows "case local_state lib t w of (st, w1) \<Rightarrow> cache_inv lib con X n D w1 \<and> cw_registered w1 \<and> cw_state w1 t = Some st"
proof (cases "cw_state w t")
  case None
  let ?w = "force_config w"
  let ?st = "cache_state_new lib (cw_epoch ?w) (cw_config ?w)"
  have "cache_inv lib con X n D (?w\<lparr>cw_state := (cw_state ?w)(t := Some ?st)\<rparr>)"
    using cache_inv_force [OF assms(1)] cache_valid_new [OF assms(2)]
    by (intro cache_inv_set_state) (simp_all add: cache_state_new_def)
  then show ?thesis using None cache_inv_force(2) [OF assms(1)]
    by (simp add: local_state_def interest_cache_epoch_def Let_def)
next
  case (Some st)
  then show ?thesis using assms(1) by (auto simp: local_state_def cache_inv_def)
qed

text \<open>The lookup, with the decision in force as callback.\<close>

lemma cache_lookup_ok:
  assumes lru: "lru_ok lib con" and cap: "0 < ll_cap lib (cst_cache st)"
    and valid: "cache_valid lib X D (con (cst_cache st))" and apart: "targets_apart lib X" and x: "(a, lm_target m) \<in> X"
  shows "\<exists>c. cache_lookup lib t m a (\<lambda>w. Some (D (lm_level m) (lm_target m), w)) st w =
      Some (D (lm_level m) (lm_target m), w\<lparr>cw_state := (cw_state w)(t := Some (st\<lparr>cst_cache := c\<rparr>))\<rparr>) \<and>
    cache_valid lib X D (con c)"
proof -
  let ?d = "D (lm_level m) (lm_target m)" and ?key = "cache_key_of (lm_level m) a (lm_target m)"
  let ?h = "ll_hash lib (lm_target m)"
  obtain found c1 where get: "ll_get lib ?key (cst_cache st) = (found, c1)" by fastforce
  have c1: "found = con (cst_cache st) ?key" "con c1 = con (cst_cache st)" "0 < ll_cap lib c1"
    using lru_get [OF lru get] cap by simp_all
  have "con (ll_put lib ?key (pack_decision ?h ?d) c1) \<subseteq>\<^sub>m (con c1)(?key \<mapsto> pack_decision ?h ?d)"
    using lru_put [OF lru c1(3)] by blast
  then have put: "cache_valid lib X D (con (ll_put lib ?key (pack_decision ?h ?d) c1))"
    using valid x c1(2) cache_valid_put by metis
  show ?thesis
  proof (cases "\<exists>v. found = Some v \<and> v AND HASH_MASK = ?h AND HASH_MASK")
    case True
    then obtain v where v: "found = Some v" "v AND HASH_MASK = ?h AND HASH_MASK" by blast
    have "(v AND INTEREST_MASK \<noteq> 0) = ?d"
      using cache_valid_hit [OF valid apart x, of "lm_level m" v] v c1(1) by simp
    then show ?thesis using v c1(2) valid get
      by (intro exI [of _ c1]) (simp add: cache_lookup_def Let_def)
  next
    case False
    then have "cache_lookup lib t m a (\<lambda>w. Some (?d, w)) st w = Some (?d, w\<lparr>cw_state := (cw_state w)(t :=
        Some (st\<lparr>cst_cache := ll_put lib ?key (pack_decision ?h ?d) c1\<rparr>))\<rparr>)"
      using get by (cases found) (auto simp: cache_lookup_def pack_decision_def Let_def)
    with put show ?thesis by blast
  qed
qed

lemma try_cache_ok:
  assumes inv: "cache_inv lib con X n D w" and lru: "lru_ok lib con" and apart: "targets_apart lib X"
    and x: "(a, lm_target m) \<in> X"
  shows "\<exists>w'. try_cache lib t m a (\<lambda>w. Some (D (lm_level m) (lm_target m), w)) w =
      Some (D (lm_level m) (lm_target m), w') \<and> cache_inv lib con X n D w'"
proof -
  let ?cb = "\<lambda>w. Some (D (lm_level m) (lm_target m), w)"
  obtain st0 w0 where loc: "local_state lib t w = (st0, w0)" by fastforce
  then have w0: "cache_inv lib con X n D w0" "cw_registered w0" "cw_state w0 t = Some st0"
    using local_state_inv [OF inv lru, of t] by simp_all
  define st where "st = (if cw_epoch w0 \<noteq> cst_epoch st0 then cache_state_new lib (cw_epoch w0) (cw_config w0) else st0)"
  have st: "cst_epoch st = cw_epoch w0" "cache_valid lib X D (con (cst_cache st))"
    using w0 cache_valid_new [OF lru] by (auto simp: st_def cache_inv_def cache_state_new_def)
  define w1 where "w1 = w0\<lparr>cw_borrowed := (cw_borrowed w0)(t := True), cw_state := (cw_state w0)(t := Some st)\<rparr>"
  have free: "\<not> cw_borrowed w0 u" for u using w0(1) by (simp add: cache_inv_def)
  have unborrow: "(cw_borrowed w0)(t := False) = cw_borrowed w0" using free by (auto simp: fun_eq_iff)
  have "\<exists>c. (if ll_cap lib (cst_cache st) = 0 \<or> log_level_usize (lm_level m) < log_level_usize (cst_min_verbosity st)
         then ?cb w1 else cache_lookup lib t m a ?cb st w1) =
       Some (D (lm_level m) (lm_target m), w1\<lparr>cw_state := (cw_state w1)(t := Some (st\<lparr>cst_cache := c\<rparr>))\<rparr>) \<and>
     cache_valid lib X D (con c)"
  proof (cases "ll_cap lib (cst_cache st) = 0 \<or> log_level_usize (lm_level m) < log_level_usize (cst_min_verbosity st)")
    case True
    have same: "st\<lparr>cst_cache := cst_cache st\<rparr> = st" by simp
    have "w1\<lparr>cw_state := (cw_state w1)(t := Some st)\<rparr> = w1" by (simp add: w1_def)
    with True st(2) show ?thesis by (intro exI [of _ "cst_cache st"]) (simp add: same)
  next
    case False
    then have "0 < ll_cap lib (cst_cache st)" by simp
    from cache_lookup_ok [OF lru this st(2) apart x, of t w1] show ?thesis unfolding if_not_P [OF False] .
  qed
  then obtain c where c: "(if ll_cap lib (cst_cache st) = 0 \<or> log_level_usize (lm_level m) < log_level_usize (cst_min_verbosity st)
         then ?cb w1 else cache_lookup lib t m a ?cb st w1) =
       Some (D (lm_level m) (lm_target m), w1\<lparr>cw_state := (cw_state w1)(t := Some (st\<lparr>cst_cache := c\<rparr>))\<rparr>)"
     "cache_valid lib X D (con c)" by blast
  have answer: "try_cache lib t m a ?cb w =
      Some (D (lm_level m) (lm_target m), w0\<lparr>cw_state := (cw_state w0)(t := Some (st\<lparr>cst_cache := c\<rparr>))\<rparr>)"
    unfolding try_cache_def loc interest_cache_epoch_def Let_def prod.case st_def [symmetric] w1_def [symmetric] c(1)
    using free unborrow by (simp add: w1_def)
  have "cache_inv lib con X n D (w0\<lparr>cw_state := (cw_state w0)(t := Some (st\<lparr>cst_cache := c\<rparr>))\<rparr>)"
    using w0 c(2) st(1) by (intro cache_inv_set_state) simp_all
  with answer show ?thesis by blast
qed

lemma run_cache_ok:
  assumes "lru_ok lib con" "targets_apart lib X"
  shows "cache_inv lib con X (length ops) D w \<Longrightarrow> set (concat (map asked ops)) \<subseteq> X \<Longrightarrow>
    \<exists>rs. run_cache lib D ops w = Some rs \<and> (\<forall>(b, d) \<in> set rs. b = d)"
proof (induction ops arbitrary: D w)
  case (Cons op ops)
  show ?case
  proof (cases op)
    case (Ask t m a)
    have inv: "cache_inv lib con X (length ops) D w" using Cons.prems(1) by (auto simp: cache_inv_def)
    have "(a, lm_target m) \<in> X" using Cons.prems(2) Ask by simp
    from try_cache_ok [OF inv assms this, of t]
    obtain w' where w': "try_cache lib t m a (\<lambda>w. Some (D (lm_level m) (lm_target m), w)) w =
        Some (D (lm_level m) (lm_target m), w')" "cache_inv lib con X (length ops) D w'" by blast
    obtain rs where "run_cache lib D ops w' = Some rs" "\<forall>(b, d) \<in> set rs. b = d"
      using Cons.IH [OF w'(2)] Cons.prems(2) by auto
    then show ?thesis using Ask w'(1) by (simp add: Let_def)
  next
    case (Rebuild D')
    then show ?thesis using Cons.IH [OF cache_inv_rebuild] Cons.prems by simp
  next
    case (Reconfigure c D')
    then show ?thesis using Cons.IH [OF cache_inv_configure] Cons.prems by simp
  qed
qed simp

text \<open>
  C26. The cache of the logger never answers with an outdated decision: through any sequence of questions from
  any threads, rebuilds of the core's cache and reconfigurations, of which the last two may change all
  decisions, every question returns and its answer is the decision in force, whatever the sizes of the
  caches and whatever they evict; provided that the epoch does not wrap around, and that no two targets of
  the same length that are seen at one address have the same hash.
\<close>

theorem log_cache_transparent:
  assumes "lru_ok lib con" and "targets_apart lib (set (concat (map asked ops)))" and "length ops + 1 < 2 ^ 64"
  shows "\<exists>rs. run_cache lib D ops cache_world_init = Some rs \<and> (\<forall>(b, d) \<in> set rs. b = d)"
  using assms by (intro run_cache_ok [where X = "set (concat (map asked ops))"])
    (simp_all add: cache_inv_def cache_world_init_def)

text \<open>A cache that keeps its latest entries in a list, as an instance of the parameter.\<close>

definition list_lib :: "(nat \<times> (cache_key \<times> u64) list) log_lib" where
  "list_lib =
     \<lparr>ll_new = (\<lambda>n. (n, [])), ll_cap = fst,
      ll_get = (\<lambda>k c. (map_of (snd c) k, c)),
      ll_put = (\<lambda>k v c. (fst c, take (fst c) ((k, v) # filter (\<lambda>e. fst e \<noteq> k) (snd c)))),
      ll_hash = (\<lambda>x. of_nat (2 * length x + (if x = ''b'' then 2 else 0)))\<rparr>"

lemma map_of_take: "map_of (take n xs) k = Some v \<Longrightarrow> map_of xs k = Some v"
  by (induction xs arbitrary: n) (auto simp: take_Cons split: nat.splits if_splits)

lemma map_of_filter_neq: "map_of (filter (\<lambda>e. fst e \<noteq> k) xs) j = (if j = k then None else map_of xs j)"
  by (induction xs) auto

lemma list_lib_ok: "lru_ok list_lib (\<lambda>c. map_of (snd c))"
proof -
  have "map_of (take n ((k, v) # filter (\<lambda>e. fst e \<noteq> k) xs)) \<subseteq>\<^sub>m (map_of xs)(k \<mapsto> v)"
    for n k v and xs :: "(cache_key \<times> u64) list"
    using map_of_take [of n "(k, v) # filter (\<lambda>e. fst e \<noteq> k) xs"]
    by (fastforce simp: map_le_def map_of_filter_neq dom_def split: if_splits)
  moreover have "map_of (take n ((k, v) # xs)) k = Some v" if "0 < n" for n k v and xs :: "(cache_key \<times> u64) list"
    using that by (cases n) simp_all
  ultimately show ?thesis by (simp add: lru_ok_def list_lib_def)
qed

definition demo_log_meta :: "string \<Rightarrow> log_metadata" where
  "demo_log_meta x = \<lparr>lm_level = LTrace, lm_target = x\<rparr>"

theorem log_cache_transparent_witness:
  "\<exists>rs. run_cache list_lib (\<lambda>_ _. False)
     [Reconfigure (Some cache_config_default) (\<lambda>_ _. True), Ask 0 (demo_log_meta ''a'') 7,
      Rebuild (\<lambda>_ x. x = ''b''), Ask 0 (demo_log_meta ''a'') 7, Ask 1 (demo_log_meta ''b'') 7] cache_world_init = Some rs \<and>
     (\<forall>(b, d) \<in> set rs. b = d)"
proof (rule log_cache_transparent [OF list_lib_ok])
  have "(2 :: u64) AND HASH_MASK \<noteq> 4 AND HASH_MASK" by (simp add: HASH_MASK_def)
  then show "targets_apart list_lib (set (concat (map asked
     [Reconfigure (Some cache_config_default) (\<lambda>_ _. True), Ask 0 (demo_log_meta ''a'') 7,
      Rebuild (\<lambda>_ x. x = ''b''), Ask 0 (demo_log_meta ''a'') 7, Ask 1 (demo_log_meta ''b'') 7])))"
    by (simp add: targets_apart_def list_lib_def demo_log_meta_def)
qed simp

text \<open>
  A second question about the same level and target in the same epoch is answered without asking the
  dispatcher: the answer is the same whatever the callback.
\<close>

theorem log_cache_hit:
  assumes lru: "lru_ok lib con" and "\<not> cw_borrowed w t" and st: "cw_state w t = Some st" "cst_epoch st = cw_epoch w"
    and on: "0 < ll_cap lib (cst_cache st)" "log_level_usize (cst_min_verbosity st) \<le> log_level_usize (lm_level m)"
    and first: "try_cache lib t m a (\<lambda>w. Some (d, w)) w = Some (b, w1)"
  shows "\<exists>w2. \<forall>callback. try_cache lib t m a callback w1 = Some (b, w2)"
proof -
  let ?key = "cache_key_of (lm_level m) a (lm_target m)"
  let ?h = "ll_hash lib (lm_target m)"
  obtain found c1 where get: "ll_get lib ?key (cst_cache st) = (found, c1)" by fastforce
  have c1: "found = con (cst_cache st) ?key" "con c1 = con (cst_cache st)" "0 < ll_cap lib c1"
    using lru_get [OF lru get] on(1) by simp_all
  have put: "con (ll_put lib ?key v c1) ?key = Some v" "0 < ll_cap lib (ll_put lib ?key v c1)" for v
    using lru_put [OF lru c1(3)] c1(3) by simp_all
  have hit: "\<exists>w2. \<forall>callback. try_cache lib t m a callback (w\<lparr>cw_state := S(t := Some (st\<lparr>cst_cache := c\<rparr>)),
        cw_borrowed := B(t := False)\<rparr>) = Some (v AND INTEREST_MASK \<noteq> 0, w2)"
    if "con c ?key = Some v" "0 < ll_cap lib c" "v AND HASH_MASK = ?h AND HASH_MASK" for c v S B
  proof -
    obtain f c2 where get2: "ll_get lib ?key c = (f, c2)" by fastforce
    with lru_get [OF lru get2] that(1) have "ll_get lib ?key c = (Some v, c2)" by simp
    then show ?thesis using that st(2) on(2)
      by (simp add: try_cache_def local_state_def interest_cache_epoch_def cache_lookup_def Let_def)
  qed
  show ?thesis
  proof (cases "\<exists>v. found = Some v \<and> v AND HASH_MASK = ?h AND HASH_MASK")
    case True
    then obtain v where v: "found = Some v" "v AND HASH_MASK = ?h AND HASH_MASK" by blast
    then have "b = (v AND INTEREST_MASK \<noteq> 0)" "w1 = w\<lparr>cw_state := (cw_state w)(t := Some (st\<lparr>cst_cache := c1\<rparr>)),
        cw_borrowed := (cw_borrowed w)(t := False)\<rparr>"
      using first get st on assms(2)
      by (auto simp: try_cache_def local_state_def interest_cache_epoch_def cache_lookup_def Let_def)
    with hit [where c = c1 and v = v and S = "cw_state w" and B = "cw_borrowed w"] v c1 show ?thesis by simp
  next
    case False
    then have "b = d" "w1 = w\<lparr>cw_state := (cw_state w)(t := Some (st\<lparr>cst_cache :=
        ll_put lib ?key (pack_decision ?h d) c1\<rparr>)), cw_borrowed := (cw_borrowed w)(t := False)\<rparr>"
      using first get st on assms(2)
      by (cases found; auto simp: try_cache_def local_state_def interest_cache_epoch_def cache_lookup_def Let_def
          pack_decision_def)+
    with hit [OF put, where v = "pack_decision ?h d" and S = "cw_state w" and B = "cw_borrowed w"] show ?thesis by (simp add: pack_decision)
  qed
qed

subsection \<open>What the logger forwards\<close>

definition trace_meta :: "(level \<Rightarrow> callsite_id) \<Rightarrow> log_level \<Rightarrow> string \<Rightarrow> metadata" where
  "trace_meta cs l x =
     \<lparr>meta_name = ''log record'', meta_target = x, meta_level = level_as_trace l, meta_module_path = None,
      meta_file = None, meta_line = None,
      meta_fields = \<lparr>fs_names = FIELD_NAMES, fs_callsite = cs (level_as_trace l)\<rparr>, meta_kind = EVENT\<rparr>"

definition record_meta :: "(level \<Rightarrow> callsite_id) \<Rightarrow> log_record \<Rightarrow> metadata" where
  "record_meta cs r =
     (trace_meta cs (lm_level (lr_metadata r)) (lm_target (lr_metadata r)))
       \<lparr>meta_module_path := lr_module_path r, meta_file := lr_file r, meta_line := map_option unat (lr_line r)\<rparr>"

lemma as_trace_Some: "log_metadata_as_trace cs m = Some (trace_meta cs (lm_level m) (lm_target m))"
  "record_as_trace cs r = Some (record_meta cs r)"
  by (simp_all add: log_metadata_as_trace_def record_as_trace_def trace_meta_def record_meta_def loglevel_to_cs_def
      log_fields_new_Some)

lemma dispatch_record_Some:
  assumes "record_event cs r = Some e"
  shows "dispatch_record cs deliver t r s = Some (snd (get_default t
    (\<lambda>d s. ((), if dispatch_enabled s d (record_meta cs r) then deliver d e s else s)) s))"
  using assms by (auto simp: dispatch_record_def as_trace_Some get_default_def Let_def split: prod.split)

text \<open>
  C27. The logger forwards exactly the records it should: one that is within the maximum level, whose target
  does not begin with an ignored crate's name, and that the thread's default dispatcher enables (as far as
  its level and target tell, through the cache if there is one) is made into an event; the dispatcher
  is asked again with all the metadata of the record and then gets the event once. Any other record
  changes nothing.
\<close>

theorem log_tracer_forwards:
  fixes w :: "'c cache_world" and deliver :: "dispatch \<Rightarrow> 'f event \<Rightarrow> disp_state \<Rightarrow> disp_state"
  assumes "cache_inv lib con X n D w" "lru_ok lib con" "targets_apart lib X" "(a, lm_target (lr_metadata r)) \<in> X"
    and "\<forall>l x. D l x = fst (get_default t (\<lambda>d s. (dispatch_enabled s d (trace_meta cs l x), s)) s)"
  shows "\<exists>e w'. record_event cs r = Some e \<and> cache_inv lib con X n D w' \<and>
    log_tracer_log lib cs deliver tr t mx r a s w = Some
      (if level_le_filter (level_as_trace (lm_level (lr_metadata r))) mx \<and>
          \<not> list_ex (starts_with (lm_target (lr_metadata r))) (lt_ignore_crates tr) \<and>
          D (lm_level (lr_metadata r)) (lm_target (lr_metadata r))
       then snd (get_default t (\<lambda>d s. ((), if dispatch_enabled s d (record_meta cs r) then deliver d e s else s)) s)
       else s, w')"
proof -
  let ?m = "lr_metadata r"
  obtain e :: "'f event" where e: "record_event cs r = Some e" using record_event_normalized by blast
  have "log_tracer_callback cs t ?m s = (\<lambda>w :: 'c cache_world. Some (D (lm_level ?m) (lm_target ?m), w))"
    using assms(5) by (simp add: log_tracer_callback_def as_trace_Some fun_eq_iff)
  with try_cache_ok [OF assms(1-4), of t] obtain w' where w':
      "try_cache lib t ?m a (log_tracer_callback cs t ?m s) w = Some (D (lm_level ?m) (lm_target ?m), w')"
      "cache_inv lib con X n D w'" by auto
  show ?thesis
  proof (cases "level_le_filter (level_as_trace (lm_level ?m)) mx \<and>
      \<not> list_ex (starts_with (lm_target ?m)) (lt_ignore_crates tr)")
    case True
    then show ?thesis using e w' dispatch_record_Some [OF e, of deliver t s]
      by (intro exI [of _ e] exI [of _ w']) (simp add: log_tracer_log_def log_tracer_enabled_def)
  next
    case False
    then show ?thesis using e assms(1)
      by (intro exI [of _ e] exI [of _ w]) (auto simp: log_tracer_log_def log_tracer_enabled_def)
  qed
qed

definition demo_log_disp :: disp_state where
  "demo_log_disp = (disp_init Map.empty)
     \<lparr>ds_global_init := INITIALIZED, ds_global := Global (no_subscriber\<lparr>sub_enabled := (\<lambda>_. True)\<rparr>)\<rparr>"

definition demo_log_record :: log_record where
  "demo_log_record = \<lparr>lr_metadata = demo_log_meta ''b'', lr_args = ''hello'', lr_module_path = None, lr_file = None, lr_line = None\<rparr>"

theorem log_tracer_forwards_witness:
  "\<exists>w'. log_tracer_log list_lib (\<lambda>l. 1) (\<lambda>d (e :: unit event) s. s\<lparr>ds_exists := True\<rparr>) log_tracer_new 0 (from_level TRACE)
     demo_log_record 7 demo_log_disp cache_world_init = Some (demo_log_disp\<lparr>ds_exists := True\<rparr>, w')"
proof -
  have d: "fst (get_default 0 (\<lambda>d s. (dispatch_enabled s d m, s)) demo_log_disp)" for m
    by (simp add: get_default_def demo_log_disp_def disp_init_def get_global_def dispatch_enabled_def
        dispatch_subscriber_def)
  have deliver: "snd (get_default 0 (\<lambda>d s. ((), if dispatch_enabled s d m then s\<lparr>ds_exists := True\<rparr> else s)) demo_log_disp) =
      demo_log_disp\<lparr>ds_exists := True\<rparr>" for m
    by (simp add: get_default_def demo_log_disp_def disp_init_def get_global_def dispatch_enabled_def
        dispatch_subscriber_def)
  have "\<exists>(e :: unit event) w'. record_event (\<lambda>l. 1) demo_log_record = Some e \<and>
      cache_inv list_lib (\<lambda>c. map_of (snd c)) {(7, ''b'')} 0 (\<lambda>_ _. True) w' \<and>
      log_tracer_log list_lib (\<lambda>l. 1) (\<lambda>d (e :: unit event) s. s\<lparr>ds_exists := True\<rparr>) log_tracer_new 0 (from_level TRACE)
        demo_log_record 7 demo_log_disp cache_world_init = Some
      (if level_le_filter (level_as_trace (lm_level (lr_metadata demo_log_record))) (from_level TRACE) \<and>
          \<not> list_ex (starts_with (lm_target (lr_metadata demo_log_record))) (lt_ignore_crates log_tracer_new) \<and> True
       then snd (get_default 0 (\<lambda>d s. ((), if dispatch_enabled s d (record_meta (\<lambda>l. 1) demo_log_record)
              then s\<lparr>ds_exists := True\<rparr> else s)) demo_log_disp)
       else demo_log_disp, w')"
    by (rule log_tracer_forwards)
      (simp_all add: list_lib_ok cache_inv_def cache_world_init_def targets_apart_def demo_log_record_def demo_log_meta_def d)
  then show ?thesis
    unfolding deliver
    by (auto simp: demo_log_record_def demo_log_meta_def log_tracer_new_def level_le_filter_def from_level_def)
qed

subsection \<open>Three edges of the cache\<close>

text \<open>
  The state stays borrowed while the callback runs, so that a subscriber whose \<open>enabled\<close> logs through the
  \<open>log\<close> crate on the same thread panics, even with the cache disabled.
\<close>

theorem log_cache_reentry_panics:
  "try_cache lib t m a (\<lambda>w. try_cache lib t m' a' callback w) cache_world_init = None \<or>
   ll_cap lib (ll_new lib 0) \<noteq> 0"
  by (simp add: try_cache_def local_state_def interest_cache_epoch_def cache_world_init_def force_config_def
      sentinel_set_interest_def cache_state_new_def cache_config_disabled_def Let_def)

text \<open>A second initialisation fails, and yet it has replaced the configuration of the cache.\<close>

theorem failed_init_reconfigures:
  "lg_logger g \<noteq> None \<Longrightarrow>
   (case log_tracer_init (g, w) of (r, g', w') \<Rightarrow> r = Inl SetLoggerError \<and> g' = g \<and> cw_config w' = cache_config_disabled)"
  by (simp add: log_tracer_init_def log_builder_init_def log_builder_default_def configure_def Let_def)

text \<open>
  Setting a scoped default rebuilds nothing, so the epoch stays: a thread that switches between two existing
  dispatchers is answered with the decision of the one in force when it asked first.
\<close>

theorem log_cache_stale_default:
  fixes w :: "'c cache_world"
  assumes "lru_ok lib con" and "\<not> cw_borrowed w t" and "cw_state w t = Some st" "cst_epoch st = cw_epoch w"
    and "0 < ll_cap lib (cst_cache st)" "log_level_usize (cst_min_verbosity st) \<le> log_level_usize (lm_level m)"
    and "try_cache lib t m a (log_tracer_callback cs t m s) w = Some (b, w1)"
  shows "\<exists>w2. try_cache lib t m a (log_tracer_callback cs t m (snd (set_default t d s))) w1 = Some (b, w2)"
proof -
  obtain keys where "loglevel_to_cs cs (lm_level m) =
      Some (cs (level_as_trace (lm_level m)), keys, log_cs_meta cs (level_as_trace (lm_level m)))"
    using loglevel_to_cs_Some by blast
  then obtain d' where "log_tracer_callback cs t m s = (\<lambda>w :: 'c cache_world. Some (d', w))"
    by (simp add: log_tracer_callback_def log_metadata_as_trace_def fun_eq_iff)
  with assms(7) have "try_cache lib t m a (\<lambda>w. Some (d', w)) w = Some (b, w1)" by simp
  from log_cache_hit [OF assms(1-6) this] show ?thesis by blast
qed

end
