(* ===== verification/Fmt_Format.thy ===== *)
theory Fmt_Format
  imports Span_Lookup
begin

text \<open>
  Formatting events and fields: \<open>tracing-subscriber/src/fmt/format/mod.rs\<close> and \<open>format/escape.rs\<close>,
  with the crate's default features (\<open>ansi\<close> and \<open>tracing-log\<close>).

  A writer appends to a \<open>String\<close>, which never fails, so a formatter is a function from its input to
  the text it writes and whether it succeeded; what was written before an error stays written. Errors
  come from the values: \<open>fl_fails\<close> says for which texts the value's own \<open>fmt\<close> reports an error
  after writing it. A character is one below 256. The styles of the \<open>nu_ansi_term\<close> crate are a
  parameter: the texts it puts before and after what is painted.
\<close>

subsection \<open>Writers\<close>

record fmt_writer =
  wr_is_ansi :: bool
  wr_ansi_sanitization :: bool

definition writer_new :: fmt_writer where
  "writer_new = \<lparr>wr_is_ansi = False, wr_ansi_sanitization = True\<rparr>"

definition writer_with_ansi :: "bool \<Rightarrow> fmt_writer \<Rightarrow> fmt_writer" where
  "writer_with_ansi b w = w\<lparr>wr_is_ansi := b\<rparr>"

definition writer_with_ansi_sanitization :: "bool \<Rightarrow> fmt_writer \<Rightarrow> fmt_writer" where
  "writer_with_ansi_sanitization b w = w\<lparr>wr_ansi_sanitization := b\<rparr>"

type_synonym ansi_style = "string \<times> string"

record ansi_lib =
  an_bold :: ansi_style
  an_dimmed :: ansi_style
  an_italic :: ansi_style
  an_level :: "level \<Rightarrow> ansi_style"

definition style_new :: ansi_style where
  "style_new = ('''', '''')"

definition writer_bold :: "ansi_lib \<Rightarrow> fmt_writer \<Rightarrow> ansi_style" where
  "writer_bold an w = (if wr_is_ansi w then an_bold an else style_new)"

definition writer_dimmed :: "ansi_lib \<Rightarrow> fmt_writer \<Rightarrow> ansi_style" where
  "writer_dimmed an w = (if wr_is_ansi w then an_dimmed an else style_new)"

definition writer_italic :: "ansi_lib \<Rightarrow> fmt_writer \<Rightarrow> ansi_style" where
  "writer_italic an w = (if wr_is_ansi w then an_italic an else style_new)"

definition paint :: "ansi_style \<Rightarrow> string \<Rightarrow> string" where
  "paint st s = fst st @ s @ snd st"

subsection \<open>Escaping\<close>

definition escape_char :: "char \<Rightarrow> string" where
  "escape_char c =
     (let n = of_char c :: nat in
      if n = 0x1b then [CHR 0x5C] @ ''x1b''
      else if n = 0x07 then [CHR 0x5C] @ ''x07''
      else if n = 0x08 then [CHR 0x5C] @ ''x08''
      else if n = 0x0c then [CHR 0x5C] @ ''x0c''
      else if n = 0x7f then [CHR 0x5C] @ ''x7f''
      else if 0x80 \<le> n \<and> n \<le> 0x9f then [CHR 0x5C] @ ''u{'' @ show_hex n @ ''}''
      else [c])"

definition escape_guard :: "bool \<Rightarrow> string \<Rightarrow> string" where
  "escape_guard sanitize s = (if sanitize then concat (map escape_char s) else s)"

subsection \<open>Default field formatting\<close>

record 'f fmt_lib =
  fl_f64_debug :: "'f \<Rightarrow> string"
  fl_fails :: "string \<Rightarrow> bool"

text \<open>A visitor that only has \<open>record_debug\<close> gets these texts.\<close>

definition recorded_debug :: "'f fmt_lib \<Rightarrow> 'f recorded \<Rightarrow> string" where
  "recorded_debug lib r =
     (case r of
        RecU64 w \<Rightarrow> show_nat (unat w)
      | RecI64 w \<Rightarrow> show_int (sint w)
      | RecU128 w \<Rightarrow> show_nat (unat w)
      | RecI128 w \<Rightarrow> show_int (sint w)
      | RecBool b \<Rightarrow> if b then ''true'' else ''false''
      | RecF64 x \<Rightarrow> fl_f64_debug lib x
      | RecStr s \<Rightarrow> str_debug s
      | RecBytes bs \<Rightarrow> hex_bytes_debug bs
      | RecError e sources \<Rightarrow> e
      | RecDebug s \<Rightarrow> s)"

definition recorded_ok :: "'f fmt_lib \<Rightarrow> 'f recorded \<Rightarrow> bool" where
  "recorded_ok lib r = (case r of RecDebug s \<Rightarrow> \<not> fl_fails lib s | _ \<Rightarrow> True)"

definition error_source_list :: "bool \<Rightarrow> string list \<Rightarrow> string" where
  "error_source_list sanitize sources = ''['' @ join_with '', '' (map (escape_guard sanitize) sources) @ '']''"

record default_visitor =
  dv_text :: string
  dv_is_empty :: bool
  dv_ok :: bool

definition default_visitor_new :: "bool \<Rightarrow> default_visitor" where
  "default_visitor_new is_empty = \<lparr>dv_text = [], dv_is_empty = is_empty, dv_ok = True\<rparr>"

definition maybe_pad :: "default_visitor \<Rightarrow> default_visitor" where
  "maybe_pad v =
     (if dv_is_empty v then v\<lparr>dv_is_empty := False\<rparr>
      else v\<lparr>dv_text := dv_text v @ '' '', dv_ok := True\<rparr>)"

text \<open>\<open>DefaultVisitor::record_debug\<close> of a value that writes \<open>text\<close> and succeeds if \<open>ok\<close>.\<close>

definition default_record_debug ::
  "ansi_lib \<Rightarrow> fmt_writer \<Rightarrow> string \<Rightarrow> string \<Rightarrow> bool \<Rightarrow> default_visitor \<Rightarrow> default_visitor" where
  "default_record_debug an w name value ok v =
     (if \<not> dv_ok v then v
      else if starts_with name ''log.'' then v
      else
        (let v1 = maybe_pad v;
             written =
               (if name = ''message'' then escape_guard (wr_ansi_sanitization w) value
                else if starts_with name ''r#''
                then paint (writer_italic an w) (drop 2 name) @ paint (writer_dimmed an w) ''='' @ value
                else paint (writer_italic an w) name @ paint (writer_dimmed an w) ''='' @ value)
         in v1\<lparr>dv_text := dv_text v1 @ written, dv_ok := ok\<rparr>))"

definition default_record ::
  "'f fmt_lib \<Rightarrow> ansi_lib \<Rightarrow> fmt_writer \<Rightarrow> string \<times> 'f recorded \<Rightarrow> default_visitor \<Rightarrow> default_visitor" where
  "default_record lib an w = (\<lambda>(name, r) v.
     (case r of
        RecStr s \<Rightarrow>
          if \<not> dv_ok v then v
          else if name = ''message'' then default_record_debug an w name s True v
          else default_record_debug an w name (str_debug s) True v
      | RecError e sources \<Rightarrow>
          (let sanitize = wr_ansi_sanitization w in
           if sources \<noteq> [] then
             default_record_debug an w name
               (escape_guard sanitize e @ '' '' @ paint (writer_italic an w) name @
                paint (writer_italic an w) ''.sources'' @ paint (writer_dimmed an w) ''='' @
                error_source_list sanitize sources) True v
           else default_record_debug an w name (escape_guard sanitize e) True v)
      | _ \<Rightarrow> default_record_debug an w name (recorded_debug lib r) (recorded_ok lib r) v))"

definition format_fields_default ::
  "'f fmt_lib \<Rightarrow> ansi_lib \<Rightarrow> fmt_writer \<Rightarrow> (string \<times> 'f recorded) list \<Rightarrow> string \<times> bool" where
  "format_fields_default lib an w rs =
     (let v = fold (default_record lib an w) rs (default_visitor_new True) in (dv_text v, dv_ok v))"

text \<open>\<open>FieldFn\<close>: a user function writes each field; nothing is written after an error.\<close>

definition format_fields_fn ::
  "'f fmt_lib \<Rightarrow> (fmt_writer \<Rightarrow> string \<Rightarrow> string \<Rightarrow> string \<times> bool) \<Rightarrow> fmt_writer \<Rightarrow> (string \<times> 'f recorded) list \<Rightarrow> string \<times> bool" where
  "format_fields_fn lib f w rs =
     fold (\<lambda>(name, r) (out, ok).
       if ok then (let (s, ok1) = f w name (recorded_debug lib r) in (out @ s, ok1)) else (out, ok))
       rs ([], True)"

text \<open>
  What a value set hands to the visitor, with the names of the fields; \<open>None\<close> is the panic of a field
  that has no name.
\<close>

definition named_record :: "'f value_set \<Rightarrow> (string \<times> 'f recorded) list option" where
  "named_record vs =
     those (map (\<lambda>(f, r). map_option (\<lambda>n. (n, r)) (field_name f)) (value_set_record vs))"

subsection \<open>Event formats\<close>

datatype format_kind = Full | Compact

record format =
  fm_format :: format_kind
  fm_ansi :: "bool option"
  fm_display_timestamp :: bool
  fm_display_target :: bool
  fm_display_level :: bool
  fm_display_thread_id :: bool
  fm_display_thread_name :: bool
  fm_display_filename :: bool
  fm_display_line_number :: bool

definition format_default :: format where
  "format_default =
     \<lparr>fm_format = Full, fm_ansi = None, fm_display_timestamp = True, fm_display_target = True,
      fm_display_level = True, fm_display_thread_id = False, fm_display_thread_name = False,
      fm_display_filename = False, fm_display_line_number = False\<rparr>"

definition format_compact :: "format \<Rightarrow> format" where
  "format_compact f = f\<lparr>fm_format := Compact\<rparr>"

definition format_without_time :: "format \<Rightarrow> format" where
  "format_without_time f = f\<lparr>fm_display_timestamp := False\<rparr>"

definition format_with_ansi :: "bool \<Rightarrow> format \<Rightarrow> format" where
  "format_with_ansi b f = f\<lparr>fm_ansi := Some b\<rparr>"

definition format_with_target :: "bool \<Rightarrow> format \<Rightarrow> format" where
  "format_with_target b f = f\<lparr>fm_display_target := b\<rparr>"

definition format_with_level :: "bool \<Rightarrow> format \<Rightarrow> format" where
  "format_with_level b f = f\<lparr>fm_display_level := b\<rparr>"

definition format_with_thread_ids :: "bool \<Rightarrow> format \<Rightarrow> format" where
  "format_with_thread_ids b f = f\<lparr>fm_display_thread_id := b\<rparr>"

definition format_with_thread_names :: "bool \<Rightarrow> format \<Rightarrow> format" where
  "format_with_thread_names b f = f\<lparr>fm_display_thread_name := b\<rparr>"

definition format_with_file :: "bool \<Rightarrow> format \<Rightarrow> format" where
  "format_with_file b f = f\<lparr>fm_display_filename := b\<rparr>"

definition format_with_line_number :: "bool \<Rightarrow> format \<Rightarrow> format" where
  "format_with_line_number b f = f\<lparr>fm_display_line_number := b\<rparr>"

definition format_with_source_location :: "bool \<Rightarrow> format \<Rightarrow> format" where
  "format_with_source_location b f = format_with_file b (format_with_line_number b f)"

text \<open>The timer writes a text and says whether it succeeded.\<close>

definition format_timestamp :: "ansi_lib \<Rightarrow> string \<times> bool \<Rightarrow> format \<Rightarrow> fmt_writer \<Rightarrow> string" where
  "format_timestamp an timer f w =
     (if \<not> fm_display_timestamp f then []
      else
        (let time = fst timer @ (if snd timer then [] else ''<unknown time>'') in
         if wr_is_ansi w then fst (an_dimmed an) @ time @ snd (an_dimmed an) @ '' ''
         else time @ '' ''))"

definition level_str :: "level \<Rightarrow> string" where
  "level_str l = (case l of
      TRACE \<Rightarrow> ''TRACE'' | DEBUG \<Rightarrow> ''DEBUG'' | INFO \<Rightarrow> '' INFO'' | WARN \<Rightarrow> '' WARN'' | ERROR \<Rightarrow> ''ERROR'')"

definition fmt_level :: "ansi_lib \<Rightarrow> bool \<Rightarrow> level \<Rightarrow> string" where
  "fmt_level an ansi l = (if ansi then paint (an_level an l) (level_str l) else level_str l)"

text \<open>
  \<open>FmtThreadName\<close> pads to the longest name seen so far, kept in a static. A name that is longer than
  all before raises the static and is written as it is. \<open>str::len\<close> counts the bytes of the UTF-8
  encoding, the padding counts characters.
\<close>

definition str_len :: "string \<Rightarrow> nat" where
  "str_len s = (\<Sum>c \<leftarrow> s. if of_char c < (128 :: nat) then 1 else 2)"

definition pad_left :: "char \<Rightarrow> nat \<Rightarrow> string \<Rightarrow> string" where
  "pad_left c width s = replicate (width - length s) c @ s"

definition fmt_thread_name :: "string \<Rightarrow> nat \<Rightarrow> string \<times> nat" where
  "fmt_thread_name name max_len =
     (pad_left CHR '' '' max_len name, if str_len name > max_len then str_len name else max_len)"

text \<open>\<open>{:0>2?}\<close> of a \<open>ThreadId\<close>: the width applies to the number inside.\<close>

definition thread_id_debug :: "thread \<Rightarrow> string" where
  "thread_id_debug t = ''ThreadId('' @ pad_left CHR ''0'' 2 (show_nat t) @ '')''"

definition format_thread ::
  "format \<Rightarrow> thread \<Rightarrow> string option \<Rightarrow> nat \<Rightarrow> string \<times> nat" where
  "format_thread f t name max_len =
     (let (s1, max_len1) =
            (if fm_display_thread_name f then
               (case name of
                  Some n \<Rightarrow> (let (s, m) = fmt_thread_name n max_len in (s @ '' '', m))
                | None \<Rightarrow> (if \<not> fm_display_thread_id f then thread_id_debug t @ '' '' else [], max_len))
             else ([], max_len));
          s2 = (if fm_display_thread_id f then thread_id_debug t @ '' '' else [])
      in (s1 @ s2, max_len1))"

text \<open>The part before the spans, the same in both formats.\<close>

definition format_head ::
  "ansi_lib \<Rightarrow> string \<times> bool \<Rightarrow> format \<Rightarrow> fmt_writer \<Rightarrow> thread \<Rightarrow> string option \<Rightarrow> nat \<Rightarrow> level \<Rightarrow> string \<times> nat" where
  "format_head an timer f w t name max_len l =
     (let (thread, max_len1) = format_thread f t name max_len
      in (format_timestamp an timer f w @
          (if fm_display_level f then fmt_level an (wr_is_ansi w) l @ '' '' else []) @ thread, max_len1))"

text \<open>\<open>ff\<close> is the type id of \<open>FormattedFields<N>\<close>.\<close>

definition span_fields :: "type_id \<Rightarrow> span_ref \<Rightarrow> string option" where
  "span_fields ff sp = map_option ext_fields (ext_get ff (dat_extensions (sr_data sp)))"

abbreviation sref_name :: "span_ref \<Rightarrow> string" where
  "sref_name sp \<equiv> meta_name (dat_metadata (sr_data sp))"

definition full_span :: "ansi_lib \<Rightarrow> type_id \<Rightarrow> fmt_writer \<Rightarrow> span_ref \<Rightarrow> string" where
  "full_span an ff w sp =
     paint (writer_bold an w) (sref_name sp) @
     (case span_fields ff sp of
        Some flds \<Rightarrow>
          if flds \<noteq> [] then paint (writer_bold an w) ''{'' @ flds @ paint (writer_bold an w) ''}'' else []
      | None \<Rightarrow> []) @
     paint (writer_dimmed an w) '':''"

definition full_location :: "ansi_lib \<Rightarrow> format \<Rightarrow> fmt_writer \<Rightarrow> metadata \<Rightarrow> string" where
  "full_location an f w meta =
     (let dimmed = writer_dimmed an w;
          line = (if fm_display_line_number f then meta_line meta else None)
      in (if fm_display_target f then paint dimmed (meta_target meta) @ paint dimmed '':'' @ '' '' else []) @
         (if fm_display_filename f then
            (case meta_file meta of
               Some file \<Rightarrow> paint dimmed file @ paint dimmed '':'' @ (if line \<noteq> None then [] else '' '')
             | None \<Rightarrow> [])
          else []) @
         (case line of
            Some n \<Rightarrow> fst dimmed @ show_nat n @ '':'' @ snd dimmed @ '' ''
          | None \<Rightarrow> []))"

definition event_spans :: "layer_context \<Rightarrow> thread \<Rightarrow> 'f event \<Rightarrow> registry \<Rightarrow> span_ref list option" where
  "event_spans cx t e r = (case event_scope cx t e r of None \<Rightarrow> Some [] | Some scope \<Rightarrow> map_option rev scope)"

definition full_spans :: "ansi_lib \<Rightarrow> type_id \<Rightarrow> fmt_writer \<Rightarrow> span_ref list \<Rightarrow> string" where
  "full_spans an ff w spans = concat (map (full_span an ff w) spans) @ (if spans \<noteq> [] then '' '' else [])"

text \<open>\<open>FmtCtx\<close>: the explicit parent of the event if it is there, and otherwise the current span.\<close>

definition fmt_ctx_spans :: "layer_context \<Rightarrow> thread \<Rightarrow> 'f event \<Rightarrow> registry \<Rightarrow> span_ref list option" where
  "fmt_ctx_spans cx t e r =
     (case (case Option.bind (parent_id (ev_parent e)) (\<lambda>i. cx_span cx i r) of
              Some sp \<Rightarrow> Some sp | None \<Rightarrow> lookup_current cx t r) of
        None \<Rightarrow> Some []
      | Some sp \<Rightarrow> scope_from_root sp r)"

definition fmt_ctx :: "ansi_lib \<Rightarrow> bool \<Rightarrow> span_ref list \<Rightarrow> string" where
  "fmt_ctx an ansi spans =
     concat (map (\<lambda>sp. paint (if ansi then an_bold an else style_new) (sref_name sp) @ '':'') spans) @
     (if spans \<noteq> [] then '' '' else [])"

definition compact_location :: "ansi_lib \<Rightarrow> format \<Rightarrow> fmt_writer \<Rightarrow> metadata \<Rightarrow> string" where
  "compact_location an f w meta =
     (let dimmed = writer_dimmed an w;
          target = (if fm_display_target f then paint dimmed (meta_target meta) @ paint dimmed '':'' else []);
          file = (if fm_display_filename f then
              (case meta_file meta of
                 Some file \<Rightarrow> (if fm_display_target f then '' '' else []) @ paint dimmed file @ paint dimmed '':''
               | None \<Rightarrow> [])
            else []);
          line = (if fm_display_line_number f then
              (case meta_line meta of
                 Some n \<Rightarrow> fst dimmed @ show_nat n @ snd dimmed @ paint dimmed '':''
               | None \<Rightarrow> [])
            else []);
          needs_space = (fm_display_target f \<or> fm_display_filename f \<and> meta_file meta \<noteq> None \<or>
            fm_display_line_number f \<and> meta_line meta \<noteq> None)
      in target @ file @ line @ (if needs_space then '' '' else []))"

definition compact_fields :: "ansi_lib \<Rightarrow> type_id \<Rightarrow> fmt_writer \<Rightarrow> span_ref \<Rightarrow> string" where
  "compact_fields an ff w sp =
     (case span_fields ff sp of
        Some flds \<Rightarrow> if flds \<noteq> [] then '' '' @ paint (writer_dimmed an w) flds else []
      | None \<Rightarrow> [])"

text \<open>
  What \<open>format_event\<close> needs from its surroundings: \<open>en_norm\<close> is \<open>normalized_metadata\<close> of
  \<open>tracing-log\<close>, \<open>en_fields\<close> the \<open>FormatFields\<close> of the layer and \<open>en_ff\<close> the type id of the
  formatted fields it stores, \<open>en_timer\<close> what the timer writes now, \<open>en_thread_name\<close> the name of
  the thread.
\<close>

record 'f fmt_env =
  en_ansi :: ansi_lib
  en_norm :: "'f event \<Rightarrow> metadata option"
  en_fields :: "fmt_writer \<Rightarrow> (string \<times> 'f recorded) list \<Rightarrow> string \<times> bool"
  en_ff :: type_id
  en_timer :: "string \<times> bool"
  en_thread_name :: "thread \<Rightarrow> string option"

definition format_body ::
  "'f fmt_env \<Rightarrow> format \<Rightarrow> fmt_writer \<Rightarrow> metadata \<Rightarrow> string \<Rightarrow> span_ref list \<Rightarrow> span_ref list \<Rightarrow>
   (string \<times> 'f recorded) list \<Rightarrow> string \<times> bool" where
  "format_body en f w meta head spans ctx_spans rs =
     (let an = en_ansi en; (flds, ok) = en_fields en w rs in
      case fm_format f of
        Full \<Rightarrow>
          (let start = head @ full_spans an (en_ff en) w spans @ full_location an f w meta @ flds
           in if ok then (start @ [CHR 0x0A], True) else (start, False))
      | Compact \<Rightarrow>
          (let start = head @ fmt_ctx an (wr_is_ansi w) ctx_spans @ compact_location an f w meta @ flds
           in if ok then (start @ concat (map (compact_fields an (en_ff en) w) spans) @ [CHR 0x0A], True)
              else (start, False)))"

definition format_event ::
  "'f fmt_env \<Rightarrow> format \<Rightarrow> fmt_writer \<Rightarrow> thread \<Rightarrow> layer_context \<Rightarrow> registry \<Rightarrow> 'f event \<Rightarrow> nat \<Rightarrow>
   ((string \<times> bool) \<times> nat) option" where
  "format_event en f w0 t cx r e max_len =
     (let w = (case fm_ansi f of Some b \<Rightarrow> writer_with_ansi b w0 | None \<Rightarrow> w0);
          meta = (case en_norm en e of Some m \<Rightarrow> m | None \<Rightarrow> ev_metadata e);
          (head, max_len1) = format_head (en_ansi en) (en_timer en) f w t (en_thread_name en t) max_len (meta_level meta)
      in case (event_spans cx t e r, if fm_format f = Compact then fmt_ctx_spans cx t e r else Some [], named_record (ev_fields e)) of
           (Some spans, Some ctx_spans, Some rs) \<Rightarrow>
             Some (format_body en f w meta head spans ctx_spans rs, max_len1)
         | _ \<Rightarrow> None)"

subsection \<open>Span events\<close>

type_synonym fmt_span = u8

definition FMT_NEW :: fmt_span where "FMT_NEW = 1"
definition FMT_ENTER :: fmt_span where "FMT_ENTER = 2"
definition FMT_EXIT :: fmt_span where "FMT_EXIT = 4"
definition FMT_CLOSE :: fmt_span where "FMT_CLOSE = 8"
definition FMT_NONE :: fmt_span where "FMT_NONE = 0"
definition FMT_ACTIVE :: fmt_span where "FMT_ACTIVE = or FMT_ENTER FMT_EXIT"
definition FMT_FULL :: fmt_span where "FMT_FULL = or (or (or FMT_NEW FMT_ENTER) FMT_EXIT) FMT_CLOSE"

definition fmt_span_contains :: "fmt_span \<Rightarrow> fmt_span \<Rightarrow> bool" where
  "fmt_span_contains a b \<longleftrightarrow> and a b = b"

definition fmt_span_debug :: "fmt_span \<Rightarrow> string" where
  "fmt_span_debug k =
     (if or FMT_NONE k = FMT_NONE then ''FmtSpan::NONE''
      else join_with '' | '' (map snd (filter (\<lambda>(flag, _). fmt_span_contains k flag)
        [(FMT_NEW, ''FmtSpan::NEW''), (FMT_ENTER, ''FmtSpan::ENTER''), (FMT_EXIT, ''FmtSpan::EXIT''),
         (FMT_CLOSE, ''FmtSpan::CLOSE'')])))"

record fmt_span_config =
  fc_kind :: fmt_span
  fc_fmt_timing :: bool

definition fmt_span_config_default :: fmt_span_config where
  "fmt_span_config_default = \<lparr>fc_kind = FMT_NONE, fc_fmt_timing = True\<rparr>"

definition fc_without_time :: "fmt_span_config \<Rightarrow> fmt_span_config" where
  "fc_without_time c = c\<lparr>fc_fmt_timing := False\<rparr>"

definition fc_with_kind :: "fmt_span \<Rightarrow> fmt_span_config \<Rightarrow> fmt_span_config" where
  "fc_with_kind k c = c\<lparr>fc_kind := k\<rparr>"

definition trace_new :: "fmt_span_config \<Rightarrow> bool" where "trace_new c = fmt_span_contains (fc_kind c) FMT_NEW"
definition trace_enter :: "fmt_span_config \<Rightarrow> bool" where "trace_enter c = fmt_span_contains (fc_kind c) FMT_ENTER"
definition trace_exit :: "fmt_span_config \<Rightarrow> bool" where "trace_exit c = fmt_span_contains (fc_kind c) FMT_EXIT"
definition trace_close :: "fmt_span_config \<Rightarrow> bool" where "trace_close c = fmt_span_contains (fc_kind c) FMT_CLOSE"

subsection \<open>Fields\<close>

text \<open>The text a value contributes, and with the name of its field.\<close>

definition value_text :: "'f fmt_lib \<Rightarrow> ansi_lib \<Rightarrow> fmt_writer \<Rightarrow> string \<Rightarrow> 'f recorded \<Rightarrow> string" where
  "value_text lib an w name r =
     (case r of
        RecStr s \<Rightarrow> if name = ''message'' then s else str_debug s
      | RecError e sources \<Rightarrow>
          escape_guard (wr_ansi_sanitization w) e @
          (if sources = [] then []
           else '' '' @ paint (writer_italic an w) name @ paint (writer_italic an w) ''.sources'' @
             paint (writer_dimmed an w) ''='' @ error_source_list (wr_ansi_sanitization w) sources)
      | _ \<Rightarrow> recorded_debug lib r)"

definition field_text :: "'f fmt_lib \<Rightarrow> ansi_lib \<Rightarrow> fmt_writer \<Rightarrow> string \<times> 'f recorded \<Rightarrow> string" where
  "field_text lib an w = (\<lambda>(name, r).
     if name = ''message'' then escape_guard (wr_ansi_sanitization w) (value_text lib an w name r)
     else paint (writer_italic an w) (if starts_with name ''r#'' then drop 2 name else name) @
       paint (writer_dimmed an w) ''='' @ value_text lib an w name r)"

definition is_log_field :: "string \<times> 'f recorded \<Rightarrow> bool" where
  "is_log_field x \<longleftrightarrow> starts_with (fst x) ''log.''"

definition upto_failure :: "('a \<Rightarrow> bool) \<Rightarrow> 'a list \<Rightarrow> 'a list" where
  "upto_failure ok xs = takeWhile ok xs @ take 1 (dropWhile ok xs)"

lemma upto_failure_simps [simp]:
  "upto_failure ok [] = []" "upto_failure ok (x # xs) = x # (if ok x then upto_failure ok xs else [])"
  by (simp_all add: upto_failure_def)

lemma default_record_step:
  "default_record lib an w x v =
    (if \<not> dv_ok v \<or> is_log_field x then v
     else \<lparr>dv_text = dv_text v @ (if dv_is_empty v then [] else '' '') @ field_text lib an w x,
           dv_is_empty = False, dv_ok = recorded_ok lib (snd x)\<rparr>)"
proof -
  obtain name r where x: "x = (name, r)" by (cases x)
  have "default_record lib an w x v =
      default_record_debug an w name (value_text lib an w name r) (recorded_ok lib r) v"
    unfolding x by (cases r) (simp_all add: default_record_def value_text_def recorded_ok_def Let_def default_record_debug_def)
  then show ?thesis
    unfolding x by (cases v) (auto simp: default_record_debug_def is_log_field_def maybe_pad_def field_text_def Let_def)
qed

lemma join_with_append: "xs \<noteq> [] \<Longrightarrow> join_with sep (xs @ ys) = join_with sep xs @ concat (map (\<lambda>y. sep @ y) ys)"
proof (induction ys arbitrary: xs)
  case (Cons y ys)
  have "join_with sep (xs @ [y]) = join_with sep xs @ sep @ y" using Cons.prems
  proof (induction xs)
    case (Cons x xs)
    then show ?case by (cases "xs = []") (simp_all add: join_with_Cons)
  qed simp
  then show ?case using Cons.IH [of "xs @ [y]"] by simp
qed simp

text \<open>
  A visitor that writes the texts of the fields it does not skip with a separator in between, until a value fails: the
  text so far, whether it is still empty, and whether all is well.
\<close>

definition sep_step ::
  "string \<Rightarrow> ('a \<Rightarrow> string) \<Rightarrow> ('a \<Rightarrow> bool) \<Rightarrow> ('a \<Rightarrow> bool) \<Rightarrow> 'a \<Rightarrow> string \<times> bool \<times> bool \<Rightarrow> string \<times> bool \<times> bool" where
  "sep_step sep txt_of ok skip x = (\<lambda>(out, fresh, good).
     if \<not> good \<or> skip x then (out, fresh, good) else (out @ (if fresh then [] else sep) @ txt_of x, False, ok x))"

lemma sep_step_stops: "fold (sep_step sep txt_of ok skip) xs (out, fresh, False) = (out, fresh, False)"
  by (induction xs) (simp_all add: sep_step_def)

lemma fold_sep_step:
  "fold (sep_step sep txt_of ok skip) xs (out, fresh, True) =
    (let vis = filter (\<lambda>x. \<not> skip x) xs; shown = upto_failure ok vis in
     (out @ (if fresh then join_with sep (map txt_of shown) else concat (map (\<lambda>x. sep @ txt_of x) shown)),
      fresh \<and> vis = [], list_all ok vis))"
proof (induction xs arbitrary: out fresh)
  case (Cons x xs)
  then show ?case using join_with_append [of "[txt_of x]"]
    by (cases "skip x"; cases "ok x") (simp_all add: sep_step_def [of _ _ _ _ x] sep_step_stops Let_def comp_def)
qed simp

lemma fold_default_record:
  assumes "dv_ok v"
  shows "fold (default_record lib an w) rs v =
    (let vis = filter (\<lambda>x. \<not> is_log_field x) rs; shown = upto_failure (\<lambda>x. recorded_ok lib (snd x)) vis in
     \<lparr>dv_text = dv_text v @ (if dv_is_empty v then join_with '' '' (map (field_text lib an w) shown)
        else concat (map (\<lambda>x. '' '' @ field_text lib an w x) shown)),
      dv_is_empty = (dv_is_empty v \<and> vis = []), dv_ok = list_all (\<lambda>x. recorded_ok lib (snd x)) vis\<rparr>)"
proof -
  have "fold (default_record lib an w) rs v = (case fold (sep_step '' '' (field_text lib an w) (\<lambda>x. recorded_ok lib (snd x)) is_log_field) rs
      (dv_text v, dv_is_empty v, dv_ok v) of (a, b, c) \<Rightarrow> \<lparr>dv_text = a, dv_is_empty = b, dv_ok = c\<rparr>)" for v
    by (induction rs arbitrary: v) (auto simp: default_record_step sep_step_def)
  then show ?thesis using assms by (simp add: fold_sep_step Let_def)
qed

text \<open>
  The default field formatter, a visitor that keeps track of whether it has written anything and
  whether it has failed, writes the fields one after the other with a single space between them and
  leaves out those of the \<open>log\<close> crate. It stops at the first value whose own formatting fails, and
  reports an error exactly when there is one.
\<close>

theorem default_fields_join:
  "format_fields_default lib an w rs =
    (let vis = filter (\<lambda>x. \<not> is_log_field x) rs; ok = (\<lambda>x. recorded_ok lib (snd x)) in
     (join_with '' '' (map (field_text lib an w) (upto_failure ok vis)), list_all ok vis))"
  unfolding format_fields_default_def
  by (subst fold_default_record) (simp_all add: default_visitor_new_def Let_def)

subsection \<open>What characters a line has\<close>

definition terminal_control :: "char \<Rightarrow> bool" where
  "terminal_control c \<longleftrightarrow> (let n = of_char c :: nat in
     n \<in> {0x07, 0x08, 0x0c, 0x1b, 0x7f} \<or> 0x80 \<le> n \<and> n \<le> 0x9f)"

lemma printable_not_control: "is_printable c \<Longrightarrow> \<not> terminal_control c"
  by (auto simp: is_printable_def terminal_control_def Let_def)

lemma list_all_printable: "list_all is_printable s \<Longrightarrow> list_all (\<lambda>c. \<not> terminal_control c) s"
  by (auto simp: list_all_iff printable_not_control)

lemma escape_char_clean: "list_all (\<lambda>c. \<not> terminal_control c) (escape_char c)"
  using list_all_printable [OF show_hex_printable]
  by (auto simp: escape_char_def Let_def terminal_control_def)

lemma escape_guard_clean: "list_all (\<lambda>c. \<not> terminal_control c) (escape_guard True s)"
  unfolding escape_guard_def by (induction s) (simp_all add: escape_char_clean)

lemma escape_guard_id: "list_all (\<lambda>c. \<not> terminal_control c) s \<Longrightarrow> escape_guard b s = s"
  unfolding escape_guard_def by (induction s) (auto simp: escape_char_def terminal_control_def Let_def)

lemma list_all_join: "list_all P sep \<Longrightarrow> (\<And>x. x \<in> set xs \<Longrightarrow> list_all P x) \<Longrightarrow> list_all P (join_with sep xs)"
  by (induction sep xs rule: join_with.induct) auto

lemma hex_bytes_printable: "list_all is_printable (hex_bytes_debug bs)"
proof -
  have byte: "list_all is_printable (hex_byte b)" for b :: "8 word"
    using unsigned_less [of b, where ?'a = nat] by (auto simp: hex_byte_def hex_digit_def is_printable_def Let_def)
  then have "list_all is_printable (concat (map (\<lambda>c. '' '' @ hex_byte c) bs))" for bs
    by (induction bs) (simp_all, simp add: is_printable_def)
  with byte show ?thesis
    by (cases bs) (simp_all add: hex_bytes_debug_def, simp_all add: is_printable_def)
qed

text \<open>
  A line is made of the texts it is given and of printable ASCII. So whatever holds of those
  characters holds of the line, up to the newline at its end.
\<close>

definition ascii_ok :: "(char \<Rightarrow> bool) \<Rightarrow> bool" where
  "ascii_ok P \<longleftrightarrow> (\<forall>c. (32 :: nat) \<le> of_char c \<and> of_char c \<le> (126 :: nat) \<longrightarrow> P c)"

definition inputs_ok :: "(char \<Rightarrow> bool) \<Rightarrow> 'f fmt_env \<Rightarrow> thread \<Rightarrow> registry \<Rightarrow> 'f event \<Rightarrow> bool" where
  "inputs_ok P en t r e \<longleftrightarrow>
     list_all P (fst (en_timer en)) \<and>
     (\<forall>n. en_thread_name en t = Some n \<longrightarrow> list_all P n) \<and>
     (\<forall>m. m = ev_metadata e \<or> en_norm en e = Some m \<longrightarrow>
        list_all P (meta_target m) \<and> (\<forall>file. meta_file m = Some file \<longrightarrow> list_all P file)) \<and>
     (\<forall>i d. registry_get i r = Some d \<longrightarrow> list_all P (meta_name (dat_metadata d)) \<and>
        (\<forall>v. ext_get (en_ff en) (dat_extensions d) = Some v \<longrightarrow> list_all P (ext_fields v)))"

lemma ascii_texts:
  assumes "ascii_ok P"
  shows "list_all P (level_str l)" "list_all P (show_nat n)" "list_all P (thread_id_debug t)"
    "P (CHR '' '')" "P (CHR '':'')" "P (CHR ''{'')" "P (CHR ''}'')" "P (CHR ''='')"
    "list_all P ''<unknown time>''"
proof -
  have P: "P c" if "(32 :: nat) \<le> of_char c" "of_char c \<le> (126 :: nat)" for c using assms that by (simp add: ascii_ok_def)
  have "list_all P ds" if "list_all is_ascii_digit ds" for ds
    using that by (induction ds) (auto simp: is_ascii_digit_def intro: P)
  then show n: "list_all P (show_nat n)" for n using show_nat_digits by blast
  show "list_all P (level_str l)" by (cases l) (auto simp: level_str_def intro!: P)
  have "list_all P ''ThreadId(''" "list_all P (replicate k (CHR ''0''))" "P (CHR '')'')" for k
    by (auto simp: list_all_iff intro!: P)
  then show "list_all P (thread_id_debug t)" using n by (simp add: thread_id_debug_def pad_left_def)
  show "P (CHR '' '')" "P (CHR '':'')" "P (CHR ''{'')" "P (CHR ''}'')" "P (CHR ''='')" "list_all P ''<unknown time>''"
    by (auto intro!: P)
qed

lemma scope_members:
  assumes "pool_ok r" and "sp \<in> set (ancestor_refs r f (Some i))"
  shows "registry_get (sr_id sp) r = Some (sr_data sp)"
  using assms(2)
proof (induction "chain_length r (Some i)" arbitrary: i rule: less_induct)
  case less
  obtain d where d: "registry_get i r = Some d"
    using less.prems ancestor_refs_step [OF assms(1), of f i] by (cases "registry_get i r") auto
  show ?case
  proof (cases "dat_parent d")
    case None
    moreover have "ancestor_refs r f None = []" by (simp add: ancestor_refs_def)
    ultimately show ?thesis using less.prems d ancestor_refs_step [OF assms(1), of f i] by (auto split: if_splits)
  next
    case (Some q)
    then show ?thesis using less(1) [of q] less.prems d ancestor_refs_step [OF assms(1), of f i]
        chain_length_parent [OF assms(1) d] by (auto split: if_splits)
  qed
qed

text \<open>On a well-formed registry the spans of an event are found, and are spans of the registry.\<close>

lemma sref_scope_returns:
  assumes "pool_ok r"
  shows "\<exists>ss. sref_scope sp r = Some ss \<and> (\<forall>a \<in> set ss. registry_get (sr_id a) r = Some (sr_data a))"
  using scope_collect_returns [OF assms] scope_members [OF assms] unfolding sref_scope_def by blast

lemma event_spans_returns:
  assumes "pool_ok r"
  shows "\<exists>ss. event_spans cx t e r = Some ss \<and> (\<forall>a \<in> set ss. registry_get (sr_id a) r = Some (sr_data a))"
  unfolding event_spans_def event_scope_def
  using sref_scope_returns [OF assms] by (cases "event_span cx t e r") fastforce+

lemma fmt_ctx_spans_returns:
  assumes "pool_ok r"
  shows "\<exists>ss. fmt_ctx_spans cx t e r = Some ss \<and> (\<forall>a \<in> set ss. registry_get (sr_id a) r = Some (sr_data a))"
proof (cases "case Option.bind (parent_id (ev_parent e)) (\<lambda>i. cx_span cx i r) of
              Some sp \<Rightarrow> Some sp | None \<Rightarrow> lookup_current cx t r")
  case (Some sp)
  then show ?thesis using sref_scope_returns [OF assms, of sp] by (auto simp: fmt_ctx_spans_def scope_from_root_def)
qed (simp add: fmt_ctx_spans_def)

definition effective_writer :: "format \<Rightarrow> fmt_writer \<Rightarrow> fmt_writer" where
  "effective_writer f w = (case fm_ansi f of Some b \<Rightarrow> writer_with_ansi b w | None \<Rightarrow> w)"

lemma plain_style [simp]:
  assumes "\<not> wr_is_ansi w"
  shows "writer_bold an w = style_new" "writer_dimmed an w = style_new" "writer_italic an w = style_new"
  using assms by (simp_all add: writer_bold_def writer_dimmed_def writer_italic_def)

lemma paint_plain [simp]: "paint style_new s = s" "fst style_new = []" "snd style_new = []"
  by (simp_all add: paint_def style_new_def)

lemma format_head_chars:
  assumes "ascii_ok P" and "list_all P (fst timer)" and "\<And>n. name = Some n \<Longrightarrow> list_all P n" and "\<not> wr_is_ansi w"
  shows "list_all P (fst (format_head an timer f w t name m l))"
proof -
  note a = ascii_texts [OF assms(1)]
  have "list_all P (fst (fmt_thread_name n m))" if "name = Some n" for n
    using assms(3) [OF that] a by (auto simp: fmt_thread_name_def pad_left_def list_all_iff)
  then have "list_all P (fst (format_thread f t name m))"
    using a by (auto simp: format_thread_def Let_def split: option.split prod.split)
  then show ?thesis
    using a assms(2,4) by (auto simp: format_head_def format_timestamp_def fmt_level_def Let_def split: prod.split)
qed

lemma format_location_chars:
  assumes "ascii_ok P" and "list_all P (meta_target m)" and "\<And>file. meta_file m = Some file \<Longrightarrow> list_all P file"
    and "\<not> wr_is_ansi w"
  shows "list_all P (full_location an f w m)" "list_all P (compact_location an f w m)"
  using ascii_texts [OF assms(1)] assms(2-4)
  by (auto simp: full_location_def compact_location_def Let_def split: option.split)

lemma format_spans_chars:
  assumes "ascii_ok P" and "\<And>sp. sp \<in> set spans \<Longrightarrow> list_all P (sref_name sp)"
    and "\<And>sp flds. sp \<in> set spans \<Longrightarrow> span_fields ff sp = Some flds \<Longrightarrow> list_all P flds" and "\<not> wr_is_ansi w"
  shows "list_all P (full_spans an ff w spans)" "list_all P (fmt_ctx an False spans)"
    "list_all P (concat (map (compact_fields an ff w) spans))"
proof -
  note a = ascii_texts [OF assms(1)]
  have "list_all P (full_span an ff w sp)" "list_all P (compact_fields an ff w sp)" if "sp \<in> set spans" for sp
    using a assms(2,3) [OF that] assms(4) by (auto simp: full_span_def compact_fields_def split: option.split)
  then show "list_all P (full_spans an ff w spans)" "list_all P (concat (map (compact_fields an ff w) spans))"
    using a by (auto simp: full_spans_def list_all_iff)
  show "list_all P (fmt_ctx an False spans)" using a assms(2) by (auto simp: fmt_ctx_def list_all_iff)
qed

lemma format_event_chars:
  assumes ascii: "ascii_ok P" and inputs: "inputs_ok P en t r e" and pool: "pool_ok r"
    and plain: "\<not> wr_is_ansi (effective_writer f w)" and rs: "named_record (ev_fields e) = Some rs"
    and flds: "en_fields en (effective_writer f w) rs = (flds, ok)" "list_all P flds"
  shows "\<exists>line m. format_event en f w t cx r e max_len = Some ((line @ (if ok then [CHR 0x0A] else []), ok), m) \<and> list_all P line"
proof -
  let ?w = "effective_writer f w" and ?meta = "case en_norm en e of Some m \<Rightarrow> m | None \<Rightarrow> ev_metadata e"
  obtain spans where spans: "event_spans cx t e r = Some spans" "\<forall>a \<in> set spans. registry_get (sr_id a) r = Some (sr_data a)"
    using event_spans_returns [OF pool] by blast
  obtain ctx where ctx: "fmt_ctx_spans cx t e r = Some ctx" "\<forall>a \<in> set ctx. registry_get (sr_id a) r = Some (sr_data a)"
    using fmt_ctx_spans_returns [OF pool] by blast
  have sp: "list_all P (sref_name a)" "\<And>x. span_fields (en_ff en) a = Some x \<Longrightarrow> list_all P x"
    if "a \<in> set spans \<union> set ctx" for a
    using that inputs spans(2) ctx(2) by (fastforce simp: inputs_ok_def span_fields_def)+
  have meta: "list_all P (meta_target ?meta)" "\<And>file. meta_file ?meta = Some file \<Longrightarrow> list_all P file"
    using inputs by (auto simp: inputs_ok_def split: option.splits)
  obtain head m where head: "format_head (en_ansi en) (en_timer en) f ?w t (en_thread_name en t) max_len (meta_level ?meta) = (head, m)"
    by force
  have spans_ok: "list_all P (full_spans (en_ansi en) (en_ff en) ?w spans)"
    "list_all P (concat (map (compact_fields (en_ansi en) (en_ff en) ?w) spans))"
    "list_all P (fmt_ctx (en_ansi en) False ctx)"
    using sp by (intro format_spans_chars [OF ascii _ _ plain, of _ "en_ff en"]; blast)+
  have "list_all P head"
    using format_head_chars [OF ascii _ _ plain, of "en_timer en" "en_thread_name en t"] inputs head
    by (metis fst_conv inputs_ok_def)
  moreover note format_location_chars [OF ascii meta plain]
  ultimately have body: "\<exists>line. format_body en f ?w ?meta head spans (if fm_format f = Compact then ctx else []) rs =
      (line @ (if ok then [CHR 0x0A] else []), ok) \<and> list_all P line"
    using flds spans_ok plain by (cases "fm_format f"; cases ok) (auto simp: format_body_def Let_def)
  then obtain line where "format_body en f ?w ?meta head spans (if fm_format f = Compact then ctx else []) rs =
      (line @ (if ok then [CHR 0x0A] else []), ok)" "list_all P line" by blast
  then show ?thesis
    unfolding format_event_def effective_writer_def [symmetric] Let_def head
    using spans(1) ctx(1) rs by (cases "fm_format f") auto
qed

lemma recorded_debug_printable:
  assumes "\<And>x. r = RecF64 x \<Longrightarrow> list_all is_printable (fl_f64_debug lib x)"
    and "\<And>s. r \<noteq> RecDebug s" and "\<And>e sources. r \<noteq> RecError e sources"
  shows "list_all is_printable (recorded_debug lib r)"
proof (cases r)
  case (RecBool b)
  then show ?thesis by (simp add: recorded_debug_def is_printable_def)
qed (use assms in \<open>simp_all add: recorded_debug_def show_nat_printable show_int_printable str_debug_printable hex_bytes_printable\<close>)

abbreviation clean :: "string \<Rightarrow> bool" where
  "clean \<equiv> list_all (\<lambda>c. \<not> terminal_control c)"

text \<open>The texts a caller has to keep free of control characters: field names, and what is displayed under another name than \<open>message\<close>.\<close>

definition fields_ok :: "'f fmt_lib \<Rightarrow> (string \<times> 'f recorded) list \<Rightarrow> bool" where
  "fields_ok lib rs \<longleftrightarrow> list_all (\<lambda>(name, r). clean name \<and>
     (case r of
        RecDebug s \<Rightarrow> name = ''message'' \<or> clean s
      | RecF64 x \<Rightarrow> list_all is_printable (fl_f64_debug lib x)
      | _ \<Rightarrow> True)) rs"

lemma ascii_ok_control: "ascii_ok (\<lambda>c. \<not> terminal_control c)"
  by (auto simp: ascii_ok_def terminal_control_def Let_def)

lemma field_text_clean:
  assumes "fields_ok lib [(name, r)]" and "wr_ansi_sanitization w" and "\<not> wr_is_ansi w"
  shows "clean (field_text lib an w (name, r))"
proof -
  note a = ascii_texts [OF ascii_ok_control]
  have dots: "clean ''.sources''" "clean '', ''" "\<not> terminal_control (CHR ''['')" "\<not> terminal_control (CHR '']'')"
    by (simp_all add: terminal_control_def)
  have name: "clean name" "clean (drop 2 name)"
    using assms(1) by (auto simp: fields_ok_def list_all_iff dest: in_set_dropD)
  have "clean (error_source_list True sources)" for sources
    using dots by (auto simp: error_source_list_def escape_guard_clean intro!: list_all_join)
  then have "clean (value_text lib an w name r)" if "name \<noteq> ''message''"
  proof (cases r)
    case (RecError e sources)
    then show ?thesis using \<open>\<And>sources. clean (error_source_list True sources)\<close> assms(2,3) a dots name
      by (simp add: value_text_def escape_guard_clean)
  next
    case (RecDebug s)
    then show ?thesis using assms(1) that by (simp add: value_text_def recorded_debug_def fields_ok_def)
  qed (use assms(1) that list_all_printable [OF recorded_debug_printable [of r lib]]
      list_all_printable [OF str_debug_printable] in \<open>auto simp: value_text_def fields_ok_def\<close>)
  then show ?thesis using name a assms(2,3) by (auto simp: field_text_def escape_guard_clean)
qed


text \<open>
  A value displayed under any other name than \<open>message\<close> is written as it is, also when
  sanitization is on: control characters of the value reach the terminal.
\<close>

theorem display_fields_not_sanitized:
  assumes "name \<noteq> ''message''" and "\<not> starts_with name ''log.''" and "\<not> starts_with name ''r#''" and "\<not> wr_is_ansi w"
  shows "fst (format_fields_default lib an w [(name, RecDebug s)]) = name @ ''='' @ s"
  using assms by (simp add: default_fields_join is_log_field_def field_text_def value_text_def recorded_debug_def Let_def)

text \<open>
  An event that is declared to have no parent is formatted without spans by the full format, but
  the compact format still prints the names of the spans the thread is in.
\<close>

theorem compact_root_event:
  assumes "ev_parent e = Root" and "lookup_current cx t r = Some sp" and "scope_from_root sp r = Some spans"
  shows "event_spans cx t e r = Some [] \<and> fmt_ctx_spans cx t e r = Some spans"
  using assms by (simp add: event_spans_def event_scope_def event_span_def parent_is_root_def fmt_ctx_spans_def parent_id_def)

subsection \<open>Witnesses\<close>

definition demo_lib :: "unit fmt_lib" where
  "demo_lib = \<lparr>fl_f64_debug = (\<lambda>_. ''1.5''), fl_fails = (\<lambda>_. False)\<rparr>"

definition demo_ansi :: ansi_lib where
  "demo_ansi = \<lparr>an_bold = ([CHR 0x1B] @ ''[1m'', [CHR 0x1B] @ ''[0m''), an_dimmed = ([CHR 0x1B] @ ''[2m'', [CHR 0x1B] @ ''[0m''),
     an_italic = ([CHR 0x1B] @ ''[3m'', [CHR 0x1B] @ ''[0m''), an_level = (\<lambda>_. ([CHR 0x1B] @ ''[32m'', [CHR 0x1B] @ ''[0m''))\<rparr>"

definition demo_env :: "unit fmt_env" where
  "demo_env = \<lparr>en_ansi = demo_ansi, en_norm = (\<lambda>_. None), en_fields = format_fields_default demo_lib demo_ansi,
     en_ff = 0, en_timer = (''now'', True), en_thread_name = (\<lambda>_. None)\<rparr>"

definition demo_meta :: metadata where
  "demo_meta = \<lparr>meta_name = ''event'', meta_target = ''app'', meta_level = INFO, meta_module_path = None, meta_file = None,
     meta_line = None, meta_fields = \<lparr>fs_names = [''message'', ''user''], fs_callsite = 7\<rparr>, meta_kind = EVENT\<rparr>"

text \<open>A message with an escape sequence, and a string field with one.\<close>

definition demo_msg_event :: "unit event" where
  "demo_msg_event = event_new demo_meta \<lparr>vs_values = All [Some (VDebug ([CHR 0x1B] @ ''[2J'')), Some (VStr [CHR 0x07])],
     vs_fields = meta_fields demo_meta\<rparr>"

lemma demo_named: "named_record (ev_fields demo_msg_event) =
    Some [(''message'', RecDebug ([CHR 0x1B] @ ''[2J'')), (''user'', RecStr [CHR 0x07])]"
  by (simp add: named_record_def demo_msg_event_def event_new_def demo_meta_def value_set_record_def field_set_iter_def
      field_set_len_def field_name_def upt_rec)


theorem display_fields_not_sanitized_witness:
  "fst (format_fields_default demo_lib demo_ansi writer_new [(''user'', RecDebug ([CHR 0x1B] @ ''[2J''))]) =
     ''user='' @ [CHR 0x1B] @ ''[2J''"
  by (subst display_fields_not_sanitized) (simp_all add: starts_with_def writer_new_def)

theorem compact_root_event_witness:
  "event_spans context_new 5 (demo_msg_event\<lparr>ev_parent := Root\<rparr>) (registry_enter 5 1 demo_spans) = Some [] \<and>
   fmt_ctx_spans context_new 5 (demo_msg_event\<lparr>ev_parent := Root\<rparr>) (registry_enter 5 1 demo_spans) =
     Some [\<lparr>sr_id = 1, sr_data = demo_span None, sr_filter = filter_id_none\<rparr>]"
proof (rule compact_root_event)
  let ?r = "registry_enter 5 1 demo_spans" and ?sp = "\<lparr>sr_id = 1, sr_data = demo_span None, sr_filter = filter_id_none\<rparr>"
  have get: "registry_get 1 ?r = Some (demo_span None)"
    by (simp add: registry_get_def registry_enter_def demo_spans_def id_to_idx_def id_into_u64_def)
  have on: "data_is_enabled_for (demo_span None) filter_id_none"
    by (simp add: data_is_enabled_for_def filter_map_is_enabled_def filter_id_none_def)
  have "stack_current (reg_current_spans ?r 5) = Some 1"
    by (simp add: registry_enter_def demo_spans_def registry_default_def stack_push_def stack_iter_def stack_current_def)
  then show "lookup_current context_new 5 ?r = Some ?sp"
    using get on by (simp add: lookup_current_def context_new_def registry_current_span_def current_id_def
        lookup_span_def try_with_filter_def sref_with_filter_def)
  have pool: "pool_ok ?r"
    by (simp add: pool_ok_def registry_enter_def demo_spans_def demo_span_def id_to_idx_def id_into_u64_def registry_default_def)
  have "dat_parent (demo_span None) = None" by (simp add: demo_span_def)
  then show "scope_from_root ?sp ?r = Some [?sp]"
    using ancestor_refs_step [OF pool, of filter_id_none 1] get on scope_collect_returns [OF pool]
    by (simp add: scope_from_root_def sref_scope_def ancestor_refs_def [of _ _ None])
qed simp

end
