(* ===== verification/Fmt_Writer.thy ===== *)
theory Fmt_Writer
  imports Metadata
begin

text \<open>
  Where the lines of the \<open>fmt\<close> layer go: \<open>tracing-subscriber/src/fmt/writer.rs\<close>.

  An \<open>io::Write\<close> is a record of its operations on a world \<open>'w\<close>; an error is \<open>None\<close>. A
  \<open>MakeWriter\<close> is the pair of its two methods, and its type of writers a parameter: a combinator that
  may discard what is written makes an \<open>OptionalWriter\<close>, whose second case is \<open>io::sink()\<close>.
\<close>

type_synonym bytes = string

record 'w io_writer =
  io_write :: "bytes \<Rightarrow> 'w \<Rightarrow> nat option \<times> 'w"
  io_write_all :: "bytes \<Rightarrow> 'w \<Rightarrow> unit option \<times> 'w"
  io_flush :: "'w \<Rightarrow> unit option \<times> 'w"

definition sink :: "'w io_writer" where
  "sink = \<lparr>io_write = (\<lambda>buf s. (Some (length buf), s)), io_write_all = (\<lambda>buf s. (Some (), s)), io_flush = (\<lambda>s. (Some (), s))\<rparr>"

record 'a make_writer =
  mk_make_writer :: 'a
  mk_make_writer_for :: "metadata \<Rightarrow> 'a"

text \<open>A \<open>MakeWriter\<close> that has only \<open>make_writer\<close>: closures, \<open>Arc\<close>, \<open>File\<close>, \<open>Mutex\<close>.\<close>

definition make_writer_of :: "'a \<Rightarrow> 'a make_writer" where
  "make_writer_of a = \<lparr>mk_make_writer = a, mk_make_writer_for = (\<lambda>_. a)\<rparr>"

subsection \<open>Writers\<close>

datatype ('a, 'b) either_writer = WriterA 'a | WriterB 'b

definition either_writer :: "('w io_writer, 'w io_writer) either_writer \<Rightarrow> 'w io_writer" where
  "either_writer e =
     \<lparr>io_write = (\<lambda>buf. case e of WriterA a \<Rightarrow> io_write a buf | WriterB b \<Rightarrow> io_write b buf),
      io_write_all = (\<lambda>buf. case e of WriterA a \<Rightarrow> io_write_all a buf | WriterB b \<Rightarrow> io_write_all b buf),
      io_flush = (case e of WriterA a \<Rightarrow> io_flush a | WriterB b \<Rightarrow> io_flush b)\<rparr>"

type_synonym ('a, 'w) optional_writer = "('a, 'w io_writer) either_writer"

definition optional_none :: "('a, 'w) optional_writer" where
  "optional_none = WriterB sink"

definition optional_some :: "'a \<Rightarrow> ('a, 'w) optional_writer" where
  "optional_some a = WriterA a"

definition optional_from :: "'a option \<Rightarrow> ('a, 'w) optional_writer" where
  "optional_from x = (case x of Some a \<Rightarrow> optional_some a | None \<Rightarrow> optional_none)"

text \<open>\<open>impl_tee\<close>: both operations are run, then the first error of the two is returned.\<close>

definition tee_run :: "('w \<Rightarrow> 'x option \<times> 'w) \<Rightarrow> ('w \<Rightarrow> 'x option \<times> 'w) \<Rightarrow> 'w \<Rightarrow> ('x \<times> 'x) option \<times> 'w" where
  "tee_run f g s =
     (let (a, s1) = f s; (b, s2) = g s1 in (case (a, b) of (Some x, Some y) \<Rightarrow> Some (x, y) | _ \<Rightarrow> None, s2))"

definition tee_writer :: "'w io_writer \<Rightarrow> 'w io_writer \<Rightarrow> 'w io_writer" where
  "tee_writer a b =
     \<lparr>io_write = (\<lambda>buf s. let (r, s1) = tee_run (io_write a buf) (io_write b buf) s in (map_option (\<lambda>(x, y). max x y) r, s1)),
      io_write_all = (\<lambda>buf s. let (r, s1) = tee_run (io_write_all a buf) (io_write_all b buf) s in (map_option (\<lambda>_. ()) r, s1)),
      io_flush = (\<lambda>s. let (r, s1) = tee_run (io_flush a) (io_flush b) s in (map_option (\<lambda>_. ()) r, s1))\<rparr>"

subsection \<open>\<open>TestWriter\<close>\<close>

text \<open>The texts printed to the standard streams.\<close>

record std_streams =
  st_stdout :: string
  st_stderr :: string

record test_writer =
  tw_use_stderr :: bool

definition test_writer_new :: test_writer where
  "test_writer_new = \<lparr>tw_use_stderr = False\<rparr>"

definition test_writer_with_stderr :: test_writer where
  "test_writer_with_stderr = \<lparr>tw_use_stderr = True\<rparr>"

definition test_writer_write :: "test_writer \<Rightarrow> bytes \<Rightarrow> std_streams \<Rightarrow> nat option \<times> std_streams" where
  "test_writer_write w buf s =
     (Some (length buf),
      if tw_use_stderr w then s\<lparr>st_stderr := st_stderr s @ buf\<rparr> else s\<lparr>st_stdout := st_stdout s @ buf\<rparr>)"

definition test_writer_make :: "test_writer \<Rightarrow> test_writer make_writer" where
  "test_writer_make w = make_writer_of test_writer_new"

subsection \<open>Combinators\<close>

definition with_max_level :: "level \<Rightarrow> 'a make_writer \<Rightarrow> ('a, 'w) optional_writer make_writer" where
  "with_max_level l m =
     \<lparr>mk_make_writer = optional_none,
      mk_make_writer_for = (\<lambda>meta. if meta_level meta \<le> l then optional_some (mk_make_writer_for m meta) else optional_none)\<rparr>"

definition with_min_level :: "level \<Rightarrow> 'a make_writer \<Rightarrow> ('a, 'w) optional_writer make_writer" where
  "with_min_level l m =
     \<lparr>mk_make_writer = optional_none,
      mk_make_writer_for = (\<lambda>meta. if meta_level meta \<ge> l then optional_some (mk_make_writer_for m meta) else optional_none)\<rparr>"

definition writer_with_filter :: "(metadata \<Rightarrow> bool) \<Rightarrow> 'a make_writer \<Rightarrow> ('a, 'w) optional_writer make_writer" where
  "writer_with_filter f m =
     \<lparr>mk_make_writer = optional_some (mk_make_writer m),
      mk_make_writer_for = (\<lambda>meta. if f meta then optional_some (mk_make_writer_for m meta) else optional_none)\<rparr>"

definition writer_and :: "'w io_writer make_writer \<Rightarrow> 'w io_writer make_writer \<Rightarrow> 'w io_writer make_writer" where
  "writer_and a b =
     \<lparr>mk_make_writer = tee_writer (mk_make_writer a) (mk_make_writer b),
      mk_make_writer_for = (\<lambda>meta. tee_writer (mk_make_writer_for a meta) (mk_make_writer_for b meta))\<rparr>"

definition writer_or_else :: "('a, 'w) optional_writer make_writer \<Rightarrow> 'b make_writer \<Rightarrow> ('a, 'b) either_writer make_writer" where
  "writer_or_else m other =
     \<lparr>mk_make_writer = (case mk_make_writer m of WriterA a \<Rightarrow> WriterA a | WriterB _ \<Rightarrow> WriterB (mk_make_writer other)),
      mk_make_writer_for = (\<lambda>meta. case mk_make_writer_for m meta of
          WriterA a \<Rightarrow> WriterA a | WriterB _ \<Rightarrow> WriterB (mk_make_writer_for other meta))\<rparr>"

text \<open>\<open>BoxMakeWriter\<close> erases the type of the writers.\<close>

definition box_make_writer :: "('a \<Rightarrow> 'w io_writer) \<Rightarrow> 'a make_writer \<Rightarrow> 'w io_writer make_writer" where
  "box_make_writer f m =
     \<lparr>mk_make_writer = f (mk_make_writer m), mk_make_writer_for = (\<lambda>meta. f (mk_make_writer_for m meta))\<rparr>"

subsection \<open>Routing\<close>

text \<open>
  Configurations built from numbered streams with the combinators, and the streams that a
  configuration selects for an event. \<open>route_opt\<close> is \<open>None\<close> for the sink.
\<close>

datatype writer_exp =
    WBase nat
  | WAnd writer_exp writer_exp
  | WOrElse optional_exp writer_exp
  | WOptional optional_exp
and optional_exp =
    WMaxLevel level writer_exp
  | WMinLevel level writer_exp
  | WFilter "metadata \<Rightarrow> bool" writer_exp

primrec compile_writer :: "(nat \<Rightarrow> 'w io_writer) \<Rightarrow> writer_exp \<Rightarrow> 'w io_writer make_writer"
  and compile_optional :: "(nat \<Rightarrow> 'w io_writer) \<Rightarrow> optional_exp \<Rightarrow> ('w io_writer, 'w) optional_writer make_writer" where
  "compile_writer base (WBase n) = make_writer_of (base n)"
| "compile_writer base (WAnd a b) = writer_and (compile_writer base a) (compile_writer base b)"
| "compile_writer base (WOrElse a b) =
     box_make_writer either_writer (writer_or_else (compile_optional base a) (compile_writer base b))"
| "compile_writer base (WOptional a) = box_make_writer either_writer (compile_optional base a)"
| "compile_optional base (WMaxLevel l a) = with_max_level l (compile_writer base a)"
| "compile_optional base (WMinLevel l a) = with_min_level l (compile_writer base a)"
| "compile_optional base (WFilter f a) = writer_with_filter f (compile_writer base a)"

primrec route :: "metadata \<Rightarrow> writer_exp \<Rightarrow> nat list"
  and route_opt :: "metadata \<Rightarrow> optional_exp \<Rightarrow> nat list option" where
  "route meta (WBase n) = [n]"
| "route meta (WAnd a b) = route meta a @ route meta b"
| "route meta (WOrElse a b) = (case route_opt meta a of Some ns \<Rightarrow> ns | None \<Rightarrow> route meta b)"
| "route meta (WOptional a) = (case route_opt meta a of Some ns \<Rightarrow> ns | None \<Rightarrow> [])"
| "route_opt meta (WMaxLevel l a) = (if meta_level meta \<le> l then Some (route meta a) else None)"
| "route_opt meta (WMinLevel l a) = (if l \<le> meta_level meta then Some (route meta a) else None)"
| "route_opt meta (WFilter f a) = (if f meta then Some (route meta a) else None)"

text \<open>A stream accepts a part of what it is given, and may report an error.\<close>

definition stream_writer :: "(nat \<Rightarrow> bool) \<Rightarrow> (nat \<Rightarrow> bytes \<Rightarrow> bytes) \<Rightarrow> nat \<Rightarrow> (nat \<Rightarrow> bytes) io_writer" where
  "stream_writer ok part n =
     \<lparr>io_write = (\<lambda>buf s. (if ok n then Some (length (part n buf)) else None, s(n := s n @ part n buf))),
      io_write_all = (\<lambda>buf s. (if ok n then Some () else None, s(n := s n @ part n buf))),
      io_flush = (\<lambda>s. (if ok n then Some () else None, s))\<rparr>"

definition stream_append :: "(nat \<Rightarrow> bytes \<Rightarrow> bytes) \<Rightarrow> bytes \<Rightarrow> nat \<Rightarrow> (nat \<Rightarrow> bytes) \<Rightarrow> nat \<Rightarrow> bytes" where
  "stream_append part buf n s = s(n := s n @ part n buf)"

definition routed :: "(nat \<Rightarrow> bool) \<Rightarrow> (nat \<Rightarrow> bytes \<Rightarrow> bytes) \<Rightarrow> nat list \<Rightarrow> (nat \<Rightarrow> bytes) io_writer \<Rightarrow> bool" where
  "routed ok part ns w \<longleftrightarrow> (\<forall>buf s. io_write_all w buf s =
     (if list_all ok ns then Some () else None, fold (stream_append part buf) ns s))"

lemma routed_tee: "routed ok part ns a \<Longrightarrow> routed ok part ms b \<Longrightarrow> routed ok part (ns @ ms) (tee_writer a b)"
  by (simp add: routed_def tee_writer_def tee_run_def Let_def)

lemma routed_either:
  "routed ok part ns a \<Longrightarrow> routed ok part ns (either_writer (WriterA a))"
  "routed ok part ns b \<Longrightarrow> routed ok part ns (either_writer (WriterB b))"
  by (simp_all add: routed_def either_writer_def)

lemma routed_sink: "routed ok part [] sink"
  by (simp add: routed_def sink_def)

lemma routed_compile:
  "routed ok part (route meta a) (mk_make_writer_for (compile_writer (stream_writer ok part) a) meta)"
  "case route_opt meta o1 of
     Some ns \<Rightarrow> \<exists>w. mk_make_writer_for (compile_optional (stream_writer ok part) o1) meta = WriterA w \<and> routed ok part ns w
   | None \<Rightarrow> mk_make_writer_for (compile_optional (stream_writer ok part) o1) meta = WriterB sink"
proof (induction a and o1)
  case (WBase n)
  show ?case by (simp add: routed_def make_writer_of_def stream_writer_def stream_append_def)
next
  case (WOrElse a b)
  then show ?case
    by (auto simp: box_make_writer_def writer_or_else_def intro: routed_either split: option.splits)
next
  case (WOptional a)
  then show ?case
    by (auto simp: box_make_writer_def intro: routed_either routed_sink split: option.splits)
qed (auto simp: writer_and_def routed_tee with_max_level_def with_min_level_def writer_with_filter_def
    optional_some_def optional_none_def)

text \<open>
  C38. However writers are combined by level, by filter, with \<open>and\<close> and with \<open>or_else\<close>: writing a line
  to the writer made for an event appends it to every stream the configuration selects for the
  event's metadata, in order, and to no other. A stream that fails does not keep the line from the
  others, and its error is reported.
\<close>

theorem writers_route:
  "io_write_all (mk_make_writer_for (compile_writer (stream_writer ok part) a) meta) line s =
     (if list_all ok (route meta a) then Some () else None,
      fold (\<lambda>n s. s(n := s n @ part n line)) (route meta a) s)"
proof -
  have "stream_append part line = (\<lambda>n s. s(n := s n @ part n line))" by (simp add: stream_append_def fun_eq_iff)
  then show ?thesis using routed_compile(1) [of ok part meta a] by (simp add: routed_def)
qed

text \<open>
  As a \<open>MakeWriter\<close>, a \<open>TestWriter\<close> makes writers to the standard output, also when it was
  created to write to the standard error.
\<close>

theorem test_writer_loses_stderr:
  "test_writer_write (mk_make_writer_for (test_writer_make test_writer_with_stderr) meta) buf s =
     (Some (length buf), s\<lparr>st_stdout := st_stdout s @ buf\<rparr>)"
  by (simp add: test_writer_write_def test_writer_make_def make_writer_of_def test_writer_new_def)

text \<open>
  \<open>write\<close> of a \<open>Tee\<close> reports the larger of the two counts: when the writers accept different parts
  of the buffer, a caller that continues after the reported count skips bytes of one of them.
\<close>

theorem tee_write_count:
  assumes "io_write a buf s = (Some m, s1)" and "io_write b buf s1 = (Some n, s2)"
  shows "io_write (tee_writer a b) buf s = (Some (max m n), s2)"
  using assms by (simp add: tee_writer_def tee_run_def)

end
