(* ===== verification/Fmt_Layer.thy ===== *)
theory Fmt_Layer
  imports Fmt_Format Fmt_Writer Layered
begin

text \<open>
  The \<open>fmt\<close> layer: \<open>tracing-subscriber/src/fmt/fmt_layer.rs\<close>.

  The layer is generic in its formatters and its \<open>MakeWriter\<close>; they are fields of the record. The state a
  callback runs in is the layer's \<open>lstate\<close>: the registry, where the formatted fields and the timings of a
  span are kept as extensions, and a \<open>fmt_world\<close> with the writers' world, the thread-local line buffer and
  the clock. \<open>None\<close> is a panic or a formatter that does not return. Counters wrap like a release build.
\<close>

datatype internal_error = SpanFormatError | WriteError | WriteFormatError

record 'w fmt_world =
  fw_out :: 'w
  fw_buf :: string
  fw_buf_borrowed :: bool
  fw_max_len :: nat
  fw_now :: nat
  fw_stderr :: "internal_error list"
  fw_panicked :: bool

record ('f, 'w) fmt_layer =
  fy_make_writer :: "'w io_writer make_writer"
  fy_fmt_fields :: "fmt_writer \<Rightarrow> (string \<times> 'f recorded) list \<Rightarrow> string \<times> bool"
  fy_fmt_event :: "fmt_writer \<Rightarrow> thread \<Rightarrow> layer_context \<Rightarrow> registry \<Rightarrow> 'f event \<Rightarrow> nat \<Rightarrow> ((string \<times> bool) \<times> nat) option"
  fy_fmt_span :: fmt_span_config
  fy_is_ansi :: bool
  fy_ansi_sanitization :: bool
  fy_log_internal_errors :: bool

text \<open>
  What the layer uses and this file does not define: the type ids of \<open>FormattedFields<N>\<close> and of
  \<open>Timings\<close>, the \<open>Debug\<close> output of an event's fields, and \<open>TimingDisplay\<close>, which computes with
  floating point numbers.
\<close>

record 'f fmt_params =
  fp_ff :: type_id
  fp_timings :: type_id
  fp_fields_debug :: "'f event \<Rightarrow> string"
  fp_timing_display :: "u64 \<Rightarrow> string"

subsection \<open>Configuration\<close>

text \<open>\<open>no_color\<close> is the value of the environment variable \<open>NO_COLOR\<close>.\<close>

definition fmt_layer_default ::
  "string option \<Rightarrow> 'w io_writer make_writer \<Rightarrow> (fmt_writer \<Rightarrow> (string \<times> 'f recorded) list \<Rightarrow> string \<times> bool) \<Rightarrow>
   (fmt_writer \<Rightarrow> thread \<Rightarrow> layer_context \<Rightarrow> registry \<Rightarrow> 'f event \<Rightarrow> nat \<Rightarrow> ((string \<times> bool) \<times> nat) option) \<Rightarrow> ('f, 'w) fmt_layer" where
  "fmt_layer_default no_color stdout default_fields default_format =
     \<lparr>fy_make_writer = stdout, fy_fmt_fields = default_fields, fy_fmt_event = default_format,
      fy_fmt_span = fmt_span_config_default,
      fy_is_ansi = (case no_color of None \<Rightarrow> True | Some v \<Rightarrow> v = []),
      fy_ansi_sanitization = True, fy_log_internal_errors = False\<rparr>"

definition fy_with_writer :: "'w io_writer make_writer \<Rightarrow> ('f, 'w) fmt_layer \<Rightarrow> ('f, 'w) fmt_layer" where
  "fy_with_writer m l = l\<lparr>fy_make_writer := m\<rparr>"

definition fy_map_writer ::
  "('w io_writer make_writer \<Rightarrow> 'w io_writer make_writer) \<Rightarrow> ('f, 'w) fmt_layer \<Rightarrow> ('f, 'w) fmt_layer" where
  "fy_map_writer g l = l\<lparr>fy_make_writer := g (fy_make_writer l)\<rparr>"

definition fy_event_format ::
  "(fmt_writer \<Rightarrow> thread \<Rightarrow> layer_context \<Rightarrow> registry \<Rightarrow> 'f event \<Rightarrow> nat \<Rightarrow> ((string \<times> bool) \<times> nat) option) \<Rightarrow>
   ('f, 'w) fmt_layer \<Rightarrow> ('f, 'w) fmt_layer" where
  "fy_event_format e l = l\<lparr>fy_fmt_event := e\<rparr>"

definition fy_set_ansi :: "bool \<Rightarrow> ('f, 'w) fmt_layer \<Rightarrow> ('f, 'w) fmt_layer" where
  "fy_set_ansi b l = l\<lparr>fy_is_ansi := b\<rparr>"

definition fy_with_ansi_sanitization :: "bool \<Rightarrow> ('f, 'w) fmt_layer \<Rightarrow> ('f, 'w) fmt_layer" where
  "fy_with_ansi_sanitization b l = l\<lparr>fy_ansi_sanitization := b\<rparr>"

definition fy_with_log_internal_errors :: "bool \<Rightarrow> ('f, 'w) fmt_layer \<Rightarrow> ('f, 'w) fmt_layer" where
  "fy_with_log_internal_errors b l = l\<lparr>fy_log_internal_errors := b\<rparr>"

definition fy_set_span_events :: "fmt_span \<Rightarrow> ('f, 'w) fmt_layer \<Rightarrow> ('f, 'w) fmt_layer" where
  "fy_set_span_events k l = l\<lparr>fy_fmt_span := \<lparr>fc_kind = k, fc_fmt_timing = fc_fmt_timing (fy_fmt_span l)\<rparr>\<rparr>"

definition fy_with_span_events :: "fmt_span \<Rightarrow> ('f, 'w) fmt_layer \<Rightarrow> ('f, 'w) fmt_layer" where
  "fy_with_span_events k l = l\<lparr>fy_fmt_span := fc_with_kind k (fy_fmt_span l)\<rparr>"

definition fy_fmt_fields_with ::
  "(fmt_writer \<Rightarrow> (string \<times> 'f recorded) list \<Rightarrow> string \<times> bool) \<Rightarrow> ('f, 'w) fmt_layer \<Rightarrow> ('f, 'w) fmt_layer" where
  "fy_fmt_fields_with g l = l\<lparr>fy_fmt_fields := g\<rparr>"

subsection \<open>Formatted fields\<close>

definition formatted_fields_new :: "string \<Rightarrow> ext_value" where
  "formatted_fields_new s = ExtFields False True s"

definition formatted_fields_writer :: "ext_value \<Rightarrow> fmt_writer" where
  "formatted_fields_writer v =
     writer_with_ansi_sanitization (ext_was_sanitized v) (writer_with_ansi (ext_was_ansi v) writer_new)"

text \<open>Formatting into fresh fields, as both \<open>on_new_span\<close> and \<open>on_record\<close> do.\<close>

definition format_new_fields :: "('f, 'w) fmt_layer \<Rightarrow> (string \<times> 'f recorded) list \<Rightarrow> ext_value \<times> bool" where
  "format_new_fields l rs =
     (let v = ExtFields (fy_is_ansi l) (fy_ansi_sanitization l) [];
          (s, ok) = fy_fmt_fields l (formatted_fields_writer v) rs
      in (ExtFields (fy_is_ansi l) (fy_ansi_sanitization l) s, ok))"

definition add_fields ::
  "(fmt_writer \<Rightarrow> (string \<times> 'f recorded) list \<Rightarrow> string \<times> bool) \<Rightarrow> ext_value \<Rightarrow> (string \<times> 'f recorded) list \<Rightarrow> ext_value" where
  "add_fields format_fields current rs =
     (let padded = ext_fields current @ (if ext_fields current \<noteq> [] then '' '' else [])
      in ExtFields (ext_was_ansi current) (ext_was_sanitized current)
           (padded @ fst (format_fields (formatted_fields_writer current) rs)))"

abbreviation ls_out :: "'w fmt_world lstate \<Rightarrow> 'w" where
  "ls_out s \<equiv> fw_out (ls_world s)"

subsection \<open>Events\<close>

definition log_stderr :: "bool \<Rightarrow> internal_error \<Rightarrow> 'w fmt_world \<Rightarrow> 'w fmt_world" where
  "log_stderr b err w = (if b then w\<lparr>fw_stderr := fw_stderr w @ [err]\<rparr> else w)"

definition fmt_on_event ::
  "'f fmt_params \<Rightarrow> ('f, 'w) fmt_layer \<Rightarrow> thread \<Rightarrow> 'f event \<Rightarrow> layer_context \<Rightarrow> 'w fmt_world lstate \<Rightarrow> 'w fmt_world lstate option" where
  "fmt_on_event fp l t e cx s =
     (let wd = ls_world s;
          wr = writer_with_ansi_sanitization (fy_ansi_sanitization l) (writer_with_ansi (fy_is_ansi l) writer_new);
          buf = (if fw_buf_borrowed wd then [] else fw_buf wd)
      in case fy_fmt_event l wr t cx (ls_registry s) e (fw_max_len wd) of
           None \<Rightarrow> None
         | Some ((text, ok), max_len) \<Rightarrow>
             (let writer = mk_make_writer_for (fy_make_writer l) (ev_metadata e);
                  wd1 = wd\<lparr>fw_max_len := max_len\<rparr>;
                  wd2 =
                    (if ok then
                       (let (res, out) = io_write_all writer (buf @ text) (fw_out wd1)
                        in log_stderr (fy_log_internal_errors l \<and> res = None) WriteError (wd1\<lparr>fw_out := out\<rparr>))
                     else if fy_log_internal_errors l then
                       (let msg = ''Unable to format the following event. Name: '' @ meta_name (ev_metadata e) @
                              ''; Fields: '' @ fp_fields_debug fp e @ [CHR 0x0A];
                            (res, out) = io_write_all writer msg (fw_out wd1)
                        in log_stderr (res = None) WriteFormatError (wd1\<lparr>fw_out := out\<rparr>))
                     else wd1)
              in Some (s\<lparr>ls_world := (if fw_buf_borrowed wd then wd2 else wd2\<lparr>fw_buf := []\<rparr>)\<rparr>)))"

text \<open>\<open>with_event_from_span\<close>: an event of the span's callsite, a child of the span.\<close>

definition event_from_span :: "span_id \<Rightarrow> metadata \<Rightarrow> (string \<times> 'f tvalue) list \<Rightarrow> 'f event" where
  "event_from_span i meta pairs =
     (let fs = \<lparr>fs_names = map fst pairs, fs_callsite = meta_callsite meta\<rparr>
      in event_new_child_of (Some i) meta
           \<lparr>vs_values = Explicit (zip (field_set_iter fs) (map (\<lambda>p. Some (snd p)) pairs)), vs_fields = fs\<rparr>)"

subsection \<open>Spans\<close>

definition timings_new :: "nat \<Rightarrow> ext_value" where
  "timings_new now = ExtTimings 0 0 now 0"

definition nanos :: "nat \<Rightarrow> nat \<Rightarrow> u64" where
  "nanos now before = word_of_nat (now - before)"

definition timings_enter :: "nat \<Rightarrow> ext_value \<Rightarrow> ext_value" where
  "timings_enter now v =
     (if ext_entered v = 0
      then ExtTimings (ext_idle v + nanos now (ext_last v)) (ext_busy v) now (ext_entered v + 1)
      else ExtTimings (ext_idle v) (ext_busy v) (ext_last v) (ext_entered v + 1))"

definition timings_exit :: "nat \<Rightarrow> ext_value \<Rightarrow> ext_value" where
  "timings_exit now v =
     (if ext_entered v - 1 = 0
      then ExtTimings (ext_idle v) (ext_busy v + nanos now (ext_last v)) now (ext_entered v - 1)
      else ExtTimings (ext_idle v) (ext_busy v) (ext_last v) (ext_entered v - 1))"

definition fmt_on_new_span ::
  "'f fmt_params \<Rightarrow> ('f, 'w) fmt_layer \<Rightarrow> thread \<Rightarrow> 'f attributes \<Rightarrow> span_id \<Rightarrow> layer_context \<Rightarrow> 'w fmt_world lstate \<Rightarrow> 'w fmt_world lstate option" where
  "fmt_on_new_span fp l t attrs i cx s =
     (case cx_span cx i (ls_registry s) of
        None \<Rightarrow> None
      | Some sp \<Rightarrow>
          (let ext = dat_extensions (sr_data sp); add = (ext_get (fp_ff fp) ext = None) in
           case (if add then named_record (attr_values attrs) else Some []) of
             None \<Rightarrow> None
           | Some rs \<Rightarrow>
               (let (v, ok) = format_new_fields l rs;
                    ext1 = (if add \<and> ok then ext(fp_ff fp \<mapsto> v) else ext);
                    ext2 = (if fc_fmt_timing (fy_fmt_span l) \<and> trace_close (fy_fmt_span l) \<and> ext_get (fp_timings fp) ext1 = None
                            then ext1(fp_timings fp \<mapsto> timings_new (fw_now (ls_world s))) else ext1);
                    s1 = s\<lparr>ls_registry := update_extensions i (\<lambda>_. ext2) (ls_registry s),
                           ls_world := log_stderr (add \<and> \<not> ok) SpanFormatError (ls_world s)\<rparr>
                in if trace_new (fy_fmt_span l)
                   then fmt_on_event fp l t (event_from_span i (dat_metadata (sr_data sp)) [(''message'', VStr ''new'')]) cx s1
                   else Some s1)))"

definition fmt_on_record ::
  "'f fmt_params \<Rightarrow> ('f, 'w) fmt_layer \<Rightarrow> span_id \<Rightarrow> 'f record_values \<Rightarrow> layer_context \<Rightarrow> 'w fmt_world lstate \<Rightarrow> 'w fmt_world lstate option" where
  "fmt_on_record fp l i vals cx s =
     (case (cx_span cx i (ls_registry s), named_record (record_values vals)) of
        (Some sp, Some rs) \<Rightarrow>
          (let ext = dat_extensions (sr_data sp) in
           case ext_get (fp_ff fp) ext of
             Some v \<Rightarrow>
               Some (s\<lparr>ls_registry := update_extensions i (\<lambda>e. e(fp_ff fp \<mapsto> add_fields (fy_fmt_fields l) v rs)) (ls_registry s)\<rparr>)
           | None \<Rightarrow>
               (let (v, ok) = format_new_fields l rs in
                Some (if ok then s\<lparr>ls_registry := update_extensions i (\<lambda>e. e(fp_ff fp \<mapsto> v)) (ls_registry s)\<rparr> else s)))
      | _ \<Rightarrow> None)"

text \<open>\<open>on_enter\<close> and \<open>on_exit\<close> differ in the flag they look at, in the timings they keep and in the message.\<close>

definition fmt_on_cross ::
  "bool \<Rightarrow> (nat \<Rightarrow> ext_value \<Rightarrow> ext_value) \<Rightarrow> string \<Rightarrow> 'f fmt_params \<Rightarrow> ('f, 'w) fmt_layer \<Rightarrow> thread \<Rightarrow> span_id \<Rightarrow>
   layer_context \<Rightarrow> 'w fmt_world lstate \<Rightarrow> 'w fmt_world lstate option" where
  "fmt_on_cross traced upd msg fp l t i cx s =
     (if traced \<or> trace_close (fy_fmt_span l) \<and> fc_fmt_timing (fy_fmt_span l) then
        (case cx_span cx i (ls_registry s) of
           None \<Rightarrow> None
         | Some sp \<Rightarrow>
             (let s1 =
                (case ext_get (fp_timings fp) (dat_extensions (sr_data sp)) of
                   Some v \<Rightarrow> s\<lparr>ls_registry := update_extensions i
                     (\<lambda>e. e(fp_timings fp \<mapsto> upd (fw_now (ls_world s)) v)) (ls_registry s)\<rparr>
                 | None \<Rightarrow> s)
              in if traced then fmt_on_event fp l t (event_from_span i (dat_metadata (sr_data sp)) [(''message'', VStr msg)]) cx s1
                 else Some s1))
      else Some s)"

definition fmt_on_enter ::
  "'f fmt_params \<Rightarrow> ('f, 'w) fmt_layer \<Rightarrow> thread \<Rightarrow> span_id \<Rightarrow> layer_context \<Rightarrow> 'w fmt_world lstate \<Rightarrow> 'w fmt_world lstate option" where
  "fmt_on_enter fp l = fmt_on_cross (trace_enter (fy_fmt_span l)) timings_enter ''enter'' fp l"

definition fmt_on_exit ::
  "'f fmt_params \<Rightarrow> ('f, 'w) fmt_layer \<Rightarrow> thread \<Rightarrow> span_id \<Rightarrow> layer_context \<Rightarrow> 'w fmt_world lstate \<Rightarrow> 'w fmt_world lstate option" where
  "fmt_on_exit fp l = fmt_on_cross (trace_exit (fy_fmt_span l)) timings_exit ''exit'' fp l"

text \<open>The busy and the idle time that \<open>on_close\<close> reports.\<close>

definition timings_close :: "nat \<Rightarrow> ext_value \<Rightarrow> u64 \<times> u64" where
  "timings_close now v = (ext_busy v, ext_idle v + nanos now (ext_last v))"

definition fmt_on_close ::
  "'f fmt_params \<Rightarrow> ('f, 'w) fmt_layer \<Rightarrow> thread \<Rightarrow> span_id \<Rightarrow> layer_context \<Rightarrow> 'w fmt_world lstate \<Rightarrow> 'w fmt_world lstate option" where
  "fmt_on_close fp l t i cx s =
     (if trace_close (fy_fmt_span l) then
        (case cx_span cx i (ls_registry s) of
           None \<Rightarrow> None
         | Some sp \<Rightarrow>
             (let pairs =
                (case ext_get (fp_timings fp) (dat_extensions (sr_data sp)) of
                   Some v \<Rightarrow>
                     (let (busy, idle) = timings_close (fw_now (ls_world s)) v
                      in [(''message'', VStr ''close''), (''time.busy'', VDebug (fp_timing_display fp busy)),
                          (''time.idle'', VDebug (fp_timing_display fp idle))])
                 | None \<Rightarrow> [(''message'', VStr ''close'')])
              in fmt_on_event fp l t (event_from_span i (dat_metadata (sr_data sp)) pairs) cx s))
      else Some s)"

text \<open>The layer as one of a stack; a panic is recorded in the world.\<close>

definition fmt_notify ::
  "'f fmt_params \<Rightarrow> ('f, 'w) fmt_layer \<Rightarrow> thread \<Rightarrow> 'f notification \<Rightarrow> layer_context \<Rightarrow> 'w fmt_world lstate \<Rightarrow> 'w fmt_world lstate option" where
  "fmt_notify fp l t n cx s =
     (case n of
        OnNewSpan attrs i \<Rightarrow> fmt_on_new_span fp l t attrs i cx s
      | OnRecord i vals \<Rightarrow> fmt_on_record fp l i vals cx s
      | OnEvent e \<Rightarrow> fmt_on_event fp l t e cx s
      | OnEnter i \<Rightarrow> fmt_on_enter fp l t i cx s
      | OnExit i \<Rightarrow> fmt_on_exit fp l t i cx s
      | OnClose i \<Rightarrow> fmt_on_close fp l t i cx s
      | OnFollowsFrom i j \<Rightarrow> Some s
      | OnIdChange i j \<Rightarrow> Some s)"

definition fmt_as_layer :: "'f fmt_params \<Rightarrow> ('f, 'w) fmt_layer \<Rightarrow> thread \<Rightarrow> ('f, 'w fmt_world) layer" where
  "fmt_as_layer fp l t = layer_defaults\<lparr>ly_notify := (\<lambda>n cx s.
     case fmt_notify fp l t n cx s of Some s1 \<Rightarrow> s1 | None \<Rightarrow> s\<lparr>ls_world := (ls_world s)\<lparr>fw_panicked := True\<rparr>\<rparr>)\<rparr>"

subsection \<open>Lines\<close>

fun fmt_run_events ::
  "'f fmt_params \<Rightarrow> ('f, 'w) fmt_layer \<Rightarrow> thread \<Rightarrow> layer_context \<Rightarrow> 'f event list \<Rightarrow> 'w fmt_world lstate \<Rightarrow> 'w fmt_world lstate option" where
  "fmt_run_events fp l t cx [] s = Some s"
| "fmt_run_events fp l t cx (e # es) s = Option.bind (fmt_on_event fp l t e cx s) (fmt_run_events fp l t cx es)"

text \<open>What an event with the line \<open>text\<close> does to the writers, when formatting it succeeds (\<open>ok\<close>) or not.\<close>

definition line_out :: "'f fmt_params \<Rightarrow> ('f, 'w) fmt_layer \<Rightarrow> 'f event \<Rightarrow> string \<Rightarrow> bool \<Rightarrow> 'w \<Rightarrow> 'w" where
  "line_out fp l e text ok out =
     (let writer = mk_make_writer_for (fy_make_writer l) (ev_metadata e) in
      if ok then snd (io_write_all writer text out)
      else if fy_log_internal_errors l then
        snd (io_write_all writer (''Unable to format the following event. Name: '' @ meta_name (ev_metadata e) @
          ''; Fields: '' @ fp_fields_debug fp e @ [CHR 0x0A]) out)
      else out)"

abbreviation layer_writer :: "('f, 'w) fmt_layer \<Rightarrow> fmt_writer" where
  "layer_writer l \<equiv> writer_with_ansi_sanitization (fy_ansi_sanitization l) (writer_with_ansi (fy_is_ansi l) writer_new)"

lemma log_stderr_simps [simp]:
  "fw_out (log_stderr b err w) = fw_out w" "fw_buf (log_stderr b err w) = fw_buf w"
  "fw_buf_borrowed (log_stderr b err w) = fw_buf_borrowed w" "fw_max_len (log_stderr b err w) = fw_max_len w"
  by (simp_all add: log_stderr_def)

lemma fmt_on_event_line:
  assumes "fy_fmt_event l (layer_writer l) t cx (ls_registry s) e (fw_max_len (ls_world s)) = Some ((text, ok), m)"
    and "fw_buf (ls_world s) = [] \<or> fw_buf_borrowed (ls_world s)"
  shows "\<exists>s1. fmt_on_event fp l t e cx s = Some s1 \<and> ls_out s1 = line_out fp l e text ok (ls_out s) \<and>
    ls_registry s1 = ls_registry s \<and> fw_buf (ls_world s1) = fw_buf (ls_world s) \<and>
    fw_buf_borrowed (ls_world s1) = fw_buf_borrowed (ls_world s)"
proof -
  have "(if fw_buf_borrowed (ls_world s) then [] else fw_buf (ls_world s)) = []" using assms(2) by auto
  then show ?thesis
    using assms by (auto simp: fmt_on_event_def line_out_def Let_def split: prod.split)
qed

text \<open>
  Every event that is formatted writes its own line, once, to the writer made for its metadata, in
  the order of the events. The thread's line buffer is shared by all events, but nothing that one event
  put there reaches the line of another: not after an event whose formatting failed half way, and
  not from an event recorded while another one is being formatted.
\<close>

theorem fmt_lines_delivered:
  assumes "\<forall>e \<in> set es. \<forall>m. \<exists>m'. fy_fmt_event l (layer_writer l) t cx (ls_registry s) e m = Some ((line e, ok e), m')"
    and "fw_buf (ls_world s) = [] \<or> fw_buf_borrowed (ls_world s)"
  shows "\<exists>s1. fmt_run_events fp l t cx es s = Some s1 \<and>
    ls_out s1 = fold (\<lambda>e. line_out fp l e (line e) (ok e)) es (ls_out s) \<and>
    ls_registry s1 = ls_registry s \<and> fw_buf (ls_world s1) = fw_buf (ls_world s)"
  using assms
proof (induction es arbitrary: s)
  case (Cons e es)
  then obtain m where "fy_fmt_event l (layer_writer l) t cx (ls_registry s) e (fw_max_len (ls_world s)) = Some ((line e, ok e), m)"
    by fastforce
  from fmt_on_event_line [OF this Cons.prems(2), of fp] obtain s1 where
    s1: "fmt_on_event fp l t e cx s = Some s1" "ls_out s1 = line_out fp l e (line e) (ok e) (ls_out s)"
      "ls_registry s1 = ls_registry s" "fw_buf (ls_world s1) = fw_buf (ls_world s)"
      "fw_buf_borrowed (ls_world s1) = fw_buf_borrowed (ls_world s)" by blast
  then show ?case using Cons.IH [of s1] Cons.prems by simp
qed simp

subsection \<open>Fields of spans\<close>

fun fmt_run_records ::
  "'f fmt_params \<Rightarrow> ('f, 'w) fmt_layer \<Rightarrow> span_id \<Rightarrow> layer_context \<Rightarrow> 'f record_values list \<Rightarrow> 'w fmt_world lstate \<Rightarrow> 'w fmt_world lstate option" where
  "fmt_run_records fp l i cx [] s = Some s"
| "fmt_run_records fp l i cx (v # vs) s = Option.bind (fmt_on_record fp l i v cx s) (fmt_run_records fp l i cx vs)"

definition stored_fields :: "'f fmt_params \<Rightarrow> layer_context \<Rightarrow> span_id \<Rightarrow> 'w lstate \<Rightarrow> ext_value option" where
  "stored_fields fp cx i s = Option.bind (cx_span cx i (ls_registry s)) (\<lambda>sp. ext_get (fp_ff fp) (dat_extensions (sr_data sp)))"

lemma fmt_on_record_stored:
  assumes "stored_fields fp cx i s = Some v" and "named_record (record_values vals) = Some rs"
  shows "\<exists>s1. fmt_on_record fp l i vals cx s = Some s1 \<and> stored_fields fp cx i s1 = Some (add_fields (fy_fmt_fields l) v rs)"
  using assms by (cases "cx_span cx i (ls_registry s)")
    (auto simp: stored_fields_def fmt_on_record_def ext_get_def cx_span_update Let_def)

lemma fmt_run_records_stored:
  assumes "stored_fields fp cx i s = Some v" and "map (\<lambda>x. named_record (record_values x)) vals = map Some rss"
  shows "\<exists>s1. fmt_run_records fp l i cx vals s = Some s1 \<and>
    stored_fields fp cx i s1 = Some (fold (\<lambda>rs v. add_fields (fy_fmt_fields l) v rs) rss v)"
  using assms
proof (induction vals arbitrary: s v rss)
  case (Cons x vals)
  then obtain rs rest where rss: "rss = rs # rest" "named_record (record_values x) = Some rs"
    "map (\<lambda>x. named_record (record_values x)) vals = map Some rest" by (cases rss) auto
  from fmt_on_record_stored [OF Cons.prems(1) rss(2), of l] obtain s1 where
    "fmt_on_record fp l i x cx s = Some s1" "stored_fields fp cx i s1 = Some (add_fields (fy_fmt_fields l) v rs)" by blast
  then show ?case using Cons.IH [OF _ rss(3), of s1] rss(1) by simp
qed simp

lemma fmt_on_new_span_stored:
  assumes "cx_span cx i (ls_registry s) = Some sp" and "ext_get (fp_ff fp) (dat_extensions (sr_data sp)) = None"
    and "named_record (attr_values attrs) = Some rs" and "fy_fmt_fields l (layer_writer l) rs = (text, True)"
    and "\<not> trace_new (fy_fmt_span l)" and "fp_ff fp \<noteq> fp_timings fp"
  shows "\<exists>s1. fmt_on_new_span fp l t attrs i cx s = Some s1 \<and>
    stored_fields fp cx i s1 = Some (ExtFields (fy_is_ansi l) (fy_ansi_sanitization l) text)"
  using assms by (auto simp: fmt_on_new_span_def stored_fields_def format_new_fields_def formatted_fields_writer_def
      cx_span_update ext_get_def Let_def)

lemma upto_failure_all: "list_all ok xs \<Longrightarrow> upto_failure ok xs = xs"
  by (induction xs) auto

lemma join_with_join: "xs \<noteq> [] \<Longrightarrow> ys \<noteq> [] \<Longrightarrow> join_with sep (xs @ ys) = join_with sep xs @ sep @ join_with sep ys"
  using join_with_append [of "[hd ys]" sep "tl ys"] by (simp add: join_with_append) (cases ys, simp_all)

lemma join_with_nonempty: "list_all (\<lambda>x. x \<noteq> []) xs \<Longrightarrow> xs \<noteq> [] \<Longrightarrow> join_with sep xs \<noteq> []"
  by (cases xs; cases "tl xs") auto

definition visible :: "(string \<times> 'f recorded) list \<Rightarrow> (string \<times> 'f recorded) list" where
  "visible rs = filter (\<lambda>x. \<not> is_log_field x) rs"

text \<open>All values format without error and to some text.\<close>

definition batch_ok :: "'f fmt_lib \<Rightarrow> ansi_lib \<Rightarrow> fmt_writer \<Rightarrow> (string \<times> 'f recorded) list \<Rightarrow> bool" where
  "batch_ok lib an w rs \<longleftrightarrow> list_all (\<lambda>x. recorded_ok lib (snd x) \<and> field_text lib an w x \<noteq> []) (visible rs)"

lemma format_fields_ok:
  assumes "batch_ok lib an w rs"
  shows "format_fields_default lib an w rs = (join_with '' '' (map (field_text lib an w) (visible rs)), True)"
proof -
  have ok: "list_all (\<lambda>x. recorded_ok lib (snd x)) (visible rs)" using assms by (simp add: batch_ok_def list_all_iff)
  then show ?thesis using upto_failure_all [OF ok] by (simp add: default_fields_join visible_def Let_def)
qed

lemma add_fields_join:
  assumes "batch_ok lib an w rs" and "batch_ok lib an w rs1" and "visible rs1 \<noteq> []"
    and "w = formatted_fields_writer (ExtFields a b [])"
  shows "add_fields (format_fields_default lib an) (ExtFields a b (fst (format_fields_default lib an w rs))) rs1 =
    ExtFields a b (fst (format_fields_default lib an w (rs @ rs1)))"
proof -
  have "batch_ok lib an w (rs @ rs1)" using assms(1,2) by (simp add: batch_ok_def visible_def)
  note ok = format_fields_ok [OF assms(1)] format_fields_ok [OF assms(2)] format_fields_ok [OF this]
  have w: "formatted_fields_writer (ExtFields a b x) = w" for x using assms(4) by (simp add: formatted_fields_writer_def)
  have "join_with '' '' (map (field_text lib an w) (visible rs)) \<noteq> []" if "visible rs \<noteq> []"
    using that assms(1) by (intro join_with_nonempty) (simp_all add: batch_ok_def list_all_iff)
  then show ?thesis
    using assms(3) by (cases "visible rs = []") (simp_all add: add_fields_def ok w join_with_join, simp_all add: visible_def join_with_join)
qed

lemma fold_add_fields:
  assumes "batch_ok lib an w rs" and "list_all (\<lambda>x. batch_ok lib an w x \<and> visible x \<noteq> []) rss"
    and "w = formatted_fields_writer (ExtFields a b [])"
  shows "fold (\<lambda>rs v. add_fields (format_fields_default lib an) v rs) rss (ExtFields a b (fst (format_fields_default lib an w rs))) =
    ExtFields a b (fst (format_fields_default lib an w (rs @ concat rss)))"
  using assms(1,2)
proof (induction rss arbitrary: rs)
  case (Cons r1 rss)
  have "batch_ok lib an w (rs @ r1)" using Cons.prems by (simp add: batch_ok_def visible_def)
  then show ?case using Cons.IH [of "rs @ r1"] Cons.prems add_fields_join [OF _ _ _ assms(3), of lib an rs r1] by simp
qed simp


subsection \<open>Timings\<close>

text \<open>
  A span is entered (\<open>True\<close>) and left (\<open>False\<close>) at certain times, by any threads. It is busy while some
  thread is in it (\<open>k\<close> counts them) and idle otherwise; \<open>t\<close> is the time of the last crossing and
  \<open>e\<close> the time it is closed.
\<close>

fun busy_time :: "nat \<Rightarrow> nat \<Rightarrow> (nat \<times> bool) list \<Rightarrow> nat \<Rightarrow> nat" where
  "busy_time k t [] e = (if 0 < k then e - t else 0)"
| "busy_time k t ((now, enter) # xs) e =
     (if 0 < k then now - t else 0) + busy_time (if enter then Suc k else k - 1) now xs e"

fun idle_time :: "nat \<Rightarrow> nat \<Rightarrow> (nat \<times> bool) list \<Rightarrow> nat \<Rightarrow> nat" where
  "idle_time k t [] e = (if k = 0 then e - t else 0)"
| "idle_time k t ((now, enter) # xs) e =
     (if k = 0 then now - t else 0) + idle_time (if enter then Suc k else k - 1) now xs e"

text \<open>The clock does not go back, a span is left only after it was entered, and it is closed when nobody is in it.\<close>

fun crossings_ok :: "nat \<Rightarrow> nat \<Rightarrow> (nat \<times> bool) list \<Rightarrow> nat \<Rightarrow> bool" where
  "crossings_ok k t [] e \<longleftrightarrow> k = 0 \<and> t \<le> e"
| "crossings_ok k t ((now, enter) # xs) e \<longleftrightarrow> t \<le> now \<and> (if enter then Suc k < 2 ^ 64 else 0 < k) \<and>
     crossings_ok (if enter then Suc k else k - 1) now xs e"

definition timings_cross :: "nat \<times> bool \<Rightarrow> ext_value \<Rightarrow> ext_value" where
  "timings_cross x v = (if snd x then timings_enter (fst x) v else timings_exit (fst x) v)"

lemma times_add_up: "crossings_ok k t xs e \<Longrightarrow> t \<le> e \<and> busy_time k t xs e + idle_time k t xs e = e - t"
  by (induction k t xs e rule: crossings_ok.induct) (auto split: if_splits)

lemma word_of_nat_0_iff: "k < 2 ^ 64 \<Longrightarrow> (word_of_nat k = (0 :: u64)) = (k = 0)"
  by (auto simp: word_of_nat_eq_0_iff dest: nat_dvd_not_less)

lemma timings_cross_step:
  assumes "since \<le> t" "t \<le> now" "k < 2 ^ 64" and "if enter then Suc k < 2 ^ 64 else 0 < k"
  shows "timings_cross (now, enter) (ExtTimings idle busy since (word_of_nat k)) =
    ExtTimings (idle + (if enter \<and> k = 0 then word_of_nat (now - since) else 0))
      (busy + (if \<not> enter \<and> k = 1 then word_of_nat (now - since) else 0))
      (if enter \<and> k = 0 \<or> \<not> enter \<and> k = 1 then now else since)
      (word_of_nat (if enter then Suc k else k - 1))"
proof -
  have "word_of_nat k - (1 :: u64) = word_of_nat (k - 1)" if "0 < k" using that by (simp add: of_nat_diff)
  moreover have "(word_of_nat (k - 1) = (0 :: u64)) = (k = 1)" if "0 < k"
    using word_of_nat_0_iff [of "k - 1"] assms(3) that by auto
  ultimately show ?thesis
    using assms(4) word_of_nat_0_iff [OF assms(3)]
    by (cases enter) (simp_all add: timings_cross_def timings_enter_def timings_exit_def nanos_def)
qed

lemma timings_run:
  assumes "crossings_ok k t xs e" and "since \<le> t" and "k < 2 ^ 64"
  shows "timings_close e (fold timings_cross xs (ExtTimings idle busy since (word_of_nat k))) =
    (busy + word_of_nat ((if 0 < k then t - since else 0) + busy_time k t xs e),
     idle + word_of_nat ((if k = 0 then t - since else 0) + idle_time k t xs e))"
  using assms
proof (induction k t xs e arbitrary: idle busy since rule: crossings_ok.induct)
  case (1 k t e)
  then show ?case by (simp add: timings_close_def nanos_def flip: of_nat_add)
next
  case (2 k t now enter xs e)
  let ?k = "if enter then Suc k else k - 1" and ?since = "if enter \<and> k = 0 \<or> \<not> enter \<and> k = 1 then now else since"
  have ok: "t \<le> now" "if enter then Suc k < 2 ^ 64 else 0 < k" "crossings_ok ?k now xs e"
    using 2(2) by (simp_all del: power_numeral)
  have "?k < 2 ^ 64" "?since \<le> now" using ok 2(3,4) by (auto split: if_splits)
  from 2(1) [OF ok(3) this(2,1)] show ?case
    unfolding fold.simps comp_def timings_cross_step [OF 2(3) ok(1) 2(4) ok(2)]
    using ok 2(3) by (auto simp: algebra_simps simp flip: of_nat_add)
qed

definition at_time :: "nat \<Rightarrow> 'w fmt_world lstate \<Rightarrow> 'w fmt_world lstate" where
  "at_time now s = s\<lparr>ls_world := (ls_world s)\<lparr>fw_now := now\<rparr>\<rparr>"

fun fmt_run_crossings ::
  "'f fmt_params \<Rightarrow> ('f, 'w) fmt_layer \<Rightarrow> thread \<Rightarrow> span_id \<Rightarrow> layer_context \<Rightarrow> (nat \<times> bool) list \<Rightarrow> 'w fmt_world lstate \<Rightarrow>
   'w fmt_world lstate option" where
  "fmt_run_crossings fp l t i cx [] s = Some s"
| "fmt_run_crossings fp l t i cx ((now, enter) # xs) s =
     Option.bind ((if enter then fmt_on_enter else fmt_on_exit) fp l t i cx (at_time now s)) (fmt_run_crossings fp l t i cx xs)"

definition span_has :: "'f fmt_params \<Rightarrow> layer_context \<Rightarrow> span_id \<Rightarrow> metadata \<Rightarrow> ext_value \<Rightarrow> 'w lstate \<Rightarrow> bool" where
  "span_has fp cx i meta v s \<longleftrightarrow> (\<exists>sp. cx_span cx i (ls_registry s) = Some sp \<and> dat_metadata (sr_data sp) = meta \<and>
     ext_get (fp_timings fp) (dat_extensions (sr_data sp)) = Some v)"

lemma close_only:
  assumes "fy_fmt_span l = \<lparr>fc_kind = FMT_CLOSE, fc_fmt_timing = True\<rparr>"
  shows "trace_close (fy_fmt_span l)" "\<not> trace_new (fy_fmt_span l)" "\<not> trace_enter (fy_fmt_span l)" "\<not> trace_exit (fy_fmt_span l)"
  using assms by (simp_all add: trace_close_def trace_new_def trace_enter_def trace_exit_def fmt_span_contains_def
      FMT_CLOSE_def FMT_NEW_def FMT_ENTER_def FMT_EXIT_def)

lemma fmt_cross_has:
  assumes "fy_fmt_span l = \<lparr>fc_kind = FMT_CLOSE, fc_fmt_timing = True\<rparr>" and "span_has fp cx i meta v s"
  shows "\<exists>s1. (if enter then fmt_on_enter else fmt_on_exit) fp l t i cx (at_time now s) = Some s1 \<and>
    span_has fp cx i meta (timings_cross (now, enter) v) s1"
  using assms(2) close_only [OF assms(1)] assms(1)
  by (auto simp: span_has_def fmt_on_enter_def fmt_on_exit_def fmt_on_cross_def at_time_def timings_cross_def
      cx_span_update ext_get_def)

lemma fmt_crossings_has:
  assumes "fy_fmt_span l = \<lparr>fc_kind = FMT_CLOSE, fc_fmt_timing = True\<rparr>" and "span_has fp cx i meta v s"
  shows "\<exists>s1. fmt_run_crossings fp l t i cx xs s = Some s1 \<and> span_has fp cx i meta (fold timings_cross xs v) s1"
  using assms(2)
proof (induction xs arbitrary: s v)
  case (Cons x xs)
  obtain now enter where x: "x = (now, enter)" by force
  from fmt_cross_has [OF assms(1) Cons.prems, of enter t now] obtain s1 where
    "(if enter then fmt_on_enter else fmt_on_exit) fp l t i cx (at_time now s) = Some s1"
    "span_has fp cx i meta (timings_cross (now, enter) v) s1" by blast
  then show ?case using Cons.IH [of "timings_cross (now, enter) v" s1] x by simp
qed simp

lemma fmt_new_has:
  assumes "fy_fmt_span l = \<lparr>fc_kind = FMT_CLOSE, fc_fmt_timing = True\<rparr>" and "fp_ff fp \<noteq> fp_timings fp"
    and "cx_span cx i (ls_registry s) = Some sp" and "ext_get (fp_timings fp) (dat_extensions (sr_data sp)) = None"
    and "named_record (attr_values attrs) = Some rs"
  shows "\<exists>s1. fmt_on_new_span fp l t attrs i cx s = Some s1 \<and>
    span_has fp cx i (dat_metadata (sr_data sp)) (timings_new (fw_now (ls_world s))) s1"
  using close_only [OF assms(1)] assms
  by (auto simp: fmt_on_new_span_def span_has_def cx_span_update ext_get_def Let_def split: prod.split)

text \<open>
  C13. When a span closes, its close event reports as busy the time during which it was entered, by one
  thread or by several at once, and as idle the rest: every moment between its creation and its close is
  counted once, in one of the two (modulo the 64 bits of the counters).
\<close>

theorem span_timings_correct:
  assumes "fy_fmt_span l = \<lparr>fc_kind = FMT_CLOSE, fc_fmt_timing = True\<rparr>" and "fp_ff fp \<noteq> fp_timings fp"
    and "cx_span cx i (ls_registry s) = Some sp" and "ext_get (fp_timings fp) (dat_extensions (sr_data sp)) = None"
    and "named_record (attr_values attrs) = Some rs"
    and "fw_now (ls_world s) = t0" and "crossings_ok 0 t0 xs e"
  shows "\<exists>s1 s2. fmt_on_new_span fp l t attrs i cx s = Some s1 \<and> fmt_run_crossings fp l t i cx xs s1 = Some s2 \<and>
    fmt_on_close fp l t i cx (at_time e s2) =
      fmt_on_event fp l t (event_from_span i (dat_metadata (sr_data sp))
        [(''message'', VStr ''close''),
         (''time.busy'', VDebug (fp_timing_display fp (word_of_nat (busy_time 0 t0 xs e)))),
         (''time.idle'', VDebug (fp_timing_display fp (word_of_nat (idle_time 0 t0 xs e))))]) cx (at_time e s2) \<and>
    busy_time 0 t0 xs e + idle_time 0 t0 xs e = e - t0"
proof -
  from fmt_new_has [OF assms(1-5), of t] obtain s1 where
    s1: "fmt_on_new_span fp l t attrs i cx s = Some s1"
      "span_has fp cx i (dat_metadata (sr_data sp)) (timings_new t0) s1" using assms(6) by blast
  from fmt_crossings_has [OF assms(1) s1(2), of t xs] obtain s2 where
    s2: "fmt_run_crossings fp l t i cx xs s1 = Some s2"
      "span_has fp cx i (dat_metadata (sr_data sp)) (fold timings_cross xs (timings_new t0)) s2" by blast
  have close: "timings_close e (fold timings_cross xs (timings_new t0)) =
      (word_of_nat (busy_time 0 t0 xs e), word_of_nat (idle_time 0 t0 xs e))"
    using timings_run [OF assms(7), of t0 0 0] by (simp add: timings_new_def)
  have "fmt_on_close fp l t i cx (at_time e s2) =
      fmt_on_event fp l t (event_from_span i (dat_metadata (sr_data sp))
        [(''message'', VStr ''close''),
         (''time.busy'', VDebug (fp_timing_display fp (word_of_nat (busy_time 0 t0 xs e)))),
         (''time.idle'', VDebug (fp_timing_display fp (word_of_nat (idle_time 0 t0 xs e))))]) cx (at_time e s2)"
    using s2(2) close_only(1) [OF assms(1)] close by (auto simp: span_has_def fmt_on_close_def at_time_def)
  then show ?thesis using s1(1) s2(1) times_add_up [OF assms(7)] by blast
qed

subsection \<open>Behind per-layer filters\<close>

text \<open>The layer as a sink of events in a stack: what an event does to its world.\<close>

definition fmt_act ::
  "'f fmt_params \<Rightarrow> (nat \<Rightarrow> ('f, 'w) fmt_layer) \<Rightarrow> thread \<Rightarrow> nat \<Rightarrow> 'f event \<Rightarrow> layer_context \<Rightarrow> registry \<Rightarrow> 'w fmt_world \<Rightarrow> 'w fmt_world" where
  "fmt_act fp l t n e cx r w =
     (case fmt_on_event fp (l n) t e cx \<lparr>ls_registry = r, ls_filtering = filter_state_new, ls_world = w\<rparr> of
        Some s1 \<Rightarrow> ls_world s1 | None \<Rightarrow> w\<lparr>fw_panicked := True\<rparr>)"

lemma fmt_on_event_frame:
  "fmt_on_event fp l t e cx s =
    map_option (\<lambda>s1. s\<lparr>ls_world := ls_world s1\<rparr>)
      (fmt_on_event fp l t e cx \<lparr>ls_registry = ls_registry s, ls_filtering = fs, ls_world = ls_world s\<rparr>)"
  by (simp add: fmt_on_event_def Let_def split: option.split prod.split)

interpretation fmt_sinks: event_sinks "\<lambda>n. fmt_as_layer fp (l n) t" "fmt_act fp l t"
proof (unfold_locales, goal_cases)
  case (3 n e cx s)
  show ?case
    using fmt_on_event_frame [of fp "l n" t e cx s filter_state_new]
    by (auto simp: fmt_as_layer_def layer_defaults_def fmt_notify_def fmt_act_def split: option.split)
qed (simp_all add: fmt_as_layer_def layer_defaults_def)

lemma fmt_deliver:
  assumes "\<And>m. \<exists>m'. fy_fmt_event (l n) (layer_writer (l n)) t (cx_with_filter (nth_id n) context_new) r e m = Some ((line n, ok n), m')"
    and "fw_buf w = [] \<or> fw_buf_borrowed w"
  shows "fw_out (fmt_sinks.deliver fp l t e r n w) = line_out fp (l n) e (line n) (ok n) (fw_out w) \<and>
    fw_buf (fmt_sinks.deliver fp l t e r n w) = fw_buf w \<and> fw_buf_borrowed (fmt_sinks.deliver fp l t e r n w) = fw_buf_borrowed w"
proof -
  let ?s = "\<lparr>ls_registry = r, ls_filtering = filter_state_new, ls_world = w\<rparr>"
  obtain m where "fy_fmt_event (l n) (layer_writer (l n)) t (cx_with_filter (nth_id n) context_new) (ls_registry ?s) e
      (fw_max_len (ls_world ?s)) = Some ((line n, ok n), m)" using assms(1) by fastforce
  from fmt_on_event_line [OF this, of fp] assms(2) show ?thesis
    by (auto simp: fmt_sinks.deliver_def fmt_act_def)
qed

text \<open>
  C6. A stack of \<open>fmt\<close> layers, each behind its own filter (fewer than 64 of them): one event
  through the stack makes exactly those layers write it whose filters accept its metadata and the
  event, each its own line to the writer made for the event, the innermost layer first.
\<close>

theorem filtered_fmt_lines:
  assumes "\<forall>n \<in> set ns. n < 64 \<and> (\<forall>cx s. ft_enabled (fl n) (ev_metadata e) cx s = en n) \<and>
      (\<forall>cx s. ft_event_enabled (fl n) e cx s = ev n)"
    and "distinct ns" and "length ns < 64" and "fst_enabled (ls_filtering s) = filter_map_new"
    and "\<forall>n \<in> set ns. \<forall>m. \<exists>m'. fy_fmt_event (l n) (layer_writer (l n)) t (cx_with_filter (nth_id n) context_new) (ls_registry s) e m =
      Some ((line n, ok n), m')"
    and "fw_buf (ls_world s) = [] \<or> fw_buf_borrowed (ls_world s)"
  shows "ls_out (emit_event (stack_of (map (\<lambda>n. filtered (fl n) (fmt_as_layer fp (l n) t) (nth_id n)) ns)) t e s) =
      fold (\<lambda>n. line_out fp (l n) e (line n) (ok n)) (filter (\<lambda>n. en n \<and> ev n) (rev ns)) (ls_out s) \<and>
    fst_enabled (ls_filtering (emit_event (stack_of (map (\<lambda>n. filtered (fl n) (fmt_as_layer fp (l n) t) (nth_id n)) ns)) t e s)) = filter_map_new"
proof -
  note pass = fmt_sinks.pass [OF assms(1-4), where fp = fp and l = l and t = t, unfolded fmt_sinks.filtered_sinks_def]
  have run: "fw_out (fold (fmt_sinks.deliver fp l t e (ls_registry s)) xs w) = fold (\<lambda>n. line_out fp (l n) e (line n) (ok n)) xs (fw_out w)"
    if "set xs \<subseteq> set ns" and "fw_buf w = [] \<or> fw_buf_borrowed w" for xs w
    using that
  proof (induction xs arbitrary: w)
    case (Cons n xs)
    have "\<exists>m'. fy_fmt_event (l n) (layer_writer (l n)) t (cx_with_filter (nth_id n) context_new) (ls_registry s) e m = Some ((line n, ok n), m')" for m
      using Cons.prems(1) assms(5) by simp
    from fmt_deliver [of l n t "ls_registry s" e line ok, OF this Cons.prems(2), of fp] Cons.IH [of "fmt_sinks.deliver fp l t e (ls_registry s) n w"] Cons.prems
    show ?case by simp
  qed simp
  have "set (filter (\<lambda>n. en n \<and> ev n) (rev ns)) \<subseteq> set ns" by auto
  from run [OF this assms(6)] pass show ?thesis by simp
qed

subsection \<open>Witnesses\<close>

text \<open>A layer with one stream, whose event format fails on errors after writing their target.\<close>

definition demo_fmt :: "fmt_span \<Rightarrow> (unit, nat \<Rightarrow> string) fmt_layer" where
  "demo_fmt k =
     \<lparr>fy_make_writer = make_writer_of (stream_writer (\<lambda>_. True) (\<lambda>_ buf. buf) 0),
      fy_fmt_fields = format_fields_default demo_lib demo_ansi,
      fy_fmt_event = (\<lambda>w t cx r e m. Some ((meta_target (ev_metadata e), meta_level (ev_metadata e) \<noteq> ERROR), m)),
      fy_fmt_span = \<lparr>fc_kind = k, fc_fmt_timing = True\<rparr>, fy_is_ansi = False, fy_ansi_sanitization = True, fy_log_internal_errors = False\<rparr>"

definition demo_params :: "unit fmt_params" where
  "demo_params = \<lparr>fp_ff = 0, fp_timings = 1, fp_fields_debug = (\<lambda>_. []), fp_timing_display = (\<lambda>w. show_nat (unat w))\<rparr>"

definition demo_fmt_state :: "(nat \<Rightarrow> string) fmt_world lstate" where
  "demo_fmt_state = \<lparr>ls_registry = demo_spans, ls_filtering = filter_state_new,
     ls_world = \<lparr>fw_out = (\<lambda>_. []), fw_buf = [], fw_buf_borrowed = False, fw_max_len = 0, fw_now = 10, fw_stderr = [], fw_panicked = False\<rparr>\<rparr>"

definition failing_event :: "unit event" where
  "failing_event = demo_msg_event\<lparr>ev_metadata := demo_meta\<lparr>meta_level := ERROR, meta_target := ''bad''\<rparr>\<rparr>"

lemma demo_event_meta: "ev_metadata demo_msg_event = demo_meta" "meta_target demo_meta = ''app''" "meta_level demo_meta = INFO"
  by (simp_all add: demo_msg_event_def event_new_def demo_meta_def)

theorem fmt_lines_delivered_witness:
  "\<exists>s1. fmt_run_events demo_params (demo_fmt 0) 5 context_new [failing_event, demo_msg_event] demo_fmt_state = Some s1 \<and>
     ls_out s1 0 = ''app'' \<and> fw_buf (ls_world s1) = []"
proof -
  have fmt: "\<forall>e \<in> set [failing_event, demo_msg_event]. \<forall>m. \<exists>m'. fy_fmt_event (demo_fmt 0) (layer_writer (demo_fmt 0)) 5 context_new
      (ls_registry demo_fmt_state) e m = Some ((meta_target (ev_metadata e), meta_level (ev_metadata e) \<noteq> ERROR), m')"
    by (simp add: demo_fmt_def)
  have buf: "fw_buf (ls_world demo_fmt_state) = []" by (simp add: demo_fmt_state_def)
  obtain s1 where s1: "fmt_run_events demo_params (demo_fmt 0) 5 context_new [failing_event, demo_msg_event] demo_fmt_state = Some s1"
    "ls_out s1 = fold (\<lambda>e. line_out demo_params (demo_fmt 0) e (meta_target (ev_metadata e)) (meta_level (ev_metadata e) \<noteq> ERROR))
      [failing_event, demo_msg_event] (ls_out demo_fmt_state)"
    "fw_buf (ls_world s1) = fw_buf (ls_world demo_fmt_state)"
    using fmt_lines_delivered [OF fmt, of demo_params] buf by blast
  have "ls_out s1 0 = ''app''"
    unfolding s1(2) by (simp add: demo_fmt_state_def line_out_def failing_event_def demo_event_meta demo_fmt_def make_writer_of_def stream_writer_def)
  then show ?thesis using s1 buf by simp
qed

lemma demo_cx_span:
  "cx_span context_new 1 (ls_registry demo_fmt_state) = Some \<lparr>sr_id = 1, sr_data = demo_span None, sr_filter = filter_id_none\<rparr>"
  by (simp add: cx_span_def context_new_def lookup_span_def registry_get_def demo_fmt_state_def demo_spans_def id_to_idx_def
      id_into_u64_def try_with_filter_def data_is_enabled_for_def filter_map_is_enabled_def filter_id_none_def sref_with_filter_def)

lemma demo_no_ext: "ext_get ty (dat_extensions (demo_span None)) = None"
  by (simp add: ext_get_def demo_span_def)

lemma demo_batch:
  "batch_ok demo_lib demo_ansi (layer_writer (demo_fmt k)) [(''message'', RecDebug ([CHR 0x1B] @ ''[2J'')), (''user'', RecStr [CHR 0x07])]"
  "visible [(''message'', RecDebug ([CHR 0x1B] @ ''[2J'')), (''user'', RecStr [CHR 0x07] :: unit recorded)] \<noteq> []"
  by (simp_all add: batch_ok_def visible_def is_log_field_def starts_with_def recorded_ok_def demo_lib_def field_text_def
      value_text_def recorded_debug_def escape_guard_def escape_char_def paint_def Let_def demo_fmt_def
      writer_with_ansi_sanitization_def writer_with_ansi_def)

lemma none_traces_nothing: "\<not> trace_new (fy_fmt_span (demo_fmt 0))"
  by (simp add: demo_fmt_def trace_new_def fmt_span_contains_def FMT_NEW_def)


theorem span_timings_correct_witness:
  "\<exists>s1 s2. fmt_on_new_span demo_params (demo_fmt FMT_CLOSE) 5 (attributes_new_root demo_meta (ev_fields demo_msg_event)) 1 context_new demo_fmt_state = Some s1 \<and>
     fmt_run_crossings demo_params (demo_fmt FMT_CLOSE) 5 1 context_new [(12, True), (15, True), (20, False), (21, False)] s1 = Some s2 \<and>
     fmt_on_close demo_params (demo_fmt FMT_CLOSE) 5 1 context_new (at_time 30 s2) =
       fmt_on_event demo_params (demo_fmt FMT_CLOSE) 5 (event_from_span 1 (dat_metadata (demo_span None))
         [(''message'', VStr ''close''), (''time.busy'', VDebug (fp_timing_display demo_params 9)),
          (''time.idle'', VDebug (fp_timing_display demo_params 11))]) context_new (at_time 30 s2)"
proof -
  have "fy_fmt_span (demo_fmt FMT_CLOSE) = \<lparr>fc_kind = FMT_CLOSE, fc_fmt_timing = True\<rparr>" by (simp add: demo_fmt_def)
  from span_timings_correct [OF this, where fp = demo_params and t = 5 and cx = context_new and i = 1 and s = demo_fmt_state
      and attrs = "attributes_new_root demo_meta (ev_fields demo_msg_event)" and t0 = 10
      and xs = "[(12, True), (15, True), (20, False), (21, False)]" and e = 30, OF _ demo_cx_span] demo_named demo_no_ext
  show ?thesis by (simp add: demo_params_def attributes_new_root_def demo_fmt_state_def)
qed

text \<open>Two streams: the first behind a filter for warnings, the second gets everything.\<close>

definition demo_stream :: "nat \<Rightarrow> (unit, nat \<Rightarrow> string) fmt_layer" where
  "demo_stream n = fy_with_writer (make_writer_of (stream_writer (\<lambda>_. True) (\<lambda>_ buf. buf) n)) (demo_fmt 0)"

definition demo_level :: "nat \<Rightarrow> (unit, (nat \<Rightarrow> string) fmt_world) layer_filter" where
  "demo_level n = level_filter_filter (from_level (if n = 0 then WARN else TRACE))"

theorem filtered_fmt_lines_witness:
  "ls_out (emit_event (stack_of (map (\<lambda>n. filtered (demo_level n) (fmt_as_layer demo_params (demo_stream n) 5) (nth_id n)) [0, 1])) 5
     demo_msg_event demo_fmt_state) = (\<lambda>_. [])(1 := ''app'')"
proof -
  have flt: "\<forall>n \<in> set [0, 1]. n < 64 \<and> (\<forall>cx s. ft_enabled (demo_level n) (ev_metadata demo_msg_event) cx s = (n = 1)) \<and>
      (\<forall>cx s. ft_event_enabled (demo_level n) demo_msg_event cx s = True)"
    by (simp add: demo_level_def level_filter_filter_def filter_defaults_def demo_event_meta level_le_filter_def from_level_def)
  have fmt: "\<forall>n \<in> set [0, 1]. \<forall>m. \<exists>m'. fy_fmt_event (demo_stream n) (layer_writer (demo_stream n)) 5
      (cx_with_filter (nth_id n) context_new) (ls_registry demo_fmt_state) demo_msg_event m = Some ((''app'', True), m')"
    by (simp add: demo_stream_def fy_with_writer_def demo_fmt_def demo_event_meta)
  have st: "fst_enabled (ls_filtering demo_fmt_state) = filter_map_new" "fw_buf (ls_world demo_fmt_state) = [] \<or> fw_buf_borrowed (ls_world demo_fmt_state)"
    by (simp_all add: demo_fmt_state_def filter_state_new_def)
  have "distinct [0 :: nat, 1]" "length [0 :: nat, 1] < 64" by simp_all
  note lines = filtered_fmt_lines [OF flt this st(1) fmt st(2), of demo_params, THEN conjunct1]
  show ?thesis unfolding lines
    by (simp add: line_out_def demo_stream_def fy_with_writer_def make_writer_of_def stream_writer_def demo_fmt_state_def fun_eq_iff)
qed

end
