(* ===== verification/Span_Trace.thy ===== *)
theory Span_Trace
  imports Fmt_Layer Span_Handle
begin

text \<open>
  Span traces: \<open>layer.rs\<close>, \<open>backtrace.rs\<close> and \<open>error.rs\<close> of \<open>tracing-error\<close>.

  A \<open>SpanTrace\<close> is a handle of the span that was current when it was captured; the spans it shows are looked
  up when it is displayed. Whether the subscriber of a dispatcher contains an \<open>ErrorLayer\<close>, which
  \<open>downcast_ref\<close> finds out, is the parameter \<open>has_layer\<close>. \<open>None\<close> is a panic.
\<close>

subsection \<open>The layer\<close>

definition error_on_new_span ::
  "type_id \<Rightarrow> (fmt_writer \<Rightarrow> (string \<times> 'f recorded) list \<Rightarrow> string \<times> bool) \<Rightarrow> 'f attributes \<Rightarrow> span_id \<Rightarrow> layer_context \<Rightarrow>
   'w lstate \<Rightarrow> 'w lstate option" where
  "error_on_new_span ff format attrs i cx s =
     (case cx_span cx i (ls_registry s) of
        None \<Rightarrow> None
      | Some sp \<Rightarrow>
          if ext_get ff (dat_extensions (sr_data sp)) \<noteq> None then Some s
          else
            (case named_record (attr_values attrs) of
               None \<Rightarrow> None
             | Some rs \<Rightarrow>
                 (let v = formatted_fields_new []; (text, ok) = format (formatted_fields_writer v) rs in
                  if ok
                  then map_option (\<lambda>ext. s\<lparr>ls_registry := update_extensions i (\<lambda>_. ext) (ls_registry s)\<rparr>)
                         (ext_mut_insert ff (formatted_fields_new text) (dat_extensions (sr_data sp)))
                  else Some s)))"

text \<open>
  \<open>get_context\<close> calls \<open>f\<close> for the span and its ancestors with their metadata and formatted fields, until it
  returns false; \<open>'a\<close> is what \<open>f\<close> captures.
\<close>

fun visit_spans :: "type_id \<Rightarrow> (metadata \<Rightarrow> string \<Rightarrow> 'a \<Rightarrow> bool \<times> 'a) \<Rightarrow> span_ref list \<Rightarrow> 'a \<Rightarrow> 'a" where
  "visit_spans ff f [] a = a"
| "visit_spans ff f (sp # sps) a =
     (let (cont, a1) =
        (case ext_get ff (dat_extensions (sr_data sp)) of
           Some v \<Rightarrow> f (dat_metadata (sr_data sp)) (ext_fields v) a
         | None \<Rightarrow> f (dat_metadata (sr_data sp)) [] a)
      in if cont then visit_spans ff f sps a1 else a1)"

definition get_context :: "type_id \<Rightarrow> registry \<Rightarrow> span_id \<Rightarrow> (metadata \<Rightarrow> string \<Rightarrow> 'a \<Rightarrow> bool \<times> 'a) \<Rightarrow> 'a \<Rightarrow> 'a option" where
  "get_context ff r i f a =
     (case lookup_span i r of
        None \<Rightarrow> None
      | Some sp \<Rightarrow> map_option (\<lambda>sps. visit_spans ff f sps a) (sref_scope sp r))"

subsection \<open>Traces\<close>

record 'd span_trace =
  st_span :: "'d span"

definition span_trace_capture ::
  "('f, 'd, 's) span_ops \<Rightarrow> thread \<Rightarrow> 'd \<Rightarrow> 's \<Rightarrow> ('d span_trace \<times> 's) option" where
  "span_trace_capture ops t d s = map_option (\<lambda>(sp, s1). (\<lparr>st_span = sp\<rparr>, s1)) (span_current ops t d s)"

definition with_spans ::
  "('d \<Rightarrow> bool) \<Rightarrow> type_id \<Rightarrow> ('d \<Rightarrow> registry) \<Rightarrow> 'd span_trace \<Rightarrow> (metadata \<Rightarrow> string \<Rightarrow> 'a \<Rightarrow> bool \<times> 'a) \<Rightarrow> 'a \<Rightarrow> 'a option" where
  "with_spans has_layer ff st tr f a =
     (case sp_inner (st_span tr) of
        None \<Rightarrow> Some a
      | Some inn \<Rightarrow>
          if has_layer (in_subscriber inn) then get_context ff (st (in_subscriber inn)) (in_id inn) f a else Some a)"

datatype trace_status = Unsupported | EmptyTrace | Captured

definition span_trace_status :: "('d \<Rightarrow> bool) \<Rightarrow> 'd span_trace \<Rightarrow> trace_status" where
  "span_trace_status has_layer tr =
     (if span_is_none (st_span tr) then EmptyTrace
      else
        (case sp_inner (st_span tr) of
           Some inn \<Rightarrow> if has_layer (in_subscriber inn) then Captured else Unsupported
         | None \<Rightarrow> Unsupported))"

subsection \<open>Display\<close>

text \<open>
  The formatter is a function that writes a text and says whether that succeeded. The closure captures the
  formatter, the error so far and the number of the span; the first error ends the visit.
\<close>

definition pad_left4 :: "string \<Rightarrow> string" where
  "pad_left4 s = replicate (4 - length s) (CHR '' '') @ s"

fun write_texts :: "(string \<Rightarrow> 'w \<Rightarrow> bool \<times> 'w) \<Rightarrow> string list \<Rightarrow> 'w \<Rightarrow> bool \<times> 'w" where
  "write_texts wr [] w = (True, w)"
| "write_texts wr (x # xs) w = (let (ok, w1) = wr x w in if ok then write_texts wr xs w1 else (False, w1))"

definition span_texts :: "nat \<Rightarrow> metadata \<Rightarrow> string \<Rightarrow> string list" where
  "span_texts n meta flds =
     (if n > 0 then [[CHR 0x0A]] else [])
     @ [pad_left4 (show_nat n) @ '': '' @ meta_target meta @ ''::'' @ meta_name meta]
     @ (if flds \<noteq> [] then [[CHR 0x0A] @ ''           with '' @ flds] else [])
     @ (case (meta_file meta, meta_line meta) of
          (Some f, Some l) \<Rightarrow> [[CHR 0x0A] @ ''             at '' @ f @ '':'' @ show_nat l]
        | _ \<Rightarrow> [])"

definition display_span :: "(string \<Rightarrow> 'w \<Rightarrow> bool \<times> 'w) \<Rightarrow> metadata \<Rightarrow> string \<Rightarrow> bool \<times> nat \<times> 'w \<Rightarrow> bool \<times> bool \<times> nat \<times> 'w" where
  "display_span wr meta flds a =
     (case a of (ok, n, w) \<Rightarrow>
        (let (ok1, w1) = write_texts wr (span_texts n meta flds) w
         in if ok1 then (True, ok, n + 1, w1) else (False, False, n, w1)))"

definition span_trace_display ::
  "('d \<Rightarrow> bool) \<Rightarrow> type_id \<Rightarrow> ('d \<Rightarrow> registry) \<Rightarrow> (string \<Rightarrow> 'w \<Rightarrow> bool \<times> 'w) \<Rightarrow> 'd span_trace \<Rightarrow> 'w \<Rightarrow> (bool \<times> 'w) option" where
  "span_trace_display has_layer ff st wr tr w =
     map_option (\<lambda>(ok, n, w1). (ok, w1)) (with_spans has_layer ff st tr (display_span wr) (True, 0, w))"

subsection \<open>Traced errors\<close>

text \<open>
  An error is the text it displays as and the texts of its sources. A \<open>TracedError\<close> displays as the error it
  wraps; its source is the trace, and the trace's source is the source of the error.
\<close>

record 'd traced_error =
  te_span_trace :: "'d span_trace"
  te_text :: string
  te_sources :: "string list"

definition traced_error_from ::
  "('f, 'd, 's) span_ops \<Rightarrow> thread \<Rightarrow> 'd \<Rightarrow> string \<times> string list \<Rightarrow> 's \<Rightarrow> ('d traced_error \<times> 's) option" where
  "traced_error_from ops t d e s =
     map_option (\<lambda>(tr, s1). (\<lparr>te_span_trace = tr, te_text = fst e, te_sources = snd e\<rparr>, s1)) (span_trace_capture ops t d s)"

definition in_current_span_result ::
  "('f, 'd, 's) span_ops \<Rightarrow> thread \<Rightarrow> 'd \<Rightarrow> (string \<times> string list) + 'r \<Rightarrow> 's \<Rightarrow> (('d traced_error + 'r) \<times> 's) option" where
  "in_current_span_result ops t d res s =
     (case res of
        Inl e \<Rightarrow> map_option (\<lambda>(te, s1). (Inl te, s1)) (traced_error_from ops t d e s)
      | Inr x \<Rightarrow> Some (Inr x, s))"

datatype 'd error_source = TraceSource "'d span_trace" | TextSource string

definition traced_error_sources :: "'d traced_error \<Rightarrow> 'd error_source list" where
  "traced_error_sources te = TraceSource (te_span_trace te) # map TextSource (te_sources te)"

definition extract_span_trace :: "'d error_source \<Rightarrow> 'd span_trace option" where
  "extract_span_trace src = (case src of TraceSource tr \<Rightarrow> Some tr | TextSource _ \<Rightarrow> None)"

definition error_impl_display ::
  "('d \<Rightarrow> bool) \<Rightarrow> type_id \<Rightarrow> ('d \<Rightarrow> registry) \<Rightarrow> (string \<Rightarrow> 'w \<Rightarrow> bool \<times> 'w) \<Rightarrow> 'd span_trace \<Rightarrow> 'w \<Rightarrow> (bool \<times> 'w) option" where
  "error_impl_display has_layer ff st wr tr w =
     (let (ok, w1) = wr (''span backtrace:'' @ [CHR 0x0A]) w in
      if ok then span_trace_display has_layer ff st wr tr w1 else Some (False, w1))"

subsection \<open>What a trace shows\<close>

definition shown_fields :: "type_id \<Rightarrow> span_ref \<Rightarrow> string" where
  "shown_fields ff sp = (case ext_get ff (dat_extensions (sr_data sp)) of Some v \<Rightarrow> ext_fields v | None \<Rightarrow> [])"

text \<open>All the texts of a trace, the innermost span first.\<close>

definition trace_texts :: "type_id \<Rightarrow> nat \<Rightarrow> span_ref list \<Rightarrow> string list" where
  "trace_texts ff n sps =
     concat (map (\<lambda>(k, sp). span_texts k (dat_metadata (sr_data sp)) (shown_fields ff sp)) (enumerate n sps))"

lemma write_texts_append:
  "write_texts wr (xs @ ys) w = (case write_texts wr xs w of (ok, w1) \<Rightarrow> if ok then write_texts wr ys w1 else (False, w1))"
  by (induction xs arbitrary: w) (auto simp: split_beta)

lemma visit_spans_step:
  "visit_spans ff f (sp # sps) a =
     (case f (dat_metadata (sr_data sp)) (shown_fields ff sp) a of (cont, a1) \<Rightarrow> if cont then visit_spans ff f sps a1 else a1)"
  by (cases "ext_get ff (dat_extensions (sr_data sp))") (simp_all add: shown_fields_def)

lemma visit_display:
  "(case visit_spans ff (display_span wr) sps (True, n, w) of (ok, k, w1) \<Rightarrow> (ok, w1)) = write_texts wr (trace_texts ff n sps) w"
proof (induction sps arbitrary: n w)
  case (Cons sp sps)
  let ?x = "span_texts n (dat_metadata (sr_data sp)) (shown_fields ff sp)"
  have texts: "trace_texts ff n (sp # sps) = ?x @ trace_texts ff (Suc n) sps" by (simp add: trace_texts_def)
  obtain ok w1 where "write_texts wr ?x w = (ok, w1)" by fastforce
  then show ?case using Cons.IH [of "Suc n" w1]
    by (cases ok) (simp_all add: texts write_texts_append visit_spans_step display_span_def del: visit_spans.simps(2))
qed (simp add: trace_texts_def)

lemma traced_spans:
  assumes "pool_ok r" "registry_get i r = Some dat"
  shows "sref_scope \<lparr>sr_id = i, sr_data = dat, sr_filter = filter_id_none\<rparr> r = Some (ancestor_refs r filter_id_none (Some i))"
  using scope_collect_returns [OF assms(1)] by (simp add: sref_scope_def)


text \<open>The chain of sources of a traced error has the trace once, before the sources of the error itself.\<close>

theorem traced_error_chain:
  "List.map_filter extract_span_trace (traced_error_sources te) = [te_span_trace te] \<and>
   List.map_filter (\<lambda>x. case x of TextSource s \<Rightarrow> Some s | _ \<Rightarrow> None) (traced_error_sources te) = te_sources te"
proof -
  have "List.map_filter extract_span_trace (map TextSource xs) = []"
    "List.map_filter (\<lambda>x. case x of TextSource s \<Rightarrow> Some s | _ \<Rightarrow> None) (map TextSource xs) = xs" for xs :: "string list"
    by (induction xs) (simp_all add: List.map_filter_def extract_span_trace_def)
  then show ?thesis by (simp add: traced_error_sources_def List.map_filter_def extract_span_trace_def)
qed

text \<open>A trace is captured inside of a span that is left and whose other handle is dropped before the trace is shown.\<close>

definition demo_trace_run :: "unit span_op list" where
  "demo_trace_run = [NewSpan 0 5 OfRoot (dat_metadata (demo_span None)) \<lparr>vs_values = All [], vs_fields = \<lparr>fs_names = [], fs_callsite = 7\<rparr>\<rparr>,
     Enter 5 0 0, GetCurrent 1 5, DropGuard 0, DropSpan 5 0]"

lemmas demo_trace_defs = demo_run_defs demo_trace_run_def span_current_def current_into_inner_def registry_current_span_def
  stack_push_def stack_pop_def stack_current_def stack_iter_def

lemma demo_trace_typed:
  "typed_run (registry_ops two_slots filter_state_new [0]) (\<lambda>_. ()) (registry_room two_slots) demo_trace_run
     (prog_start (\<lambda>_. registry_default))"
  by (simp add: demo_trace_defs two_slots_room registry_ops_def)

lemma demo_trace_result:
  "map_option (\<lambda>p. (pg_spans p, reg_spans (pg_store p ()))) (run_ops (registry_ops two_slots filter_state_new [0]) (\<lambda>_. ()) demo_trace_run
     (prog_start (\<lambda>_. registry_default))) =
   Some ([(1, \<lparr>sp_inner = Some \<lparr>in_id = 1, in_subscriber = ()\<rparr>, sp_meta = Some (dat_metadata (demo_span None))\<rparr>)], [(0, demo_span None)])"
  by (simp add: demo_trace_defs registry_ops_def filter_state_new_def)


end
