(* ===== verification/Journald.thy ===== *)
theory Journald
  imports Fmt_Format Layered
begin

text \<open>
  The journald layer: \<open>tracing-journald/src/lib.rs\<close>.

  An event is sent to journald as one datagram in the native protocol: the fields of the spans it is in, which
  are kept encoded in the extensions of the spans, then the event's own. Buffers are strings of bytes. The socket
  and the memory file for large datagrams are operations of the system and a parameter; so is the \<open>TypeId\<close> of
  \<open>SpanFields\<close>. \<open>None\<close> is a panic. The other side, \<open>journal_parse\<close>, is the protocol as journald documents it.
\<close>

abbreviation newline :: char where
  "newline \<equiv> CHR 0x0A"

subsection \<open>Encoding\<close>

text \<open>\<open>u64::to_le_bytes\<close>.\<close>

fun le_bytes :: "nat \<Rightarrow> nat \<Rightarrow> string" where
  "le_bytes 0 n = []"
| "le_bytes (Suc k) n = char_of (n mod 256) # le_bytes k (n div 256)"

definition to_le_bytes :: "u64 \<Rightarrow> string" where
  "to_le_bytes w = le_bytes 8 (unat w)"

definition put_value :: "string \<Rightarrow> string \<Rightarrow> string" where
  "put_value buf v = buf @ to_le_bytes (word_of_nat (length v)) @ v @ [newline]"

definition put_field_wellformed :: "string \<Rightarrow> string \<Rightarrow> string \<Rightarrow> string" where
  "put_field_wellformed buf name v = put_value (buf @ name @ [newline]) v"

definition sanitize_name :: "string \<Rightarrow> string \<Rightarrow> string" where
  "sanitize_name name buf =
     buf @ map to_ascii_uppercase
       (filter (\<lambda>c. c = CHR ''_'' \<or> is_ascii_alphanumeric c)
         (dropWhile (\<lambda>c. c = CHR ''_'') (map (\<lambda>c. if c = CHR ''.'' then CHR ''_'' else c) name)))"

text \<open>The length is written into the eight bytes before the value once the value is there.\<close>

definition put_field_length_encoded :: "string \<Rightarrow> string \<Rightarrow> (string \<Rightarrow> string) \<Rightarrow> string" where
  "put_field_length_encoded buf name write_value =
     (let buf1 = sanitize_name name buf @ [newline] @ replicate 8 (CHR 0x00);
          start = length buf1;
          buf2 = write_value buf1;
          stop = length buf2;
          buf3 = take (start - 8) buf2 @ to_le_bytes (word_of_nat (stop - start)) @ drop start buf2
      in buf3 @ [newline])"

definition put_metadata :: "string \<Rightarrow> metadata \<Rightarrow> string option \<Rightarrow> string" where
  "put_metadata buf meta pre =
     (let put_pre = (\<lambda>b. case pre of None \<Rightarrow> b | Some p \<Rightarrow> b @ p);
          buf1 = put_field_wellformed (put_pre buf) ''TARGET'' (meta_target meta);
          buf2 = (case meta_file meta of None \<Rightarrow> buf1 | Some file \<Rightarrow> put_field_wellformed (put_pre buf1) ''CODE_FILE'' file)
      in case meta_line meta of
           None \<Rightarrow> buf2
         | Some line \<Rightarrow> put_pre buf2 @ ''CODE_LINE='' @ show_nat line @ [newline])"

subsection \<open>Priorities\<close>

datatype priority = Emergency | Alert | Critical | PriError | Warning | Notice | Informational | PriDebug

fun priority_byte :: "priority \<Rightarrow> char" where
  "priority_byte Emergency = CHR ''0''"
| "priority_byte Alert = CHR ''1''"
| "priority_byte Critical = CHR ''2''"
| "priority_byte PriError = CHR ''3''"
| "priority_byte Warning = CHR ''4''"
| "priority_byte Notice = CHR ''5''"
| "priority_byte Informational = CHR ''6''"
| "priority_byte PriDebug = CHR ''7''"

record priority_mappings =
  pm_error :: priority
  pm_warn :: priority
  pm_info :: priority
  pm_debug :: priority
  pm_trace :: priority

definition priority_mappings_new :: priority_mappings where
  "priority_mappings_new =
     \<lparr>pm_error = PriError, pm_warn = Warning, pm_info = Notice, pm_debug = Informational, pm_trace = PriDebug\<rparr>"

definition priority_of :: "priority_mappings \<Rightarrow> level \<Rightarrow> priority" where
  "priority_of pm l =
     (case l of ERROR \<Rightarrow> pm_error pm | WARN \<Rightarrow> pm_warn pm | INFO \<Rightarrow> pm_info pm | DEBUG \<Rightarrow> pm_debug pm | TRACE \<Rightarrow> pm_trace pm)"

subsection \<open>The layer\<close>

record journald_layer =
  jl_field_prefix :: "string option"
  jl_syslog_identifier :: string
  jl_additional_fields :: string
  jl_priority_mappings :: priority_mappings

definition put_priority :: "journald_layer \<Rightarrow> string \<Rightarrow> metadata \<Rightarrow> string" where
  "put_priority l buf meta =
     put_field_wellformed buf ''PRIORITY'' [priority_byte (priority_of (jl_priority_mappings l) (meta_level meta))]"

definition with_field_prefix :: "string option \<Rightarrow> journald_layer \<Rightarrow> journald_layer" where
  "with_field_prefix x l = l\<lparr>jl_field_prefix := x\<rparr>"

definition with_priority_mappings :: "priority_mappings \<Rightarrow> journald_layer \<Rightarrow> journald_layer" where
  "with_priority_mappings x l = l\<lparr>jl_priority_mappings := x\<rparr>"

definition with_syslog_identifier :: "string \<Rightarrow> journald_layer \<Rightarrow> journald_layer" where
  "with_syslog_identifier x l = l\<lparr>jl_syslog_identifier := x\<rparr>"

definition with_custom_fields :: "(string \<times> string) list \<Rightarrow> journald_layer \<Rightarrow> journald_layer" where
  "with_custom_fields custom l =
     fold (\<lambda>(name, v) l. l\<lparr>jl_additional_fields := put_field_length_encoded (jl_additional_fields l) name (\<lambda>b. b @ v)\<rparr>) custom l"

text \<open>The operations of the system. An error carries the \<open>errno\<close>, if it has one.\<close>

type_synonym errno = "int option"

record 'w journal_io =
  jo_EMSGSIZE :: int
  jo_unbound :: "'w \<Rightarrow> (errno + unit) \<times> 'w"
  jo_send_to :: "string \<Rightarrow> 'w \<Rightarrow> (errno + nat) \<times> 'w"
  jo_create_sealable :: "'w \<Rightarrow> (errno + nat) \<times> 'w"
  jo_write_all :: "nat \<Rightarrow> string \<Rightarrow> 'w \<Rightarrow> (errno + unit) \<times> 'w"
  jo_seal_fully :: "nat \<Rightarrow> 'w \<Rightarrow> (errno + unit) \<times> 'w"
  jo_send_one_fd :: "nat \<Rightarrow> 'w \<Rightarrow> (errno + nat) \<times> 'w"

definition send_large_payload :: "'w journal_io \<Rightarrow> string \<Rightarrow> 'w \<Rightarrow> (errno + nat) \<times> 'w" where
  "send_large_payload io payload w =
     (case jo_create_sealable io w of
        (Inl e, w1) \<Rightarrow> (Inl e, w1)
      | (Inr fd, w1) \<Rightarrow>
          (case jo_write_all io fd payload w1 of
             (Inl e, w2) \<Rightarrow> (Inl e, w2)
           | (Inr _, w2) \<Rightarrow>
               (case jo_seal_fully io fd w2 of
                  (Inl e, w3) \<Rightarrow> (Inl e, w3)
                | (Inr _, w3) \<Rightarrow> jo_send_one_fd io fd w3)))"

definition send_payload :: "'w journal_io \<Rightarrow> string \<Rightarrow> 'w \<Rightarrow> (errno + nat) \<times> 'w" where
  "send_payload io payload w =
     (case jo_send_to io payload w of
        (Inr n, w1) \<Rightarrow> (Inr n, w1)
      | (Inl e, w1) \<Rightarrow> if e = Some (jo_EMSGSIZE io) then send_large_payload io payload w1 else (Inl e, w1))"

text \<open>\<open>exe\<close> is the file name of the program's first argument, if it has one.\<close>

definition journald_new :: "'w journal_io \<Rightarrow> string option \<Rightarrow> 'w \<Rightarrow> (errno + journald_layer) \<times> 'w" where
  "journald_new io exe w =
     (case jo_unbound io w of
        (Inl e, w1) \<Rightarrow> (Inl e, w1)
      | (Inr _, w1) \<Rightarrow>
          (let l = \<lparr>jl_field_prefix = Some ''F'', jl_syslog_identifier = (case exe of None \<Rightarrow> [] | Some n \<Rightarrow> n),
                    jl_additional_fields = [], jl_priority_mappings = priority_mappings_new\<rparr>
           in case send_payload io [] w1 of
                (Inl e, w2) \<Rightarrow> (Inl e, w2)
              | (Inr _, w2) \<Rightarrow> (Inr l, w2)))"

subsection \<open>Visitors\<close>

text \<open>
  Strings are written as they are, anything else as its \<open>Debug\<close> output, whose failure is unwrapped.
\<close>

definition put_recorded :: "'f fmt_lib \<Rightarrow> string \<Rightarrow> string \<times> 'f recorded \<Rightarrow> string option" where
  "put_recorded lib buf x =
     (case x of (name, r) \<Rightarrow>
        (case r of
           RecStr s \<Rightarrow> Some (put_field_length_encoded buf name (\<lambda>b. b @ s))
         | _ \<Rightarrow> if recorded_ok lib r then Some (put_field_length_encoded buf name (\<lambda>b. b @ recorded_debug lib r)) else None))"

definition put_span_prefix :: "string option \<Rightarrow> string \<Rightarrow> string" where
  "put_span_prefix pre buf = (case pre of None \<Rightarrow> buf | Some p \<Rightarrow> buf @ p @ ''_'')"

definition put_event_prefix :: "string option \<Rightarrow> string \<Rightarrow> string \<Rightarrow> string" where
  "put_event_prefix pre name buf =
     (case pre of None \<Rightarrow> buf | Some p \<Rightarrow> if name \<noteq> ''message'' then buf @ p @ ''_'' else buf)"

fun span_visitor :: "'f fmt_lib \<Rightarrow> string option \<Rightarrow> (string \<times> 'f recorded) list \<Rightarrow> string \<Rightarrow> string option" where
  "span_visitor lib pre [] buf = Some buf"
| "span_visitor lib pre (x # xs) buf =
     Option.bind (put_recorded lib (put_span_prefix pre buf) x) (span_visitor lib pre xs)"

fun event_visitor :: "'f fmt_lib \<Rightarrow> string option \<Rightarrow> (string \<times> 'f recorded) list \<Rightarrow> string \<Rightarrow> string option" where
  "event_visitor lib pre [] buf = Some buf"
| "event_visitor lib pre (x # xs) buf =
     Option.bind (put_recorded lib (put_event_prefix pre (fst x) buf) x) (event_visitor lib pre xs)"

subsection \<open>Callbacks\<close>

record 'w journal_world =
  jw_io :: 'w
  jw_panicked :: bool

record 'f journal_params =
  jp_span_fields :: type_id
  jp_lib :: "'f fmt_lib"

definition journald_on_new_span ::
  "'f journal_params \<Rightarrow> journald_layer \<Rightarrow> 'f attributes \<Rightarrow> span_id \<Rightarrow> layer_context \<Rightarrow> 'w journal_world lstate \<Rightarrow> 'w journal_world lstate option" where
  "journald_on_new_span jp l attrs i cx s =
     (case (cx_span cx i (ls_registry s), named_record (attr_values attrs)) of
        (Some sp, Some rs) \<Rightarrow>
          (let meta = dat_metadata (sr_data sp);
               buf = put_metadata (put_value (''SPAN_NAME'' @ [newline]) (meta_name meta)) meta (Some ''SPAN_'')
           in case span_visitor (jp_lib jp) (jl_field_prefix l) rs buf of
                None \<Rightarrow> None
              | Some buf1 \<Rightarrow>
                  (case ext_mut_insert (jp_span_fields jp) (ExtBytes buf1) (dat_extensions (sr_data sp)) of
                     None \<Rightarrow> None
                   | Some ext \<Rightarrow> Some (s\<lparr>ls_registry := update_extensions i (\<lambda>_. ext) (ls_registry s)\<rparr>)))
      | _ \<Rightarrow> None)"

definition journald_on_record ::
  "'f journal_params \<Rightarrow> journald_layer \<Rightarrow> span_id \<Rightarrow> 'f record_values \<Rightarrow> layer_context \<Rightarrow> 'w journal_world lstate \<Rightarrow> 'w journal_world lstate option" where
  "journald_on_record jp l i vals cx s =
     (case (cx_span cx i (ls_registry s), named_record (record_values vals)) of
        (Some sp, Some rs) \<Rightarrow>
          (case ext_get (jp_span_fields jp) (dat_extensions (sr_data sp)) of
             Some (ExtBytes buf) \<Rightarrow>
               (case span_visitor (jp_lib jp) (jl_field_prefix l) rs buf of
                  None \<Rightarrow> None
                | Some buf1 \<Rightarrow>
                    Some (s\<lparr>ls_registry := update_extensions i (\<lambda>e. e(jp_span_fields jp \<mapsto> ExtBytes buf1)) (ls_registry s)\<rparr>))
           | _ \<Rightarrow> None)
      | _ \<Rightarrow> None)"

fun append_span_fields :: "type_id \<Rightarrow> span_ref list \<Rightarrow> string \<Rightarrow> string option" where
  "append_span_fields ty [] buf = Some buf"
| "append_span_fields ty (sp # sps) buf =
     (case ext_get ty (dat_extensions (sr_data sp)) of
        Some (ExtBytes b) \<Rightarrow> append_span_fields ty sps (buf @ b)
      | _ \<Rightarrow> None)"

definition journald_on_event ::
  "'w journal_io \<Rightarrow> 'f journal_params \<Rightarrow> journald_layer \<Rightarrow> thread \<Rightarrow> 'f event \<Rightarrow> layer_context \<Rightarrow> 'w journal_world lstate \<Rightarrow> 'w journal_world lstate option" where
  "journald_on_event io jp l t e cx s =
     (let r = ls_registry s; meta = ev_metadata e in
      case (case lookup_current cx t r of None \<Rightarrow> Some [] | Some sp \<Rightarrow> scope_from_root sp r) of
        None \<Rightarrow> None
      | Some spans \<Rightarrow>
          (case append_span_fields (jp_span_fields jp) spans [] of
             None \<Rightarrow> None
           | Some buf \<Rightarrow>
               (let buf1 = put_metadata (put_priority l buf meta) meta None;
                    buf2 = put_field_length_encoded buf1 ''SYSLOG_IDENTIFIER'' (\<lambda>b. b @ jl_syslog_identifier l);
                    buf3 = buf2 @ jl_additional_fields l
                in case Option.bind (named_record (ev_fields e)) (\<lambda>rs. event_visitor (jp_lib jp) (jl_field_prefix l) rs buf3) of
                     None \<Rightarrow> None
                   | Some payload \<Rightarrow> 
                       Some (s\<lparr>ls_world := (ls_world s)\<lparr>jw_io := snd (send_payload io payload (jw_io (ls_world s)))\<rparr>\<rparr>))))"

text \<open>The layer as one of a stack; a panic is recorded in the world.\<close>

definition journald_notify ::
  "'w journal_io \<Rightarrow> 'f journal_params \<Rightarrow> journald_layer \<Rightarrow> thread \<Rightarrow> 'f notification \<Rightarrow> layer_context \<Rightarrow> 'w journal_world lstate \<Rightarrow> 'w journal_world lstate option" where
  "journald_notify io jp l t n cx s =
     (case n of
        OnNewSpan attrs i \<Rightarrow> journald_on_new_span jp l attrs i cx s
      | OnRecord i vals \<Rightarrow> journald_on_record jp l i vals cx s
      | OnEvent e \<Rightarrow> journald_on_event io jp l t e cx s
      | _ \<Rightarrow> Some s)"

definition journald_as_layer ::
  "'w journal_io \<Rightarrow> 'f journal_params \<Rightarrow> journald_layer \<Rightarrow> thread \<Rightarrow> ('f, 'w journal_world) layer" where
  "journald_as_layer io jp l t = layer_defaults\<lparr>ly_notify := (\<lambda>n cx s.
     case journald_notify io jp l t n cx s of
       Some s1 \<Rightarrow> s1
     | None \<Rightarrow> s\<lparr>ls_world := (ls_world s)\<lparr>jw_panicked := True\<rparr>\<rparr>)\<rparr>"

subsection \<open>The protocol\<close>

text \<open>
  A field is a name and a value: after \<open>=\<close> up to the end of the line, or after a line with the name only as eight
  bytes of length, that many bytes, and the end of the line.
\<close>

fun le_value :: "string \<Rightarrow> nat" where
  "le_value [] = 0"
| "le_value (c # cs) = of_char c + 256 * le_value cs"

definition journal_field :: "string \<Rightarrow> ((string \<times> string) \<times> string) option" where
  "journal_field s =
     (let name = takeWhile (\<lambda>c. c \<noteq> CHR ''='' \<and> c \<noteq> newline) s in
      if name = [] then None
      else
        (case drop (length name) s of
           [] \<Rightarrow> None
         | c # r \<Rightarrow>
             if c = CHR ''='' then
               (let v = takeWhile (\<lambda>c. c \<noteq> newline) r in
                if length v < length r then Some ((name, v), drop (Suc (length v)) r) else None)
             else
               (let n = le_value (take 8 r) in
                if 8 + n < length r \<and> r ! (8 + n) = newline
                then Some ((name, take n (drop 8 r)), drop (9 + n) r) else None)))"

text \<open>A field consumes input, so that reading all of them ends.\<close>

lemma journal_field_shorter: "journal_field s = Some (f, r) \<Longrightarrow> length r < length s"
proof -
  assume a: "journal_field s = Some (f, r)"
  let ?n = "takeWhile (\<lambda>c. c \<noteq> CHR ''='' \<and> c \<noteq> newline) s"
  obtain c r' where "drop (length ?n) s = c # r'" using a by (auto simp: journal_field_def Let_def split: if_splits list.splits)
  moreover from arg_cong [OF this, of length] have "length r' < length s" by simp
  ultimately show ?thesis using a by (auto simp: journal_field_def Let_def split: if_splits)
qed

function journal_parse :: "string \<Rightarrow> (string \<times> string) list option" where
  "journal_parse s =
     (if s = [] then Some []
      else case journal_field s of None \<Rightarrow> None | Some (f, r) \<Rightarrow> map_option ((#) f) (journal_parse r))"
  by pat_completeness auto
termination by (relation "measure length") (auto dest: journal_field_shorter)

declare journal_parse.simps [simp del]

lemma journal_parse_Nil [simp]: "journal_parse [] = Some []"
  by (simp add: journal_parse.simps)

text \<open>What has been read does not depend on what follows.\<close>

lemma takeWhile_stop: "takeWhile P xs = v \<Longrightarrow> length v < length xs \<Longrightarrow> takeWhile P (xs @ ys) = v"
  by (metis append_Nil2 length_append list.size(3) add.right_neutral nat_neq_iff takeWhile_append takeWhile_eq_all_conv)

lemma journal_field_append: "journal_field a = Some (f, r) \<Longrightarrow> journal_field (a @ b) = Some (f, r @ b)"
proof -
  assume a: "journal_field a = Some (f, r)"
  define n where "n = takeWhile (\<lambda>c. c \<noteq> CHR ''='' \<and> c \<noteq> newline) a"
  obtain c r' where d: "drop (length n) a = c # r'" and n: "n \<noteq> []"
    using a by (auto simp: journal_field_def Let_def n_def split: if_splits list.splits)
  have len: "length n < length a" using d by (metis drop_eq_Nil2 list.distinct(1) not_le)
  have tw: "takeWhile (\<lambda>c. c \<noteq> CHR ''='' \<and> c \<noteq> newline) (a @ b) = n"
    using takeWhile_stop [OF n_def [symmetric] len] by simp
  have dd: "drop (length n) (a @ b) = c # r' @ b" using d len by simp
  show ?thesis
  proof (cases "c = CHR ''=''")
    case True
    define v where "v = takeWhile (\<lambda>c. c \<noteq> newline) r'"
    have lv: "length v < length r'" and fr: "f = (n, v)" "r = drop (Suc (length v)) r'"
      using a True d n by (auto simp: journal_field_def Let_def n_def [symmetric] v_def [symmetric] split: if_splits)
    have "takeWhile (\<lambda>c. c \<noteq> newline) (r' @ b) = v" using takeWhile_stop [OF v_def [symmetric] lv] .
    moreover have "drop (Suc (length v)) (r' @ b) = drop (Suc (length v)) r' @ b" using lv by simp
    ultimately show ?thesis using True n lv fr by (simp add: journal_field_def Let_def tw dd del: drop_append)
  next
    case False
    let ?k = "le_value (take 8 r')"
    have k: "8 + ?k < length r'" "r' ! (8 + ?k) = newline" and fr: "f = (n, take ?k (drop 8 r'))" "r = drop (9 + ?k) r'"
      using a False d n by (auto simp: journal_field_def Let_def n_def [symmetric] split: if_splits)
    have "take 8 (r' @ b) = take 8 r'" "(r' @ b) ! (8 + ?k) = newline" "take ?k (drop 8 (r' @ b)) = take ?k (drop 8 r')"
      "drop (9 + ?k) (r' @ b) = drop (9 + ?k) r' @ b" using k by (simp_all add: nth_append)
    then show ?thesis using False n k fr by (simp add: journal_field_def Let_def tw dd del: drop_append)
  qed
qed

lemma journal_parse_append:
  "journal_parse a = Some xs \<Longrightarrow> journal_parse (a @ b) = map_option ((@) xs) (journal_parse b)"
proof (induction a arbitrary: xs rule: journal_parse.induct)
  case (1 s)
  show ?case
  proof (cases "s = []")
    case True
    then show ?thesis using "1.prems" by (simp add: option.map_id0 map_option_idI)
  next
    case False
    then obtain f r ys where fr: "journal_field s = Some (f, r)" "journal_parse r = Some ys" "xs = f # ys"
      using "1.prems" by (auto simp: journal_parse.simps [of s] split: option.splits)
    then have "journal_parse (r @ b) = map_option ((@) ys) (journal_parse b)" using "1.IH" [OF False fr(1)] by blast
    then show ?thesis using False fr journal_field_append [OF fr(1), of b]
      by (subst journal_parse.simps) (cases "journal_parse b"; simp)
  qed
qed

lemma journal_parse_concat:
  assumes "journal_parse a = Some xs" "journal_parse b = Some ys"
  shows "journal_parse (a @ b) = Some (xs @ ys)"
  using journal_parse_append [OF assms(1), of b] assms(2) by simp

subsection \<open>What the layer writes can be read back\<close>

definition good_entry :: "string \<times> string \<Rightarrow> bool" where
  "good_entry x \<longleftrightarrow> fst x \<noteq> [] \<and> CHR ''='' \<notin> set (fst x) \<and> newline \<notin> set (fst x) \<and> length (snd x) < 2 ^ 64"

definition encode_entry :: "string \<times> string \<Rightarrow> string" where
  "encode_entry x = fst x @ [newline] @ to_le_bytes (word_of_nat (length (snd x))) @ snd x @ [newline]"

lemma le_value_bytes: "le_value (le_bytes k n) = n mod 256 ^ k"
proof (induction k arbitrary: n)
  case (Suc k)
  have "n mod 256 + 256 * (n div 256 mod 256 ^ k) = n mod 256 ^ Suc k" by (simp add: mod_mult2_eq)
  with Suc show ?case by simp
qed simp

lemma length_le_bytes [simp]: "length (le_bytes k n) = k"
  by (induction k arbitrary: n) simp_all

lemma to_le_bytes: "length (to_le_bytes w) = 8" "le_value (to_le_bytes w) = unat w"
proof -
  have "unat w < 2 ^ 64" by (rule order.strict_trans2 [OF unsigned_less]) simp
  then show "length (to_le_bytes w) = 8" "le_value (to_le_bytes w) = unat w"
    by (simp_all add: to_le_bytes_def le_value_bytes)
qed

lemma journal_parse_entry: "good_entry x \<Longrightarrow> journal_parse (encode_entry x) = Some [x]"
proof -
  assume g: "good_entry x"
  let ?l = "to_le_bytes (word_of_nat (length (snd x)))"
  have "journal_field (encode_entry x) = Some (x, [])"
  proof -
    have tw: "takeWhile (\<lambda>c. c \<noteq> CHR ''='' \<and> c \<noteq> newline) (encode_entry x) = fst x"
      using g by (auto simp: good_entry_def encode_entry_def takeWhile_append)
    have l: "length ?l = 8" "le_value ?l = length (snd x)"
      using g by (simp_all add: to_le_bytes good_entry_def unat_of_nat)
    show ?thesis using g l by (simp add: journal_field_def Let_def tw) (simp add: encode_entry_def good_entry_def nth_append)
  qed
  then show ?thesis by (subst journal_parse.simps) (auto simp: encode_entry_def)
qed

lemma journal_parse_entries: "list_all good_entry xs \<Longrightarrow> journal_parse (concat (map encode_entry xs)) = Some xs"
  by (induction xs) (simp_all add: journal_parse_append [OF journal_parse_entry])

lemma put_value_entry: "put_value (buf @ name @ [newline]) v = buf @ encode_entry (name, v)"
  by (simp add: put_value_def encode_entry_def)

lemma put_wellformed_entry: "put_field_wellformed buf name v = buf @ encode_entry (name, v)"
  by (simp add: put_field_wellformed_def put_value_def encode_entry_def)

lemma put_length_entry:
  "put_field_length_encoded buf name (\<lambda>b. b @ v) = buf @ encode_entry (sanitize_name name [], v)"
  by (simp add: put_field_length_encoded_def encode_entry_def sanitize_name_def Let_def)

lemma prefixed_entry: "a @ encode_entry (n, v) = encode_entry (a @ n, v)"
  by (simp add: encode_entry_def)

text \<open>The fields as the journal should see them.\<close>

definition recorded_text :: "'f fmt_lib \<Rightarrow> 'f recorded \<Rightarrow> string" where
  "recorded_text lib r = (case r of RecStr s \<Rightarrow> s | _ \<Rightarrow> recorded_debug lib r)"

definition wire_name :: "string option \<Rightarrow> string \<Rightarrow> string" where
  "wire_name pre name = (case pre of None \<Rightarrow> [] | Some p \<Rightarrow> p @ ''_'') @ sanitize_name name []"

definition span_entry :: "'f fmt_lib \<Rightarrow> string option \<Rightarrow> string \<times> 'f recorded \<Rightarrow> string \<times> string" where
  "span_entry lib pre x = (wire_name pre (fst x), recorded_text lib (snd x))"

definition event_entry :: "'f fmt_lib \<Rightarrow> string option \<Rightarrow> string \<times> 'f recorded \<Rightarrow> string \<times> string" where
  "event_entry lib pre x = (wire_name (if fst x = ''message'' then None else pre) (fst x), recorded_text lib (snd x))"

definition meta_entries :: "string \<Rightarrow> metadata \<Rightarrow> (string \<times> string) list" where
  "meta_entries pre meta = (pre @ ''TARGET'', meta_target meta) #
     (case meta_file meta of None \<Rightarrow> [] | Some f \<Rightarrow> [(pre @ ''CODE_FILE'', f)]) @
     (case meta_line meta of None \<Rightarrow> [] | Some n \<Rightarrow> [(pre @ ''CODE_LINE'', show_nat n)])"

definition meta_fits :: "metadata \<Rightarrow> bool" where
  "meta_fits meta \<longleftrightarrow> length (meta_name meta) < 2 ^ 64 \<and> length (meta_target meta) < 2 ^ 64 \<and>
     (case meta_file meta of None \<Rightarrow> True | Some f \<Rightarrow> length f < 2 ^ 64)"

lemma put_recorded_entry:
  "recorded_ok lib (snd x) \<Longrightarrow> put_recorded lib buf x = Some (buf @ encode_entry (sanitize_name (fst x) [], recorded_text lib (snd x)))"
  by (cases x; cases "snd x") (auto simp: put_recorded_def put_length_entry recorded_text_def)

lemma span_visitor_entries:
  "list_all (\<lambda>x. recorded_ok lib (snd x)) rs \<Longrightarrow>
     span_visitor lib pre rs buf = Some (buf @ concat (map encode_entry (map (span_entry lib pre) rs)))"
  by (induction rs arbitrary: buf)
    (auto simp: put_recorded_entry put_span_prefix_def span_entry_def wire_name_def prefixed_entry split: option.split)

lemma event_visitor_entries:
  "list_all (\<lambda>x. recorded_ok lib (snd x)) rs \<Longrightarrow>
     event_visitor lib pre rs buf = Some (buf @ concat (map encode_entry (map (event_entry lib pre) rs)))"
  by (induction rs arbitrary: buf)
    (auto simp: put_recorded_entry put_event_prefix_def event_entry_def wire_name_def prefixed_entry split: option.split)

lemma journal_parse_line:
  assumes "name \<noteq> []" "CHR ''='' \<notin> set name" "newline \<notin> set name" "newline \<notin> set v"
  shows "journal_parse (name @ ''='' @ v @ [newline]) = Some [(name, v)]"
proof -
  have "takeWhile (\<lambda>c. c \<noteq> CHR ''='' \<and> c \<noteq> newline) (name @ ''='' @ v @ [newline]) = name"
    "takeWhile (\<lambda>c. c \<noteq> newline) (v @ [newline]) = v" using assms by (auto simp: takeWhile_append)
  then have "journal_field (name @ ''='' @ v @ [newline]) = Some ((name, v), [])"
    using assms by (simp add: journal_field_def Let_def)
  then show ?thesis by (subst journal_parse.simps) simp
qed

lemma put_metadata_entries:
  assumes "meta_fits meta" "CHR ''='' \<notin> set p" "newline \<notin> set p" "pre = None \<and> p = [] \<or> pre = Some p"
  shows "\<exists>b. put_metadata buf meta pre = buf @ b \<and> journal_parse b = Some (meta_entries p meta)"
proof -
  let ?t = "encode_entry (p @ ''TARGET'', meta_target meta)"
    and ?f = "case meta_file meta of None \<Rightarrow> [] | Some f \<Rightarrow> encode_entry (p @ ''CODE_FILE'', f)"
    and ?l = "case meta_line meta of None \<Rightarrow> [] | Some n \<Rightarrow> (p @ ''CODE_LINE'') @ ''='' @ show_nat n @ [newline]"
  have "put_metadata buf meta pre = buf @ ?t @ ?f @ ?l"
    using assms(4) by (auto simp: put_metadata_def put_wellformed_entry prefixed_entry [symmetric] Let_def split: option.split)
  moreover have "journal_parse ?t = Some [(p @ ''TARGET'', meta_target meta)]"
    using assms by (intro journal_parse_entry) (simp add: good_entry_def meta_fits_def)
  moreover have "journal_parse ?f = Some (case meta_file meta of None \<Rightarrow> [] | Some f \<Rightarrow> [(p @ ''CODE_FILE'', f)])"
    using assms by (auto simp: good_entry_def meta_fits_def journal_parse_entry split: option.split)
  moreover have "newline \<notin> set (show_nat n)" for n
    using show_nat_digits [of n] by (auto simp: list_all_iff is_ascii_digit_def)
  then have "journal_parse ?l = Some (case meta_line meta of None \<Rightarrow> [] | Some n \<Rightarrow> [(p @ ''CODE_LINE'', show_nat n)])"
    using assms(2,3) journal_parse_line [of "p @ ''CODE_LINE''"] by (auto split: option.split)
  ultimately show ?thesis by (auto simp: meta_entries_def intro!: journal_parse_concat [of _ "[_]", simplified] journal_parse_concat)
qed

subsection \<open>Spans\<close>

definition span_entries :: "'f fmt_lib \<Rightarrow> journald_layer \<Rightarrow> metadata \<Rightarrow> (string \<times> 'f recorded) list \<Rightarrow> (string \<times> string) list" where
  "span_entries lib l meta rs =
     (''SPAN_NAME'', meta_name meta) # meta_entries ''SPAN_'' meta @ map (span_entry lib (jl_field_prefix l)) rs"

definition fields_encodable :: "'f fmt_lib \<Rightarrow> (string \<times> 'f recorded \<Rightarrow> string \<times> string) \<Rightarrow> (string \<times> 'f recorded) list \<Rightarrow> bool" where
  "fields_encodable lib entry rs \<longleftrightarrow> list_all (\<lambda>x. recorded_ok lib (snd x)) rs \<and> list_all good_entry (map entry rs)"

lemma span_visitor_parse:
  assumes "fields_encodable lib (span_entry lib pre) rs" "journal_parse buf = Some es"
  shows "\<exists>b. span_visitor lib pre rs buf = Some b \<and> journal_parse b = Some (es @ map (span_entry lib pre) rs)"
  using assms span_visitor_entries [of lib rs pre buf] journal_parse_entries journal_parse_concat
  unfolding fields_encodable_def by blast

text \<open>The encoded fields of a span that a context shows.\<close>

definition span_buffer :: "'f journal_params \<Rightarrow> layer_context \<Rightarrow> span_id \<Rightarrow> 'w journal_world lstate \<Rightarrow> ext_value option" where
  "span_buffer jp cx i s = Option.bind (cx_span cx i (ls_registry s)) (\<lambda>sp. ext_get (jp_span_fields jp) (dat_extensions (sr_data sp)))"

lemma new_span_buffer:
  fixes s :: "'w journal_world lstate"
  assumes "cx_span cx i (ls_registry s) = Some sp" and "ext_get (jp_span_fields jp) (dat_extensions (sr_data sp)) = None"
    and "named_record (attr_values attrs) = Some rs" and "meta_fits (dat_metadata (sr_data sp))"
    and "fields_encodable (jp_lib jp) (span_entry (jp_lib jp) (jl_field_prefix l)) rs"
  shows "\<exists>b. journald_on_new_span jp l attrs i cx s =
      Some (s\<lparr>ls_registry := update_extensions i (\<lambda>_. (dat_extensions (sr_data sp))(jp_span_fields jp \<mapsto> ExtBytes b)) (ls_registry s)\<rparr>) \<and>
    journal_parse b = Some (span_entries (jp_lib jp) l (dat_metadata (sr_data sp)) rs)"
proof -
  let ?m = "dat_metadata (sr_data sp)"
  let ?b0 = "put_value (''SPAN_NAME'' @ [newline]) (meta_name ?m)"
  have "journal_parse ?b0 = Some [(''SPAN_NAME'', meta_name ?m)]"
    using put_value_entry [of "[]" "''SPAN_NAME''"] assms(4)
    by (simp add: meta_fits_def) (intro journal_parse_entry, simp add: good_entry_def)
  moreover obtain b1 where b1: "put_metadata ?b0 ?m (Some ''SPAN_'') = ?b0 @ b1" "journal_parse b1 = Some (meta_entries ''SPAN_'' ?m)"
    using put_metadata_entries [OF assms(4), of "''SPAN_''" "Some ''SPAN_''" ?b0] by auto
  ultimately have "journal_parse (?b0 @ b1) = Some ((''SPAN_NAME'', meta_name ?m) # meta_entries ''SPAN_'' ?m)"
    using journal_parse_concat by fastforce
  from span_visitor_parse [OF assms(5) this] b1(1) assms(1-3) show ?thesis
    by (auto simp: journald_on_new_span_def ext_mut_insert_def ext_mut_replace_def ext_insert_def ext_get_def span_entries_def Let_def)
qed

lemma record_buffer:
  fixes s :: "'w journal_world lstate"
  assumes "span_buffer jp cx i s = Some (ExtBytes b)" and "journal_parse b = Some es" and "named_record (record_values vals) = Some rs"
    and "fields_encodable (jp_lib jp) (span_entry (jp_lib jp) (jl_field_prefix l)) rs"
  shows "\<exists>s1 b1. journald_on_record jp l i vals cx s = Some s1 \<and> span_buffer jp cx i s1 = Some (ExtBytes b1) \<and>
    journal_parse b1 = Some (es @ map (span_entry (jp_lib jp) (jl_field_prefix l)) rs)"
proof -
  obtain sp where sp: "cx_span cx i (ls_registry s) = Some sp" "ext_get (jp_span_fields jp) (dat_extensions (sr_data sp)) = Some (ExtBytes b)"
    using assms(1) by (auto simp: span_buffer_def split: bind_splits)
  from span_visitor_parse [OF assms(4,2)] obtain b1 where
    "span_visitor (jp_lib jp) (jl_field_prefix l) rs b = Some b1"
    "journal_parse b1 = Some (es @ map (span_entry (jp_lib jp) (jl_field_prefix l)) rs)" by blast
  then show ?thesis using sp assms(3) by (simp add: journald_on_record_def span_buffer_def cx_span_update ext_get_def)
qed

fun journald_records ::
  "'f journal_params \<Rightarrow> journald_layer \<Rightarrow> span_id \<Rightarrow> layer_context \<Rightarrow> 'f record_values list \<Rightarrow> 'w journal_world lstate \<Rightarrow>
   'w journal_world lstate option" where
  "journald_records jp l i cx [] s = Some s"
| "journald_records jp l i cx (v # vs) s = Option.bind (journald_on_record jp l i v cx s) (journald_records jp l i cx vs)"

lemma records_buffer:
  fixes s :: "'w journal_world lstate"
  assumes "span_buffer jp cx i s = Some (ExtBytes b)" and "journal_parse b = Some es"
    and "map (\<lambda>v. named_record (record_values v)) vals = map Some rss"
    and "\<forall>rs \<in> set rss. fields_encodable (jp_lib jp) (span_entry (jp_lib jp) (jl_field_prefix l)) rs"
  shows "\<exists>s1 b1. journald_records jp l i cx vals s = Some s1 \<and> span_buffer jp cx i s1 = Some (ExtBytes b1) \<and>
    journal_parse b1 = Some (es @ map (span_entry (jp_lib jp) (jl_field_prefix l)) (concat rss))"
  using assms
proof (induction vals arbitrary: s b es rss)
  case (Cons v vals)
  then obtain rs rest where rss: "rss = rs # rest" "named_record (record_values v) = Some rs"
    "map (\<lambda>v. named_record (record_values v)) vals = map Some rest" by (cases rss) auto
  from record_buffer [OF Cons.prems(1,2) rss(2), of l] Cons.prems(4) rss(1) obtain s1 b1 where
    s1: "journald_on_record jp l i v cx s = Some s1" "span_buffer jp cx i s1 = Some (ExtBytes b1)"
      "journal_parse b1 = Some (es @ map (span_entry (jp_lib jp) (jl_field_prefix l)) rs)" by auto
  from Cons.IH [OF s1(2,3) rss(3)] Cons.prems(4) rss(1) s1(1) show ?case by simp
qed simp

text \<open>
  The encoded fields of a span are those of its creation and of every later record, in their order: reading them
  back gives the span's name and metadata and all of its fields.
\<close>

theorem journald_span_fields:
  fixes s :: "'w journal_world lstate"
  assumes "cx_span cx i (ls_registry s) = Some sp" and "ext_get (jp_span_fields jp) (dat_extensions (sr_data sp)) = None"
    and "named_record (attr_values attrs) = Some rs" and "map (\<lambda>v. named_record (record_values v)) vals = map Some rss"
    and "meta_fits (dat_metadata (sr_data sp))"
    and "\<forall>rs \<in> set (rs # rss). fields_encodable (jp_lib jp) (span_entry (jp_lib jp) (jl_field_prefix l)) rs"
  shows "\<exists>s1 s2 b. journald_on_new_span jp l attrs i cx s = Some s1 \<and> journald_records jp l i cx vals s1 = Some s2 \<and>
    span_buffer jp cx i s2 = Some (ExtBytes b) \<and>
    journal_parse b = Some (span_entries (jp_lib jp) l (dat_metadata (sr_data sp)) (rs @ concat rss))"
proof -
  have enc: "fields_encodable (jp_lib jp) (span_entry (jp_lib jp) (jl_field_prefix l)) rs" using assms(6) by simp
  from new_span_buffer [OF assms(1-3,5) enc] obtain b where
    b: "journald_on_new_span jp l attrs i cx s =
      Some (s\<lparr>ls_registry := update_extensions i (\<lambda>_. (dat_extensions (sr_data sp))(jp_span_fields jp \<mapsto> ExtBytes b)) (ls_registry s)\<rparr>)"
    "journal_parse b = Some (span_entries (jp_lib jp) l (dat_metadata (sr_data sp)) rs)" by blast
  let ?s1 = "s\<lparr>ls_registry := update_extensions i (\<lambda>_. (dat_extensions (sr_data sp))(jp_span_fields jp \<mapsto> ExtBytes b)) (ls_registry s)\<rparr>"
  have "span_buffer jp cx i ?s1 = Some (ExtBytes b)" using assms(1) by (simp add: span_buffer_def cx_span_update ext_get_def)
  from records_buffer [OF this b(2) assms(4), of l] assms(6) b(1) show ?thesis by (auto simp: span_entries_def)
qed

subsection \<open>Events\<close>

definition event_entries ::
  "'f fmt_lib \<Rightarrow> journald_layer \<Rightarrow> (string \<times> string) list \<Rightarrow> metadata \<Rightarrow> (string \<times> 'f recorded) list \<Rightarrow> (string \<times> string) list" where
  "event_entries lib l custom meta rs =
     (''PRIORITY'', [priority_byte (priority_of (jl_priority_mappings l) (meta_level meta))]) # meta_entries [] meta
     @ (''SYSLOG_IDENTIFIER'', jl_syslog_identifier l) # custom @ map (event_entry lib (jl_field_prefix l)) rs"

text \<open>The spans that the thread is in, outermost first.\<close>

definition current_scope :: "layer_context \<Rightarrow> thread \<Rightarrow> registry \<Rightarrow> span_ref list" where
  "current_scope cx t r =
     (case lookup_current cx t r of None \<Rightarrow> [] | Some sp \<Rightarrow> rev (ancestor_refs r (sr_filter sp) (Some (sr_id sp))))"

lemma current_scope_returns:
  "pool_ok r \<Longrightarrow> (case lookup_current cx t r of None \<Rightarrow> Some [] | Some sp \<Rightarrow> scope_from_root sp r) = Some (current_scope cx t r)"
  by (simp add: current_scope_def scope_from_root_def sref_scope_def scope_collect_returns split: option.split)

definition holds_entries :: "type_id \<Rightarrow> (span_id \<Rightarrow> (string \<times> string) list) \<Rightarrow> span_ref \<Rightarrow> bool" where
  "holds_entries ty ents sp \<longleftrightarrow>
     (\<exists>b. ext_get ty (dat_extensions (sr_data sp)) = Some (ExtBytes b) \<and> journal_parse b = Some (ents (sr_id sp)))"

lemma append_span_fields_parse:
  "list_all (holds_entries ty ents) sps \<Longrightarrow> journal_parse buf = Some es \<Longrightarrow>
     \<exists>b. append_span_fields ty sps buf = Some b \<and> journal_parse b = Some (es @ concat (map (\<lambda>sp. ents (sr_id sp)) sps))"
proof (induction sps arbitrary: buf es)
  case (Cons sp sps)
  then obtain b where b: "ext_get ty (dat_extensions (sr_data sp)) = Some (ExtBytes b)" "journal_parse b = Some (ents (sr_id sp))"
    by (auto simp: holds_entries_def)
  from Cons.IH [OF _ journal_parse_concat [OF Cons.prems(2) b(2)]] Cons.prems(1) b(1) show ?case by simp
qed simp

lemma syslog_name: "sanitize_name ''SYSLOG_IDENTIFIER'' [] = ''SYSLOG_IDENTIFIER''"
  by code_simp


text \<open>Custom fields are written once, when the layer is built.\<close>

lemma with_custom_fields_entries:
  assumes "journal_parse (jl_additional_fields l) = Some es" "list_all good_entry (map (\<lambda>(n, v). (sanitize_name n [], v)) custom)"
  shows "journal_parse (jl_additional_fields (with_custom_fields custom l)) = Some (es @ map (\<lambda>(n, v). (sanitize_name n [], v)) custom)"
  using assms
proof (induction custom arbitrary: l es)
  case (Cons x custom)
  obtain n v where x: "x = (n, v)" by fastforce
  let ?l = "l\<lparr>jl_additional_fields := put_field_length_encoded (jl_additional_fields l) n (\<lambda>b. b @ v)\<rparr>"
  have "journal_parse (jl_additional_fields ?l) = Some (es @ [(sanitize_name n [], v)])"
    using Cons.prems x by (simp add: put_length_entry journal_parse_concat journal_parse_entry)
  from Cons.IH [OF this] Cons.prems x show ?case by (simp add: with_custom_fields_def)
qed (simp add: with_custom_fields_def)

text \<open>A field name keeps no character that could end it.\<close>

lemma uppercase_name_char:
  assumes "c = CHR ''_'' \<or> is_ascii_alphanumeric c"
  shows "to_ascii_uppercase c \<noteq> CHR ''=''" "to_ascii_uppercase c \<noteq> newline"
proof -
  have "of_char (to_ascii_uppercase c) = (if is_ascii_lowercase c then of_char c - 32 else of_char c :: nat)"
    by (auto simp: to_ascii_uppercase_def is_ascii_lowercase_def)
  then have "of_char (to_ascii_uppercase c) \<noteq> (61 :: nat) \<and> of_char (to_ascii_uppercase c) \<noteq> (10 :: nat)"
    using assms by (auto simp: is_ascii_alphanumeric_def is_ascii_digit_def is_ascii_uppercase_def is_ascii_lowercase_def)
  then show "to_ascii_uppercase c \<noteq> CHR ''=''" "to_ascii_uppercase c \<noteq> newline" by auto
qed

lemma sanitize_name_good: "CHR ''='' \<notin> set (sanitize_name name [])" "newline \<notin> set (sanitize_name name [])"
proof -
  have "\<exists>d. (d = CHR ''_'' \<or> is_ascii_alphanumeric d) \<and> c = to_ascii_uppercase d" if "c \<in> set (sanitize_name name [])" for c
    using that by (auto simp: sanitize_name_def)
  then show "CHR ''='' \<notin> set (sanitize_name name [])" "newline \<notin> set (sanitize_name name [])"
    using uppercase_name_char by metis+
qed

subsection \<open>Behind filters\<close>

definition journald_act ::
  "'w journal_io \<Rightarrow> 'f journal_params \<Rightarrow> (nat \<Rightarrow> journald_layer) \<Rightarrow> thread \<Rightarrow> nat \<Rightarrow> 'f event \<Rightarrow> layer_context \<Rightarrow> registry \<Rightarrow>
   'w journal_world \<Rightarrow> 'w journal_world" where
  "journald_act io jp l t n e cx r w =
     (case journald_on_event io jp (l n) t e cx \<lparr>ls_registry = r, ls_filtering = filter_state_new, ls_world = w\<rparr> of
        Some s1 \<Rightarrow> ls_world s1 | None \<Rightarrow> w\<lparr>jw_panicked := True\<rparr>)"

lemma journald_on_event_frame:
  "journald_on_event io jp l t e cx s =
    map_option (\<lambda>s1. s\<lparr>ls_world := ls_world s1\<rparr>)
      (journald_on_event io jp l t e cx \<lparr>ls_registry = ls_registry s, ls_filtering = fs, ls_world = ls_world s\<rparr>)"
  by (simp add: journald_on_event_def Let_def split: option.split)

interpretation journald_sinks: event_sinks "\<lambda>n. journald_as_layer io jp (l n) t" "journald_act io jp l t"
proof (unfold_locales, goal_cases)
  case (3 n e cx s)
  show ?case
    using journald_on_event_frame [of io jp "l n" t e cx s filter_state_new]
    by (auto simp: journald_as_layer_def layer_defaults_def journald_notify_def journald_act_def split: option.split)
qed (simp_all add: journald_as_layer_def layer_defaults_def)

text \<open>Journald layers behind filters of their own: an event reaches the sockets of exactly those that accept it.\<close>

theorem filtered_journald:
  fixes io :: "'w journal_io"
  assumes "\<forall>n \<in> set ns. n < 64 \<and> (\<forall>cx s. ft_enabled (fl n) (ev_metadata e) cx s = en n) \<and>
      (\<forall>cx s. ft_event_enabled (fl n) e cx s = ev n)"
    and "distinct ns" and "length ns < 64" and "fst_enabled (ls_filtering s) = filter_map_new"
  shows "ls_world (emit_event (stack_of (map (\<lambda>n. filtered (fl n) (journald_as_layer io jp (l n) t) (nth_id n)) ns)) t e s) =
      fold (\<lambda>n. journald_act io jp l t n e (cx_with_filter (nth_id n) context_new) (ls_registry s))
        (filter (\<lambda>n. en n \<and> ev n) (rev ns)) (ls_world s)"
  using journald_sinks.pass [OF assms, where io = io and jp = jp and l = l and t = t]
  by (simp add: journald_sinks.filtered_sinks_def journald_sinks.deliver_def [abs_def])

subsection \<open>Edges\<close>

text \<open>An explicit parent of the event is ignored: the fields of the thread's current spans are sent instead.\<close>

theorem journald_ignores_parent:
  "journald_on_event io jp l t (e\<lparr>ev_parent := p\<rparr>) cx s = journald_on_event io jp l t e cx s"
  by (simp add: journald_on_event_def Let_def cong: option.case_cong)

text \<open>A second journald layer in the same stack panics when a span is created.\<close>

theorem second_journald_panics:
  assumes "ext_get (jp_span_fields jp) (dat_extensions (sr_data sp)) \<noteq> None" "cx_span cx i (ls_registry s) = Some sp"
  shows "journald_on_new_span jp l attrs i cx s = None"
  using assms by (auto simp: journald_on_new_span_def ext_mut_insert_def ext_mut_replace_def ext_insert_def ext_get_def Let_def
      split: option.split)

text \<open>Without a prefix, a name of underscores only becomes the empty name, which no field of the protocol has.\<close>

theorem empty_name_unreadable:
  "wire_name None ''_'' = [] \<and> journal_parse (encode_entry (wire_name None ''_'', v)) = None"
proof -
  have "wire_name None ''_'' = []" by (simp add: wire_name_def sanitize_name_def)
  then show ?thesis by (subst journal_parse.simps) (simp add: encode_entry_def journal_field_def)
qed

subsection \<open>Witnesses\<close>

definition demo_journal_params :: "unit journal_params" where
  "demo_journal_params = \<lparr>jp_span_fields = 3, jp_lib = \<lparr>fl_f64_debug = (\<lambda>_. []), fl_fails = (\<lambda>_. False)\<rparr>\<rparr>"

definition demo_journald :: journald_layer where
  "demo_journald = \<lparr>jl_field_prefix = Some ''F'', jl_syslog_identifier = ''app'', jl_additional_fields = [],
     jl_priority_mappings = priority_mappings_new\<rparr>"

definition demo_socket :: "string list journal_io" where
  "demo_socket = \<lparr>jo_EMSGSIZE = 90, jo_unbound = (\<lambda>w. (Inr (), w)), jo_send_to = (\<lambda>p w. (Inr (length p), w @ [p])),
     jo_create_sealable = (\<lambda>w. (Inl None, w)), jo_write_all = (\<lambda>_ _ w. (Inl None, w)), jo_seal_fully = (\<lambda>_ w. (Inl None, w)),
     jo_send_one_fd = (\<lambda>_ w. (Inl None, w))\<rparr>"

definition demo_journal_state :: "string list journal_world lstate" where
  "demo_journal_state = \<lparr>ls_registry = registry_enter 5 1 demo_spans, ls_filtering = filter_state_new,
     ls_world = \<lparr>jw_io = [], jw_panicked = False\<rparr>\<rparr>"

lemma demo_journal_span:
  "cx_span context_new 1 (registry_enter 5 1 demo_spans) = Some \<lparr>sr_id = 1, sr_data = demo_span None, sr_filter = filter_id_none\<rparr>"
  by (simp add: cx_span_def context_new_def lookup_span_def registry_get_def demo_spans_def registry_enter_def id_to_idx_def
      id_into_u64_def try_with_filter_def data_is_enabled_for_def filter_map_is_enabled_def filter_id_none_def sref_with_filter_def)

lemma demo_encodable:
  "fields_encodable (jp_lib demo_journal_params) (span_entry (jp_lib demo_journal_params) (jl_field_prefix demo_journald))
     [(''message'', RecDebug ([CHR 0x1B] @ ''[2J'')), (''user'', RecStr [CHR 0x07])]"
  "fields_encodable (jp_lib demo_journal_params) (event_entry (jp_lib demo_journal_params) (jl_field_prefix demo_journald))
     [(''message'', RecDebug ([CHR 0x1B] @ ''[2J'')), (''user'', RecStr [CHR 0x07])]"
  using sanitize_name_good
  by (simp_all add: fields_encodable_def demo_journal_params_def demo_journald_def recorded_ok_def good_entry_def span_entry_def
      event_entry_def wire_name_def recorded_text_def recorded_debug_def) (simp add: sanitize_name_def is_ascii_alphanumeric_def
      is_ascii_lowercase_def)

theorem journald_span_fields_witness:
  "\<exists>s1 s2 b. journald_on_new_span demo_journal_params demo_journald (attributes_new_root demo_meta (ev_fields demo_msg_event)) 1 context_new
       demo_journal_state = Some s1 \<and>
     journald_records demo_journal_params demo_journald 1 context_new [Record (ev_fields demo_msg_event)] s1 = Some s2 \<and>
     span_buffer demo_journal_params context_new 1 s2 = Some (ExtBytes b) \<and>
     map_option length (journal_parse b) = Some 6"
proof -
  let ?rs = "[(''message'', RecDebug ([CHR 0x1B] @ ''[2J'')), (''user'', RecStr [CHR 0x07])] :: (string \<times> unit recorded) list"
  have a0: "cx_span context_new 1 (ls_registry demo_journal_state) = Some \<lparr>sr_id = 1, sr_data = demo_span None, sr_filter = filter_id_none\<rparr>"
    by (simp add: demo_journal_state_def demo_journal_span)
  have a1: "ext_get (jp_span_fields demo_journal_params)
      (dat_extensions (sr_data \<lparr>sr_id = 1, sr_data = demo_span None, sr_filter = filter_id_none\<rparr>)) = None"
    by (simp add: ext_get_def demo_span_def)
  have a2: "named_record (attr_values (attributes_new_root demo_meta (ev_fields demo_msg_event))) = Some ?rs"
    by (simp add: attributes_new_root_def demo_named)
  have a3: "map (\<lambda>v. named_record (record_values v)) [Record (ev_fields demo_msg_event)] = map Some [?rs]"
    by (simp add: demo_named)
  have a4: "meta_fits (dat_metadata (sr_data \<lparr>sr_id = 1, sr_data = demo_span None, sr_filter = filter_id_none\<rparr>))"
    by (simp add: meta_fits_def demo_span_def)
  have a5: "\<forall>rs \<in> set (?rs # [?rs]). fields_encodable (jp_lib demo_journal_params)
      (span_entry (jp_lib demo_journal_params) (jl_field_prefix demo_journald)) rs" using demo_encodable(1) by simp
  from journald_span_fields [OF a0 a1 a2 a3 a4 a5] obtain s1 s2 b where
    r: "journald_on_new_span demo_journal_params demo_journald (attributes_new_root demo_meta (ev_fields demo_msg_event)) 1 context_new
       demo_journal_state = Some s1"
     "journald_records demo_journal_params demo_journald 1 context_new [Record (ev_fields demo_msg_event)] s1 = Some s2"
     "span_buffer demo_journal_params context_new 1 s2 = Some (ExtBytes b)"
     "journal_parse b = Some (span_entries (jp_lib demo_journal_params) demo_journald
       (dat_metadata (sr_data \<lparr>sr_id = 1, sr_data = demo_span None, sr_filter = filter_id_none\<rparr>)) (?rs @ concat [?rs]))"
    by blast
  then show ?thesis by (intro exI [of _ s1] exI [of _ s2] exI [of _ b]) (simp add: span_entries_def meta_entries_def demo_span_def)
qed

text \<open>An event in a span, whose fields were recorded when it was created.\<close>

lemma demo_scope:
  assumes "r = update_extensions 1 (\<lambda>_. ext) (registry_enter 5 1 demo_spans)"
  shows "pool_ok r" "current_scope context_new 5 r =
    [\<lparr>sr_id = 1, sr_data = (demo_span None)\<lparr>dat_extensions := ext\<rparr>, sr_filter = filter_id_none\<rparr>]"
proof -
  let ?d = "(demo_span None)\<lparr>dat_extensions := ext\<rparr>"
  have spans: "reg_spans r = [(1, demo_span (Some 1)), (0, ?d)]"
    by (simp add: assms update_extensions_def registry_enter_def demo_spans_def pool_update_def id_to_idx_def id_into_u64_def)
  then show ok: "pool_ok r" by (simp add: pool_ok_def demo_span_def id_to_idx_def id_into_u64_def)
  have get: "registry_get 1 r = Some ?d" by (simp add: registry_get_def spans id_to_idx_def id_into_u64_def)
  have on: "data_is_enabled_for ?d filter_id_none"
    by (simp add: data_is_enabled_for_def filter_map_is_enabled_def filter_id_none_def)
  have "registry_current_span 5 r = CurrentSpan 1 (dat_metadata ?d)"
    using get by (simp add: registry_current_span_def)
      (simp add: assms update_extensions_def registry_enter_def demo_spans_def registry_default_def stack_push_def stack_current_def stack_iter_def)
  then have "lookup_current context_new 5 r = Some \<lparr>sr_id = 1, sr_data = ?d, sr_filter = filter_id_none\<rparr>"
    using get on by (simp add: lookup_current_def context_new_def current_id_def lookup_span_def try_with_filter_def sref_with_filter_def)
  moreover have "ancestor_refs r filter_id_none None = []" by (simp add: ancestor_refs_def)
  ultimately show "current_scope context_new 5 r = [\<lparr>sr_id = 1, sr_data = ?d, sr_filter = filter_id_none\<rparr>]"
    using ancestor_refs_step [OF ok, of filter_id_none 1] get on by (simp add: current_scope_def demo_span_def)
qed


end
