(* ===== verification/Flame.thy ===== *)
theory Flame
  imports Fmt_Writer Layered
begin

text \<open>
  Folded stacks for flame graphs: \<open>tracing-flame/src/lib.rs\<close> and \<open>error.rs\<close>.

  At every entry and exit of a span the layer writes one line: the stack that was on top since the thread's
  last entry or exit, and the time in between. The clock, the thread-local time of the last event and the
  writer behind its mutex are the layer's world. \<open>None\<close> is a panic. Instants are nanoseconds since some
  origin; their subtraction saturates.
\<close>

subsection \<open>Configuration\<close>

record flame_config =
  fk_empty_samples :: bool
  fk_threads_collapsed :: bool
  fk_module_path :: bool
  fk_file_and_line :: bool

definition flame_config_default :: flame_config where
  "flame_config_default =
     \<lparr>fk_empty_samples = True, fk_threads_collapsed = False, fk_module_path = True, fk_file_and_line = False\<rparr>"

record 'w flame_layer =
  fa_out :: "'w io_writer"
  fa_config :: flame_config

definition flame_new :: "'w io_writer \<Rightarrow> 'w flame_layer" where
  "flame_new out = \<lparr>fa_out = out, fa_config = flame_config_default\<rparr>"

definition with_empty_samples :: "bool \<Rightarrow> 'w flame_layer \<Rightarrow> 'w flame_layer" where
  "with_empty_samples b l = l\<lparr>fa_config := (fa_config l)\<lparr>fk_empty_samples := b\<rparr>\<rparr>"

definition with_threads_collapsed :: "bool \<Rightarrow> 'w flame_layer \<Rightarrow> 'w flame_layer" where
  "with_threads_collapsed b l = l\<lparr>fa_config := (fa_config l)\<lparr>fk_threads_collapsed := b\<rparr>\<rparr>"

definition with_module_path :: "bool \<Rightarrow> 'w flame_layer \<Rightarrow> 'w flame_layer" where
  "with_module_path b l = l\<lparr>fa_config := (fa_config l)\<lparr>fk_module_path := b\<rparr>\<rparr>"

definition with_file_and_line :: "bool \<Rightarrow> 'w flame_layer \<Rightarrow> 'w flame_layer" where
  "with_file_and_line b l = l\<lparr>fa_config := (fa_config l)\<lparr>fk_file_and_line := b\<rparr>\<rparr>"

subsection \<open>The world\<close>

record 'w flame_world =
  fa_world :: 'w
  fa_poisoned :: bool
  fa_start :: nat
  fa_last :: "thread \<rightharpoonup> nat"
  fa_now :: nat
  fa_panicked :: bool

text \<open>\<open>THREAD_NAME\<close>, from the \<open>Debug\<close> output of the thread's id and its name.\<close>

definition flame_thread_name :: "string \<Rightarrow> string option \<Rightarrow> string" where
  "flame_thread_name id_debug name = id_debug @ (case name of None \<Rightarrow> [] | Some n \<Rightarrow> ''-'' @ n)"

definition time_since_last_event :: "thread \<Rightarrow> 'w flame_world \<Rightarrow> nat \<times> 'w flame_world" where
  "time_since_last_event t w =
     (let prev = (case fa_last w t of None \<Rightarrow> fa_start w | Some p \<Rightarrow> p)
      in (fa_now w - prev, w\<lparr>fa_last := (fa_last w)(t \<mapsto> fa_now w)\<rparr>))"

subsection \<open>Lines\<close>

definition flame_write :: "flame_config \<Rightarrow> metadata \<Rightarrow> string" where
  "flame_write c meta =
     (if fk_module_path c then (case meta_module_path meta of None \<Rightarrow> [] | Some m \<Rightarrow> m @ ''::'') else [])
     @ meta_name meta
     @ (if fk_file_and_line c then
          (case meta_file meta of None \<Rightarrow> [] | Some f \<Rightarrow> '':'' @ f)
          @ (case meta_line meta of None \<Rightarrow> [] | Some n \<Rightarrow> '':'' @ show_nat n)
        else [])"

definition flame_stack :: "flame_config \<Rightarrow> string \<Rightarrow> metadata list \<Rightarrow> nat \<Rightarrow> string" where
  "flame_stack c tname frames samples =
     (if fk_threads_collapsed c then ''all-threads'' else tname)
     @ concat (map (\<lambda>m. '';'' @ flame_write c m) frames) @ '' '' @ show_nat samples"

text \<open>\<open>writeln!\<close> on the locked writer: two writes, the second only if the first succeeds; errors are ignored.\<close>

definition flame_writeln :: "'w io_writer \<Rightarrow> string \<Rightarrow> 'w \<Rightarrow> 'w" where
  "flame_writeln out stack w =
     (case io_write_all out stack w of
        (None, w1) \<Rightarrow> w1
      | (Some _, w1) \<Rightarrow> snd (io_write_all out [CHR 0x0A] w1))"

abbreviation frames_of :: "span_ref list \<Rightarrow> metadata list" where
  "frames_of spans \<equiv> map (\<lambda>sp. dat_metadata (sr_data sp)) spans"

definition flame_on_enter ::
  "'w flame_layer \<Rightarrow> string \<Rightarrow> thread \<Rightarrow> span_id \<Rightarrow> layer_context \<Rightarrow> 'w flame_world lstate \<Rightarrow> 'w flame_world lstate option" where
  "flame_on_enter l tname t i cx s =
     (let (samples, w) = time_since_last_event t (ls_world s); r = ls_registry s in
      case cx_span cx i r of
        None \<Rightarrow> None
      | Some first \<Rightarrow>
          (case sref_parent first r of
             None \<Rightarrow> None
           | Some par \<Rightarrow>
               if \<not> fk_empty_samples (fa_config l) \<and> par = None then Some (s\<lparr>ls_world := w\<rparr>)
               else
                 (case (case par of None \<Rightarrow> Some [] | Some second \<Rightarrow> scope_from_root second r) of
                    None \<Rightarrow> None
                  | Some spans \<Rightarrow>
                      if fa_poisoned w then None
                      else Some (s\<lparr>ls_world := w\<lparr>fa_world := flame_writeln (fa_out l)
                        (flame_stack (fa_config l) tname (frames_of spans) samples) (fa_world w)\<rparr>\<rparr>))))"

text \<open>While the thread panics, \<open>on_exit\<close> gives up where it would otherwise unwrap.\<close>

definition flame_on_exit ::
  "'w flame_layer \<Rightarrow> string \<Rightarrow> bool \<Rightarrow> thread \<Rightarrow> span_id \<Rightarrow> layer_context \<Rightarrow> 'w flame_world lstate \<Rightarrow> 'w flame_world lstate option" where
  "flame_on_exit l tname panicking t i cx s =
     (let (samples, w) = time_since_last_event t (ls_world s); r = ls_registry s in
      if panicking then Some (s\<lparr>ls_world := w\<rparr>)
      else
        (case cx_span cx i r of
           None \<Rightarrow> None
         | Some first \<Rightarrow>
             (case scope_from_root first r of
                None \<Rightarrow> None
              | Some spans \<Rightarrow>
                  if fa_poisoned w then None
                  else Some (s\<lparr>ls_world := w\<lparr>fa_world := flame_writeln (fa_out l)
                    (flame_stack (fa_config l) tname (frames_of spans) samples) (fa_world w)\<rparr>\<rparr>))))"

definition flame_as_layer :: "'w flame_layer \<Rightarrow> (thread \<Rightarrow> string) \<Rightarrow> (thread \<Rightarrow> bool) \<Rightarrow> thread \<Rightarrow> ('f, 'w flame_world) layer" where
  "flame_as_layer l tname panicking t = layer_defaults\<lparr>ly_notify := (\<lambda>n cx s.
     case (case n of
             OnEnter i \<Rightarrow> flame_on_enter l (tname t) t i cx s
           | OnExit i \<Rightarrow> flame_on_exit l (tname t) (panicking t) t i cx s
           | _ \<Rightarrow> Some s) of
       Some s1 \<Rightarrow> s1
     | None \<Rightarrow> s\<lparr>ls_world := (ls_world s)\<lparr>fa_panicked := True\<rparr>\<rparr>)\<rparr>"

subsection \<open>Flushing\<close>

text \<open>An I/O error is the texts of itself and of its sources.\<close>

datatype flame_error = CreateFile string "string list" | FlushFile "string list"

definition flame_error_display :: "flame_error \<Rightarrow> string" where
  "flame_error_display e =
     (case e of
        CreateFile path _ \<Rightarrow> ''cannot create output file. path='' @ path
      | FlushFile _ \<Rightarrow> ''cannot flush output buffer'')"

definition flame_error_source :: "flame_error \<Rightarrow> string list" where
  "flame_error_source e = (case e of CreateFile _ source \<Rightarrow> source | FlushFile source \<Rightarrow> source)"

definition flame_error_report :: "flame_error \<Rightarrow> string list" where
  "flame_error_report e =
     ''Error:'' # map (\<lambda>(ind, text). ''    '' @ show_nat ind @ '': '' @ text)
       (enumerate 0 (flame_error_display e # flame_error_source e))"

text \<open>\<open>FlushGuard::flush\<close> and its drop; \<open>flush_writer\<close> is the writer's \<open>flush\<close>. The outer \<open>None\<close> is a panic.\<close>

definition flame_flush ::
  "('w \<Rightarrow> (string list + unit) \<times> 'w) \<Rightarrow> bool \<Rightarrow> 'w flame_world \<Rightarrow> ((flame_error + unit) \<times> 'w flame_world) option" where
  "flame_flush flush_writer panicking w =
     (if fa_poisoned w then (if \<not> panicking then None else Some (Inr (), w))
      else
        (case flush_writer (fa_world w) of
           (Inl e, out) \<Rightarrow> Some (Inl (FlushFile e), w\<lparr>fa_world := out\<rparr>)
         | (Inr u, out) \<Rightarrow> Some (Inr u, w\<lparr>fa_world := out\<rparr>)))"

definition flush_guard_drop ::
  "('w \<Rightarrow> (string list + unit) \<times> 'w) \<Rightarrow> bool \<Rightarrow> 'w flame_world \<Rightarrow> (string list \<times> 'w flame_world) option" where
  "flush_guard_drop flush_writer panicking w =
     map_option (\<lambda>(res, w1). (case res of Inr _ \<Rightarrow> [] | Inl e \<Rightarrow> flame_error_report e, w1))
       (flame_flush flush_writer panicking w)"

text \<open>\<open>create\<close> is \<open>File::create\<close> with the buffered writer around the file.\<close>

definition flame_with_file ::
  "(string \<Rightarrow> 'v \<Rightarrow> (string list + 'w io_writer) \<times> 'v) \<Rightarrow> string \<Rightarrow> 'v \<Rightarrow> (flame_error + 'w flame_layer) \<times> 'v" where
  "flame_with_file create path v =
     (case create path v of
        (Inl e, v1) \<Rightarrow> (Inl (CreateFile path e), v1)
      | (Inr out, v1) \<Rightarrow> (Inr (flame_new out), v1))"

subsection \<open>Every moment is accounted to the stack that was entered\<close>

text \<open>A thread's entries and exits, each with its time.\<close>

fun flame_run ::
  "'w flame_layer \<Rightarrow> string \<Rightarrow> thread \<Rightarrow> layer_context \<Rightarrow> (nat \<times> bool \<times> span_id) list \<Rightarrow> 'w flame_world lstate \<Rightarrow>
   'w flame_world lstate option" where
  "flame_run l tname t cx [] s = Some s"
| "flame_run l tname t cx ((now, enter, i) # xs) s =
     (let s1 = s\<lparr>ls_world := (ls_world s)\<lparr>fa_now := now\<rparr>\<rparr>
      in Option.bind (if enter then flame_on_enter l tname t i cx s1 else flame_on_exit l tname False t i cx s1)
           (flame_run l tname t cx xs))"

text \<open>The stack of entered spans, innermost first, and how long it lasts.\<close>

fun stack_times :: "nat \<Rightarrow> span_id list \<Rightarrow> (nat \<times> bool \<times> span_id) list \<Rightarrow> (span_id list \<times> nat) list" where
  "stack_times since stk [] = []"
| "stack_times since stk ((now, enter, i) # xs) =
     (stk, now - since) # stack_times now (if enter then i # stk else tl stk) xs"

text \<open>
  Spans are entered under their parents and left in the reverse order, and the clock does not go back. The
  parent is the one that the layer's context shows.
\<close>

fun nested_run :: "layer_context \<Rightarrow> registry \<Rightarrow> nat \<Rightarrow> span_id list \<Rightarrow> (nat \<times> bool \<times> span_id) list \<Rightarrow> bool" where
  "nested_run cx r since stk [] = True"
| "nested_run cx r since stk ((now, enter, i) # xs) \<longleftrightarrow>
     since \<le> now \<and>
     (if enter
      then (\<exists>sp. cx_span cx i r = Some sp \<and>
              sref_parent sp r = Some (case stk of [] \<Rightarrow> None | j # _ \<Rightarrow> cx_span cx j r))
        \<and> nested_run cx r now (i # stk) xs
      else stk \<noteq> [] \<and> i = hd stk \<and> nested_run cx r now (tl stk) xs)"

definition seen_span :: "layer_context \<Rightarrow> registry \<Rightarrow> span_id \<Rightarrow> span_ref" where
  "seen_span cx r i = the (cx_span cx i r)"

definition flame_line :: "'w flame_layer \<Rightarrow> string \<Rightarrow> layer_context \<Rightarrow> registry \<Rightarrow> span_id list \<times> nat \<Rightarrow> string" where
  "flame_line l tname cx r x =
     flame_stack (fa_config l) tname (frames_of (rev (map (seen_span cx r) (fst x)))) (snd x)"

text \<open>The ancestors of a span are found from the nearest one that is enabled.\<close>

lemma ancestor_refs_head:
  assumes "pool_ok r" "ancestor_refs r f p = s # rest"
  shows "ancestor_refs r f (Some (sr_id s)) = s # rest"
  using assms(2)
proof (induction "chain_length r p" arbitrary: p rule: less_induct)
  case less
  then obtain i where p: "p = Some i" by (cases p) (auto simp: ancestor_refs_def)
  then obtain d where d: "registry_get i r = Some d"
    using less.prems ancestor_refs_step [OF assms(1), of f i] by (cases "registry_get i r") auto
  show ?case
  proof (cases "data_is_enabled_for d f")
    case True
    then show ?thesis using less.prems p d ancestor_refs_step [OF assms(1), of f i] by auto
  next
    case False
    then have "ancestor_refs r f (dat_parent d) = s # rest"
      using less.prems p d ancestor_refs_step [OF assms(1), of f i] by auto
    then show ?thesis using less.hyps [of "dat_parent d"] chain_length_parent [OF assms(1) d] p by blast
  qed
qed

lemma cx_span_parts:
  assumes "cx_span cx i r = Some sp"
  shows "sr_id sp = i" "sr_filter sp = cx_filter cx" "registry_get i r = Some (sr_data sp)"
    "data_is_enabled_for (sr_data sp) (cx_filter cx)"
  using assms
  by (auto simp: cx_span_def lookup_span_def try_with_filter_def sref_with_filter_def split: if_splits bind_splits)

lemma cx_span_ancestors:
  assumes "pool_ok r" "cx_span cx i r = Some sp"
  shows "ancestor_refs r (cx_filter cx) (Some i) = sp # ancestor_refs r (cx_filter cx) (dat_parent (sr_data sp))"
proof -
  have "\<lparr>sr_id = i, sr_data = sr_data sp, sr_filter = cx_filter cx\<rparr> = sp" using cx_span_parts [OF assms(2)] by (cases sp) auto
  then show ?thesis using ancestor_refs_step [OF assms(1), of "cx_filter cx" i] cx_span_parts(3,4) [OF assms(2)] by simp
qed

text \<open>The entered spans are the ancestors of the innermost one.\<close>

definition on_stack :: "layer_context \<Rightarrow> registry \<Rightarrow> span_id list \<Rightarrow> bool" where
  "on_stack cx r stk \<longleftrightarrow> (\<forall>i \<in> set stk. cx_span cx i r \<noteq> None) \<and>
     (stk \<noteq> [] \<longrightarrow> ancestor_refs r (cx_filter cx) (Some (hd stk)) = map (seen_span cx r) stk)"

lemma on_stack_enter:
  assumes "pool_ok r" "on_stack cx r stk" "cx_span cx i r = Some sp"
    and "sref_parent sp r = Some (case stk of [] \<Rightarrow> None | j # _ \<Rightarrow> cx_span cx j r)"
  shows "on_stack cx r (i # stk)" and "ancestor_refs r (cx_filter cx) (dat_parent (sr_data sp)) = map (seen_span cx r) stk"
proof -
  let ?up = "ancestor_refs r (cx_filter cx) (dat_parent (sr_data sp))"
  have "(case ?up of [] \<Rightarrow> None | s # _ \<Rightarrow> Some s) = (case stk of [] \<Rightarrow> None | j # _ \<Rightarrow> cx_span cx j r)"
    using assms(4) parent_loop_returns [OF assms(1)] cx_span_parts(2) [OF assms(3)] by (simp add: sref_parent_def)
  note head = this
  show up: "?up = map (seen_span cx r) stk"
  proof (cases stk)
    case (Cons j js)
    then obtain sj where j: "cx_span cx j r = Some sj" using assms(2) by (auto simp: on_stack_def)
    with Cons head obtain rest where "?up = sj # rest" by (auto split: list.splits)
    from ancestor_refs_head [OF assms(1) this] this show ?thesis
      using assms(2) Cons cx_span_parts(1) [OF j] by (simp add: on_stack_def)
  qed (use head in \<open>auto split: list.splits\<close>)
  show "on_stack cx r (i # stk)"
    using cx_span_ancestors [OF assms(1,3)] up assms(2,3) by (simp add: on_stack_def seen_span_def)
qed

lemma on_stack_exit:
  assumes "pool_ok r" "on_stack cx r (i # stk)"
  shows "on_stack cx r stk"
proof (cases stk)
  case (Cons j js)
  obtain si sj where s: "cx_span cx i r = Some si" "cx_span cx j r = Some sj" using assms(2) Cons by (auto simp: on_stack_def)
  have "ancestor_refs r (cx_filter cx) (dat_parent (sr_data si)) = map (seen_span cx r) stk"
    using cx_span_ancestors [OF assms(1) s(1)] assms(2) s(1) by (simp add: on_stack_def seen_span_def)
  then show ?thesis using ancestor_refs_head [OF assms(1)] s(2) cx_span_parts(1) [OF s(2)] assms(2) Cons
    by (fastforce simp: on_stack_def seen_span_def)
qed (simp add: on_stack_def)

definition since_last :: "thread \<Rightarrow> 'w flame_world \<Rightarrow> nat" where
  "since_last t w = (case fa_last w t of None \<Rightarrow> fa_start w | Some p \<Rightarrow> p)"

lemma since_last_simps [simp]:
  "since_last t (w\<lparr>fa_now := n\<rparr>) = since_last t w"
  "since_last t (w\<lparr>fa_last := (fa_last w')(t \<mapsto> n), fa_world := x\<rparr>) = n"
  by (simp_all add: since_last_def split: option.split)

lemma flame_on_enter_line:
  assumes "cx_span cx i (ls_registry s) = Some first" "sref_parent first (ls_registry s) = Some par" "\<not> fa_poisoned (ls_world s)"
    and "(case par of None \<Rightarrow> Some [] | Some second \<Rightarrow> scope_from_root second (ls_registry s)) = Some spans"
  shows "flame_on_enter l tname t i cx s = Some (s\<lparr>ls_world := (ls_world s)
    \<lparr>fa_last := (fa_last (ls_world s))(t \<mapsto> fa_now (ls_world s)),
     fa_world := if fk_empty_samples (fa_config l) \<or> par \<noteq> None
       then flame_writeln (fa_out l) (flame_stack (fa_config l) tname (frames_of spans) (fa_now (ls_world s) - since_last t (ls_world s)))
         (fa_world (ls_world s))
       else fa_world (ls_world s)\<rparr>\<rparr>)"
  using assms by (auto simp: flame_on_enter_def time_since_last_event_def since_last_def Let_def)

lemma flame_on_exit_line:
  assumes "cx_span cx i (ls_registry s) = Some first" "\<not> fa_poisoned (ls_world s)"
    and "scope_from_root first (ls_registry s) = Some spans"
  shows "flame_on_exit l tname False t i cx s = Some (s\<lparr>ls_world := (ls_world s)
    \<lparr>fa_last := (fa_last (ls_world s))(t \<mapsto> fa_now (ls_world s)),
     fa_world := flame_writeln (fa_out l) (flame_stack (fa_config l) tname (frames_of spans)
       (fa_now (ls_world s) - since_last t (ls_world s))) (fa_world (ls_world s))\<rparr>\<rparr>)"
  using assms by (auto simp: flame_on_exit_def time_since_last_event_def since_last_def Let_def)

lemma flame_step:
  fixes l :: "'w flame_layer" and s :: "'w flame_world lstate"
  assumes "pool_ok (ls_registry s)" "on_stack cx (ls_registry s) stk" "\<not> fa_poisoned (ls_world s)"
    and "nested_run cx (ls_registry s) since stk ((now, enter, i) # xs)" "since_last t (ls_world s) = since"
  defines "stk' \<equiv> if enter then i # stk else tl stk"
  shows "\<exists>s1. flame_run l tname t cx ((now, enter, i) # xs) s = flame_run l tname t cx xs s1 \<and>
    ls_registry s1 = ls_registry s \<and> \<not> fa_poisoned (ls_world s1) \<and> since_last t (ls_world s1) = now \<and>
    on_stack cx (ls_registry s) stk' \<and> nested_run cx (ls_registry s) now stk' xs \<and>
    fa_world (ls_world s1) =
      (if fk_empty_samples (fa_config l) \<or> stk \<noteq> []
       then flame_writeln (fa_out l) (flame_line l tname cx (ls_registry s) (stk, now - since)) (fa_world (ls_world s))
       else fa_world (ls_world s))"
proof (cases enter)
  case True
  let ?r = "ls_registry s"
  obtain sp where sp: "cx_span cx i ?r = Some sp" "sref_parent sp ?r = Some (case stk of [] \<Rightarrow> None | j # _ \<Rightarrow> cx_span cx j ?r)"
    using assms(4) True by auto
  note up = on_stack_enter [OF assms(1,2) sp]
  have scope: "(case (case stk of [] \<Rightarrow> None | j # _ \<Rightarrow> cx_span cx j ?r) of None \<Rightarrow> Some [] | Some second \<Rightarrow> scope_from_root second ?r) =
      Some (rev (map (seen_span cx ?r) stk))"
  proof (cases stk)
    case (Cons j js)
    then obtain sj where j: "cx_span cx j ?r = Some sj" using assms(2) by (auto simp: on_stack_def)
    then show ?thesis using Cons assms(2) scope_collect_returns [OF assms(1)] cx_span_parts [OF j]
      by (simp add: scope_from_root_def sref_scope_def on_stack_def)
  qed simp
  have none: "(case stk of [] \<Rightarrow> None | j # _ \<Rightarrow> cx_span cx j ?r) = None \<longleftrightarrow> stk = []"
    using assms(2) by (auto simp: on_stack_def split: list.split)
  let ?s = "s\<lparr>ls_world := (ls_world s)\<lparr>fa_now := now\<rparr>\<rparr>"
  have "\<not> fa_poisoned (ls_world ?s)" "ls_registry ?s = ?r" using assms(3) by simp_all
  note line = flame_on_enter_line [of cx i ?s, unfolded this(2), OF sp this(1) scope, where l = l and tname = tname and t = t]
  show ?thesis
    using True assms(3,4,5) up(1) none
    by (intro exI, intro conjI) (simp add: line, auto simp: stk'_def flame_line_def Let_def)
next
  case False
  let ?r = "ls_registry s"
  obtain stk0 where stk: "stk = i # stk0" using assms(4) False by (cases stk) auto
  then obtain sp where sp: "cx_span cx i ?r = Some sp" using assms(2) by (auto simp: on_stack_def)
  have "scope_from_root sp ?r = Some (rev (map (seen_span cx ?r) stk))"
    using assms(2) stk scope_collect_returns [OF assms(1)] cx_span_parts [OF sp]
    by (simp add: scope_from_root_def sref_scope_def on_stack_def)
  note scope = this
  let ?s = "s\<lparr>ls_world := (ls_world s)\<lparr>fa_now := now\<rparr>\<rparr>"
  have "\<not> fa_poisoned (ls_world ?s)" "ls_registry ?s = ?r" using assms(3) by simp_all
  note line = flame_on_exit_line [of cx i ?s, unfolded this(2), OF sp this(1) scope, where l = l and tname = tname and t = t]
  show ?thesis
    using False assms(3,4,5) on_stack_exit [OF assms(1), of cx i stk0] assms(2) stk
    by (intro exI, intro conjI) (simp add: line, auto simp: stk'_def flame_line_def Let_def)
qed

lemma flame_run_lines:
  assumes "pool_ok (ls_registry s)" "on_stack cx (ls_registry s) stk" "\<not> fa_poisoned (ls_world s)"
    and "nested_run cx (ls_registry s) since stk xs" "since_last t (ls_world s) = since"
  shows "\<exists>s1. flame_run l tname t cx xs s = Some s1 \<and> ls_registry s1 = ls_registry s \<and> fa_world (ls_world s1) =
    fold (\<lambda>x. flame_writeln (fa_out l) (flame_line l tname cx (ls_registry s) x))
      (filter (\<lambda>x. fk_empty_samples (fa_config l) \<or> fst x \<noteq> []) (stack_times since stk xs)) (fa_world (ls_world s))"
  using assms
proof (induction xs arbitrary: s since stk)
  case (Cons x xs)
  obtain now enter i where x: "x = (now, enter, i)" by (cases x)
  note s = Cons.prems
  from flame_step [OF s(1,2,3) s(4) [unfolded x] s(5), of l tname] obtain s1 where
    s1: "flame_run l tname t cx (x # xs) s = flame_run l tname t cx xs s1" "ls_registry s1 = ls_registry s"
      "\<not> fa_poisoned (ls_world s1)" "since_last t (ls_world s1) = now"
      "on_stack cx (ls_registry s) (if enter then i # stk else tl stk)"
      "nested_run cx (ls_registry s) now (if enter then i # stk else tl stk) xs"
      "fa_world (ls_world s1) =
      (if fk_empty_samples (fa_config l) \<or> stk \<noteq> []
       then flame_writeln (fa_out l) (flame_line l tname cx (ls_registry s) (stk, now - since)) (fa_world (ls_world s))
       else fa_world (ls_world s))" unfolding x by blast
  from Cons.IH [of s1 "if enter then i # stk else tl stk" now] s1 s(1) x show ?case by auto
qed simp

lemma stack_times_total:
  "nested_run cx r since stk xs \<Longrightarrow>
     (\<Sum>(_, d) \<leftarrow> stack_times since stk xs. d) = (if xs = [] then 0 else fst (last xs) - since) \<and>
     (xs \<noteq> [] \<longrightarrow> since \<le> fst (last xs))"
proof (induction xs arbitrary: since stk)
  case (Cons x xs)
  obtain now enter i where x: "x = (now, enter, i)" by (cases x)
  from Cons.prems x have "nested_run cx r now (if enter then i # stk else tl stk) xs" "since \<le> now" by (auto split: if_splits)
  with Cons.IH [of now "if enter then i # stk else tl stk"] x show ?case by auto
qed simp

text \<open>
  C16. The folded stacks account for all of a thread's time. If spans are entered under their parents and left in
  reverse order, the layer writes one line for each interval between two entries or exits: the stack of spans
  that the thread was in, outermost first, and the length of the interval, counted from the start of the
  program. The intervals add up to the time from the start to the last entry or exit. Without empty samples,
  the lines of the intervals outside of any span are left out, and only those.
\<close>

theorem flame_accounts:
  fixes l :: "'w flame_layer" and s :: "'w flame_world lstate"
  assumes "pool_ok (ls_registry s)" and "\<not> fa_poisoned (ls_world s)" and "fa_last (ls_world s) t = None"
    and "nested_run cx (ls_registry s) (fa_start (ls_world s)) [] xs" and "xs \<noteq> []"
  shows "(\<exists>s1. flame_run l tname t cx xs s = Some s1 \<and> fa_world (ls_world s1) =
      fold (\<lambda>x. flame_writeln (fa_out l) (flame_line l tname cx (ls_registry s) x))
        (filter (\<lambda>x. fk_empty_samples (fa_config l) \<or> fst x \<noteq> []) (stack_times (fa_start (ls_world s)) [] xs)) (fa_world (ls_world s))) \<and>
    (\<Sum>(_, d) \<leftarrow> stack_times (fa_start (ls_world s)) [] xs. d) = fst (last xs) - fa_start (ls_world s)"
proof -
  have "on_stack cx (ls_registry s) []" by (simp add: on_stack_def)
  moreover have "since_last t (ls_world s) = fa_start (ls_world s)" using assms(3) by (simp add: since_last_def)
  ultimately show ?thesis
    using flame_run_lines [OF assms(1) _ assms(2,4)] stack_times_total [OF assms(4)] assms(5) by meson
qed

text \<open>A span with a child, entered and left twice.\<close>

definition demo_flame :: "bool \<Rightarrow> string list flame_layer" where
  "demo_flame empty_samples = with_empty_samples empty_samples
     (flame_new \<lparr>io_write = (\<lambda>b w. (Some (length b), w @ [b])), io_write_all = (\<lambda>b w. (Some (), w @ [b])), io_flush = (\<lambda>w. (Some (), w))\<rparr>)"

definition demo_flame_state :: "string list flame_world lstate" where
  "demo_flame_state = \<lparr>ls_registry = demo_spans, ls_filtering = filter_state_new,
     ls_world = \<lparr>fa_world = [], fa_poisoned = False, fa_start = 100, fa_last = Map.empty, fa_now = 0, fa_panicked = False\<rparr>\<rparr>"

definition demo_steps :: "(nat \<times> bool \<times> span_id) list" where
  "demo_steps = [(110, True, 1), (130, True, 2), (131, False, 2), (150, False, 1)]"

theorem flame_accounts_witness:
  "map_option (\<lambda>s. fa_world (ls_world s)) (flame_run (demo_flame False) ''main'' 5 context_new demo_steps demo_flame_state) =
     Some (concat (map (\<lambda>x. [x, [CHR 0x0A]]) [''main;request 20'', ''main;request;request 1'', ''main;request 19'']))"
proof -
  let ?r = "ls_registry demo_flame_state"
  have span: "cx_span context_new 1 ?r = Some \<lparr>sr_id = 1, sr_data = demo_span None, sr_filter = filter_id_none\<rparr>"
    "cx_span context_new 2 ?r = Some \<lparr>sr_id = 2, sr_data = demo_span (Some 1), sr_filter = filter_id_none\<rparr>"
    by (simp_all add: cx_span_def context_new_def lookup_span_def registry_get_def demo_flame_state_def demo_spans_def id_to_idx_def
      id_into_u64_def try_with_filter_def data_is_enabled_for_def filter_map_is_enabled_def filter_id_none_def sref_with_filter_def)
  have pool: "pool_ok ?r"
    by (simp add: demo_flame_state_def pool_ok_def demo_spans_def demo_span_def registry_default_def id_to_idx_def id_into_u64_def)
  have up: "ancestor_refs ?r filter_id_none None = []"
    "ancestor_refs ?r filter_id_none (Some 1) = [\<lparr>sr_id = 1, sr_data = demo_span None, sr_filter = filter_id_none\<rparr>]"
    using cx_span_ancestors [OF pool span(1)] by (simp_all add: ancestor_refs_def context_new_def demo_span_def)
  have "sref_parent \<lparr>sr_id = 1, sr_data = demo_span None, sr_filter = filter_id_none\<rparr> ?r = Some None"
    "sref_parent \<lparr>sr_id = 2, sr_data = demo_span (Some 1), sr_filter = filter_id_none\<rparr> ?r = Some (cx_span context_new 1 ?r)"
    using up span by (simp_all add: sref_parent_def parent_loop_returns [OF pool] demo_span_def)
  then have nested: "nested_run context_new ?r (fa_start (ls_world demo_flame_state)) [] demo_steps"
    using span by (simp add: demo_steps_def demo_flame_state_def)
  have "\<not> fa_poisoned (ls_world demo_flame_state)" "fa_last (ls_world demo_flame_state) 5 = None" "demo_steps \<noteq> []"
    by (simp_all add: demo_flame_state_def demo_steps_def)
  from flame_accounts [OF pool this(1,2) nested this(3), of "demo_flame False" "''main''"]
  obtain s1 where s1: "flame_run (demo_flame False) ''main'' 5 context_new demo_steps demo_flame_state = Some s1"
    "fa_world (ls_world s1) = fold (\<lambda>x. flame_writeln (fa_out (demo_flame False)) (flame_line (demo_flame False) ''main'' context_new ?r x))
        (filter (\<lambda>x. fk_empty_samples (fa_config (demo_flame False)) \<or> fst x \<noteq> [])
          (stack_times (fa_start (ls_world demo_flame_state)) [] demo_steps)) (fa_world (ls_world demo_flame_state))" by blast
  have "seen_span context_new ?r 1 = \<lparr>sr_id = 1, sr_data = demo_span None, sr_filter = filter_id_none\<rparr>"
    "seen_span context_new ?r 2 = \<lparr>sr_id = 2, sr_data = demo_span (Some 1), sr_filter = filter_id_none\<rparr>"
    using span by (simp_all add: seen_span_def)
  moreover have "show_nat 20 = ''20''" "show_nat (Suc 0) = ''1''" "show_nat 19 = ''19''" by code_simp+
  ultimately show ?thesis
    using s1 by (simp add: demo_flame_def flame_new_def with_empty_samples_def flame_config_default_def demo_steps_def
        demo_flame_state_def flame_writeln_def flame_line_def flame_stack_def flame_write_def demo_span_def)
qed

end
