(* ===== verification/Fmt_Pretty.thy ===== *)
theory Fmt_Pretty
  imports Fmt_Format
begin

text \<open>
  The pretty event format: \<open>tracing-subscriber/src/fmt/format/pretty.rs\<close>.

  An event takes several lines: its fields, where it comes from, and one line for each span it is in, the
  innermost first. The styles of \<open>nu_ansi_term\<close> are a parameter with the operations that the format uses;
  \<open>style_lib_ok\<close> states what that crate documents of the plain style. \<open>None\<close> is a panic.
\<close>

subsection \<open>Styles\<close>

record 's style_lib =
  sy_new :: 's
  sy_fg :: "level \<Rightarrow> 's"
  sy_bold :: "'s \<Rightarrow> 's"
  sy_dimmed :: "'s \<Rightarrow> 's"
  sy_italic :: "'s \<Rightarrow> 's"
  sy_prefix :: "'s \<Rightarrow> string"
  sy_infix :: "'s \<Rightarrow> 's \<Rightarrow> string"
  sy_suffix :: "'s \<Rightarrow> string"

definition style_lib_ok :: "'s style_lib \<Rightarrow> bool" where
  "style_lib_ok sy \<longleftrightarrow> sy_prefix sy (sy_new sy) = [] \<and> sy_suffix sy (sy_new sy) = [] \<and> (\<forall>s. sy_infix sy s s = [])"

definition style_paint :: "'s style_lib \<Rightarrow> 's \<Rightarrow> string \<Rightarrow> string" where
  "style_paint sy st s = sy_prefix sy st @ s @ sy_suffix sy st"

definition style_for :: "'s style_lib \<Rightarrow> level \<Rightarrow> 's" where
  "style_for sy l = sy_fg sy l"

subsection \<open>Fields\<close>

text \<open>The visitor's style and writer do not change while it runs; they are arguments of its methods.\<close>

record pretty_visitor =
  pv_text :: string
  pv_is_empty :: bool
  pv_ok :: bool

definition pretty_visitor_new :: "bool \<Rightarrow> pretty_visitor" where
  "pretty_visitor_new is_empty = \<lparr>pv_text = [], pv_is_empty = is_empty, pv_ok = True\<rparr>"

definition write_padded :: "string \<Rightarrow> bool \<Rightarrow> pretty_visitor \<Rightarrow> pretty_visitor" where
  "write_padded value ok v =
     (let padding = (if pv_is_empty v then [] else '', '')
      in v\<lparr>pv_text := pv_text v @ padding @ value, pv_is_empty := False, pv_ok := ok\<rparr>)"

definition pretty_bold :: "'s style_lib \<Rightarrow> 's \<Rightarrow> fmt_writer \<Rightarrow> 's" where
  "pretty_bold sy st w = (if wr_is_ansi w then sy_bold sy st else sy_new sy)"

definition pretty_record_debug ::
  "'s style_lib \<Rightarrow> 's \<Rightarrow> fmt_writer \<Rightarrow> string \<Rightarrow> string \<Rightarrow> bool \<Rightarrow> pretty_visitor \<Rightarrow> pretty_visitor" where
  "pretty_record_debug sy st w name value ok v =
     (if \<not> pv_ok v then v
      else
        (let bold = pretty_bold sy st w;
             named = (\<lambda>n. sy_prefix sy bold @ n @ sy_infix sy bold st @ '': '' @ value)
         in if name = ''message''
            then write_padded (sy_prefix sy st @ escape_guard (wr_ansi_sanitization w) value) ok v
            else if starts_with name ''log.'' then v\<lparr>pv_ok := True\<rparr>
            else if starts_with name ''r#'' then write_padded (named (drop 2 name)) ok v
            else write_padded (named name) ok v))"

definition pretty_record ::
  "'f fmt_lib \<Rightarrow> 's style_lib \<Rightarrow> 's \<Rightarrow> fmt_writer \<Rightarrow> string \<times> 'f recorded \<Rightarrow> pretty_visitor \<Rightarrow> pretty_visitor" where
  "pretty_record lib sy st w = (\<lambda>(name, r) v.
     (case r of
        RecStr s \<Rightarrow>
          if \<not> pv_ok v then v
          else if name = ''message'' then pretty_record_debug sy st w name s True v
          else pretty_record_debug sy st w name (str_debug s) True v
      | RecError e sources \<Rightarrow>
          (let sanitize = wr_ansi_sanitization w; bold = pretty_bold sy st w in
           if sources \<noteq> [] then
             pretty_record_debug sy st w name
               (escape_guard sanitize e @ '', '' @ sy_prefix sy bold @ name @ ''.sources'' @ sy_infix sy bold st @ '': '' @
                error_source_list sanitize sources) True v
           else pretty_record_debug sy st w name (escape_guard sanitize e) True v)
      | _ \<Rightarrow> pretty_record_debug sy st w name (recorded_debug lib r) (recorded_ok lib r) v))"

definition pretty_finish :: "'s style_lib \<Rightarrow> 's \<Rightarrow> pretty_visitor \<Rightarrow> string \<times> bool" where
  "pretty_finish sy st v = (pv_text v @ sy_suffix sy st, pv_ok v)"

definition pretty_format_fields ::
  "'f fmt_lib \<Rightarrow> 's style_lib \<Rightarrow> fmt_writer \<Rightarrow> (string \<times> 'f recorded) list \<Rightarrow> string \<times> bool" where
  "pretty_format_fields lib sy w rs =
     pretty_finish sy (sy_new sy) (fold (pretty_record lib sy (sy_new sy) w) rs (pretty_visitor_new True))"

text \<open>\<open>add_fields\<close> appends to the text that is stored already.\<close>

definition pretty_add_fields ::
  "'f fmt_lib \<Rightarrow> 's style_lib \<Rightarrow> fmt_writer \<Rightarrow> string \<Rightarrow> (string \<times> 'f recorded) list \<Rightarrow> string \<times> bool" where
  "pretty_add_fields lib sy w stored rs =
     (let (text, ok) = pretty_finish sy (sy_new sy) (fold (pretty_record lib sy (sy_new sy) w) rs (pretty_visitor_new (stored = [])))
      in (stored @ text, ok))"

text \<open>\<open>PrettyFields\<close>, whose deprecated setting overrides the writer's.\<close>

definition pretty_fields_make ::
  "'f fmt_lib \<Rightarrow> 's style_lib \<Rightarrow> bool option \<Rightarrow> fmt_writer \<Rightarrow> (string \<times> 'f recorded) list \<Rightarrow> string \<times> bool" where
  "pretty_fields_make lib sy ansi w rs =
     pretty_format_fields lib sy (case ansi of Some b \<Rightarrow> writer_with_ansi b w | None \<Rightarrow> w) rs"

subsection \<open>Events\<close>

record pretty_format =
  pf_display_location :: bool
  pf_format :: format

definition format_pretty :: "format \<Rightarrow> pretty_format" where
  "format_pretty f = \<lparr>pf_display_location = True, pf_format = f\<lparr>fm_display_filename := True, fm_display_line_number := True\<rparr>\<rparr>"

definition pretty_with_source_location :: "bool \<Rightarrow> pretty_format \<Rightarrow> pretty_format" where
  "pretty_with_source_location b f = f\<lparr>pf_display_location := b\<rparr>"

definition pretty_head ::
  "'f fmt_env \<Rightarrow> 's style_lib \<Rightarrow> pretty_format \<Rightarrow> fmt_writer \<Rightarrow> 's \<Rightarrow> metadata \<Rightarrow> string" where
  "pretty_head en sy f w style meta =
     (let fm = pf_format f;
          line = (if fm_display_line_number fm then meta_line meta else None);
          target_style = (if wr_is_ansi w then sy_bold sy style else style)
      in ''  '' @ format_timestamp (en_ansi en) (en_timer en) fm w
         @ (if fm_display_level fm then fmt_level (en_ansi en) (wr_is_ansi w) (meta_level meta) @ '' '' else [])
         @ (if fm_display_target fm
            then sy_prefix sy target_style @ meta_target meta @ sy_infix sy target_style style @ '':'' else [])
         @ (case line of
              Some n \<Rightarrow>
                if \<not> fm_display_filename fm \<and> pf_display_location f
                then sy_prefix sy style @ show_nat n @ sy_infix sy style style @ '':'' else []
            | None \<Rightarrow> [])
         @ '' '')"

definition pretty_dimmed :: "'s style_lib \<Rightarrow> fmt_writer \<Rightarrow> 's" where
  "pretty_dimmed sy w = (if wr_is_ansi w then sy_italic sy (sy_dimmed sy (sy_new sy)) else sy_new sy)"

text \<open>\<open>{:?}\<close> of a \<open>ThreadId\<close>, without padding.\<close>

definition pretty_location ::
  "'f fmt_env \<Rightarrow> 's style_lib \<Rightarrow> pretty_format \<Rightarrow> fmt_writer \<Rightarrow> thread \<Rightarrow> metadata \<Rightarrow> string" where
  "pretty_location en sy f w t meta =
     (let fm = pf_format f; dimmed = pretty_dimmed sy w;
          line = (if fm_display_line_number fm then meta_line meta else None);
          in_thread = fm_display_thread_name fm \<or> fm_display_thread_id fm;
          at =
            (case meta_file meta of
               Some file \<Rightarrow>
                 if pf_display_location f \<and> fm_display_filename fm
                 then ''    '' @ style_paint sy dimmed ''at'' @ '' '' @ file
                   @ (case line of Some n \<Rightarrow> '':'' @ show_nat n | None \<Rightarrow> [])
                   @ (if in_thread then '' '' else [CHR 0x0A])
                 else if in_thread then ''    '' else []
             | None \<Rightarrow> if in_thread then ''    '' else [])
      in at
         @ (if in_thread then
              style_paint sy dimmed ''on'' @ '' ''
              @ (if fm_display_thread_name fm then
                   (case en_thread_name en t of
                      Some name \<Rightarrow> name @ (if fm_display_thread_id fm then '' '' else [])
                    | None \<Rightarrow> [])
                 else [])
              @ (if fm_display_thread_id fm then ''ThreadId('' @ show_nat t @ '')'' else [])
              @ [CHR 0x0A]
            else []))"

definition pretty_span :: "'s style_lib \<Rightarrow> pretty_format \<Rightarrow> type_id \<Rightarrow> fmt_writer \<Rightarrow> span_ref \<Rightarrow> string option" where
  "pretty_span sy f ff w sp =
     (let meta = dat_metadata (sr_data sp); dimmed = pretty_dimmed sy w;
          bold = (if wr_is_ansi w then sy_bold sy (sy_new sy) else sy_new sy)
      in case span_fields ff sp of
           None \<Rightarrow> None
         | Some flds \<Rightarrow> Some (''    '' @ style_paint sy dimmed ''in'' @ '' ''
             @ (if fm_display_target (pf_format f) then meta_target meta @ ''::'' else []) @ style_paint sy bold (meta_name meta)
             @ (if flds \<noteq> [] then '' '' @ style_paint sy dimmed ''with'' @ '' '' @ flds else []) @ [CHR 0x0A]))"

text \<open>\<open>event.parent()\<close> if it is there, and otherwise the current span.\<close>

definition pretty_scope :: "layer_context \<Rightarrow> thread \<Rightarrow> 'f event \<Rightarrow> registry \<Rightarrow> span_ref list option" where
  "pretty_scope cx t e r =
     (case (case Option.bind (parent_id (ev_parent e)) (\<lambda>i. cx_span cx i r) of
              Some sp \<Rightarrow> Some sp | None \<Rightarrow> lookup_current cx t r) of
        None \<Rightarrow> Some []
      | Some sp \<Rightarrow> sref_scope sp r)"

definition pretty_format_event ::
  "'f fmt_env \<Rightarrow> 'f fmt_lib \<Rightarrow> 's style_lib \<Rightarrow> pretty_format \<Rightarrow> fmt_writer \<Rightarrow> thread \<Rightarrow> layer_context \<Rightarrow> registry \<Rightarrow> 'f event \<Rightarrow>
   (string \<times> bool) option" where
  "pretty_format_event en lib sy f w0 t cx r e =
     (let meta = (case en_norm en e of Some m \<Rightarrow> m | None \<Rightarrow> ev_metadata e);
          w = (case fm_ansi (pf_format f) of Some b \<Rightarrow> writer_with_ansi b w0 | None \<Rightarrow> w0);
          style = (if fm_display_level (pf_format f) \<and> wr_is_ansi w then style_for sy (meta_level meta) else sy_new sy);
          head = pretty_head en sy f w style meta
      in case named_record (ev_fields e) of
           None \<Rightarrow> None
         | Some rs \<Rightarrow>
             (let (flds, ok) = pretty_finish sy style (fold (pretty_record lib sy style w) rs (pretty_visitor_new True)) in
              if \<not> ok then Some (head @ flds, False)
              else
                (case Option.bind (pretty_scope cx t e r) (\<lambda>spans. those (map (pretty_span sy f (en_ff en) w) spans)) of
                   None \<Rightarrow> None
                 | Some texts \<Rightarrow>
                     Some (head @ flds @ [CHR 0x0A] @ pretty_location en sy f w t meta @ concat texts @ [CHR 0x0A], True))))"

subsection \<open>Fields are joined\<close>

definition pretty_value :: "'f fmt_lib \<Rightarrow> 's style_lib \<Rightarrow> 's \<Rightarrow> fmt_writer \<Rightarrow> string \<Rightarrow> 'f recorded \<Rightarrow> string" where
  "pretty_value lib sy st w name r =
     (case r of
        RecStr s \<Rightarrow> if name = ''message'' then s else str_debug s
      | RecError e sources \<Rightarrow>
          escape_guard (wr_ansi_sanitization w) e @
          (if sources = [] then []
           else '', '' @ sy_prefix sy (pretty_bold sy st w) @ name @ ''.sources'' @ sy_infix sy (pretty_bold sy st w) st @ '': ''
             @ error_source_list (wr_ansi_sanitization w) sources)
      | _ \<Rightarrow> recorded_debug lib r)"

definition pretty_field :: "'f fmt_lib \<Rightarrow> 's style_lib \<Rightarrow> 's \<Rightarrow> fmt_writer \<Rightarrow> string \<times> 'f recorded \<Rightarrow> string" where
  "pretty_field lib sy st w = (\<lambda>(name, r).
     if name = ''message'' then sy_prefix sy st @ escape_guard (wr_ansi_sanitization w) (pretty_value lib sy st w name r)
     else sy_prefix sy (pretty_bold sy st w) @ (if starts_with name ''r#'' then drop 2 name else name)
       @ sy_infix sy (pretty_bold sy st w) st @ '': '' @ pretty_value lib sy st w name r)"

lemma pretty_record_step:
  "pretty_record lib sy st w x v =
    (if \<not> pv_ok v \<or> is_log_field x then v
     else \<lparr>pv_text = pv_text v @ (if pv_is_empty v then [] else '', '') @ pretty_field lib sy st w x,
           pv_is_empty = False, pv_ok = recorded_ok lib (snd x)\<rparr>)"
proof -
  obtain name r where x: "x = (name, r)" by (cases x)
  have "pretty_record lib sy st w x v = pretty_record_debug sy st w name (pretty_value lib sy st w name r) (recorded_ok lib r) v"
    unfolding x by (cases r) (simp_all add: pretty_record_def pretty_value_def recorded_ok_def Let_def pretty_record_debug_def)
  moreover have "\<not> starts_with ''message'' ''log.''" by (simp add: starts_with_def)
  ultimately show ?thesis
    unfolding x by (cases v) (auto simp: pretty_record_debug_def is_log_field_def write_padded_def pretty_field_def Let_def)
qed

lemma fold_pretty_record:
  assumes "pv_ok v"
  shows "fold (pretty_record lib sy st w) rs v =
    (let vis = filter (\<lambda>x. \<not> is_log_field x) rs; shown = upto_failure (\<lambda>x. recorded_ok lib (snd x)) vis in
     \<lparr>pv_text = pv_text v @ (if pv_is_empty v then join_with '', '' (map (pretty_field lib sy st w) shown)
        else concat (map (\<lambda>x. '', '' @ pretty_field lib sy st w x) shown)),
      pv_is_empty = (pv_is_empty v \<and> vis = []), pv_ok = list_all (\<lambda>x. recorded_ok lib (snd x)) vis\<rparr>)"
proof -
  have "fold (pretty_record lib sy st w) rs v = (case fold (sep_step '', '' (pretty_field lib sy st w) (\<lambda>x. recorded_ok lib (snd x)) is_log_field) rs
      (pv_text v, pv_is_empty v, pv_ok v) of (a, b, c) \<Rightarrow> \<lparr>pv_text = a, pv_is_empty = b, pv_ok = c\<rparr>)" for v
    by (induction rs arbitrary: v) (auto simp: pretty_record_step sep_step_def)
  then show ?thesis using assms by (simp add: fold_sep_step Let_def)
qed

lemma style_plain:
  assumes "style_lib_ok sy"
  shows "sy_prefix sy (sy_new sy) = []" "sy_suffix sy (sy_new sy) = []" "sy_infix sy st st = []" "style_paint sy (sy_new sy) s = s"
  using assms by (simp_all add: style_lib_ok_def style_paint_def)

lemma pretty_fields_join:
  assumes "style_lib_ok sy"
  shows "pretty_format_fields lib sy w rs =
    (let vis = filter (\<lambda>x. \<not> is_log_field x) rs; ok = (\<lambda>x. recorded_ok lib (snd x)) in
     (join_with '', '' (map (pretty_field lib sy (sy_new sy) w) (upto_failure ok vis)), list_all ok vis))"
  unfolding pretty_format_fields_def pretty_finish_def
  by (subst fold_pretty_record | simp add: pretty_visitor_new_def Let_def style_plain [OF assms])+

lemma upto_failure_append: "list_all ok xs \<Longrightarrow> upto_failure ok (xs @ ys) = xs @ upto_failure ok ys"
  by (induction xs) simp_all

lemma join_with_eq_Nil: "join_with sep xs = [] \<Longrightarrow> list_all (\<lambda>x. x \<noteq> []) xs \<Longrightarrow> xs = []"
  by (induction sep xs rule: join_with.induct) auto

text \<open>
  Fields that are recorded later join those that a span was created with, as if all had been there from the start.
  A message that is empty is the exception: it leaves no separator behind.
\<close>

theorem pretty_record_later:
  assumes ok: "style_lib_ok sy" and stored: "pretty_format_fields lib sy w rs = (stored, True)"
    and nonempty: "list_all (\<lambda>x. is_log_field x \<or> pretty_field lib sy (sy_new sy) w x \<noteq> []) rs"
  shows "pretty_add_fields lib sy w stored rs' = pretty_format_fields lib sy w (rs @ rs')"
proof -
  let ?f = "pretty_field lib sy (sy_new sy) w" and ?ok = "\<lambda>x :: string \<times> 'b recorded. recorded_ok lib (snd x)"
  let ?vis = "filter (\<lambda>x. \<not> is_log_field x) rs"
  have good: "list_all ?ok ?vis" and "stored = join_with '', '' (map ?f (upto_failure ?ok ?vis))"
    using stored by (simp_all add: pretty_fields_join [OF ok] Let_def)
  moreover from good have "upto_failure ?ok ?vis = ?vis" using upto_failure_append [of ?ok ?vis "[]"] by simp
  ultimately have stored_text: "stored = join_with '', '' (map ?f ?vis)" by simp
  have "list_all (\<lambda>x. x \<noteq> []) (map ?f ?vis)" using nonempty by (auto simp: list_all_iff)
  from join_with_eq_Nil [OF _ this] stored_text have fresh: "stored = [] \<longleftrightarrow> ?vis = []" by auto
  show ?thesis
    using good fresh stored_text join_with_append [of "map ?f ?vis"]
    by (cases "?vis = []") (simp_all add: pretty_add_fields_def pretty_finish_def fold_pretty_record pretty_visitor_new_def
        pretty_fields_join [OF ok] Let_def style_plain [OF ok] upto_failure_append comp_def)
qed

subsection \<open>Lines\<close>

text \<open>The lines of an event when there are no colours: each span has one, without the newline.\<close>

definition plain_span_line :: "pretty_format \<Rightarrow> type_id \<Rightarrow> span_ref \<Rightarrow> string" where
  "plain_span_line f ff sp =
     ''    in '' @ (if fm_display_target (pf_format f) then meta_target (dat_metadata (sr_data sp)) @ ''::'' else []) @ sref_name sp
     @ (case span_fields ff sp of Some flds \<Rightarrow> if flds \<noteq> [] then '' with '' @ flds else [] | None \<Rightarrow> [])"

definition ends_lines :: "string list \<Rightarrow> string" where
  "ends_lines ls = concat (map (\<lambda>l. l @ [CHR 0x0A]) ls)"

definition spans_printable :: "(char \<Rightarrow> bool) \<Rightarrow> type_id \<Rightarrow> registry \<Rightarrow> bool" where
  "spans_printable P ff r \<longleftrightarrow>
     (\<forall>i d. registry_get i r = Some d \<longrightarrow> list_all P (meta_target (dat_metadata d)) \<and> ext_get ff (dat_extensions d) \<noteq> None)"

lemma ascii_chars: "ascii_ok P \<Longrightarrow> list_all (\<lambda>c. (32 :: nat) \<le> of_char c \<and> of_char c \<le> (126 :: nat)) s \<Longrightarrow> list_all P s"
  by (auto simp: ascii_ok_def list_all_iff)

lemma pretty_scope_returns:
  assumes "pool_ok r"
  shows "\<exists>ss. pretty_scope cx t e r = Some ss \<and> (\<forall>a \<in> set ss. registry_get (sr_id a) r = Some (sr_data a))"
  unfolding pretty_scope_def using sref_scope_returns [OF assms]
  by (cases "case Option.bind (parent_id (ev_parent e)) (\<lambda>i. cx_span cx i r) of
              Some sp \<Rightarrow> Some sp | None \<Rightarrow> lookup_current cx t r") auto

lemma pretty_span_line:
  assumes "style_lib_ok sy" and "\<not> wr_is_ansi w" and "span_fields ff sp \<noteq> None"
  shows "pretty_span sy f ff w sp = Some (plain_span_line f ff sp @ [CHR 0x0A])"
  using assms(2,3) style_plain [OF assms(1)] by (auto simp: pretty_span_def pretty_dimmed_def plain_span_line_def Let_def)

lemma plain_span_line_chars:
  assumes "ascii_ok P" and "list_all P (sref_name sp)" "list_all P (meta_target (dat_metadata (sr_data sp)))"
    and "\<And>flds. span_fields ff sp = Some flds \<Longrightarrow> list_all P flds"
  shows "list_all P (plain_span_line f ff sp)"
proof -
  have "list_all P ''    in ''" "list_all P ''::''" "list_all P '' with ''" by (intro ascii_chars [OF assms(1)]; simp)+
  then show ?thesis using assms(2-4) by (auto simp: plain_span_line_def split: option.split)
qed

text \<open>Where the event comes from takes no line or one.\<close>

lemma pretty_location_line:
  assumes "style_lib_ok sy" and "\<not> wr_is_ansi w" and "ascii_ok P" and "\<And>file. meta_file meta = Some file \<Longrightarrow> list_all P file"
    and "\<And>n. en_thread_name en t = Some n \<Longrightarrow> list_all P n"
  shows "\<exists>ls. pretty_location en sy f w t meta = ends_lines ls \<and> length ls \<le> 1 \<and> list_all (list_all P) ls"
proof -
  let ?l = "pretty_location en sy f w t meta"
  have "list_all P ''    ''" "list_all P ''at''" "list_all P ''on''" "list_all P ''ThreadId(''" "list_all P '')''"
    by (rule ascii_chars [OF assms(3)], simp)+
  moreover note ascii_texts [OF assms(3)]
  ultimately have texts: "list_all P ''    ''" "list_all P ''at''" "list_all P ''on''" "list_all P ''ThreadId(''" "P (CHR '')'')"
    "P (CHR '':'')" "P (CHR '' '')" "list_all P (show_nat n)" for n by simp_all
  have "?l = [] \<or> (\<exists>l. ?l = l @ [CHR 0x0A] \<and> list_all P l)"
    using texts assms(2,4,5) style_plain [OF assms(1)]
    by (auto simp: pretty_location_def pretty_dimmed_def Let_def split: option.split)
  then show ?thesis
  proof
    assume "?l = []"
    then show ?thesis by (intro exI [of _ "[]"]) (simp add: ends_lines_def)
  next
    assume "\<exists>l. ?l = l @ [CHR 0x0A] \<and> list_all P l"
    then obtain l where "?l = l @ [CHR 0x0A]" "list_all P l" by blast
    then show ?thesis by (intro exI [of _ "[l]"]) (simp add: ends_lines_def)
  qed
qed

lemma pretty_head_chars:
  assumes "style_lib_ok sy" and "\<not> wr_is_ansi w" and "ascii_ok P" and "list_all P (fst (en_timer en))" and "list_all P (meta_target meta)"
  shows "list_all P (pretty_head en sy f w (sy_new sy) meta)"
  using ascii_texts [OF assms(3)] assms(2,4,5) style_plain [OF assms(1)]
  by (auto simp: pretty_head_def format_timestamp_def fmt_level_def Let_def split: option.split)

text \<open>
  Without colours a pretty event is, in this order: a line with its fields, at most one line that says where it comes
  from, a line for each span it is in, the innermost first, and an empty line. If the texts that it is made of have no
  newline, neither has any of these lines, so that the lines of an event cannot be taken for those of another.
\<close>

theorem pretty_event_lines:
  fixes f :: pretty_format and w :: fmt_writer
  defines "w' \<equiv> effective_writer (pf_format f) w"
  assumes sy: "style_lib_ok sy" and plain: "\<not> wr_is_ansi w'" and ascii: "ascii_ok P" and inputs: "inputs_ok P en t r e"
    and pool: "pool_ok r" and spans_ok: "spans_printable P (en_ff en) r" and rs: "named_record (ev_fields e) = Some rs"
    and flds: "list_all (\<lambda>x. is_log_field x \<or> recorded_ok lib (snd x) \<and> list_all P (pretty_field lib sy (sy_new sy) w' x)) rs"
  shows "\<exists>first loc spans. pretty_scope cx t e r = Some spans \<and>
    pretty_format_event en lib sy f w t cx r e =
      Some (ends_lines (first # loc @ map (plain_span_line f (en_ff en)) spans @ [[]]), True) \<and>
    length loc \<le> 1 \<and> list_all (list_all P) (first # loc @ map (plain_span_line f (en_ff en)) spans)"
proof -
  let ?meta = "case en_norm en e of Some m \<Rightarrow> m | None \<Rightarrow> ev_metadata e"
  let ?vis = "filter (\<lambda>x. \<not> is_log_field x) rs" and ?ok = "\<lambda>x. recorded_ok lib (snd x)"
  obtain spans where spans: "pretty_scope cx t e r = Some spans" "\<forall>a \<in> set spans. registry_get (sr_id a) r = Some (sr_data a)"
    using pretty_scope_returns [OF pool] by blast
  have stored: "span_fields (en_ff en) a \<noteq> None" and line: "list_all P (plain_span_line f (en_ff en) a)" if "a \<in> set spans" for a
  proof -
    from that spans(2) have get: "registry_get (sr_id a) r = Some (sr_data a)" by blast
    then show "span_fields (en_ff en) a \<noteq> None" using spans_ok by (auto simp: spans_printable_def span_fields_def)
    show "list_all P (plain_span_line f (en_ff en) a)"
      using get spans_ok inputs by (intro plain_span_line_chars [OF ascii]) (auto simp: spans_printable_def inputs_ok_def span_fields_def)
  qed
  have "map (pretty_span sy f (en_ff en) w') spans = map (\<lambda>sp. Some (plain_span_line f (en_ff en) sp @ [CHR 0x0A])) spans"
    using pretty_span_line [OF sy plain stored] by simp
  then have texts: "those (map (pretty_span sy f (en_ff en) w') spans) = Some (map (\<lambda>sp. plain_span_line f (en_ff en) sp @ [CHR 0x0A]) spans)"
    by (simp only:) (induction spans, simp_all)
  have meta: "list_all P (meta_target ?meta)" "\<And>file. meta_file ?meta = Some file \<Longrightarrow> list_all P file"
    using inputs by (auto simp: inputs_ok_def split: option.splits)
  obtain loc where loc: "pretty_location en sy f w' t ?meta = ends_lines loc" "length loc \<le> 1" "list_all (list_all P) loc"
    using pretty_location_line [OF sy plain ascii, where en = en and t = t and f = f and meta = ?meta] meta(2) inputs by (auto simp: inputs_ok_def)
  let ?head = "pretty_head en sy f w' (sy_new sy) ?meta"
  let ?first = "?head @ join_with '', '' (map (pretty_field lib sy (sy_new sy) w') ?vis)"
  have good: "list_all ?ok ?vis" using flds by (auto simp: list_all_iff)
  then have shown: "upto_failure ?ok ?vis = ?vis" using upto_failure_append [of ?ok ?vis "[]"] by simp
  have "list_all P '', ''" by (intro ascii_chars [OF ascii]) simp
  then have "list_all P (join_with '', '' (map (pretty_field lib sy (sy_new sy) w') ?vis))"
    by (rule list_all_join) (use flds in \<open>auto simp: list_all_iff\<close>)
  moreover have "list_all P ?head" using inputs meta(1) by (intro pretty_head_chars [OF sy plain ascii]) (simp_all add: inputs_ok_def)
  ultimately have first: "list_all P ?first" by simp
  have "pretty_format_event en lib sy f w t cx r e =
      Some (ends_lines (?first # loc @ map (plain_span_line f (en_ff en)) spans @ [[]]), True)"
    using texts loc(1) plain good unfolding pretty_format_event_def effective_writer_def [symmetric] w'_def [symmetric] Let_def rs spans(1)
    by (simp add: pretty_finish_def fold_pretty_record pretty_visitor_new_def Let_def shown style_plain [OF sy] ends_lines_def comp_def)
  moreover have "list_all (list_all P) (map (plain_span_line f (en_ff en)) spans)" using line by (simp add: list_all_iff)
  ultimately show ?thesis using spans(1) loc(2,3) first
    by (intro exI [of _ ?first] exI [of _ loc] exI [of _ spans]) simp
qed

text \<open>
  A span whose fields were not stored, because formatting one of them failed when the span was created or because
  the layer was put in place later, makes every event inside of it panic; the other formats leave such fields out.
\<close>

theorem pretty_missing_fields:
  assumes "named_record (ev_fields e) = Some []" and "pretty_scope cx t e r = Some (sp # spans)" and "span_fields (en_ff en) sp = None"
  shows "pretty_format_event en lib sy f w t cx r e = None"
  using assms by (simp add: pretty_format_event_def Let_def pretty_finish_def pretty_visitor_new_def pretty_span_def)

text \<open>An event that is declared to have no parent is nevertheless shown in the spans that the thread is in.\<close>

theorem pretty_root_event:
  assumes "ev_parent e = Root" and "lookup_current cx t r = Some sp"
  shows "pretty_scope cx t e r = sref_scope sp r" "event_scope cx t e r = None"
  using assms by (simp_all add: pretty_scope_def event_scope_def event_span_def parent_is_root_def parent_id_def)

subsection \<open>Witnesses\<close>

definition demo_styles :: "string list style_lib" where
  "demo_styles = \<lparr>sy_new = [], sy_fg = (\<lambda>_. [''32'']), sy_bold = (\<lambda>s. ''1'' # s), sy_dimmed = (\<lambda>s. ''2'' # s), sy_italic = (\<lambda>s. ''3'' # s),
     sy_prefix = (\<lambda>s. if s = [] then [] else [CHR 0x1B] @ ''['' @ join_with '';'' s @ ''m''),
     sy_infix = (\<lambda>a b. if a = b then [] else [CHR 0x1B] @ ''[0m''), sy_suffix = (\<lambda>s. if s = [] then [] else [CHR 0x1B] @ ''[0m'')\<rparr>"

lemma demo_styles_ok: "style_lib_ok demo_styles"
  by (simp add: style_lib_ok_def demo_styles_def)

theorem pretty_record_later_witness:
  "pretty_add_fields demo_lib demo_styles writer_new ''a: 1'' [(''b'', RecBool True)] =
   pretty_format_fields demo_lib demo_styles writer_new [(''a'', RecU64 1), (''b'', RecBool True)]"
proof -
  have "show_nat 1 = ''1''" by code_simp
  then have "pretty_format_fields demo_lib demo_styles writer_new [(''a'', RecU64 1)] = (''a: 1'', True)"
    unfolding pretty_fields_join [OF demo_styles_ok]
    by (simp add: Let_def pretty_field_def pretty_value_def recorded_debug_def recorded_ok_def
        is_log_field_def starts_with_def pretty_bold_def demo_styles_def writer_new_def)
  from pretty_record_later [OF demo_styles_ok this] show ?thesis
    by (simp add: pretty_field_def)
qed

theorem pretty_event_lines_witness:
  "\<exists>first loc spans. pretty_scope context_new 5 demo_msg_event registry_default = Some spans \<and>
    pretty_format_event demo_env demo_lib demo_styles (format_pretty format_default) writer_new 5 context_new registry_default demo_msg_event =
      Some (ends_lines (first # loc @ map (plain_span_line (format_pretty format_default) (en_ff demo_env)) spans @ [[]]), True) \<and>
    length loc \<le> 1 \<and>
    list_all (list_all (\<lambda>c. c \<noteq> CHR 0x0A)) (first # loc @ map (plain_span_line (format_pretty format_default) (en_ff demo_env)) spans)"
proof (rule pretty_event_lines [OF demo_styles_ok _ _ _ _ _ demo_named])
  show "ascii_ok (\<lambda>c. c \<noteq> CHR 0x0A)" by (auto simp: ascii_ok_def)
  show "inputs_ok (\<lambda>c. c \<noteq> CHR 0x0A) demo_env 5 registry_default demo_msg_event"
    by (auto simp: inputs_ok_def demo_env_def demo_msg_event_def event_new_def demo_meta_def registry_default_def registry_get_def)
  have "escape_guard True ([CHR 0x1B] @ ''[2J'') = [CHR 0x5C] @ ''x1b[2J''" "str_debug [CHR 0x07] = ''\"'' @ [CHR 0x5C] @ ''u{7}\"''"
    by code_simp+
  then show "list_all (\<lambda>x. is_log_field x \<or> recorded_ok demo_lib (snd x) \<and> list_all (\<lambda>c. c \<noteq> CHR 0x0A)
      (pretty_field demo_lib demo_styles (sy_new demo_styles) (effective_writer (pf_format (format_pretty format_default)) writer_new) x))
      [(''message'', RecDebug ([CHR 0x1B] @ ''[2J'')), (''user'', RecStr [CHR 0x07])]"
    by (simp add: recorded_ok_def demo_lib_def pretty_field_def pretty_value_def recorded_debug_def starts_with_def pretty_bold_def
        demo_styles_def effective_writer_def format_pretty_def format_default_def writer_new_def)
qed (simp_all add: writer_new_def effective_writer_def format_pretty_def format_default_def pool_ok_def registry_default_def
    spans_printable_def registry_get_def)

end
