(* ===== verification/Mock_Expect.thy ===== *)
theory Mock_Expect
  imports Fmt_Format
begin

text \<open>
  Expectations of tests: \<open>expect.rs\<close>, \<open>metadata.rs\<close>, \<open>field.rs\<close>, \<open>span.rs\<close>, \<open>event.rs\<close> and \<open>ancestry.rs\<close>
  of \<open>tracing-mock\<close>.

  A check that panics when it fails is a predicate. An \<open>ExpectedId\<close> is shared between the expectations that
  mention it: it is an address, and \<open>ids\<close> is what is stored there. Floating point equality is a parameter.
\<close>

subsection \<open>Metadata\<close>

record expected_metadata =
  xm_name :: "string option"
  xm_level :: "level option"
  xm_target :: "string option"

definition no_metadata :: expected_metadata where
  "no_metadata = \<lparr>xm_name = None, xm_level = None, xm_target = None\<rparr>"

definition metadata_check :: "expected_metadata \<Rightarrow> metadata \<Rightarrow> bool" where
  "metadata_check x actual \<longleftrightarrow>
     (case xm_name x of Some n \<Rightarrow> n = meta_name actual | None \<Rightarrow> True) \<and>
     (case xm_level x of Some l \<Rightarrow> l = meta_level actual | None \<Rightarrow> True) \<and>
     (case xm_target x of Some t \<Rightarrow> t = meta_target actual | None \<Rightarrow> True)"

definition has_expectations :: "expected_metadata \<Rightarrow> bool" where
  "has_expectations x \<longleftrightarrow> xm_name x \<noteq> None \<or> xm_level x \<noteq> None \<or> xm_target x \<noteq> None"

subsection \<open>Fields\<close>

datatype 'f expected_value =
    ExpectF64 'f | ExpectI64 "64 word" | ExpectU64 "64 word" | ExpectBool bool | ExpectStr string | ExpectDebug string | ExpectAny

fun expected_value_eq :: "('f \<Rightarrow> 'f \<Rightarrow> bool) \<Rightarrow> 'f expected_value \<Rightarrow> 'f expected_value \<Rightarrow> bool" where
  "expected_value_eq feq (ExpectF64 a) (ExpectF64 b) = feq a b"
| "expected_value_eq feq (ExpectI64 a) (ExpectI64 b) = (a = b)"
| "expected_value_eq feq (ExpectU64 a) (ExpectU64 b) = (a = b)"
| "expected_value_eq feq (ExpectBool a) (ExpectBool b) = (a = b)"
| "expected_value_eq feq (ExpectStr a) (ExpectStr b) = (a = b)"
| "expected_value_eq feq (ExpectDebug a) (ExpectDebug b) = (a = b)"
| "expected_value_eq feq ExpectAny _ = True"
| "expected_value_eq feq _ ExpectAny = True"
| "expected_value_eq feq _ _ = False"

record 'f mock_lib =
  ml_fmt :: "'f fmt_lib"
  ml_f64_eq :: "'f \<Rightarrow> 'f \<Rightarrow> bool"

text \<open>What \<open>MockValueBuilder\<close> makes of a recorded value: the types it does not override are recorded with \<open>Debug\<close>.\<close>

definition expected_of_recorded :: "'f mock_lib \<Rightarrow> 'f recorded \<Rightarrow> 'f expected_value" where
  "expected_of_recorded ml r =
     (case r of
        RecF64 x \<Rightarrow> ExpectF64 x
      | RecI64 i \<Rightarrow> ExpectI64 i
      | RecU64 u \<Rightarrow> ExpectU64 u
      | RecBool b \<Rightarrow> ExpectBool b
      | RecStr s \<Rightarrow> ExpectStr s
      | _ \<Rightarrow> ExpectDebug (recorded_debug (ml_fmt ml) r))"

definition expected_value_from :: "'f mock_lib \<Rightarrow> 'f tvalue \<Rightarrow> 'f expected_value option" where
  "expected_value_from ml v = map_option (expected_of_recorded ml) (record_value v)"

record 'f expected_fields =
  xf_fields :: "string \<rightharpoonup> 'f expected_value"
  xf_only :: bool

definition no_fields :: "'f expected_fields" where
  "no_fields = \<lparr>xf_fields = Map.empty, xf_only = False\<rparr>"

definition fields_and :: "string \<Rightarrow> 'f expected_value \<Rightarrow> 'f expected_fields \<Rightarrow> 'f expected_fields" where
  "fields_and name v x = x\<lparr>xf_fields := (xf_fields x)(name \<mapsto> v)\<rparr>"

definition fields_only :: "'f expected_fields \<Rightarrow> 'f expected_fields" where
  "fields_only x = x\<lparr>xf_only := True\<rparr>"

text \<open>The checker removes a field from the expected ones when it is recorded; \<open>None\<close> is a panic.\<close>

definition compare_or_panic :: "'f mock_lib \<Rightarrow> string \<times> 'f recorded \<Rightarrow> 'f expected_fields \<Rightarrow> 'f expected_fields option" where
  "compare_or_panic ml = (\<lambda>(name, r) x.
     (let rest = x\<lparr>xf_fields := (xf_fields x)(name := None)\<rparr> in
      case xf_fields x name of
        Some v \<Rightarrow>
          (case v of
             ExpectAny \<Rightarrow> Some rest
           | _ \<Rightarrow> if expected_value_eq (ml_f64_eq ml) v (expected_of_recorded ml r) then Some rest else None)
      | None \<Rightarrow> if xf_only x then None else Some x))"

fun compare_all :: "'f mock_lib \<Rightarrow> (string \<times> 'f recorded) list \<Rightarrow> 'f expected_fields \<Rightarrow> 'f expected_fields option" where
  "compare_all ml [] x = Some x"
| "compare_all ml (r # rs) x = Option.bind (compare_or_panic ml r x) (compare_all ml rs)"

definition checker_finish :: "'f expected_fields \<Rightarrow> bool" where
  "checker_finish x \<longleftrightarrow> dom (xf_fields x) = {}"

definition fields_check :: "'f mock_lib \<Rightarrow> 'f expected_fields \<Rightarrow> 'f value_set \<Rightarrow> bool" where
  "fields_check ml x vs \<longleftrightarrow>
     (case Option.bind (named_record vs) (\<lambda>rs. compare_all ml rs x) of Some x1 \<Rightarrow> checker_finish x1 | None \<Rightarrow> False)"

subsection \<open>Spans\<close>

type_synonym expected_id = nat

type_synonym id_cells = "expected_id \<Rightarrow> u64"

definition UNSET :: u64 where "UNSET = 0"

text \<open>\<open>ExpectedId::set\<close> is a compare-and-exchange; \<open>None\<close> is the panic of \<open>unwrap\<close> on its error.\<close>

definition expected_id_set :: "expected_id \<Rightarrow> u64 \<Rightarrow> id_cells \<Rightarrow> id_cells option" where
  "expected_id_set x i ids = (if ids x = UNSET then Some (ids(x := i)) else None)"

definition expected_id_check :: "id_cells \<Rightarrow> expected_id \<Rightarrow> span_id \<Rightarrow> bool" where
  "expected_id_check ids x actual \<longleftrightarrow> ids x \<noteq> UNSET \<and> ids x = id_into_u64 actual"

record expected_span =
  xs_id :: "expected_id option"
  xs_metadata :: expected_metadata

definition any_span :: expected_span where
  "any_span = \<lparr>xs_id = None, xs_metadata = no_metadata\<rparr>"

definition span_named :: "string \<Rightarrow> expected_span \<Rightarrow> expected_span" where
  "span_named name x = x\<lparr>xs_metadata := (xs_metadata x)\<lparr>xm_name := Some name\<rparr>\<rparr>"

definition span_with_id :: "expected_id \<Rightarrow> expected_span \<Rightarrow> expected_span" where
  "span_with_id i x = x\<lparr>xs_id := Some i\<rparr>"

definition span_at_level :: "level \<Rightarrow> expected_span \<Rightarrow> expected_span" where
  "span_at_level l x = x\<lparr>xs_metadata := (xs_metadata x)\<lparr>xm_level := Some l\<rparr>\<rparr>"

definition span_with_target :: "string \<Rightarrow> expected_span \<Rightarrow> expected_span" where
  "span_with_target t x = x\<lparr>xs_metadata := (xs_metadata x)\<lparr>xm_target := Some t\<rparr>\<rparr>"

record actual_span =
  ac_id :: span_id
  ac_metadata :: "metadata option"

definition expected_span_check :: "id_cells \<Rightarrow> expected_span \<Rightarrow> actual_span \<Rightarrow> bool" where
  "expected_span_check ids x actual \<longleftrightarrow>
     (case xs_id x of Some i \<Rightarrow> expected_id_check ids i (ac_id actual) | None \<Rightarrow> True) \<and>
     (case ac_metadata actual of
        Some m \<Rightarrow> metadata_check (xs_metadata x) m
      | None \<Rightarrow> \<not> has_expectations (xs_metadata x))"

subsection \<open>Ancestry\<close>

datatype 's ancestry = HasExplicitParent 's | IsExplicitRoot | HasContextualParent 's | IsContextualRoot

fun ancestry_check :: "id_cells \<Rightarrow> expected_span ancestry \<Rightarrow> actual_span ancestry \<Rightarrow> bool" where
  "ancestry_check ids IsExplicitRoot IsExplicitRoot = True"
| "ancestry_check ids IsContextualRoot IsContextualRoot = True"
| "ancestry_check ids (HasExplicitParent x) (HasExplicitParent p) = expected_span_check ids x p"
| "ancestry_check ids (HasContextualParent x) (HasContextualParent p) = expected_span_check ids x p"
| "ancestry_check ids _ _ = False"

definition get_ancestry :: "parent \<Rightarrow> span_id option \<Rightarrow> (span_id \<Rightarrow> actual_span option) \<Rightarrow> actual_span ancestry option" where
  "get_ancestry p curr_id actual =
     (if parent_is_contextual p then
        (case curr_id of
           Some i \<Rightarrow> map_option HasContextualParent (actual i)
         | None \<Rightarrow> Some IsContextualRoot)
      else if parent_is_root p then Some IsExplicitRoot
      else
        (case parent_id p of
           Some i \<Rightarrow> map_option HasExplicitParent (actual i)
         | None \<Rightarrow> None))"

text \<open>The ancestry is looked up only if something is expected of it.\<close>

definition ancestry_expected :: "id_cells \<Rightarrow> expected_span ancestry option \<Rightarrow> actual_span ancestry option \<Rightarrow> bool" where
  "ancestry_expected ids x actual \<longleftrightarrow>
     (case x of
        None \<Rightarrow> True
      | Some a \<Rightarrow> (case actual of Some b \<Rightarrow> ancestry_check ids a b | None \<Rightarrow> False))"

subsection \<open>New spans and events\<close>

record 'f new_span =
  xn_span :: expected_span
  xn_fields :: "'f expected_fields"
  xn_ancestry :: "expected_span ancestry option"

definition new_span_from :: "expected_span \<Rightarrow> 'f new_span" where
  "new_span_from x = \<lparr>xn_span = x, xn_fields = no_fields, xn_ancestry = None\<rparr>"

definition new_span_with_ancestry :: "expected_span ancestry \<Rightarrow> 'f new_span \<Rightarrow> 'f new_span" where
  "new_span_with_ancestry a x = x\<lparr>xn_ancestry := Some a\<rparr>"

definition new_span_with_fields :: "'f expected_fields \<Rightarrow> 'f new_span \<Rightarrow> 'f new_span" where
  "new_span_with_fields flds x = x\<lparr>xn_fields := flds\<rparr>"

definition new_span_check ::
  "'f mock_lib \<Rightarrow> id_cells \<Rightarrow> 'f new_span \<Rightarrow> 'f attributes \<Rightarrow> actual_span ancestry option \<Rightarrow> bool" where
  "new_span_check ml ids x attrs anc \<longleftrightarrow>
     metadata_check (xs_metadata (xn_span x)) (attr_metadata attrs) \<and>
     fields_check ml (xn_fields x) (attr_values attrs) \<and>
     ancestry_expected ids (xn_ancestry x) anc"

record 'f expected_event =
  xe_fields :: "'f expected_fields option"
  xe_ancestry :: "expected_span ancestry option"
  xe_in_spans :: "expected_span list option"
  xe_metadata :: expected_metadata

definition any_event :: "'f expected_event" where
  "any_event = \<lparr>xe_fields = None, xe_ancestry = None, xe_in_spans = None, xe_metadata = no_metadata\<rparr>"

definition event_named :: "string \<Rightarrow> 'f expected_event \<Rightarrow> 'f expected_event" where
  "event_named name x = x\<lparr>xe_metadata := (xe_metadata x)\<lparr>xm_name := Some name\<rparr>\<rparr>"

definition event_with_fields :: "'f expected_fields \<Rightarrow> 'f expected_event \<Rightarrow> 'f expected_event" where
  "event_with_fields flds x = x\<lparr>xe_fields := Some flds\<rparr>"

definition event_at_level :: "level \<Rightarrow> 'f expected_event \<Rightarrow> 'f expected_event" where
  "event_at_level l x = x\<lparr>xe_metadata := (xe_metadata x)\<lparr>xm_level := Some l\<rparr>\<rparr>"

definition event_with_target :: "string \<Rightarrow> 'f expected_event \<Rightarrow> 'f expected_event" where
  "event_with_target t x = x\<lparr>xe_metadata := (xe_metadata x)\<lparr>xm_target := Some t\<rparr>\<rparr>"

definition event_with_ancestry :: "expected_span ancestry \<Rightarrow> 'f expected_event \<Rightarrow> 'f expected_event" where
  "event_with_ancestry a x = x\<lparr>xe_ancestry := Some a\<rparr>"

definition event_in_scope :: "expected_span list \<Rightarrow> 'f expected_event \<Rightarrow> 'f expected_event" where
  "event_in_scope spans x = x\<lparr>xe_in_spans := Some spans\<rparr>"

definition event_check ::
  "'f mock_lib \<Rightarrow> id_cells \<Rightarrow> 'f expected_event \<Rightarrow> 'f event \<Rightarrow> actual_span ancestry option \<Rightarrow> bool" where
  "event_check ml ids x e anc \<longleftrightarrow>
     metadata_check (xe_metadata x) (ev_metadata e) \<and>
     meta_is_event (ev_metadata e) \<and>
     (case xe_fields x of Some flds \<Rightarrow> fields_check ml flds (ev_fields e) | None \<Rightarrow> True) \<and>
     ancestry_expected ids (xe_ancestry x) anc"

datatype 'f expect =
    ExpectEvent "'f expected_event" | ExpectFollowsFrom expected_span expected_span | ExpectEnter expected_span
  | ExpectExit expected_span | ExpectCloneSpan expected_span | ExpectDropSpan expected_span
  | ExpectVisit expected_span "'f expected_fields" | ExpectNewSpan "'f new_span" | ExpectOnRegisterDispatch | ExpectNothing

definition is_nothing :: "'f expect \<Rightarrow> bool" where
  "is_nothing x \<longleftrightarrow> (case x of ExpectNothing \<Rightarrow> True | _ \<Rightarrow> False)"

text \<open>\<open>MockHandle::assert_finished\<close>, when no thread has panicked with the queue locked.\<close>

definition assert_finished :: "'f expect list \<Rightarrow> bool" where
  "assert_finished xs \<longleftrightarrow> \<not> list_ex (\<lambda>x. \<not> is_nothing x) xs"

subsection \<open>What a check of fields decides\<close>

definition value_meets :: "'f mock_lib \<Rightarrow> 'f expected_value \<Rightarrow> 'f recorded \<Rightarrow> bool" where
  "value_meets ml v r \<longleftrightarrow> v = ExpectAny \<or> expected_value_eq (ml_f64_eq ml) v (expected_of_recorded ml r)"

definition fields_meet :: "'f mock_lib \<Rightarrow> 'f expected_fields \<Rightarrow> (string \<times> 'f recorded) list \<Rightarrow> bool" where
  "fields_meet ml x rs \<longleftrightarrow>
     (\<forall>name v. xf_fields x name = Some v \<longrightarrow> (\<exists>r. (name, r) \<in> set rs \<and> value_meets ml v r)) \<and>
     (xf_only x \<longrightarrow> fst ` set rs \<subseteq> dom (xf_fields x))"

lemma compare_or_panic_iff:
  "compare_or_panic ml (name, r) x =
     (case xf_fields x name of
        Some v \<Rightarrow> if value_meets ml v r then Some (x\<lparr>xf_fields := (xf_fields x)(name := None)\<rparr>) else None
      | None \<Rightarrow> if xf_only x then None else Some x)"
  by (simp add: compare_or_panic_def value_meets_def Let_def split: option.split expected_value.split)

lemma fields_meet_Cons:
  assumes "name \<notin> fst ` set rs"
  shows "fields_meet ml x ((name, r) # rs) \<longleftrightarrow>
    (case xf_fields x name of
       Some v \<Rightarrow> value_meets ml v r \<and> fields_meet ml (x\<lparr>xf_fields := (xf_fields x)(name := None)\<rparr>) rs
     | None \<Rightarrow> \<not> xf_only x \<and> fields_meet ml x rs)"
proof (cases "xf_fields x name")
  case None
  then have "(\<exists>r'. (n, r') \<in> set ((name, r) # rs) \<and> value_meets ml v r') \<longleftrightarrow> (\<exists>r'. (n, r') \<in> set rs \<and> value_meets ml v r')"
    if "xf_fields x n = Some v" for n v using that by auto
  with None show ?thesis by (auto simp: fields_meet_def)
next
  case (Some v)
  let ?x = "x\<lparr>xf_fields := (xf_fields x)(name := None)\<rparr>"
  have fresh: "(name, r') \<notin> set rs" for r' using assms by force
  have "(\<exists>r'. (n, r') \<in> set ((name, r) # rs) \<and> value_meets ml v' r') \<longleftrightarrow>
      (if n = name then value_meets ml v' r else \<exists>r'. (n, r') \<in> set rs \<and> value_meets ml v' r')" for n v'
    using fresh by auto
  then have "(\<forall>n v'. xf_fields x n = Some v' \<longrightarrow> (\<exists>r'. (n, r') \<in> set ((name, r) # rs) \<and> value_meets ml v' r')) \<longleftrightarrow>
      value_meets ml v r \<and> (\<forall>n v'. xf_fields ?x n = Some v' \<longrightarrow> (\<exists>r'. (n, r') \<in> set rs \<and> value_meets ml v' r'))"
    using Some by simp metis
  moreover have "fst ` set ((name, r) # rs) \<subseteq> dom (xf_fields x) \<longleftrightarrow> fst ` set rs \<subseteq> dom (xf_fields ?x)"
    using Some assms by auto
  ultimately show ?thesis using Some by (simp only: fields_meet_def) simp
qed

text \<open>
  Checking fields one after the other, with those that were met removed from the table, decides whether each expected
  field is recorded with its value and, if nothing else is expected, whether nothing else is recorded. The fields that a
  callsite records have different names.
\<close>

theorem fields_check_meets:
  assumes "named_record vs = Some rs" and "distinct (map fst rs)"
  shows "fields_check ml x vs \<longleftrightarrow> fields_meet ml x rs"
proof -
  have "(case compare_all ml rs x of Some x1 \<Rightarrow> checker_finish x1 | None \<Rightarrow> False) \<longleftrightarrow> fields_meet ml x rs"
    using assms(2)
  proof (induction rs arbitrary: x)
    case Nil
    then show ?case by (auto simp: fields_meet_def checker_finish_def dom_def)
  next
    case (Cons y rs)
    obtain name r where y: "y = (name, r)" by (cases y)
    then show ?case using Cons by (auto simp: compare_or_panic_iff fields_meet_Cons split: option.split)
  qed
  then show ?thesis using assms(1) by (simp add: fields_check_def)
qed

end
