(* ===== verification/Mock_Subscriber.thy ===== *)
theory Mock_Subscriber
  imports Mock_Expect "HOL-Library.Sublist"
begin

text \<open>
  The mock subscriber: \<open>tracing-mock/src/subscriber.rs\<close>.

  It compares what happens with a queue of expectations and panics, which is \<open>None\<close>, when they differ. Its
  mutexes are never held by another thread and are not poisoned; arithmetic overflow panics, as it does in tests.
\<close>

subsection \<open>State\<close>

record span_state =
  ms_id :: span_id
  ms_name :: string
  ms_refs :: u64
  ms_meta :: metadata

definition actual_of_state :: "span_state \<Rightarrow> actual_span" where
  "actual_of_state st = \<lparr>ac_id = ms_id st, ac_metadata = Some (ms_meta st)\<rparr>"

definition actual_of_id :: "span_id \<Rightarrow> actual_span" where
  "actual_of_id i = \<lparr>ac_id = i, ac_metadata = None\<rparr>"

record 'f running =
  rn_spans :: "span_id \<rightharpoonup> span_state"
  rn_expected :: "'f expect list"
  rn_current :: "span_id list"
  rn_ids :: u64
  rn_max_level :: "level_filter option"
  rn_filter :: "metadata \<Rightarrow> bool"
  rn_name :: string
  rn_cells :: id_cells

record 'f mock_subscriber =
  mb_expected :: "'f expect list"
  mb_max_level :: "level_filter option"
  mb_filter :: "metadata \<Rightarrow> bool"
  mb_name :: string

definition mock :: "string option \<Rightarrow> 'f mock_subscriber" where
  "mock thread_name =
     \<lparr>mb_expected = [], mb_max_level = None, mb_filter = (\<lambda>_. True),
      mb_name = (case thread_name of Some n \<Rightarrow> n | None \<Rightarrow> ''mock_subscriber'')\<rparr>"

definition mock_named :: "string \<Rightarrow> 'f mock_subscriber \<Rightarrow> 'f mock_subscriber" where
  "mock_named n m = m\<lparr>mb_name := n\<rparr>"

definition push_expect :: "'f expect \<Rightarrow> 'f mock_subscriber \<Rightarrow> 'f mock_subscriber" where
  "push_expect x m = m\<lparr>mb_expected := mb_expected m @ [x]\<rparr>"

definition mock_event :: "'f expected_event \<Rightarrow> 'f mock_subscriber \<Rightarrow> 'f mock_subscriber" where
  "mock_event x = push_expect (ExpectEvent x)"

definition mock_new_span :: "'f new_span \<Rightarrow> 'f mock_subscriber \<Rightarrow> 'f mock_subscriber" where
  "mock_new_span x = push_expect (ExpectNewSpan x)"

definition mock_enter :: "expected_span \<Rightarrow> 'f mock_subscriber \<Rightarrow> 'f mock_subscriber" where
  "mock_enter x = push_expect (ExpectEnter x)"

definition mock_exit :: "expected_span \<Rightarrow> 'f mock_subscriber \<Rightarrow> 'f mock_subscriber" where
  "mock_exit x = push_expect (ExpectExit x)"

definition mock_clone_span :: "expected_span \<Rightarrow> 'f mock_subscriber \<Rightarrow> 'f mock_subscriber" where
  "mock_clone_span x = push_expect (ExpectCloneSpan x)"

definition mock_drop_span :: "expected_span \<Rightarrow> 'f mock_subscriber \<Rightarrow> 'f mock_subscriber" where
  "mock_drop_span x = push_expect (ExpectDropSpan x)"

definition mock_follows_from :: "expected_span \<Rightarrow> expected_span \<Rightarrow> 'f mock_subscriber \<Rightarrow> 'f mock_subscriber" where
  "mock_follows_from consequence cause = push_expect (ExpectFollowsFrom consequence cause)"

definition mock_record :: "expected_span \<Rightarrow> 'f expected_fields \<Rightarrow> 'f mock_subscriber \<Rightarrow> 'f mock_subscriber" where
  "mock_record x flds = push_expect (ExpectVisit x flds)"

definition mock_on_register_dispatch :: "'f mock_subscriber \<Rightarrow> 'f mock_subscriber" where
  "mock_on_register_dispatch = push_expect ExpectOnRegisterDispatch"

definition mock_only :: "'f mock_subscriber \<Rightarrow> 'f mock_subscriber" where
  "mock_only = push_expect ExpectNothing"

definition mock_with_filter :: "(metadata \<Rightarrow> bool) \<Rightarrow> 'f mock_subscriber \<Rightarrow> 'f mock_subscriber" where
  "mock_with_filter f m = m\<lparr>mb_filter := f\<rparr>"

definition mock_with_max_level_hint :: "level_filter \<Rightarrow> 'f mock_subscriber \<Rightarrow> 'f mock_subscriber" where
  "mock_with_max_level_hint l m = m\<lparr>mb_max_level := Some l\<rparr>"

definition run_with_handle :: "id_cells \<Rightarrow> 'f mock_subscriber \<Rightarrow> 'f running" where
  "run_with_handle cells m =
     \<lparr>rn_spans = Map.empty, rn_expected = mb_expected m, rn_current = [], rn_ids = 1, rn_max_level = mb_max_level m,
      rn_filter = mb_filter m, rn_name = mb_name m, rn_cells = cells\<rparr>"

subsection \<open>Operations\<close>

definition running_on_register_dispatch :: "'f running \<Rightarrow> 'f running" where
  "running_on_register_dispatch s =
     (case rn_expected s of ExpectOnRegisterDispatch # xs \<Rightarrow> s\<lparr>rn_expected := xs\<rparr> | _ \<Rightarrow> s)"

definition running_enabled :: "metadata \<Rightarrow> 'f running \<Rightarrow> bool" where
  "running_enabled m s = rn_filter s m"

definition running_register_callsite :: "metadata \<Rightarrow> 'f running \<Rightarrow> interest" where
  "running_register_callsite m s = (if running_enabled m s then Always else Never)"

definition running_lookup_current :: "'f running \<Rightarrow> span_id option" where
  "running_lookup_current s = (if rn_current s = [] then None else Some (last (rn_current s)))"

definition running_actual :: "'f running \<Rightarrow> span_id \<Rightarrow> actual_span option" where
  "running_actual s i = map_option actual_of_state (rn_spans s i)"

definition running_record :: "'f mock_lib \<Rightarrow> span_id \<Rightarrow> 'f record_values \<Rightarrow> 'f running \<Rightarrow> 'f running option" where
  "running_record ml i vals s =
     (case rn_spans s i of
        None \<Rightarrow> None
      | Some sp \<Rightarrow>
          (case rn_expected s of
             ExpectVisit x flds # xs \<Rightarrow>
               if (case xm_name (xs_metadata x) of Some n \<Rightarrow> n = ms_name sp | None \<Rightarrow> True) \<and> fields_check ml flds (record_values vals)
               then Some (s\<lparr>rn_expected := xs\<rparr>) else None
           | _ \<Rightarrow> Some s))"

definition running_event :: "'f mock_lib \<Rightarrow> 'f event \<Rightarrow> 'f running \<Rightarrow> 'f running option" where
  "running_event ml e s =
     (case rn_expected s of
        [] \<Rightarrow> Some s
      | ExpectEvent x # xs \<Rightarrow>
          if xe_in_spans x \<noteq> None then None
          else if event_check ml (rn_cells s) x e (get_ancestry (ev_parent e) (running_lookup_current s) (running_actual s))
          then Some (s\<lparr>rn_expected := xs\<rparr>) else None
      | _ # _ \<Rightarrow> None)"

definition running_follows_from :: "span_id \<Rightarrow> span_id \<Rightarrow> 'f running \<Rightarrow> 'f running option" where
  "running_follows_from consequence cause s =
     (case (rn_spans s consequence, rn_spans s cause) of
        (Some a, Some b) \<Rightarrow>
          (case rn_expected s of
             [] \<Rightarrow> Some s
           | ExpectFollowsFrom x y # xs \<Rightarrow>
               if (case xm_name (xs_metadata x) of Some n \<Rightarrow> n = ms_name a | None \<Rightarrow> True) \<and>
                  (case xm_name (xs_metadata y) of Some n \<Rightarrow> n = ms_name b | None \<Rightarrow> True)
               then Some (s\<lparr>rn_expected := xs\<rparr>) else None
           | _ # _ \<Rightarrow> None)
      | _ \<Rightarrow> Some s)"

definition running_new_span :: "'f mock_lib \<Rightarrow> 'f attributes \<Rightarrow> 'f running \<Rightarrow> (span_id \<times> 'f running) option" where
  "running_new_span ml attrs s =
     (case id_from_u64 (rn_ids s) of
        None \<Rightarrow> None
      | Some i \<Rightarrow>
          (let s0 = s\<lparr>rn_ids := rn_ids s + 1\<rparr>;
               insert_span = (\<lambda>st. st\<lparr>rn_spans := (rn_spans st)(i \<mapsto>
                 \<lparr>ms_id = i, ms_name = meta_name (attr_metadata attrs), ms_refs = 1, ms_meta = attr_metadata attrs\<rparr>)\<rparr>)
           in case rn_expected s of
                ExpectNewSpan x # xs \<Rightarrow>
                  (case (case xs_id (xn_span x) of
                           Some c \<Rightarrow> expected_id_set c (id_into_u64 i) (rn_cells s) | None \<Rightarrow> Some (rn_cells s)) of
                     None \<Rightarrow> None
                   | Some cells \<Rightarrow>
                       if new_span_check ml cells x attrs (get_ancestry (attr_parent attrs) (running_lookup_current s) (running_actual s))
                       then Some (i, insert_span (s0\<lparr>rn_expected := xs, rn_cells := cells\<rparr>)) else None)
              | _ \<Rightarrow> Some (i, insert_span s0)))"

definition running_enter :: "span_id \<Rightarrow> 'f running \<Rightarrow> 'f running option" where
  "running_enter i s =
     map_option (\<lambda>s1. s1\<lparr>rn_current := rn_current s1 @ [i]\<rparr>)
       (case rn_spans s i of
          None \<Rightarrow> Some s
        | Some sp \<Rightarrow>
            (case rn_expected s of
               [] \<Rightarrow> Some s
             | ExpectEnter x # xs \<Rightarrow>
                 if expected_span_check (rn_cells s) x (actual_of_state sp) then Some (s\<lparr>rn_expected := xs\<rparr>) else None
             | _ # _ \<Rightarrow> None))"

definition running_exit :: "bool \<Rightarrow> span_id \<Rightarrow> 'f running \<Rightarrow> 'f running option" where
  "running_exit panicking i s =
     (if panicking then Some s
      else
        (case rn_spans s i of
           None \<Rightarrow> None
         | Some sp \<Rightarrow>
             (case rn_expected s of
                [] \<Rightarrow> Some s
              | ExpectExit x # xs \<Rightarrow>
                  if expected_span_check (rn_cells s) x (actual_of_state sp) \<and> running_lookup_current s = Some i
                  then Some (s\<lparr>rn_expected := xs, rn_current := butlast (rn_current s)\<rparr>) else None
              | _ # _ \<Rightarrow> None)))"

definition running_clone_span :: "span_id \<Rightarrow> 'f running \<Rightarrow> 'f running option" where
  "running_clone_span i s =
     (let counted =
        (case rn_spans s i of
           None \<Rightarrow> Some s
         | Some sp \<Rightarrow>
             if ms_refs sp = - 1 then None
             else Some (s\<lparr>rn_spans := (rn_spans s)(i \<mapsto> sp\<lparr>ms_refs := ms_refs sp + 1\<rparr>)\<rparr>))
      in case counted of
           None \<Rightarrow> None
         | Some s1 \<Rightarrow>
             (case rn_expected s of
                ExpectCloneSpan x # xs \<Rightarrow>
                  if expected_span_check (rn_cells s) x
                       (case rn_spans s i of Some sp \<Rightarrow> actual_of_state sp | None \<Rightarrow> actual_of_id i)
                  then Some (s1\<lparr>rn_expected := xs\<rparr>) else None
              | _ \<Rightarrow> Some s1))"

definition running_drop_span :: "bool \<Rightarrow> span_id \<Rightarrow> 'f running \<Rightarrow> 'f running option" where
  "running_drop_span panicking i s =
     (let name = map_option ms_name (rn_spans s i);
          is_event = (case name of Some n \<Rightarrow> sublist ''event'' n | None \<Rightarrow> False);
          counted =
            (case rn_spans s i of
               None \<Rightarrow> Some s
             | Some sp \<Rightarrow>
                 if ms_refs sp = 0 then None
                 else Some (s\<lparr>rn_spans := (rn_spans s)(i \<mapsto> sp\<lparr>ms_refs := ms_refs sp - 1\<rparr>)\<rparr>))
      in case counted of
           None \<Rightarrow> None
         | Some s1 \<Rightarrow>
             (case rn_expected s of
                ExpectDropSpan x # xs \<Rightarrow>
                  if panicking \<or> name = xm_name (xs_metadata x) then Some (s1\<lparr>rn_expected := xs\<rparr>) else None
              | ExpectEvent _ # xs \<Rightarrow>
                  if panicking \<or> is_event then Some (s1\<lparr>rn_expected := xs\<rparr>) else None
              | _ \<Rightarrow> Some s1))"

definition running_current_span :: "'f running \<Rightarrow> current_inner option" where
  "running_current_span s =
     (case running_lookup_current s of
        Some i \<Rightarrow> map_option (\<lambda>st. CurrentSpan i (ms_meta st)) (rn_spans s i)
      | None \<Rightarrow> Some CurrentNone)"

subsection \<open>Runs\<close>

text \<open>The calls that a thread makes to its subscriber while it does not panic.\<close>

datatype 'f mock_call =
    CallRegisterDispatch | CallRecord span_id "'f record_values" | CallEvent "'f event" | CallFollowsFrom span_id span_id
  | CallNewSpan "'f attributes" | CallEnter span_id | CallExit span_id | CallCloneSpan span_id | CallDropSpan span_id

fun mock_step :: "'f mock_lib \<Rightarrow> 'f mock_call \<Rightarrow> 'f running \<Rightarrow> 'f running option" where
  "mock_step ml CallRegisterDispatch s = Some (running_on_register_dispatch s)"
| "mock_step ml (CallRecord i vals) s = running_record ml i vals s"
| "mock_step ml (CallEvent e) s = running_event ml e s"
| "mock_step ml (CallFollowsFrom i j) s = running_follows_from i j s"
| "mock_step ml (CallNewSpan attrs) s = map_option snd (running_new_span ml attrs s)"
| "mock_step ml (CallEnter i) s = running_enter i s"
| "mock_step ml (CallExit i) s = running_exit False i s"
| "mock_step ml (CallCloneSpan i) s = running_clone_span i s"
| "mock_step ml (CallDropSpan i) s = running_drop_span False i s"

fun mock_run :: "'f mock_lib \<Rightarrow> 'f mock_call list \<Rightarrow> 'f running \<Rightarrow> 'f running option" where
  "mock_run ml [] s = Some s"
| "mock_run ml (c # cs) s = Option.bind (mock_step ml c s) (mock_run ml cs)"

text \<open>The calls of a run with the state in which each is made.\<close>

fun mock_trace :: "'f mock_lib \<Rightarrow> 'f mock_call list \<Rightarrow> 'f running \<Rightarrow> ('f running \<times> 'f mock_call) list" where
  "mock_trace ml [] s = []"
| "mock_trace ml (c # cs) s = (s, c) # (case mock_step ml c s of Some s1 \<Rightarrow> mock_trace ml cs s1 | None \<Rightarrow> [])"

subsection \<open>What a passing test shows\<close>

text \<open>
  The calls that may not happen unless they are the next thing expected, as long as anything is expected: events,
  entering, leaving and relating known spans. Spans may be created, cloned and dropped and values recorded in between.
\<close>

fun strict_call :: "'f running \<Rightarrow> 'f mock_call \<Rightarrow> bool" where
  "strict_call s (CallEvent e) = True"
| "strict_call s (CallEnter i) = (rn_spans s i \<noteq> None)"
| "strict_call s (CallExit i) = True"
| "strict_call s (CallFollowsFrom i j) = (rn_spans s i \<noteq> None \<and> rn_spans s j \<noteq> None)"
| "strict_call s _ = False"

definition values_meet :: "'f mock_lib \<Rightarrow> 'f expected_fields \<Rightarrow> 'f value_set \<Rightarrow> bool" where
  "values_meet ml x vs \<longleftrightarrow> (\<exists>rs. named_record vs = Some rs \<and> fields_meet ml x rs)"

text \<open>That a call is what an expectation asks for.\<close>

definition satisfies :: "'f mock_lib \<Rightarrow> 'f running \<Rightarrow> 'f mock_call \<Rightarrow> 'f expect \<Rightarrow> bool" where
  "satisfies ml s c x \<longleftrightarrow>
     (case x of
        ExpectEvent xe \<Rightarrow>
          (case c of
             CallEvent e \<Rightarrow>
               metadata_check (xe_metadata xe) (ev_metadata e) \<and> meta_is_event (ev_metadata e) \<and>
               (\<forall>flds. xe_fields xe = Some flds \<longrightarrow> values_meet ml flds (ev_fields e)) \<and>
               ancestry_expected (rn_cells s) (xe_ancestry xe)
                 (get_ancestry (ev_parent e) (running_lookup_current s) (running_actual s))
           | CallDropSpan i \<Rightarrow> (\<exists>sp. rn_spans s i = Some sp \<and> sublist ''event'' (ms_name sp))
           | _ \<Rightarrow> False)
      | ExpectDropSpan xs \<Rightarrow> (\<exists>i. c = CallDropSpan i \<and> map_option ms_name (rn_spans s i) = xm_name (xs_metadata xs))
      | ExpectEnter xs \<Rightarrow>
          (\<exists>i sp. c = CallEnter i \<and> rn_spans s i = Some sp \<and> expected_span_check (rn_cells s) xs (actual_of_state sp))
      | ExpectExit xs \<Rightarrow>
          (\<exists>i sp. c = CallExit i \<and> rn_spans s i = Some sp \<and> expected_span_check (rn_cells s) xs (actual_of_state sp) \<and>
             running_lookup_current s = Some i)
      | ExpectCloneSpan xs \<Rightarrow>
          (\<exists>i. c = CallCloneSpan i \<and> expected_span_check (rn_cells s) xs
             (case rn_spans s i of Some sp \<Rightarrow> actual_of_state sp | None \<Rightarrow> actual_of_id i))
      | ExpectFollowsFrom xs ys \<Rightarrow>
          (\<exists>i j a b. c = CallFollowsFrom i j \<and> rn_spans s i = Some a \<and> rn_spans s j = Some b \<and>
             xm_name (xs_metadata xs) \<in> {None, Some (ms_name a)} \<and> xm_name (xs_metadata ys) \<in> {None, Some (ms_name b)})
      | ExpectVisit xs flds \<Rightarrow>
          (\<exists>i vals sp. c = CallRecord i vals \<and> rn_spans s i = Some sp \<and> xm_name (xs_metadata xs) \<in> {None, Some (ms_name sp)} \<and>
             values_meet ml flds (record_values vals))
      | ExpectNewSpan xn \<Rightarrow>
          (\<exists>attrs cells. c = CallNewSpan attrs \<and>
             metadata_check (xs_metadata (xn_span xn)) (attr_metadata attrs) \<and> values_meet ml (xn_fields xn) (attr_values attrs) \<and>
             (case xs_id (xn_span xn) of Some x \<Rightarrow> rn_cells s x = UNSET \<and> cells = (rn_cells s)(x := rn_ids s) | None \<Rightarrow> cells = rn_cells s) \<and>
             ancestry_expected cells (xn_ancestry xn) (get_ancestry (attr_parent attrs) (running_lookup_current s) (running_actual s)))
      | ExpectOnRegisterDispatch \<Rightarrow> c = CallRegisterDispatch
      | ExpectNothing \<Rightarrow> False)"

text \<open>The values of a call have fields with different names.\<close>

definition distinct_fields :: "'f value_set \<Rightarrow> bool" where
  "distinct_fields vs \<longleftrightarrow> (case named_record vs of Some rs \<Rightarrow> distinct (map fst rs) | None \<Rightarrow> True)"

fun call_ok :: "'f mock_call \<Rightarrow> bool" where
  "call_ok (CallRecord i vals) = distinct_fields (record_values vals)"
| "call_ok (CallEvent e) = distinct_fields (ev_fields e)"
| "call_ok (CallNewSpan attrs) = distinct_fields (attr_values attrs)"
| "call_ok _ = True"

lemma fields_check_values:
  assumes "distinct_fields vs" and "fields_check ml x vs"
  shows "values_meet ml x vs"
proof -
  obtain rs where "named_record vs = Some rs" using assms(2) by (auto simp: fields_check_def split: option.splits bind_splits)
  then show ?thesis using fields_check_meets [of vs rs ml x] assms by (auto simp: distinct_fields_def values_meet_def)
qed

definition step_outcome :: "'f mock_lib \<Rightarrow> 'f mock_call \<Rightarrow> 'f running \<Rightarrow> 'f running \<Rightarrow> bool" where
  "step_outcome ml c s s1 \<longleftrightarrow>
     (rn_expected s1 = rn_expected s \<and> (strict_call s c \<longrightarrow> rn_expected s = [])) \<or>
     (\<exists>x. rn_expected s = x # rn_expected s1 \<and> satisfies ml s c x)"

lemma mock_step_outcome:
  assumes "mock_step ml c s = Some s1" and "call_ok c"
  shows "step_outcome ml c s s1"
proof (cases c)
  case CallRegisterDispatch
  then show ?thesis using assms(1)
    by (auto simp: running_on_register_dispatch_def step_outcome_def satisfies_def split: list.splits expect.splits)
next
  case (CallRecord i vals)
  then show ?thesis using assms
    by (cases "rn_spans s i"; cases "rn_expected s"; (cases "hd (rn_expected s)")?)
      (auto simp: running_record_def fields_check_values step_outcome_def satisfies_def Let_def split: if_splits option.splits)
next
  case (CallEvent e)
  then show ?thesis using assms
    by (cases "rn_expected s"; (cases "hd (rn_expected s)")?)
      (auto simp: running_event_def event_check_def fields_check_values step_outcome_def satisfies_def split: if_splits option.splits)
next
  case (CallFollowsFrom i j)
  then show ?thesis using assms
    by (cases "rn_spans s i"; cases "rn_spans s j"; cases "rn_expected s"; (cases "hd (rn_expected s)")?)
      (auto simp: running_follows_from_def step_outcome_def satisfies_def Let_def split: if_splits option.splits)
next
  case (CallNewSpan attrs)
  then show ?thesis using assms
    by (cases "rn_expected s"; (cases "hd (rn_expected s)")?)
      (auto simp: running_new_span_def new_span_check_def fields_check_values expected_id_set_def id_from_u64_def id_into_u64_def
        step_outcome_def satisfies_def Let_def split: if_splits option.splits)
next
  case (CallEnter i)
  then show ?thesis using assms
    by (cases "rn_spans s i"; cases "rn_expected s"; (cases "hd (rn_expected s)")?)
      (auto simp: running_enter_def step_outcome_def satisfies_def Let_def split: if_splits option.splits)
next
  case (CallExit i)
  then show ?thesis using assms
    by (cases "rn_spans s i"; cases "rn_expected s"; (cases "hd (rn_expected s)")?)
      (auto simp: running_exit_def step_outcome_def satisfies_def Let_def split: if_splits option.splits)
next
  case (CallCloneSpan i)
  then show ?thesis using assms
    by (cases "rn_spans s i"; cases "rn_expected s"; (cases "hd (rn_expected s)")?)
      (auto simp: running_clone_span_def step_outcome_def satisfies_def Let_def split: if_splits)
next
  case (CallDropSpan i)
  then show ?thesis using assms
    by (cases "rn_spans s i"; cases "rn_expected s"; (cases "hd (rn_expected s)")?)
      (auto simp: running_drop_span_def step_outcome_def satisfies_def Let_def split: if_splits)
qed

lemma is_nothing_iff: "is_nothing x \<longleftrightarrow> x = ExpectNothing"
  by (cases x) (simp_all add: is_nothing_def)

lemma mock_run_matches:
  assumes "mock_run ml cs s = Some s'" and "list_all call_ok cs"
  shows "\<exists>ms. rn_expected s = map fst ms @ rn_expected s' \<and> subseq (map snd ms) (mock_trace ml cs s) \<and>
    list_all (\<lambda>(x, st, c). satisfies ml st c x) ms \<and>
    subseq (filter (\<lambda>(st, c). strict_call st c \<and> rn_expected st \<noteq> []) (mock_trace ml cs s)) (map snd ms)"
  using assms
proof (induction cs arbitrary: s)
  case Nil
  then show ?case by (intro exI [of _ "[]"]) simp
next
  case (Cons c cs)
  obtain s1 where step: "mock_step ml c s = Some s1" and rest: "mock_run ml cs s1 = Some s'"
    using Cons.prems(1) by (auto split: bind_splits)
  from Cons.IH [OF rest] Cons.prems(2) obtain ms where
    ms: "rn_expected s1 = map fst ms @ rn_expected s'" "subseq (map snd ms) (mock_trace ml cs s1)"
      "list_all (\<lambda>(x, st, c). satisfies ml st c x) ms"
      "subseq (filter (\<lambda>(st, c). strict_call st c \<and> rn_expected st \<noteq> []) (mock_trace ml cs s1)) (map snd ms)" by auto
  from mock_step_outcome [OF step] Cons.prems(2) have "step_outcome ml c s s1" by simp
  then consider "rn_expected s1 = rn_expected s" "strict_call s c \<Longrightarrow> rn_expected s = []"
    | x where "rn_expected s = x # rn_expected s1" "satisfies ml s c x" unfolding step_outcome_def by blast
  then show ?case
  proof cases
    case 1
    then show ?thesis using ms step by (intro exI [of _ ms]) (auto intro: list_emb_Cons)
  next
    case 2
    then show ?thesis using ms step by (intro exI [of _ "(x, s, c) # ms"]) auto
  qed
qed


text \<open>The number that an \<open>ExpectedId\<close> gets when its span is created does not change any more: later uses mean that span.\<close>

theorem expected_id_stable:
  assumes "mock_run ml cs s = Some s'" and "rn_cells s x \<noteq> UNSET"
  shows "rn_cells s' x = rn_cells s x"
proof -
  have step: "rn_cells s1 x = rn_cells s x" if "mock_step ml c s = Some s1" "rn_cells s x \<noteq> UNSET" for c s s1
    using that by (cases c) (auto simp: running_on_register_dispatch_def running_record_def running_event_def running_follows_from_def
        running_new_span_def running_enter_def running_exit_def running_clone_span_def running_drop_span_def expected_id_set_def Let_def
        split: list.splits expect.splits option.splits if_splits)
  show ?thesis using assms
  proof (induction cs arbitrary: s)
    case (Cons c cs)
    obtain s1 where s1: "mock_step ml c s = Some s1" "mock_run ml cs s1 = Some s'" using Cons.prems(1) by (auto split: bind_splits)
    then show ?case using Cons.IH [OF s1(2)] step [OF s1(1) Cons.prems(2)] Cons.prems(2) by simp
  qed simp
qed

subsection \<open>Edges\<close>

text \<open>
  Once nothing is expected any more, leaving a span does not take it off the stack: the mock goes on reporting it as
  the current span, and as the contextual parent of what follows.
\<close>

theorem exit_keeps_current:
  assumes "rn_expected s = []" and "rn_spans s i = Some sp"
  shows "Option.bind (running_enter i s) (running_exit False i) = Some (s\<lparr>rn_current := rn_current s @ [i]\<rparr>)"
    "Option.bind (Option.bind (running_enter i s) (running_exit False i)) running_current_span = Some (CurrentSpan i (ms_meta sp))"
  using assms by (simp_all add: running_enter_def running_exit_def running_current_span_def running_lookup_current_def)

text \<open>
  \<open>only\<close> does not notice spans that are created, cloned or dropped, nor values that are recorded; and an expectation
  after \<open>only\<close>, which is said not to be considered, makes \<open>assert_finished\<close> fail.
\<close>

theorem only_misses_spans:
  assumes "rn_expected s = ExpectNothing # xs" and "id_from_u64 (rn_ids s) \<noteq> None"
  shows "\<exists>i s1. running_new_span ml attrs s = Some (i, s1) \<and> rn_expected s1 = rn_expected s \<and> rn_spans s1 i \<noteq> None"
    "rn_spans s j \<noteq> None \<Longrightarrow> running_record ml j vals s = Some s"
    "\<not> assert_finished (ExpectNothing # ExpectEvent x # xs)"
  using assms by (auto simp: running_new_span_def running_record_def assert_finished_def is_nothing_def Let_def)

text \<open>
  Dropping a span is compared by name only, with an expectation without a name meaning a span that is not known; and
  while an event is expected, dropping a span panics, or uses up the expectation if the name of the span has \<open>event\<close> in it.
\<close>

theorem drop_span_checks:
  assumes "rn_spans s i = Some sp" and "ms_refs sp \<noteq> 0"
  shows "rn_expected s = ExpectDropSpan any_span # xs \<Longrightarrow> running_drop_span False i s = None"
    "rn_expected s = ExpectDropSpan (span_named (ms_name sp) (span_with_id c any_span)) # xs \<Longrightarrow> running_drop_span False i s \<noteq> None"
    "rn_expected s = ExpectEvent x # xs \<Longrightarrow> running_drop_span False i s = None \<longleftrightarrow> \<not> sublist ''event'' (ms_name sp)"
  using assms by (simp_all add: running_drop_span_def Let_def any_span_def no_metadata_def span_named_def span_with_id_def)

subsection \<open>Witnesses\<close>

definition demo_mock_lib :: "unit mock_lib" where
  "demo_mock_lib = \<lparr>ml_fmt = demo_lib, ml_f64_eq = (\<lambda>_ _. True)\<rparr>"

definition demo_test :: "unit mock_subscriber" where
  "demo_test = mock_only (mock_exit (span_with_id 0 any_span) (mock_event (event_with_ancestry (HasContextualParent (span_with_id 0 any_span))
     (event_with_fields (fields_and ''user'' (ExpectStr [CHR 0x07]) no_fields) any_event)) (mock_enter (span_with_id 0 any_span)
     (mock_new_span (new_span_from (span_named ''request'' (span_with_id 0 any_span))) (mock None)))))"

definition demo_calls :: "unit mock_call list" where
  "demo_calls = [CallNewSpan (attributes_new (dat_metadata (demo_span None)) \<lparr>vs_values = All [], vs_fields = \<lparr>fs_names = [], fs_callsite = 7\<rparr>\<rparr>),
     CallEnter 1, CallEvent demo_msg_event, CallExit 1, CallDropSpan 1]"

lemma demo_test_run:
  "map_option rn_expected (mock_run demo_mock_lib demo_calls (run_with_handle (\<lambda>_. UNSET) demo_test)) = Some [ExpectNothing]"
  by (simp add: demo_calls_def demo_test_def run_with_handle_def mock_def push_expect_def mock_only_def mock_exit_def mock_event_def
      mock_enter_def mock_new_span_def new_span_from_def span_named_def span_with_id_def any_span_def no_metadata_def no_fields_def
      fields_and_def event_with_fields_def event_with_ancestry_def any_event_def running_new_span_def running_enter_def running_event_def
      running_exit_def running_drop_span_def id_from_u64_def id_into_u64_def expected_id_set_def UNSET_def new_span_check_def
      metadata_check_def fields_check_def checker_finish_def attributes_new_def demo_span_def named_record_def value_set_record_def
      field_set_iter_def field_set_len_def Let_def running_lookup_current_def running_actual_def actual_of_state_def event_check_def
      expected_span_check_def expected_id_check_def ancestry_expected_def get_ancestry_def demo_msg_event_def event_new_def demo_meta_def
      parent_is_contextual_def parent_is_root_def parent_id_def has_expectations_def meta_is_event_def kind_is_event_def EVENT_def
      field_name_def compare_or_panic_def expected_of_recorded_def upt_rec)


end
