(* ===== verification/Mock_Layer.thy ===== *)
theory Mock_Layer
  imports Mock_Subscriber Layered
begin

text \<open>
  The mock layer: \<open>tracing-mock/src/layer.rs\<close>.

  Like the mock subscriber it compares notifications with a queue of expectations; the spans are those of the registry
  it is stacked on. Nothing in the layer sets an \<open>ExpectedId\<close>, so what they hold is an argument. \<open>None\<close> is a panic.
\<close>

record 'f mock_layer =
  mk_expected :: "'f expect list"
  mk_current :: "span_id list"
  mk_name :: string
  mk_panicked :: bool

record 'f mock_layer_builder =
  mlb_expected :: "'f expect list"
  mlb_name :: string

definition mock_layer_new :: "string option \<Rightarrow> 'f mock_layer_builder" where
  "mock_layer_new thread_name = \<lparr>mlb_expected = [], mlb_name = (case thread_name of Some n \<Rightarrow> n | None \<Rightarrow> [])\<rparr>"

definition mock_layer_named :: "string \<Rightarrow> 'f mock_layer_builder \<Rightarrow> 'f mock_layer_builder" where
  "mock_layer_named n b = b\<lparr>mlb_name := (if mlb_name b \<noteq> [] then mlb_name b @ ''::'' @ n else n)\<rparr>"

definition mock_layer_push :: "'f expect \<Rightarrow> 'f mock_layer_builder \<Rightarrow> 'f mock_layer_builder" where
  "mock_layer_push x b = b\<lparr>mlb_expected := mlb_expected b @ [x]\<rparr>"

definition mock_layer_event :: "'f expected_event \<Rightarrow> 'f mock_layer_builder \<Rightarrow> 'f mock_layer_builder" where
  "mock_layer_event x = mock_layer_push (ExpectEvent x)"

definition mock_layer_new_span :: "'f new_span \<Rightarrow> 'f mock_layer_builder \<Rightarrow> 'f mock_layer_builder" where
  "mock_layer_new_span x = mock_layer_push (ExpectNewSpan x)"

definition mock_layer_enter :: "expected_span \<Rightarrow> 'f mock_layer_builder \<Rightarrow> 'f mock_layer_builder" where
  "mock_layer_enter x = mock_layer_push (ExpectEnter x)"

definition mock_layer_exit :: "expected_span \<Rightarrow> 'f mock_layer_builder \<Rightarrow> 'f mock_layer_builder" where
  "mock_layer_exit x = mock_layer_push (ExpectExit x)"

definition mock_layer_only :: "'f mock_layer_builder \<Rightarrow> 'f mock_layer_builder" where
  "mock_layer_only = mock_layer_push ExpectNothing"

definition mock_layer_run :: "'f mock_layer_builder \<Rightarrow> 'f mock_layer" where
  "mock_layer_run b = \<lparr>mk_expected = mlb_expected b, mk_current = [], mk_name = mlb_name b, mk_panicked = False\<rparr>"

subsection \<open>Checks\<close>

definition actual_of_ref :: "span_ref \<Rightarrow> actual_span" where
  "actual_of_ref sp = \<lparr>ac_id = sr_id sp, ac_metadata = Some (dat_metadata (sr_data sp))\<rparr>"

text \<open>The expected spans are zipped with the actual ones; then neither may have any left.\<close>

definition check_event_scope :: "id_cells \<Rightarrow> span_ref list \<Rightarrow> expected_span list \<Rightarrow> bool" where
  "check_event_scope ids actual expected \<longleftrightarrow>
     (let i = length (zip expected actual)
      in list_all (\<lambda>(x, a). expected_span_check ids x (actual_of_ref a)) (zip expected actual) \<and>
         drop i expected = [] \<and> drop i actual = [])"

definition context_get_ancestry :: "layer_context \<Rightarrow> thread \<Rightarrow> parent \<Rightarrow> registry \<Rightarrow> actual_span ancestry option" where
  "context_get_ancestry cx t p r =
     get_ancestry p (map_option sr_id (lookup_current cx t r)) (\<lambda>i. map_option actual_of_ref (cx_span cx i r))"

subsection \<open>Callbacks\<close>

definition mock_layer_on_register_dispatch :: "'f mock_layer \<Rightarrow> 'f mock_layer" where
  "mock_layer_on_register_dispatch l =
     (case mk_expected l of ExpectOnRegisterDispatch # xs \<Rightarrow> l\<lparr>mk_expected := xs\<rparr> | _ \<Rightarrow> l)"

definition mock_layer_on_event ::
  "'f mock_lib \<Rightarrow> id_cells \<Rightarrow> thread \<Rightarrow> 'f event \<Rightarrow> layer_context \<Rightarrow> registry \<Rightarrow> 'f mock_layer \<Rightarrow> 'f mock_layer option" where
  "mock_layer_on_event ml ids t e cx r l =
     (case mk_expected l of
        [] \<Rightarrow> Some l
      | ExpectEvent x # xs \<Rightarrow>
          if event_check ml ids x e (context_get_ancestry cx t (ev_parent e) r) \<and>
             (case xe_in_spans x of
                None \<Rightarrow> True
              | Some scope \<Rightarrow>
                  (case event_scope cx t e r of
                     None \<Rightarrow> check_event_scope ids [] scope
                   | Some None \<Rightarrow> False
                   | Some (Some actual) \<Rightarrow> check_event_scope ids actual scope))
          then Some (l\<lparr>mk_expected := xs\<rparr>) else None
      | _ # _ \<Rightarrow> None)"

definition mock_layer_on_new_span ::
  "'f mock_lib \<Rightarrow> id_cells \<Rightarrow> thread \<Rightarrow> 'f attributes \<Rightarrow> layer_context \<Rightarrow> registry \<Rightarrow> 'f mock_layer \<Rightarrow> 'f mock_layer option" where
  "mock_layer_on_new_span ml ids t attrs cx r l =
     (case mk_expected l of
        ExpectNewSpan x # xs \<Rightarrow>
          if new_span_check ml ids x attrs (context_get_ancestry cx t (attr_parent attrs) r)
          then Some (l\<lparr>mk_expected := xs\<rparr>) else None
      | _ \<Rightarrow> Some l)"

definition mock_layer_on_enter :: "id_cells \<Rightarrow> span_id \<Rightarrow> layer_context \<Rightarrow> registry \<Rightarrow> 'f mock_layer \<Rightarrow> 'f mock_layer option" where
  "mock_layer_on_enter ids i cx r l =
     (case cx_span cx i r of
        None \<Rightarrow> None
      | Some sp \<Rightarrow>
          map_option (\<lambda>l1. l1\<lparr>mk_current := mk_current l1 @ [i]\<rparr>)
            (case mk_expected l of
               [] \<Rightarrow> Some l
             | ExpectEnter x # xs \<Rightarrow>
                 if expected_span_check ids x (actual_of_ref sp) then Some (l\<lparr>mk_expected := xs\<rparr>) else None
             | _ # _ \<Rightarrow> None))"

definition mock_layer_on_exit ::
  "id_cells \<Rightarrow> bool \<Rightarrow> span_id \<Rightarrow> layer_context \<Rightarrow> registry \<Rightarrow> 'f mock_layer \<Rightarrow> 'f mock_layer option" where
  "mock_layer_on_exit ids panicking i cx r l =
     (if panicking then Some l
      else
        (case cx_span cx i r of
           None \<Rightarrow> None
         | Some sp \<Rightarrow>
             (case mk_expected l of
                [] \<Rightarrow> Some l
              | ExpectExit x # xs \<Rightarrow>
                  if expected_span_check ids x (actual_of_ref sp) \<and> mk_current l \<noteq> [] \<and> last (mk_current l) = i
                  then Some (l\<lparr>mk_expected := xs, mk_current := butlast (mk_current l)\<rparr>) else None
              | _ # _ \<Rightarrow> None)))"

definition mock_layer_on_close ::
  "id_cells \<Rightarrow> bool \<Rightarrow> span_id \<Rightarrow> layer_context \<Rightarrow> registry \<Rightarrow> 'f mock_layer \<Rightarrow> 'f mock_layer option" where
  "mock_layer_on_close ids panicking i cx r l =
     (if panicking then Some l
      else
        (case mk_expected l of
           ExpectDropSpan x # xs \<Rightarrow>
             if (case cx_span cx i r of Some sp \<Rightarrow> expected_span_check ids x (actual_of_ref sp) | None \<Rightarrow> True)
             then Some (l\<lparr>mk_expected := xs\<rparr>) else None
         | ExpectEvent _ # xs \<Rightarrow> None
         | _ \<Rightarrow> Some l))"

definition mock_layer_notify ::
  "'f mock_lib \<Rightarrow> id_cells \<Rightarrow> bool \<Rightarrow> thread \<Rightarrow> 'f notification \<Rightarrow> layer_context \<Rightarrow> registry \<Rightarrow> 'f mock_layer \<Rightarrow> 'f mock_layer option" where
  "mock_layer_notify ml ids panicking t n cx r l =
     (case n of
        OnNewSpan attrs i \<Rightarrow> mock_layer_on_new_span ml ids t attrs cx r l
      | OnRecord i vals \<Rightarrow> None
      | OnFollowsFrom i j \<Rightarrow> None
      | OnEvent e \<Rightarrow> mock_layer_on_event ml ids t e cx r l
      | OnEnter i \<Rightarrow> mock_layer_on_enter ids i cx r l
      | OnExit i \<Rightarrow> mock_layer_on_exit ids panicking i cx r l
      | OnClose i \<Rightarrow> mock_layer_on_close ids panicking i cx r l
      | OnIdChange i j \<Rightarrow> None)"

text \<open>Several mock layers in one stack: the world holds the state of each. A panic is recorded with the layer.\<close>

definition mock_layer_after :: "'f mock_layer \<Rightarrow> 'f mock_layer option \<Rightarrow> 'f mock_layer" where
  "mock_layer_after l res = (case res of Some l1 \<Rightarrow> l1 | None \<Rightarrow> l\<lparr>mk_panicked := True\<rparr>)"

definition mock_as_layer ::
  "'f mock_lib \<Rightarrow> id_cells \<Rightarrow> bool \<Rightarrow> thread \<Rightarrow> nat \<Rightarrow> ('f, nat \<Rightarrow> 'f mock_layer) layer" where
  "mock_as_layer ml ids panicking t k = layer_defaults\<lparr>
     ly_register_callsite := (\<lambda>_ s. (Always, s)),
     ly_notify := (\<lambda>n cx s. s\<lparr>ls_world := (ls_world s)(k :=
       mock_layer_after (ls_world s k) (mock_layer_notify ml ids panicking t n cx (ls_registry s) (ls_world s k)))\<rparr>)\<rparr>"

subsection \<open>What the checks decide\<close>

lemma check_event_scope_iff:
  "check_event_scope ids actual expected \<longleftrightarrow> list_all2 (\<lambda>x a. expected_span_check ids x (actual_of_ref a)) expected actual"
  by (auto simp: check_event_scope_def list_all2_iff list_all_iff Let_def min_def split: if_splits)

subsection \<open>Behind filters\<close>

definition mock_act ::
  "'f mock_lib \<Rightarrow> id_cells \<Rightarrow> thread \<Rightarrow> nat \<Rightarrow> 'f event \<Rightarrow> layer_context \<Rightarrow> registry \<Rightarrow> (nat \<Rightarrow> 'f mock_layer) \<Rightarrow> nat \<Rightarrow> 'f mock_layer" where
  "mock_act ml ids t k e cx r w = w(k := mock_layer_after (w k) (mock_layer_on_event ml ids t e cx r (w k)))"

interpretation mock_sinks: event_sinks "mock_as_layer ml ids panicking t" "mock_act ml ids t"
  by unfold_locales (simp_all add: mock_as_layer_def layer_defaults_def mock_layer_notify_def mock_act_def)

lemma fold_mock_act:
  assumes "distinct ks"
  shows "fold (\<lambda>k. mock_act ml ids t k e (cx k) r) ks w k =
    (if k \<in> set ks then mock_layer_after (w k) (mock_layer_on_event ml ids t e (cx k) r (w k)) else w k)"
  using assms by (induction ks arbitrary: w) (auto simp: mock_act_def)

text \<open>
  Tests of per-layer filters use mock layers, and those show what they are meant to: after one event, a mock layer
  behind a filter has taken an expectation off its queue if its filter accepts the event, and is untouched otherwise,
  whatever other layers are in the stack.
\<close>

theorem filtered_mock_layers:
  assumes "\<forall>n \<in> set ns. n < 64 \<and> (\<forall>cx s. ft_enabled (fl n) (ev_metadata e) cx s = en n) \<and>
      (\<forall>cx s. ft_event_enabled (fl n) e cx s = ev n)"
    and "distinct ns" and "length ns < 64" and "fst_enabled (ls_filtering s) = filter_map_new"
  shows "ls_world (emit_event (stack_of (map (\<lambda>n. filtered (fl n) (mock_as_layer ml ids panicking t n) (nth_id n)) ns)) t e s) k =
      (if k \<in> set ns \<and> en k \<and> ev k
       then mock_layer_after (ls_world s k)
         (mock_layer_on_event ml ids t e (cx_with_filter (nth_id k) context_new) (ls_registry s) (ls_world s k))
       else ls_world s k)"
proof -
  have "distinct (filter (\<lambda>n. en n \<and> ev n) (rev ns))" using assms(2) by simp
  from fold_mock_act [OF this, of ml ids t e "\<lambda>n. cx_with_filter (nth_id n) context_new" "ls_registry s" "ls_world s" k]
  show ?thesis
    using mock_sinks.pass [OF assms, where ml = ml and ids = ids and panicking = panicking and t = t]
    by (auto simp: mock_sinks.filtered_sinks_def mock_sinks.deliver_def [abs_def])
qed

text \<open>The layer never sets an \<open>ExpectedId\<close>: an expectation that names one fails although its span was created as expected.\<close>

theorem layer_ids_never_set:
  assumes "mk_expected l = [ExpectNewSpan (new_span_from (span_with_id c any_span)), ExpectEnter (span_with_id c any_span)]"
    and "cx_span cx i r = Some sp" and "ids c = UNSET" and "named_record (attr_values attrs) = Some []"
  shows "\<exists>l1. mock_layer_on_new_span ml ids t attrs cx r l = Some l1 \<and> mock_layer_on_enter ids i cx r l1 = None"
  using assms by (simp add: mock_layer_on_new_span_def mock_layer_on_enter_def new_span_check_def new_span_from_def span_with_id_def
      any_span_def no_metadata_def metadata_check_def fields_check_def no_fields_def checker_finish_def ancestry_expected_def
      expected_span_check_def expected_id_check_def)

end
