(* ===== verification/Attr_Args.thy ===== *)
theory Attr_Args
  imports Rust_Str
begin

text \<open>
  The arguments of \<open>#[instrument]\<close>: \<open>tracing-attributes/src/attr.rs\<close>.

  A stream of tokens is a list in which a group in parentheses or braces is one token. What the \<open>syn\<close> crate parses
  by itself, expressions and paths, is a parameter; so is which words are reserved. Tokens that are left over in a group
  are reported by \<open>syn\<close> once the whole input is read. A parser gives an error, or a result with the tokens that
  remain; loops have fuel, and \<open>None\<close> means that it ran out, which is proved not to happen.
\<close>

subsection \<open>Tokens\<close>

datatype 'e token =
    Word string | LitStr string | LitInt nat | PunctEq | PunctComma | PunctPercent | PunctQuestion | PunctDot
  | Parens "'e token list" | Braces "'e token list" | OtherToken 'e

record 'e syn_lib =
  sn_reserved :: "string \<Rightarrow> bool"
  sn_expr :: "'e token list \<Rightarrow> ('e \<times> 'e token list) option"
  sn_path :: "'e token list \<Rightarrow> ('e \<times> 'e token list) option"

definition syn_lib_ok :: "'e syn_lib \<Rightarrow> bool" where
  "syn_lib_ok sn \<longleftrightarrow>
     (\<forall>ts e rest. sn_expr sn ts = Some (e, rest) \<longrightarrow> length rest < length ts) \<and>
     (\<forall>ts p rest. sn_path sn ts = Some (p, rest) \<longrightarrow> length rest < length ts)"

datatype attr_error =
    OnlyOne string | SkipOrSkipAll | SkippedTwice | UnknownLevel | OneFormat | UnknownFormat | CommaOrParen | SynError

definition attempt :: "attr_error + 'a \<Rightarrow> ('a \<Rightarrow> attr_error + 'b) \<Rightarrow> attr_error + 'b" where
  "attempt r f = (case r of Inl e \<Rightarrow> Inl e | Inr x \<Rightarrow> f x)"

definition syn_result :: "'a option \<Rightarrow> attr_error + 'a" where
  "syn_result r = (case r of Some x \<Rightarrow> Inr x | None \<Rightarrow> Inl SynError)"

subsection \<open>Levels, names and expressions\<close>

datatype 'e attr_level = LvTrace | LvDebug | LvInfo | LvWarn | LvError | LvPath 'e

definition level_of_str :: "string \<Rightarrow> attr_error + 'e attr_level" where
  "level_of_str s =
     (if eq_ignore_ascii_case s ''trace'' then Inr LvTrace
      else if eq_ignore_ascii_case s ''debug'' then Inr LvDebug
      else if eq_ignore_ascii_case s ''info'' then Inr LvInfo
      else if eq_ignore_ascii_case s ''warn'' then Inr LvWarn
      else if eq_ignore_ascii_case s ''error'' then Inr LvError
      else Inl UnknownLevel)"

definition level_of_int :: "nat \<Rightarrow> attr_error + 'e attr_level" where
  "level_of_int n =
     (if n = 1 then Inr LvTrace else if n = 2 then Inr LvDebug else if n = 3 then Inr LvInfo
      else if n = 4 then Inr LvWarn else if n = 5 then Inr LvError else Inl UnknownLevel)"

text \<open>The keyword of an argument and the equals sign.\<close>

definition expect_arg :: "string \<Rightarrow> 'e token list \<Rightarrow> attr_error + 'e token list" where
  "expect_arg kw ts = (case ts of Word k # PunctEq # ts1 \<Rightarrow> if k = kw then Inr ts1 else Inl SynError | _ \<Rightarrow> Inl SynError)"

definition parse_level_value :: "'e syn_lib \<Rightarrow> 'e token list \<Rightarrow> attr_error + ('e attr_level \<times> 'e token list)" where
  "parse_level_value sn ts =
     (case ts of
        LitStr s # rest \<Rightarrow> attempt (level_of_str s) (\<lambda>l. Inr (l, rest))
      | LitInt n # rest \<Rightarrow> attempt (level_of_int n) (\<lambda>l. Inr (l, rest))
      | Word w # _ \<Rightarrow>
          if sn_reserved sn w then Inl SynError
          else attempt (syn_result (sn_path sn ts)) (\<lambda>(p, rest). Inr (LvPath p, rest))
      | _ \<Rightarrow> Inl SynError)"

definition parse_level :: "'e syn_lib \<Rightarrow> 'e token list \<Rightarrow> attr_error + ('e attr_level \<times> 'e token list)" where
  "parse_level sn ts = attempt (expect_arg ''level'' ts) (parse_level_value sn)"

datatype lit_or_ident = NameLit string | NameIdent string

definition parse_lit_or_ident :: "'e syn_lib \<Rightarrow> 'e token list \<Rightarrow> attr_error + (lit_or_ident \<times> 'e token list)" where
  "parse_lit_or_ident sn ts =
     (case ts of
        LitStr s # rest \<Rightarrow> Inr (NameLit s, rest)
      | Word w # rest \<Rightarrow> if sn_reserved sn w then Inl SynError else Inr (NameIdent w, rest)
      | _ \<Rightarrow> Inl SynError)"

definition parse_str_arg :: "'e syn_lib \<Rightarrow> string \<Rightarrow> 'e token list \<Rightarrow> attr_error + (lit_or_ident \<times> 'e token list)" where
  "parse_str_arg sn kw ts = attempt (expect_arg kw ts) (parse_lit_or_ident sn)"

definition parse_expr_arg :: "'e syn_lib \<Rightarrow> string \<Rightarrow> 'e token list \<Rightarrow> attr_error + ('e \<times> 'e token list)" where
  "parse_expr_arg sn kw ts = attempt (expect_arg kw ts) (\<lambda>ts1. syn_result (sn_expr sn ts1))"

subsection \<open>Events\<close>

datatype format_mode = ModeDefault | ModeDisplay | ModeDebug

record 'e event_args =
  ea_level :: "'e attr_level option"
  ea_mode :: format_mode

definition event_args_default :: "'e event_args" where
  "event_args_default = \<lparr>ea_level = None, ea_mode = ModeDefault\<rparr>"

definition event_args_level :: "'e event_args \<Rightarrow> 'e attr_level \<Rightarrow> 'e attr_level" where
  "event_args_level a lv = (case ea_level a of Some l \<Rightarrow> l | None \<Rightarrow> lv)"

definition parse_one_arg ::
  "'e syn_lib \<Rightarrow> 'e token list \<Rightarrow> 'e event_args \<Rightarrow> attr_error + ('e event_args \<times> 'e token list)" where
  "parse_one_arg sn ts a =
     (if ts \<noteq> [] \<and> hd ts = Word ''level'' then
        if ea_level a \<noteq> None then Inl (OnlyOne ''level'')
        else attempt (parse_level sn ts) (\<lambda>(l, rest). Inr (a\<lparr>ea_level := Some l\<rparr>, rest))
      else if ea_mode a \<noteq> ModeDefault then Inl OneFormat
      else
        (case ts of
           Word w # rest \<Rightarrow>
             if sn_reserved sn w then Inr (a, ts)
             else if w = ''Debug'' then Inr (a\<lparr>ea_mode := ModeDebug\<rparr>, rest)
             else if w = ''Display'' then Inr (a\<lparr>ea_mode := ModeDisplay\<rparr>, rest)
             else Inl UnknownFormat
         | _ \<Rightarrow> Inr (a, ts)))"

text \<open>The arguments in parentheses, if there are any; the flag says that tokens are left over there.\<close>

definition parse_event_args :: "'e syn_lib \<Rightarrow> 'e token list \<Rightarrow> attr_error + (('e event_args \<times> bool) \<times> 'e token list)" where
  "parse_event_args sn ts =
     (case ts of
        Parens content # rest \<Rightarrow>
          attempt (parse_one_arg sn content event_args_default) (\<lambda>(a, c1).
            case c1 of
              [] \<Rightarrow> Inr ((a, False), rest)
            | PunctComma # c2 \<Rightarrow> attempt (parse_one_arg sn c2 a) (\<lambda>(a1, c3). Inr ((a1, c3 \<noteq> []), rest))
            | _ \<Rightarrow> Inl CommaOrParen)
      | _ \<Rightarrow> Inr ((event_args_default, False), ts))"

subsection \<open>Skipped parameters and fields\<close>

text \<open>\<open>Punctuated::parse_terminated\<close>: items with commas in between and possibly one at the end.\<close>

fun parse_terminated ::
  "nat \<Rightarrow> ('e token list \<Rightarrow> attr_error + ('a \<times> 'e token list)) \<Rightarrow> 'e token list \<Rightarrow> (attr_error + 'a list) option" where
  "parse_terminated n p [] = Some (Inr [])"
| "parse_terminated 0 p (t # ts) = None"
| "parse_terminated (Suc n) p (t # ts) =
     (case p (t # ts) of
        Inl e \<Rightarrow> Some (Inl e)
      | Inr (x, rest) \<Rightarrow>
          (case rest of
             [] \<Rightarrow> Some (Inr [x])
           | PunctComma # rest1 \<Rightarrow> map_option (\<lambda>r. attempt r (\<lambda>xs. Inr (x # xs))) (parse_terminated n p rest1)
           | _ \<Rightarrow> Some (Inl SynError)))"

definition parse_any_ident :: "'e token list \<Rightarrow> attr_error + (string \<times> 'e token list)" where
  "parse_any_ident ts = (case ts of Word w # rest \<Rightarrow> Inr (w, rest) | _ \<Rightarrow> Inl SynError)"

fun collect_skips :: "string list \<Rightarrow> string list \<Rightarrow> attr_error + string list" where
  "collect_skips seen [] = Inr seen"
| "collect_skips seen (x # xs) = (if x \<in> set seen then Inl SkippedTwice else collect_skips (seen @ [x]) xs)"

text \<open>The keyword of an argument and the group in parentheses that follows it.\<close>

definition expect_parens :: "'e token list \<Rightarrow> attr_error + ('e token list \<times> 'e token list)" where
  "expect_parens ts = (case ts of Word _ # Parens content # rest \<Rightarrow> Inr (content, rest) | _ \<Rightarrow> Inl SynError)"

definition parse_skips :: "'e token list \<Rightarrow> (attr_error + (string list \<times> 'e token list)) option" where
  "parse_skips ts =
     (case expect_parens ts of
        Inl e \<Rightarrow> Some (Inl e)
      | Inr (content, rest) \<Rightarrow>
          map_option (\<lambda>r. attempt r (\<lambda>names. attempt (collect_skips [] names) (\<lambda>skips. Inr (skips, rest))))
            (parse_terminated (length content) parse_any_ident content))"

datatype 'e attr_field_name = NameExpr 'e | NamePath "string list"

datatype field_kind = KindDebug | KindDisplay | KindValue

record 'e attr_field =
  fd_name :: "'e attr_field_name"
  fd_value :: "'e option"
  fd_kind :: field_kind

fun parse_kind :: "field_kind \<Rightarrow> 'e token list \<Rightarrow> field_kind \<times> 'e token list" where
  "parse_kind k (PunctPercent # ts) = (KindDisplay, ts)"
| "parse_kind k (PunctQuestion # ts) = (KindDebug, ts)"
| "parse_kind k ts = (k, ts)"

fun parse_dotted :: "'e token list \<Rightarrow> attr_error + (string list \<times> 'e token list)" where
  "parse_dotted (Word w # PunctDot # ts) = attempt (parse_dotted ts) (\<lambda>(ws, rest). Inr (w # ws, rest))"
| "parse_dotted (Word w # ts) = Inr ([w], ts)"
| "parse_dotted _ = Inl SynError"

text \<open>A name in braces is an expression; the flag says that tokens are left over there.\<close>

definition parse_field_name :: "'e syn_lib \<Rightarrow> 'e token list \<Rightarrow> attr_error + (('e attr_field_name \<times> bool) \<times> 'e token list)" where
  "parse_field_name sn ts =
     (case ts of
        Braces content # rest \<Rightarrow> attempt (syn_result (sn_expr sn content)) (\<lambda>(e, c1). Inr ((NameExpr e, c1 \<noteq> []), rest))
      | _ \<Rightarrow> attempt (parse_dotted ts) (\<lambda>(ws, rest). Inr ((NamePath ws, False), rest)))"

definition parse_field_value :: "'e syn_lib \<Rightarrow> field_kind \<Rightarrow> 'e token list \<Rightarrow> attr_error + (('e option \<times> field_kind) \<times> 'e token list)" where
  "parse_field_value sn kind ts =
     (case ts of
        PunctEq # ts1 \<Rightarrow>
          (let (kind1, ts2) = parse_kind kind ts1 in attempt (syn_result (sn_expr sn ts2)) (\<lambda>(e, rest). Inr ((Some e, kind1), rest)))
      | _ \<Rightarrow> Inr ((None, kind), ts))"

definition parse_field :: "'e syn_lib \<Rightarrow> 'e token list \<Rightarrow> attr_error + (('e attr_field \<times> bool) \<times> 'e token list)" where
  "parse_field sn ts =
     (let (kind, ts1) = parse_kind KindValue ts in
      attempt (parse_field_name sn ts1) (\<lambda>((name, left), ts2).
        attempt (parse_field_value sn kind ts2) (\<lambda>((v, kind1), rest).
          Inr ((\<lparr>fd_name = name, fd_value = v, fd_kind = kind1\<rparr>, left), rest))))"

definition parse_attr_fields :: "'e syn_lib \<Rightarrow> 'e token list \<Rightarrow> (attr_error + (('e attr_field list \<times> bool) \<times> 'e token list)) option" where
  "parse_attr_fields sn ts =
     (case expect_parens ts of
        Inl e \<Rightarrow> Some (Inl e)
      | Inr (content, rest) \<Rightarrow>
          map_option (\<lambda>r. attempt r (\<lambda>flds. Inr ((map fst flds, list_ex snd flds), rest)))
            (parse_terminated (length content) (parse_field sn) content))"

subsection \<open>The arguments\<close>

record 'e instrument_args =
  ia_level :: "'e attr_level option"
  ia_name :: "lit_or_ident option"
  ia_target :: "lit_or_ident option"
  ia_parent :: "'e option"
  ia_follows_from :: "'e option"
  ia_skips :: "string list"
  ia_skip_all :: bool
  ia_fields :: "'e attr_field list option"
  ia_err_args :: "'e event_args option"
  ia_ret_args :: "'e event_args option"
  ia_parse_warnings :: "'e token list"
  ia_left_over :: bool

definition instrument_args_default :: "'e instrument_args" where
  "instrument_args_default =
     \<lparr>ia_level = None, ia_name = None, ia_target = None, ia_parent = None, ia_follows_from = None, ia_skips = [], ia_skip_all = False,
      ia_fields = None, ia_err_args = None, ia_ret_args = None, ia_parse_warnings = [], ia_left_over = False\<rparr>"

definition args_level :: "'e instrument_args \<Rightarrow> 'e attr_level" where
  "args_level a = (case ia_level a of Some l \<Rightarrow> l | None \<Rightarrow> LvInfo)"

text \<open>One round of the loop, first for a word.\<close>

definition parse_keyword ::
  "'e syn_lib \<Rightarrow> string \<Rightarrow> 'e token list \<Rightarrow> 'e instrument_args \<Rightarrow> (attr_error + ('e instrument_args \<times> 'e token list)) option" where
  "parse_keyword sn k rest a =
     (let ts = Word k # rest in
      if k = ''name'' then
        if ia_name a \<noteq> None then Some (Inl (OnlyOne ''name''))
        else Some (attempt (parse_str_arg sn ''name'' ts) (\<lambda>(n, r). Inr (a\<lparr>ia_name := Some n\<rparr>, r)))
      else if k = ''target'' then
        if ia_target a \<noteq> None then Some (Inl (OnlyOne ''target''))
        else Some (attempt (parse_str_arg sn ''target'' ts) (\<lambda>(n, r). Inr (a\<lparr>ia_target := Some n\<rparr>, r)))
      else if k = ''parent'' then
        if ia_target a \<noteq> None then Some (Inl (OnlyOne ''parent''))
        else Some (attempt (parse_expr_arg sn ''parent'' ts) (\<lambda>(e, r). Inr (a\<lparr>ia_parent := Some e\<rparr>, r)))
      else if k = ''follows_from'' then
        if ia_target a \<noteq> None then Some (Inl (OnlyOne ''follows_from''))
        else Some (attempt (parse_expr_arg sn ''follows_from'' ts) (\<lambda>(e, r). Inr (a\<lparr>ia_follows_from := Some e\<rparr>, r)))
      else if k = ''level'' then
        if ia_level a \<noteq> None then Some (Inl (OnlyOne ''level''))
        else Some (attempt (parse_level sn ts) (\<lambda>(l, r). Inr (a\<lparr>ia_level := Some l\<rparr>, r)))
      else if k = ''skip'' then
        if ia_skips a \<noteq> [] then Some (Inl (OnlyOne ''skip''))
        else if ia_skip_all a then Some (Inl SkipOrSkipAll)
        else map_option (\<lambda>res. attempt res (\<lambda>(skips, r). Inr (a\<lparr>ia_skips := skips\<rparr>, r))) (parse_skips ts)
      else if k = ''skip_all'' then
        if ia_skip_all a then Some (Inl (OnlyOne ''skip_all''))
        else if ia_skips a \<noteq> [] then Some (Inl SkipOrSkipAll)
        else Some (Inr (a\<lparr>ia_skip_all := True\<rparr>, rest))
      else if k = ''fields'' then
        if ia_fields a \<noteq> None then Some (Inl (OnlyOne ''fields''))
        else map_option (\<lambda>res. attempt res (\<lambda>((flds, left), r).
          Inr (a\<lparr>ia_fields := Some flds, ia_left_over := ia_left_over a \<or> left\<rparr>, r))) (parse_attr_fields sn ts)
      else if k = ''err'' then
        Some (attempt (parse_event_args sn rest) (\<lambda>((ea, left), r).
          Inr (a\<lparr>ia_err_args := Some ea, ia_left_over := ia_left_over a \<or> left\<rparr>, r)))
      else if k = ''ret'' then
        Some (attempt (parse_event_args sn rest) (\<lambda>((ea, left), r).
          Inr (a\<lparr>ia_ret_args := Some ea, ia_left_over := ia_left_over a \<or> left\<rparr>, r)))
      else Some (Inr (a\<lparr>ia_parse_warnings := ia_parse_warnings a @ [Word k]\<rparr>, rest)))"

definition parse_arg ::
  "'e syn_lib \<Rightarrow> 'e token \<Rightarrow> 'e token list \<Rightarrow> 'e instrument_args \<Rightarrow> (attr_error + ('e instrument_args \<times> 'e token list)) option" where
  "parse_arg sn t rest a =
     (case t of
        Word k \<Rightarrow> parse_keyword sn k rest a
      | LitStr s \<Rightarrow>
          if ia_name a \<noteq> None then Some (Inl (OnlyOne ''name'')) else Some (Inr (a\<lparr>ia_name := Some (NameLit s)\<rparr>, rest))
      | PunctComma \<Rightarrow> Some (Inr (a, rest))
      | _ \<Rightarrow> Some (Inr (a\<lparr>ia_parse_warnings := ia_parse_warnings a @ [t]\<rparr>, rest)))"

fun parse_args_loop :: "nat \<Rightarrow> 'e syn_lib \<Rightarrow> 'e token list \<Rightarrow> 'e instrument_args \<Rightarrow> (attr_error + 'e instrument_args) option" where
  "parse_args_loop n sn [] a = Some (Inr a)"
| "parse_args_loop 0 sn (t # ts) a = None"
| "parse_args_loop (Suc n) sn (t # ts) a =
     (case parse_arg sn t ts a of
        None \<Rightarrow> None
      | Some (Inl e) \<Rightarrow> Some (Inl e)
      | Some (Inr (a1, rest)) \<Rightarrow> parse_args_loop n sn rest a1)"

definition instrument_args_parse :: "'e syn_lib \<Rightarrow> 'e token list \<Rightarrow> (attr_error + 'e instrument_args) option" where
  "instrument_args_parse sn ts =
     map_option (\<lambda>r. attempt r (\<lambda>a. if ia_left_over a then Inl SynError else Inr a))
       (parse_args_loop (length ts) sn ts instrument_args_default)"

subsection \<open>Parsing ends\<close>

lemma attempt_simps [simp]: "attempt (Inl e) f = Inl e" "attempt (Inr x) f = f x"
  by (simp_all add: attempt_def)

lemma attempt_Inr: "attempt r f = Inr y \<longleftrightarrow> (\<exists>x. r = Inr x \<and> f x = Inr y)"
  by (simp add: attempt_def split: sum.split)

lemma syn_result_Inr: "syn_result r = Inr x \<longleftrightarrow> r = Some x"
  by (simp add: syn_result_def split: option.split)

lemmas parsed_simps = attempt_Inr syn_result_Inr

text \<open>A result leaves at most \<open>n\<close> tokens.\<close>

definition leaves :: "nat \<Rightarrow> attr_error + ('a \<times> 'e token list) \<Rightarrow> bool" where
  "leaves n r \<longleftrightarrow> (case r of Inl _ \<Rightarrow> True | Inr (_, rest) \<Rightarrow> length rest \<le> n)"

lemma leaves_simps [simp]: "leaves n (Inl e)" "leaves n (Inr (x, rest)) \<longleftrightarrow> length rest \<le> n"
  by (simp_all add: leaves_def)

lemma leaves_attempt:
  "leaves n r \<Longrightarrow> (\<And>x rest. length rest \<le> n \<Longrightarrow> leaves n (f (x, rest))) \<Longrightarrow> leaves n (attempt r f)"
  by (auto simp: attempt_def split: sum.split)

lemma leaves_mono: "leaves m r \<Longrightarrow> m \<le> n \<Longrightarrow> leaves n r"
  by (auto simp: leaves_def split: sum.splits)

lemma leaves_syn:
  "syn_lib_ok sn \<Longrightarrow> length ts \<le> Suc n \<Longrightarrow> leaves n (syn_result (sn_expr sn ts))"
  "syn_lib_ok sn \<Longrightarrow> length ts \<le> Suc n \<Longrightarrow> leaves n (syn_result (sn_path sn ts))"
  unfolding syn_lib_ok_def syn_result_def by (auto split: option.split) fastforce+

lemma parse_terminated_returns:
  assumes "\<And>ts. leaves (length ts) (p ts)"
  shows "length ts \<le> n \<Longrightarrow> \<exists>r. parse_terminated n p ts = Some r"
proof (induction n arbitrary: ts)
  case (Suc n)
  show ?case
  proof (cases ts)
    case (Cons t ts')
    have "\<exists>r. parse_terminated n p rest1 = Some r" if "p ts = Inr (x, PunctComma # rest1)" for x rest1
      using Suc.IH [of rest1] assms [of ts] that Suc.prems by simp
    then show ?thesis using Cons by (auto split: sum.split list.split token.split)
  qed simp
qed simp

lemma expect_arg_rest: "expect_arg kw (t # ts) = Inr rest \<Longrightarrow> length rest < length ts"
  by (cases t; cases ts; (cases "hd ts")?) (auto simp: expect_arg_def split: if_splits)

lemma expect_arg_leaves:
  assumes "\<And>rest. length rest < length ts \<Longrightarrow> leaves (length ts) (f rest)"
  shows "leaves (length ts) (attempt (expect_arg kw (t # ts)) f)"
  using assms by (auto simp: attempt_def dest: expect_arg_rest split: sum.split)

lemma parse_level_leaves:
  assumes "syn_lib_ok sn"
  shows "leaves (length ts) (parse_level sn (t # ts))"
  unfolding parse_level_def
proof (rule expect_arg_leaves)
  fix us :: "'a token list" assume short: "length us < length ts"
  then have "leaves (length ts) (attempt (syn_result (sn_path sn us)) (\<lambda>(p, rest). Inr (LvPath p, rest)))"
    by (intro leaves_attempt leaves_syn(2) [OF assms]) simp_all
  with short show "leaves (length ts) (parse_level_value sn us)"
    by (cases us; (cases "hd us")?) (auto simp: parse_level_value_def attempt_def split: sum.split)
qed

lemma parse_str_arg_leaves: "leaves (length ts) (parse_str_arg sn kw (t # ts))"
  unfolding parse_str_arg_def
proof (rule expect_arg_leaves)
  fix us :: "'a token list" assume "length us < length ts"
  then show "leaves (length ts) (parse_lit_or_ident sn us)"
    by (cases us; (cases "hd us")?) (auto simp: parse_lit_or_ident_def)
qed

lemma parse_expr_arg_leaves: "syn_lib_ok sn \<Longrightarrow> leaves (length ts) (parse_expr_arg sn kw (t # ts))"
  unfolding parse_expr_arg_def by (rule expect_arg_leaves) (simp add: leaves_syn)

lemma parse_event_args_leaves: "leaves (length ts) (parse_event_args sn ts)"
proof (cases ts)
  case (Cons t ts')
  have "leaves (Suc (length ts')) (case c1 of [] \<Rightarrow> Inr ((a, False), ts')
      | PunctComma # c2 \<Rightarrow> attempt (parse_one_arg sn c2 a) (\<lambda>(a1, c3). Inr ((a1, c3 \<noteq> []), ts')) | _ \<Rightarrow> Inl CommaOrParen)"
    for a and c1 :: "'a token list"
    by (cases c1; (cases "hd c1")?) (auto simp: attempt_def split: sum.split)
  then have "leaves (Suc (length ts')) (parse_event_args sn (Parens content # ts'))" for content
    by (simp add: parse_event_args_def attempt_def split: sum.split)
  then show ?thesis using Cons by (cases t) (simp_all add: parse_event_args_def)
qed (simp add: parse_event_args_def)

lemma parse_dotted_leaves: "leaves (length ts) (parse_dotted ts)"
  by (induction ts rule: parse_dotted.induct) (auto intro!: leaves_attempt elim: leaves_mono)

lemma parse_kind_shorter: "length (snd (parse_kind k ts)) \<le> length ts"
  by (induction k ts rule: parse_kind.induct) auto

lemma parse_field_leaves:
  assumes "syn_lib_ok sn"
  shows "leaves (length ts) (parse_field sn ts)"
proof -
  obtain kind ts1 where ts1: "parse_kind KindValue ts = (kind, ts1)" by fastforce
  then have "length ts1 \<le> length ts" using parse_kind_shorter [of KindValue ts] by simp
  moreover have name: "leaves (length us) (parse_field_name sn us)" for us
    using parse_dotted_leaves [of us]
    by (cases us; (cases "hd us")?) (auto simp: parse_field_name_def attempt_def split: sum.splits)
  have "leaves (length us) (parse_field_value sn kind us)" for us
  proof (cases us)
    case (Cons u us')
    have "leaves (length us) (attempt (syn_result (sn_expr sn us2)) (\<lambda>(e, rest). Inr ((Some e, kind1), rest)))"
      if "parse_kind kind us' = (kind1, us2)" for kind1 us2
      using parse_kind_shorter [of kind us'] that Cons by (intro leaves_attempt [OF leaves_syn(1) [OF assms]]) simp_all
    then show ?thesis using Cons by (cases u) (auto simp: parse_field_value_def split: prod.split)
  qed (simp add: parse_field_value_def)
  then have "leaves n (parse_field_value sn kind us)" if "length us \<le> n" for us n using leaves_mono that by blast
  ultimately show ?thesis unfolding parse_field_def Let_def ts1
    by (auto intro!: leaves_attempt intro: leaves_mono [OF name])
qed

text \<open>A round does not run out of fuel, and consumes the token it looks at unless it reports an error.\<close>

definition proceeds :: "nat \<Rightarrow> (attr_error + ('a \<times> 'e token list)) option \<Rightarrow> bool" where
  "proceeds n r \<longleftrightarrow> (case r of None \<Rightarrow> False | Some x \<Rightarrow> leaves n x)"

lemma proceeds_intros:
  "leaves n x \<Longrightarrow> proceeds n (Some x)"
  "(b \<Longrightarrow> proceeds n r1) \<Longrightarrow> (\<not> b \<Longrightarrow> proceeds n r2) \<Longrightarrow> proceeds n (if b then r1 else r2)"
  "proceeds n r \<Longrightarrow> (\<And>x rest. length rest \<le> n \<Longrightarrow> leaves n (f (x, rest))) \<Longrightarrow> proceeds n (map_option (\<lambda>res. attempt res f) r)"
  by (auto simp: proceeds_def intro: leaves_attempt split: option.splits)

lemma expect_parens_rest: "expect_parens (t # ts) = Inr (content, rest) \<Longrightarrow> length rest < length ts"
  by (cases t; cases ts; (cases "hd ts")?) (auto simp: expect_parens_def)

lemma group_proceeds:
  assumes "\<And>us. leaves (length us) (p us)"
  shows "proceeds (length ts) (case expect_parens (t # ts) of Inl e \<Rightarrow> Some (Inl e)
    | Inr (content, rest) \<Rightarrow> map_option (\<lambda>r. attempt r (\<lambda>xs. attempt (g xs) (\<lambda>y. Inr (y, rest)))) (parse_terminated (length content) p content))"
proof (cases "expect_parens (t # ts)")
  case (Inr x)
  obtain content rest where x: "x = (content, rest)" by fastforce
  obtain r where "parse_terminated (length content) p content = Some r" using parse_terminated_returns [of p, OF assms order_refl] by blast
  then show ?thesis using expect_parens_rest [of t ts content rest] Inr x
    by (auto simp: proceeds_def attempt_def split: sum.splits)
qed (simp add: proceeds_def)

lemma parse_skips_proceeds: "proceeds (length ts) (parse_skips (t # ts))"
proof -
  have "leaves (length us) (parse_any_ident us)" for us :: "'a token list"
    by (cases us; (cases "hd us")?) (simp_all add: parse_any_ident_def)
  then show ?thesis unfolding parse_skips_def by (rule group_proceeds)
qed

lemma parse_attr_fields_proceeds:
  assumes "syn_lib_ok sn"
  shows "proceeds (length ts) (parse_attr_fields sn (t # ts))"
  using group_proceeds [OF parse_field_leaves [OF assms], where ts = ts and t = t and g = "\<lambda>flds. Inr (map fst flds, list_ex snd flds)"]
  unfolding parse_attr_fields_def attempt_simps .

lemma parse_arg_proceeds:
  assumes "syn_lib_ok sn"
  shows "proceeds (length ts) (parse_arg sn t ts a)"
proof -
  have "proceeds (length ts) (parse_keyword sn k ts a)" for k
    unfolding parse_keyword_def Let_def
    by (intro proceeds_intros leaves_attempt parse_str_arg_leaves parse_expr_arg_leaves parse_level_leaves parse_event_args_leaves
        parse_skips_proceeds parse_attr_fields_proceeds assms) auto
  then show ?thesis by (cases t) (auto simp: parse_arg_def proceeds_def)
qed

text \<open>Parsing the arguments of the attribute always ends: the number of tokens is enough fuel.\<close>

lemma instrument_args_parse_returns:
  assumes "syn_lib_ok sn"
  shows "\<exists>r. instrument_args_parse sn ts = Some r"
proof -
  have "\<exists>r. parse_args_loop n sn us a = Some r" if "length us \<le> n" for n us a
    using that
  proof (induction n arbitrary: us a)
    case (Suc n)
    show ?case
    proof (cases us)
      case (Cons u us')
      obtain r where r: "parse_arg sn u us' a = Some r" "leaves (length us') r"
        using parse_arg_proceeds [OF assms, of us' u a] by (auto simp: proceeds_def split: option.splits)
      then show ?thesis using Cons Suc by (cases r) auto
    qed simp
  qed simp
  then show ?thesis by (auto simp: instrument_args_parse_def)
qed

subsection \<open>What an accepted attribute says\<close>

text \<open>No parameter is skipped twice, and \<open>skip\<close> and \<open>skip_all\<close> exclude each other.\<close>

definition args_ok :: "'e instrument_args \<Rightarrow> bool" where
  "args_ok a \<longleftrightarrow> distinct (ia_skips a) \<and> (ia_skip_all a \<longrightarrow> ia_skips a = [])"

lemma args_ok_update [simp]:
  "args_ok (a\<lparr>ia_name := n\<rparr>) = args_ok a" "args_ok (a\<lparr>ia_target := n\<rparr>) = args_ok a" "args_ok (a\<lparr>ia_parent := p\<rparr>) = args_ok a"
  "args_ok (a\<lparr>ia_follows_from := p\<rparr>) = args_ok a" "args_ok (a\<lparr>ia_level := l\<rparr>) = args_ok a" "args_ok (a\<lparr>ia_fields := f\<rparr>) = args_ok a"
  "args_ok (a\<lparr>ia_err_args := e\<rparr>) = args_ok a" "args_ok (a\<lparr>ia_ret_args := e\<rparr>) = args_ok a" "args_ok (a\<lparr>ia_left_over := b\<rparr>) = args_ok a"
  "args_ok (a\<lparr>ia_parse_warnings := w\<rparr>) = args_ok a"
  by (simp_all add: args_ok_def)

lemma collect_skips_distinct: "collect_skips seen xs = Inr ys \<Longrightarrow> distinct seen \<Longrightarrow> distinct ys"
  by (induction seen xs rule: collect_skips.induct) (auto split: if_splits)

lemma parse_skips_distinct: "parse_skips ts = Some (Inr (skips, rest)) \<Longrightarrow> distinct skips"
  by (auto simp: parse_skips_def attempt_Inr dest: collect_skips_distinct [where seen = "[]", simplified] split: sum.splits)

lemma parse_keyword_ok: "parse_keyword sn k rest a = Some (Inr (a1, r)) \<Longrightarrow> args_ok a \<Longrightarrow> args_ok a1"
  unfolding parse_keyword_def Let_def
  by (auto simp: attempt_Inr args_ok_def dest: parse_skips_distinct split: if_splits)

lemma parse_arg_ok: "parse_arg sn t rest a = Some (Inr (a1, r)) \<Longrightarrow> args_ok a \<Longrightarrow> args_ok a1"
  by (auto simp: parse_arg_def dest: parse_keyword_ok split: token.splits if_splits)

lemma parse_args_loop_ok: "parse_args_loop n sn ts a = Some (Inr a1) \<Longrightarrow> args_ok a \<Longrightarrow> args_ok a1"
  by (induction n sn ts a rule: parse_args_loop.induct) (auto dest: parse_arg_ok split: option.splits sum.splits)

lemma instrument_args_parse_ok: "instrument_args_parse sn ts = Some (Inr a) \<Longrightarrow> args_ok a"
  by (auto simp: instrument_args_parse_def attempt_Inr instrument_args_default_def args_ok_def
      dest: parse_args_loop_ok split: if_splits)

subsection \<open>Edges\<close>

text \<open>
  The guards against a second \<open>parent\<close> or \<open>follows_from\<close> look at \<open>target\<close>: a target in front of a parent is refused as a
  second parent, and a second parent silently replaces the first.
\<close>

theorem target_before_parent:
  "instrument_args_parse sn ([Word ''target'', PunctEq, LitStr s, PunctComma, Word ''parent''] @ ts) = Some (Inl (OnlyOne ''parent''))"
  by (simp add: instrument_args_parse_def parse_arg_def parse_keyword_def parse_str_arg_def expect_arg_def parse_lit_or_ident_def attempt_def
      instrument_args_default_def)

theorem parent_twice:
  assumes "sn_expr sn [OtherToken x, PunctComma, Word ''parent'', PunctEq, OtherToken y] = Some (x, [PunctComma, Word ''parent'', PunctEq, OtherToken y])"
    and "sn_expr sn [OtherToken y] = Some (y, [])"
  shows "\<exists>a. instrument_args_parse sn [Word ''parent'', PunctEq, OtherToken x, PunctComma, Word ''parent'', PunctEq, OtherToken y] = Some (Inr a) \<and>
    ia_parent a = Some y"
  using assms by (simp add: instrument_args_parse_def parse_arg_def parse_keyword_def parse_expr_arg_def expect_arg_def syn_result_def attempt_def
      instrument_args_default_def)

end
