(* ===== verification/Attr_Expand.thy ===== *)
theory Attr_Expand
  imports Attr_Args
begin

text \<open>
  What \<open>#[instrument]\<close> generates: \<open>tracing-attributes/src/expand.rs\<close> and \<open>lib.rs\<close>.

  The syntax trees of \<open>syn\<close> are modelled as far as the code looks into them. The result is the calls that are put
  around the body: the invocation of \<open>span!\<close> with its fields, and those of \<open>event!\<close> for a returned value or error.
\<close>

subsection \<open>Parameters\<close>

datatype 'e ty = TyPath "string list" | TyReference "'e ty" | TyOther 'e

datatype record_type = RecordValue | RecordDebug

definition TYPES_FOR_VALUE :: "string list" where
  "TYPES_FOR_VALUE =
     [''bool'', ''str'', ''u8'', ''i8'', ''u16'', ''i16'', ''u32'', ''i32'', ''u64'', ''i64'', ''u128'', ''i128'', ''f32'', ''f64'',
      ''usize'', ''isize'', ''String'', ''NonZeroU8'', ''NonZeroI8'', ''NonZeroU16'', ''NonZeroI16'', ''NonZeroU32'', ''NonZeroI32'',
      ''NonZeroU64'', ''NonZeroI64'', ''NonZeroU128'', ''NonZeroI128'', ''NonZeroUsize'', ''NonZeroIsize'', ''Wrapping'']"

fun parse_from_ty :: "'e ty \<Rightarrow> record_type" where
  "parse_from_ty (TyPath segments) =
     (if segments \<noteq> [] \<and> last segments \<in> set TYPES_FOR_VALUE then RecordValue else RecordDebug)"
| "parse_from_ty (TyReference ty) = parse_from_ty ty"
| "parse_from_ty (TyOther _) = RecordDebug"

datatype pat = PatIdent string | PatReference pat | PatStruct "pat list" | PatTuple "pat list" | PatTupleStruct "pat list" | PatOther

fun param_names :: "pat \<Rightarrow> record_type \<Rightarrow> (string \<times> record_type) list" where
  "param_names (PatIdent x) k = [(x, k)]"
| "param_names (PatReference p) k = param_names p k"
| "param_names (PatStruct ps) k = concat (map (\<lambda>p. param_names p RecordDebug) ps)"
| "param_names (PatTuple ps) k = concat (map (\<lambda>p. param_names p RecordDebug) ps)"
| "param_names (PatTupleStruct ps) k = concat (map (\<lambda>p. param_names p RecordDebug) ps)"
| "param_names PatOther k = []"

datatype 'e fn_arg = Typed pat "'e ty" | Receiver

definition arg_names :: "'e fn_arg \<Rightarrow> (string \<times> record_type) list" where
  "arg_names arg = (case arg of Typed p ty \<Rightarrow> param_names p (parse_from_ty ty) | Receiver \<Rightarrow> [(''self'', RecordDebug)])"

text \<open>The name the user knows a parameter by, its name in the code, and how it is recorded.\<close>

definition named_params :: "bool \<Rightarrow> 'e fn_arg list \<Rightarrow> (string \<times> string \<times> record_type) list" where
  "named_params has_self_type params =
     map (\<lambda>(x, k). if has_self_type \<and> x = ''_self'' then (''self'', x, k) else (x, x, k))
       (concat (map arg_names params))"

subsection \<open>The span\<close>

definition field_hides :: "'e attr_field \<Rightarrow> string \<Rightarrow> bool" where
  "field_hides fld param =
     (case fd_name fld of
        NameExpr _ \<Rightarrow> False
      | NamePath ws \<Rightarrow> ws \<noteq> [] \<and> hd ws = last ws \<and> hd ws = param)"

definition keep_param :: "'e instrument_args \<Rightarrow> string \<Rightarrow> bool" where
  "keep_param a param \<longleftrightarrow>
     (if ia_skip_all a \<or> param \<in> set (ia_skips a) then False
      else (case ia_fields a of Some flds \<Rightarrow> list_all (\<lambda>fld. \<not> field_hides fld param) flds | None \<Rightarrow> True))"

definition quoted_fields :: "'e instrument_args \<Rightarrow> (string \<times> string \<times> record_type) list \<Rightarrow> (string \<times> string \<times> record_type) list" where
  "quoted_fields a ps = filter (\<lambda>(user, _). keep_param a user) ps"

text \<open>\<open>IdentAndTypesRenamer\<close>; how an expression is traversed is \<open>syn\<close>'s.\<close>

fun rename_ident :: "(string \<times> string) list \<Rightarrow> string \<Rightarrow> string" where
  "rename_ident [] x = x"
| "rename_ident ((old, new) # rs) x = rename_ident rs (if x = old then new else x)"

definition path_to_string :: "string list \<Rightarrow> string" where
  "path_to_string segments = join_with ''::'' segments"

fun rename_type :: "(string \<times> string list) list \<Rightarrow> string list \<Rightarrow> string list" where
  "rename_type [] path = path"
| "rename_type ((name, new) # rs) path = rename_type rs (if path_to_string path = name then new else path)"

type_synonym 'e renamer = "(string \<Rightarrow> string) \<Rightarrow> (string list \<Rightarrow> string list) \<Rightarrow> 'e \<Rightarrow> 'e"

text \<open>A custom field without a value is empty, unless it is to be displayed or debugged.\<close>

datatype 'e field_tokens = FieldIs "'e attr_field_name" field_kind 'e | FieldEmpty "'e attr_field_name" | FieldShort field_kind "'e attr_field_name"

definition field_to_tokens :: "'e attr_field \<Rightarrow> 'e field_tokens" where
  "field_to_tokens fld =
     (case fd_value fld of
        Some v \<Rightarrow> FieldIs (fd_name fld) (fd_kind fld) v
      | None \<Rightarrow> if fd_kind fld = KindValue then FieldEmpty (fd_name fld) else FieldShort (fd_kind fld) (fd_name fld))"

record 'e span_call =
  sc_target :: "lit_or_ident option"
  sc_parent :: "'e option"
  sc_level :: "'e attr_level"
  sc_name :: lit_or_ident
  sc_params :: "(string \<times> string \<times> record_type) list"
  sc_custom :: "'e field_tokens list"

text \<open>\<open>None\<close> is the \<open>compile_error!\<close> for skipping a parameter that does not exist; a missing target is the module's path.\<close>

definition gen_span ::
  "'e renamer \<Rightarrow> 'e fn_arg list \<Rightarrow> 'e instrument_args \<Rightarrow> string \<Rightarrow> string list option \<Rightarrow> 'e span_call option" where
  "gen_span rename_expr params a fn_name self_type =
     (let ps = named_params (self_type \<noteq> None) params;
          idents = map (\<lambda>(u, r, _). (u, r)) ps;
          types = (case self_type of Some ty \<Rightarrow> [(''Self'', ty)] | None \<Rightarrow> []);
          rename = (\<lambda>fld. fld\<lparr>fd_value := map_option (rename_expr (rename_ident idents) (rename_type types)) (fd_value fld)\<rparr>)
      in if list_ex (\<lambda>skip. \<not> list_ex (\<lambda>(user, _). user = skip) ps) (ia_skips a) then None
         else Some
           \<lparr>sc_target = ia_target a, sc_parent = ia_parent a, sc_level = args_level a,
            sc_name = (case ia_name a of Some n \<Rightarrow> n | None \<Rightarrow> NameLit fn_name),
            sc_params = quoted_fields a ps,
            sc_custom = (case ia_fields a of Some flds \<Rightarrow> map (\<lambda>fld. field_to_tokens (rename fld)) flds | None \<Rightarrow> [])\<rparr>)"

subsection \<open>Events and the body\<close>

record 'e event_call =
  ec_target :: "lit_or_ident option"
  ec_level :: "'e attr_level"
  ec_field :: string
  ec_display :: bool

definition gen_err_event :: "'e instrument_args \<Rightarrow> 'e event_call option" where
  "gen_err_event a =
     map_option (\<lambda>ea. \<lparr>ec_target = ia_target a, ec_level = event_args_level ea LvError, ec_field = ''error'', ec_display = ea_mode ea \<noteq> ModeDebug\<rparr>)
       (ia_err_args a)"

definition gen_ret_event :: "'e instrument_args \<Rightarrow> 'e event_call option" where
  "gen_ret_event a =
     map_option (\<lambda>ea. \<lparr>ec_target = ia_target a, ec_level = event_args_level ea (args_level a), ec_field = ''return'', ec_display = ea_mode ea = ModeDisplay\<rparr>)
       (ia_ret_args a)"

record 'e generated =
  gn_async :: bool
  gn_span :: "'e span_call option"
  gn_follows_from :: "'e option"
  gn_err :: "'e event_call option"
  gn_ret :: "'e event_call option"

definition gen_block ::
  "'e renamer \<Rightarrow> 'e fn_arg list \<Rightarrow> bool \<Rightarrow> 'e instrument_args \<Rightarrow> string \<Rightarrow> string list option \<Rightarrow> 'e generated" where
  "gen_block rename_expr params async_context a fn_name self_type =
     \<lparr>gn_async = async_context, gn_span = gen_span rename_expr params a fn_name self_type, gn_follows_from = ia_follows_from a,
      gn_err = gen_err_event a, gn_ret = gen_ret_event a\<rparr>"

text \<open>
  What the generated function does with the result of its body, which is an error or not: the event it emits. With
  \<open>err\<close> the result is taken apart, so that \<open>ret\<close> concerns successful results only.
\<close>

definition result_event :: "'e generated \<Rightarrow> bool \<Rightarrow> 'e event_call option" where
  "result_event g is_err =
     (case gn_err g of
        Some ev \<Rightarrow> if is_err then Some ev else gn_ret g
      | None \<Rightarrow> gn_ret g)"

text \<open>
  What the generated function does with its span before the body runs, given whether the level of the span is enabled,
  whether the \<open>log\<close> crate wants it, and whether the span it gets is disabled. The body of an asynchronous function is
  awaited inside of its span by \<open>Instrument\<close>; a function that is not asynchronous enters the span.
\<close>

datatype 'e span_action = CreateSpan "'e span_call option" | FollowFrom 'e | EnterSpan | InstrumentFuture

definition span_actions :: "'e generated \<Rightarrow> bool \<Rightarrow> bool \<Rightarrow> bool \<Rightarrow> 'e span_action list" where
  "span_actions g level_enabled log_enabled span_disabled =
     (let follow = (case gn_follows_from g of Some e \<Rightarrow> [FollowFrom e] | None \<Rightarrow> []) in
      if gn_async g then
        CreateSpan (gn_span g) # (if \<not> span_disabled then follow @ [InstrumentFuture] else [])
      else if level_enabled \<or> log_enabled then CreateSpan (gn_span g) # follow @ [EnterSpan]
      else [])"

subsection \<open>Functions that return a future\<close>

datatype 'e stmt_expr = ExprAsync 'e | ExprCall "'e stmt_expr" "'e stmt_expr list" | ExprPath "string list" | ExprOther 'e

text \<open>A function inside has its body, a statement that is an expression may end with a semicolon.\<close>

datatype 'e stmt = StmtFn bool string "'e fn_arg list" 'e | StmtExpr "'e stmt_expr" bool | StmtOther 'e

datatype 'e async_kind = AsyncFunction string "'e fn_arg list" 'e | AsyncBlock 'e bool

record 'e async_info =
  ai_source_stmt :: "'e stmt"
  ai_kind :: "'e async_kind"
  ai_self_type :: "string list option"

text \<open>The type of the parameter \<open>_self\<close>, without a reference: the first one that is a path.\<close>

fun find_self_type :: "'e fn_arg list \<Rightarrow> string list option" where
  "find_self_type [] = None"
| "find_self_type (Typed (PatIdent x) ty # as) =
     (if x = ''_self''
      then (case (case ty of TyReference t \<Rightarrow> t | t \<Rightarrow> t) of TyPath p \<Rightarrow> Some p | _ \<Rightarrow> find_self_type as)
      else find_self_type as)"
| "find_self_type (_ # as) = find_self_type as"

fun find_async_fn :: "string \<Rightarrow> 'e stmt list \<Rightarrow> ('e fn_arg list \<times> 'e) option" where
  "find_async_fn name [] = None"
| "find_async_fn name (StmtFn is_async x params body # ss) =
     (if is_async \<and> x = name then Some (params, body) else find_async_fn name ss)"
| "find_async_fn name (_ # ss) = find_async_fn name ss"

fun last_expr :: "'e stmt list \<Rightarrow> ('e stmt_expr \<times> bool) option" where
  "last_expr [] = None"
| "last_expr (s # ss) =
     (case last_expr ss of Some e \<Rightarrow> Some e | None \<Rightarrow> (case s of StmtExpr e semi \<Rightarrow> Some (e, semi) | _ \<Rightarrow> None))"

definition async_info_from_fn :: "bool \<Rightarrow> 'e stmt list \<Rightarrow> 'e async_info option" where
  "async_info_from_fn is_async stmts =
     (if is_async then None
      else
        (case last_expr stmts of
           Some (ExprAsync b, semi) \<Rightarrow>
             Some \<lparr>ai_source_stmt = StmtExpr (ExprAsync b) semi, ai_kind = AsyncBlock b False, ai_self_type = None\<rparr>
         | Some (ExprCall (ExprPath path) args, semi) \<Rightarrow>
             if \<not> ends_with (path_to_string path) ''Box::pin'' then None
             else
               (case args of
                  ExprAsync b # _ \<Rightarrow>
                    Some \<lparr>ai_source_stmt = StmtExpr (ExprCall (ExprPath path) args) semi, ai_kind = AsyncBlock b True, ai_self_type = None\<rparr>
                | ExprCall (ExprPath fpath) _ # _ \<Rightarrow>
                    (let name = path_to_string fpath in
                     map_option (\<lambda>(params, body).
                         \<lparr>ai_source_stmt = StmtFn True name params body, ai_kind = AsyncFunction name params body,
                          ai_self_type = find_self_type params\<rparr>)
                       (find_async_fn name stmts))
                | _ \<Rightarrow> None)
         | _ \<Rightarrow> None))"

text \<open>What the expansion of a function is: a refusal, the function's own body instrumented, or one of its statements replaced.\<close>

datatype 'e expansion = ConstRefused | WholeFn "'e generated" | InnerFn nat "'e generated" | InnerBlock nat bool "'e generated" | Unchanged

fun find_pos :: "'a \<Rightarrow> 'a list \<Rightarrow> nat option" where
  "find_pos x [] = None"
| "find_pos x (y # ys) = (if y = x then Some 0 else map_option Suc (find_pos x ys))"

definition gen_async ::
  "'e renamer \<Rightarrow> 'e fn_arg list \<Rightarrow> 'e stmt list \<Rightarrow> 'e async_info \<Rightarrow> 'e instrument_args \<Rightarrow> string \<Rightarrow> 'e expansion" where
  "gen_async rename_expr params stmts ai a fn_name =
     (case find_pos (ai_source_stmt ai) stmts of
        None \<Rightarrow> Unchanged
      | Some i \<Rightarrow>
          (case ai_kind ai of
             AsyncFunction f inner body \<Rightarrow> InnerFn i (gen_block rename_expr inner True a fn_name (ai_self_type ai))
           | AsyncBlock b pinned \<Rightarrow> InnerBlock i pinned (gen_block rename_expr params True a fn_name None)))"

definition instrument_precise ::
  "'e renamer \<Rightarrow> bool \<Rightarrow> bool \<Rightarrow> string \<Rightarrow> 'e fn_arg list \<Rightarrow> 'e stmt list \<Rightarrow> 'e instrument_args \<Rightarrow> 'e expansion" where
  "instrument_precise rename_expr is_const is_async fn_name params stmts a =
     (if is_const then ConstRefused
      else
        (case async_info_from_fn is_async stmts of
           Some ai \<Rightarrow> gen_async rename_expr params stmts ai a fn_name
         | None \<Rightarrow> WholeFn (gen_block rename_expr params is_async a fn_name None)))"

subsection \<open>Which parameters become fields\<close>

lemma keep_param_iff:
  "keep_param a x \<longleftrightarrow> \<not> ia_skip_all a \<and> x \<notin> set (ia_skips a) \<and>
     (\<forall>flds. ia_fields a = Some flds \<longrightarrow> (\<forall>fld \<in> set flds. \<not> field_hides fld x))"
  by (auto simp: keep_param_def list_all_iff split: option.splits)

lemma instrument_fields_spec:
  assumes "gen_span rn params a fn_name None = Some sc"
  shows "(x, y, k) \<in> set (sc_params sc) \<longleftrightarrow>
    y = x \<and> (\<exists>arg \<in> set params. (x, k) \<in> set (arg_names arg)) \<and> \<not> ia_skip_all a \<and> x \<notin> set (ia_skips a) \<and>
    (\<forall>flds. ia_fields a = Some flds \<longrightarrow> (\<forall>fld \<in> set flds. \<not> field_hides fld x))"
proof -
  have "(x, y, k) \<in> set (named_params False params) \<longleftrightarrow> y = x \<and> (\<exists>arg \<in> set params. (x, k) \<in> set (arg_names arg))"
    by (force simp: named_params_def)
  moreover have "sc_params sc = quoted_fields a (named_params False params)"
    using assms by (auto simp: gen_span_def Let_def split: if_splits)
  ultimately show ?thesis by (auto simp: quoted_fields_def keep_param_iff)
qed

text \<open>A single identifier is recorded as a value exactly when its type, without references, ends in a primitive type.\<close>

theorem ident_recorded_as:
  "arg_names (Typed (PatIdent x) ty) = [(x, parse_from_ty ty)]"
  "arg_names (Typed (PatReference (PatIdent x)) ty) = [(x, parse_from_ty ty)]"
  by (simp_all add: arg_names_def)

lemma param_names_nested: "(x, k) \<in> set (param_names p RecordDebug) \<Longrightarrow> k = RecordDebug"
  by (induction p RecordDebug rule: param_names.induct) auto

theorem destructured_recorded_debug:
  assumes "(x, k) \<in> set (arg_names (Typed p ty))" and "p = PatStruct ps \<or> p = PatTuple ps \<or> p = PatTupleStruct ps"
  shows "k = RecordDebug"
  using assms by (auto simp: arg_names_def dest: param_names_nested)

text \<open>Skipping a parameter that does not exist is an error, and nothing else is.\<close>

lemma skip_unknown_refused:
  "gen_span rn params a fn_name self_type = None \<longleftrightarrow>
   (\<exists>skip \<in> set (ia_skips a). skip \<notin> fst ` set (named_params (self_type \<noteq> None) params))"
proof -
  have "list_ex (\<lambda>(user, _). user = skip) ps \<longleftrightarrow> skip \<in> fst ` set ps" for skip and ps :: "(string \<times> string \<times> record_type) list"
    by (force simp: list_ex_iff)
  then show ?thesis by (simp add: gen_span_def Let_def list_ex_iff [where xs = "ia_skips a"])
qed

subsection \<open>From the attribute to the fields of the span\<close>


text \<open>\<open>#[instrument(skip(b), fields(c = 7))]\<close> on a function of \<open>a: &u64\<close>, \<open>b: Foo\<close>, \<open>c: u8\<close> and \<open>(d, _): (u8, u8)\<close>.\<close>

definition demo_syn :: "nat syn_lib" where
  "demo_syn =
     \<lparr>sn_reserved = (\<lambda>w. w \<in> {''self'', ''fn''}),
      sn_expr = (\<lambda>ts. case ts of OtherToken e # rest \<Rightarrow> Some (e, rest) | _ \<Rightarrow> None),
      sn_path = (\<lambda>ts. case ts of OtherToken e # rest \<Rightarrow> Some (e, rest) | _ \<Rightarrow> None)\<rparr>"

definition demo_attr :: "nat token list" where
  "demo_attr = [Word ''skip'', Parens [Word ''b''], PunctComma, Word ''fields'', Parens [Word ''c'', PunctEq, OtherToken 7]]"

definition demo_fn_params :: "nat fn_arg list" where
  "demo_fn_params =
     [Typed (PatIdent ''a'') (TyReference (TyPath [''u64''])), Typed (PatIdent ''b'') (TyPath [''Foo'']),
      Typed (PatIdent ''c'') (TyPath [''u8'']), Typed (PatTuple [PatIdent ''d'', PatOther]) (TyOther 0)]"

lemma demo_parsed:
  "instrument_args_parse demo_syn demo_attr =
   Some (Inr (instrument_args_default\<lparr>ia_skips := [''b''],
     ia_fields := Some [\<lparr>fd_name = NamePath [''c''], fd_value = Some 7, fd_kind = KindValue\<rparr>]\<rparr>))"
  by code_simp

lemma demo_span:
  "map_option sc_params (gen_span (\<lambda>_ _ e. e) demo_fn_params (instrument_args_default\<lparr>ia_skips := [''b''],
     ia_fields := Some [\<lparr>fd_name = NamePath [''c''], fd_value = Some 7, fd_kind = KindValue\<rparr>]\<rparr>) ''f'' None) =
   Some [(''a'', ''a'', RecordValue), (''d'', ''d'', RecordDebug)]"
  by code_simp


text \<open>The statement that is replaced exists.\<close>

lemma find_pos_mem: "x \<in> set xs \<Longrightarrow> \<exists>i. find_pos x xs = Some i \<and> i < length xs \<and> xs ! i = x"
  by (induction xs) (auto split: if_splits)

lemma last_expr_mem: "last_expr ss = Some (e, semi) \<Longrightarrow> StmtExpr e semi \<in> set ss"
  by (induction ss) (auto split: option.splits stmt.splits)

lemma find_async_fn_mem: "find_async_fn name ss = Some (params, body) \<Longrightarrow> StmtFn True name params body \<in> set ss"
  by (induction name ss rule: find_async_fn.induct) (auto split: if_splits)

lemma source_stmt_mem: "async_info_from_fn is_async stmts = Some ai \<Longrightarrow> ai_source_stmt ai \<in> set stmts"
  unfolding async_info_from_fn_def
  by (auto simp: Let_def dest!: last_expr_mem find_async_fn_mem split: if_splits option.splits stmt_expr.splits list.splits)

theorem expansion_never_unchanged: "instrument_precise rn is_const is_async fn_name params stmts a \<noteq> Unchanged"
proof (cases "async_info_from_fn is_async stmts")
  case (Some ai)
  then obtain i where "find_pos (ai_source_stmt ai) stmts = Some i" using source_stmt_mem find_pos_mem by metis
  then show ?thesis using Some by (simp add: instrument_precise_def gen_async_def split: async_kind.split)
qed (simp add: instrument_precise_def)

text \<open>An \<open>async fn\<close> is instrumented as a whole, whatever its last statement is.\<close>

theorem async_fn_whole:
  "instrument_precise rn False True fn_name params stmts a = WholeFn (gen_block rn params True a fn_name None)"
  by (simp add: instrument_precise_def async_info_from_fn_def)

subsection \<open>Events of the result\<close>

text \<open>With both arguments an error is reported by \<open>err\<close> alone; with \<open>ret\<close> alone every result is, errors too.\<close>

theorem result_events:
  "ia_err_args a \<noteq> None \<Longrightarrow> result_event (gen_block rn params as a f st) True = gen_err_event a"
  "result_event (gen_block rn params as a f st) False = gen_ret_event a"
  "ia_err_args a = None \<Longrightarrow> result_event (gen_block rn params as a f st) True = gen_ret_event a"
  by (auto simp: result_event_def gen_block_def gen_err_event_def split: option.split)

text \<open>
  The body runs inside of the span only after the span was told what it follows from. When the level is off, a function
  that is not asynchronous does not even evaluate its fields, an asynchronous one does.
\<close>

theorem span_used_last:
  "span_actions g lv lg dis = CreateSpan (gn_span g) # acts @ [last_act] \<Longrightarrow>
   last_act = (if gn_async g then InstrumentFuture else EnterSpan) \<and>
   acts = (case gn_follows_from g of Some e \<Rightarrow> [FollowFrom e] | None \<Rightarrow> [])"
  "span_actions g False False dis = [] \<longleftrightarrow> \<not> gn_async g"
  by (auto simp: span_actions_def split: if_splits)

subsection \<open>Edges\<close>

text \<open>A custom field \<open>a.a\<close>, or \<open>a.b.a\<close>, hides the parameter \<open>a\<close>, although the two fields have different names.\<close>

theorem dotted_field_hides:
  assumes "ia_fields a = Some flds" and "fld \<in> set flds" and "fd_name fld = NamePath (x # ws @ [x])"
  shows "\<not> keep_param a x"
proof -
  have "field_hides fld x" using assms(3) by (simp add: field_hides_def)
  then show ?thesis using assms(1,2) by (auto simp: keep_param_iff)
qed

text \<open>Any function whose path ends in \<open>Box::pin\<close> is taken for the standard one, by the last letters of the type too.\<close>

theorem box_suffix:
  "async_info_from_fn False [StmtExpr (ExprCall (ExprPath [''HeapBox'', ''pin'']) [ExprAsync b]) False] =
   Some \<lparr>ai_source_stmt = StmtExpr (ExprCall (ExprPath [''HeapBox'', ''pin'']) [ExprAsync b]) False, ai_kind = AsyncBlock b True, ai_self_type = None\<rparr>"
proof -
  have "ends_with (path_to_string [''HeapBox'', ''pin'']) ''Box::pin''" by code_simp
  then show ?thesis by (simp add: async_info_from_fn_def)
qed

end
