(* ===== verification/Env_Field.thy ===== *)
theory Env_Field
  imports Filter_Directive
begin

text \<open>
  Field filters of \<open>EnvFilter\<close>: \<open>tracing-subscriber/src/filter/env/field.rs\<close>.

  Regular expressions are those of the \<open>matchers\<close> crate, which the repository only calls, and floating
  point numbers are left abstract: both are operations of the parameter \<open>env_lib\<close> (\<open>'f\<close> is the type of
  \<open>f64\<close>, \<open>'p\<close> that of a compiled pattern). The rest is as in the source.
\<close>

record ('f, 'p) env_lib =
  el_parse_f64 :: "string \<Rightarrow> 'f option"
  el_is_nan :: "'f \<Rightarrow> bool"
  el_f64_cmp :: "'f \<Rightarrow> 'f \<Rightarrow> ordering option"
  el_f64_within_epsilon :: "'f \<Rightarrow> 'f \<Rightarrow> bool"
  el_f64_display :: "'f \<Rightarrow> string"
  el_parse_pattern :: "string \<Rightarrow> string + 'p"
  el_matches :: "'p \<Rightarrow> string \<Rightarrow> bool"

subsection \<open>Value matches\<close>

record 'p match_pattern =
  mp_matcher :: 'p
  mp_pattern :: string

datatype ('f, 'p) value_match =
    MBool bool
  | MF64 'f
  | MU64 "64 word"
  | MI64 "64 word"
  | MNaN
  | MDebug string
  | MPat "'p match_pattern"

text \<open>\<open>PartialEq\<close>: two debug matches are never equal.\<close>

fun value_match_eq :: "('f, 'p) env_lib \<Rightarrow> ('f, 'p) value_match \<Rightarrow> ('f, 'p) value_match \<Rightarrow> bool" where
  "value_match_eq lib (MBool a) (MBool b) = (a = b)"
| "value_match_eq lib (MF64 a) (MF64 b) = (el_f64_cmp lib a b = Some Equal)"
| "value_match_eq lib (MU64 a) (MU64 b) = (a = b)"
| "value_match_eq lib (MI64 a) (MI64 b) = (a = b)"
| "value_match_eq lib MNaN MNaN = True"
| "value_match_eq lib (MPat a) (MPat b) = (mp_pattern a = mp_pattern b)"
| "value_match_eq lib _ _ = False"

text \<open>\<open>Ord\<close>; \<open>None\<close> is the panic on a comparison with a NaN.\<close>

fun value_match_cmp :: "('f, 'p) env_lib \<Rightarrow> ('f, 'p) value_match \<Rightarrow> ('f, 'p) value_match \<Rightarrow> ordering option" where
  "value_match_cmp lib (MBool a) (MBool b) = Some (cmp a b)"
| "value_match_cmp lib (MBool _) _ = Some Less"
| "value_match_cmp lib (MF64 a) (MF64 b) = el_f64_cmp lib a b"
| "value_match_cmp lib (MF64 _) (MBool _) = Some Greater"
| "value_match_cmp lib (MF64 _) _ = Some Less"
| "value_match_cmp lib MNaN MNaN = Some Equal"
| "value_match_cmp lib MNaN (MBool _) = Some Greater"
| "value_match_cmp lib MNaN (MF64 _) = Some Greater"
| "value_match_cmp lib MNaN _ = Some Less"
| "value_match_cmp lib (MU64 a) (MU64 b) = Some (cmp a b)"
| "value_match_cmp lib (MU64 _) (MBool _) = Some Greater"
| "value_match_cmp lib (MU64 _) (MF64 _) = Some Greater"
| "value_match_cmp lib (MU64 _) MNaN = Some Greater"
| "value_match_cmp lib (MU64 _) _ = Some Less"
| "value_match_cmp lib (MI64 a) (MI64 b) = Some (cmp (sint a) (sint b))"
| "value_match_cmp lib (MI64 _) (MBool _) = Some Greater"
| "value_match_cmp lib (MI64 _) (MF64 _) = Some Greater"
| "value_match_cmp lib (MI64 _) MNaN = Some Greater"
| "value_match_cmp lib (MI64 _) (MU64 _) = Some Greater"
| "value_match_cmp lib (MI64 _) _ = Some Less"
| "value_match_cmp lib (MPat a) (MPat b) = Some (cmp (mp_pattern a) (mp_pattern b))"
| "value_match_cmp lib (MPat _) _ = Some Greater"
| "value_match_cmp lib (MDebug a) (MDebug b) = Some (cmp a b)"
| "value_match_cmp lib (MDebug _) _ = Some Greater"

definition value_match_f64 :: "('f, 'p) env_lib \<Rightarrow> 'f \<Rightarrow> ('f, 'p) value_match" where
  "value_match_f64 lib v = (if el_is_nan lib v then MNaN else MF64 v)"

definition parse_bool :: "string \<Rightarrow> bool option" where
  "parse_bool s = (if s = ''true'' then Some True else if s = ''false'' then Some False else None)"

definition parse_u64 :: "string \<Rightarrow> 64 word option" where
  "parse_u64 s = map_option of_nat (parse_uint (2 ^ 64) s)"

text \<open>\<open>str::parse::<i64>\<close>: a minus sign admits one more value than a plus sign.\<close>

definition parse_i64 :: "string \<Rightarrow> 64 word option" where
  "parse_i64 s =
     (if s \<noteq> [] \<and> hd s = CHR ''-'' then
        (if tl s \<noteq> [] \<and> hd (tl s) = CHR ''+'' then None
         else map_option (\<lambda>n. - of_nat n) (parse_uint (2 ^ 63 + 1) (tl s)))
      else map_option of_nat (parse_uint (2 ^ 63) s))"

definition parse_literal :: "('f, 'p) env_lib \<Rightarrow> string \<Rightarrow> ('f, 'p) value_match option" where
  "parse_literal lib s =
     (case parse_bool s of
        Some b \<Rightarrow> Some (MBool b)
      | None \<Rightarrow>
          (case parse_u64 s of
             Some n \<Rightarrow> Some (MU64 n)
           | None \<Rightarrow>
               (case parse_i64 s of
                  Some n \<Rightarrow> Some (MI64 n)
                | None \<Rightarrow> map_option (value_match_f64 lib) (el_parse_f64 lib s))))"

definition match_pattern_from_str :: "('f, 'p) env_lib \<Rightarrow> string \<Rightarrow> string + 'p match_pattern" where
  "match_pattern_from_str lib s =
     (case el_parse_pattern lib s of
        Inl e \<Rightarrow> Inl e
      | Inr matcher \<Rightarrow> Inr \<lparr>mp_matcher = matcher, mp_pattern = s\<rparr>)"

definition parse_regex :: "('f, 'p) env_lib \<Rightarrow> string \<Rightarrow> string + ('f, 'p) value_match" where
  "parse_regex lib s =
     (case parse_literal lib s of
        Some v \<Rightarrow> Inr v
      | None \<Rightarrow> (case match_pattern_from_str lib s of Inl e \<Rightarrow> Inl e | Inr p \<Rightarrow> Inr (MPat p)))"

definition parse_non_regex :: "('f, 'p) env_lib \<Rightarrow> string \<Rightarrow> ('f, 'p) value_match" where
  "parse_non_regex lib s = (case parse_literal lib s of Some v \<Rightarrow> v | None \<Rightarrow> MDebug s)"

definition show_i64 :: "64 word \<Rightarrow> string" where
  "show_i64 w = (if sint w < 0 then ''-'' @ show_nat (nat (- sint w)) else show_nat (nat (sint w)))"

fun value_match_display :: "('f, 'p) env_lib \<Rightarrow> ('f, 'p) value_match \<Rightarrow> string" where
  "value_match_display lib (MBool b) = (if b then ''true'' else ''false'')"
| "value_match_display lib (MF64 x) = el_f64_display lib x"
| "value_match_display lib MNaN = ''NaN''"
| "value_match_display lib (MI64 w) = show_i64 w"
| "value_match_display lib (MU64 w) = show_nat (unat w)"
| "value_match_display lib (MDebug s) = s"
| "value_match_display lib (MPat p) = mp_pattern p"

subsection \<open>Field matches\<close>

record ('f, 'p) field_match =
  fm_name :: string
  fm_value :: "('f, 'p) value_match option"

definition has_value :: "('f, 'p) field_match \<Rightarrow> bool" where
  "has_value m \<longleftrightarrow> fm_value m \<noteq> None"

definition match_parse :: "('f, 'p) env_lib \<Rightarrow> string \<Rightarrow> bool \<Rightarrow> parse_error + ('f, 'p) field_match" where
  "match_parse lib s regex =
     (case split_on CHR ''='' s of
        [] \<Rightarrow> Inl (ParseError (KField ''invalid field name ``''))
      | [name] \<Rightarrow> Inr \<lparr>fm_name = name, fm_value = None\<rparr>
      | name # part # _ \<Rightarrow>
          (case (if regex then parse_regex lib part else Inr (parse_non_regex lib part)) of
             Inl e \<Rightarrow> Inl (ParseError (KField e))
           | Inr v \<Rightarrow> Inr \<lparr>fm_name = name, fm_value = Some v\<rparr>))"

definition match_display :: "('f, 'p) env_lib \<Rightarrow> ('f, 'p) field_match \<Rightarrow> string" where
  "match_display lib m =
     fm_name m @ (case fm_value m of None \<Rightarrow> [] | Some v \<Rightarrow> ''='' @ value_match_display lib v)"

definition option_cmp :: "('a \<Rightarrow> 'a \<Rightarrow> ordering option) \<Rightarrow> 'a option \<Rightarrow> 'a option \<Rightarrow> ordering option" where
  "option_cmp c x y =
     (case (x, y) of
        (None, None) \<Rightarrow> Some Equal
      | (None, Some _) \<Rightarrow> Some Less
      | (Some _, None) \<Rightarrow> Some Greater
      | (Some a, Some b) \<Rightarrow> c a b)"

text \<open>\<open>then_with\<close> of a comparison that may panic: the second one is not evaluated unless it is needed.\<close>

definition then_with_panic :: "ordering option \<Rightarrow> ordering option \<Rightarrow> ordering option" where
  "then_with_panic a b = (if a = Some Equal then b else a)"

definition match_cmp :: "('f, 'p) env_lib \<Rightarrow> ('f, 'p) field_match \<Rightarrow> ('f, 'p) field_match \<Rightarrow> ordering option" where
  "match_cmp lib a b =
     then_with_panic
       (case (fm_value a, fm_value b) of
          (Some _, None) \<Rightarrow> Some Greater
        | (None, Some _) \<Rightarrow> Some Less
        | _ \<Rightarrow> Some Equal)
       (then_with_panic (Some (cmp (fm_name a) (fm_name b)))
         (option_cmp (value_match_cmp lib) (fm_value a) (fm_value b)))"

subsection \<open>Matching recorded values\<close>

text \<open>
  \<open>MatchDebug::debug_matches\<close>: the value's \<open>Debug\<close> implementation writes its output piece by piece into
  a matcher that consumes the pattern; \<open>None\<close> is the error that stops the formatting.
\<close>

fun matcher_write :: "string \<Rightarrow> string list \<Rightarrow> string option" where
  "matcher_write pat [] = Some pat"
| "matcher_write pat (s # ss) =
     (if length s > length pat then None
      else if starts_with pat s then matcher_write (drop (length s) pat) ss
      else None)"

definition debug_matches :: "string \<Rightarrow> string list \<Rightarrow> bool" where
  "debug_matches pat pieces \<longleftrightarrow> matcher_write pat pieces \<noteq> None"

text \<open>
  What the methods of \<open>MatchVisitor\<close> accept for a field whose filter is the first argument. The 128-bit
  integers, byte strings and errors arrive through \<open>record_debug\<close>, the default of those methods.
\<close>

definition debug_accepts :: "('f, 'p) env_lib \<Rightarrow> ('f, 'p) value_match \<Rightarrow> string \<Rightarrow> bool" where
  "debug_accepts lib m text =
     (case m of
        MPat e \<Rightarrow> el_matches lib (mp_matcher e) text
      | MDebug e \<Rightarrow> debug_matches e [text]
      | _ \<Rightarrow> False)"

definition value_accepts :: "('f, 'p) env_lib \<Rightarrow> ('f, 'p) value_match \<Rightarrow> 'f recorded \<Rightarrow> bool" where
  "value_accepts lib m r =
     (case r of
        RecF64 v \<Rightarrow>
          (case m of
             MNaN \<Rightarrow> el_is_nan lib v
           | MF64 e \<Rightarrow> el_f64_within_epsilon lib v e
           | _ \<Rightarrow> False)
      | RecI64 v \<Rightarrow>
          (case m of
             MI64 e \<Rightarrow> v = e
           | MU64 e \<Rightarrow> unat e < 2 ^ 63 \<and> v = e
           | _ \<Rightarrow> False)
      | RecU64 v \<Rightarrow> (case m of MU64 e \<Rightarrow> v = e | _ \<Rightarrow> False)
      | RecBool v \<Rightarrow> (case m of MBool e \<Rightarrow> v = e | _ \<Rightarrow> False)
      | RecStr v \<Rightarrow>
          (case m of
             MPat e \<Rightarrow> el_matches lib (mp_matcher e) v
           | MDebug e \<Rightarrow> debug_matches e [str_debug v]
           | _ \<Rightarrow> False)
      | RecDebug v \<Rightarrow> debug_accepts lib m v
      | RecI128 w \<Rightarrow> debug_accepts lib m (show_int (sint w))
      | RecU128 w \<Rightarrow> debug_accepts lib m (show_int (uint w))
      | RecBytes bs \<Rightarrow> debug_accepts lib m (hex_bytes_debug bs)
      | RecError e sources \<Rightarrow> debug_accepts lib m e)"

text \<open>A \<open>HashMap<Field, T>\<close>; fields are compared by callsite and index.\<close>

type_synonym 'v field_map = "(field \<times> 'v) list"

fun field_map_get :: "'v field_map \<Rightarrow> field \<Rightarrow> 'v option" where
  "field_map_get [] f = None"
| "field_map_get ((g, v) # m) f = (if field_eq g f then Some v else field_map_get m f)"

definition field_map_insert :: "field \<Rightarrow> 'v \<Rightarrow> 'v field_map \<Rightarrow> 'v field_map" where
  "field_map_insert f v m = (f, v) # filter (\<lambda>(g, _). \<not> field_eq g f) m"

record ('f, 'p) callsite_match =
  cm_fields :: "('f, 'p) value_match field_map"
  cm_level :: level_filter

record ('f, 'p) span_match =
  sm_fields :: "(('f, 'p) value_match \<times> bool) field_map"
  sm_level :: level_filter
  sm_has_matched :: bool

definition cm_to_span_match :: "('f, 'p) callsite_match \<Rightarrow> ('f, 'p) span_match" where
  "cm_to_span_match m =
     \<lparr>sm_fields = map (\<lambda>(k, v). (k, (v, False))) (cm_fields m), sm_level = cm_level m, sm_has_matched = False\<rparr>"

definition record_match ::
  "('f, 'p) env_lib \<Rightarrow> field \<times> 'f recorded \<Rightarrow> ('f, 'p) span_match \<Rightarrow> ('f, 'p) span_match" where
  "record_match lib = (\<lambda>(f, r) m.
     case field_map_get (sm_fields m) f of
       None \<Rightarrow> m
     | Some (v, _) \<Rightarrow>
         if value_accepts lib v r
         then m\<lparr>sm_fields := map (\<lambda>(g, vb). if field_eq g f then (g, (fst vb, True)) else (g, vb)) (sm_fields m)\<rparr>
         else m)"

definition record_all ::
  "('f, 'p) env_lib \<Rightarrow> (field \<times> 'f recorded) list \<Rightarrow> ('f, 'p) span_match \<Rightarrow> ('f, 'p) span_match" where
  "record_all lib rs m = fold (record_match lib) rs m"

definition is_matched :: "('f, 'p) span_match \<Rightarrow> bool \<times> ('f, 'p) span_match" where
  "is_matched m =
     (if sm_has_matched m then (True, m)
      else
        (let matched = list_all (\<lambda>(_, _, b). b) (sm_fields m) in
         (matched, if matched then m\<lparr>sm_has_matched := True\<rparr> else m)))"

definition span_match_filter :: "('f, 'p) span_match \<Rightarrow> level_filter option \<times> ('f, 'p) span_match" where
  "span_match_filter m = (let (b, m1) = is_matched m in (if b then Some (sm_level m1) else None, m1))"

subsection \<open>Properties\<close>

lemma matcher_write_prefix:
  "matcher_write pat pieces = Some rest \<longleftrightarrow> pat = concat pieces @ rest"
proof (induction pieces arbitrary: pat)
  case (Cons s ss)
  show ?case
  proof (cases "starts_with pat s")
    case True
    then obtain rest' where p: "pat = s @ rest'"
      by (auto simp: starts_with_prefix prefix_def)
    then show ?thesis using Cons.IH [of rest'] by simp
  next
    case False
    then show ?thesis by (auto simp: starts_with_prefix)
  qed
qed auto

text \<open>
  Matching a \<open>Debug\<close> rendering against a fixed string accepts every rendering that is a prefix of
  the string, however it is cut into pieces, and not only the string itself: nothing checks that the
  whole pattern was consumed.
\<close>

theorem debug_matches_prefix: "debug_matches pat pieces \<longleftrightarrow> prefix (concat pieces) pat"
  using matcher_write_prefix [of pat pieces]
  by (cases "matcher_write pat pieces") (auto simp: debug_matches_def prefix_def)

definition field_map_ok :: "'v field_map \<Rightarrow> bool" where
  "field_map_ok m \<longleftrightarrow> sorted_wrt (\<lambda>(f, _) (g, _). \<not> field_eq f g) m"

lemma field_eq_simps:
  "field_eq f f" "field_eq f g = field_eq g f" "field_eq f g \<Longrightarrow> field_eq g h \<Longrightarrow> field_eq f h"
  by (auto simp: field_eq_def)

lemma field_map_insert_ok: "field_map_ok m \<Longrightarrow> field_map_ok (field_map_insert f v m)"
  by (auto simp: field_map_ok_def field_map_insert_def sorted_wrt_filter field_eq_simps(2))

lemma field_map_get_Some:
  assumes "field_map_ok m"
  shows "field_map_get m f = Some v \<longleftrightarrow> (\<exists>g. (g, v) \<in> set m \<and> field_eq g f)"
  using assms
proof (induction m f rule: field_map_get.induct)
  case (2 g w m f)
  then show ?case
    using field_eq_simps(2,3) by (auto simp: field_map_ok_def)
qed simp

lemma field_map_get_None: "field_map_get m f = None \<longleftrightarrow> (\<forall>(g, _) \<in> set m. \<not> field_eq g f)"
  by (induction m f rule: field_map_get.induct) auto

text \<open>Whether a sequence of recorded values satisfies the filter of a field.\<close>

definition satisfied ::
  "('f, 'p) env_lib \<Rightarrow> (field \<times> 'f recorded) list \<Rightarrow> field \<Rightarrow> ('f, 'p) value_match \<Rightarrow> bool" where
  "satisfied lib rs f v \<longleftrightarrow> (\<exists>(g, r) \<in> set rs. field_eq f g \<and> value_accepts lib v r)"

lemma record_match_flags:
  assumes ok: "field_map_ok m" and fields: "sm_fields s = map (\<lambda>(k, v). (k, (v, P k v))) m"
  shows "sm_fields (record_match lib (f, r) s) =
    map (\<lambda>(k, v). (k, (v, P k v \<or> field_eq k f \<and> value_accepts lib v r))) m"
proof (cases "field_map_get m f")
  case None
  then have "field_map_get (sm_fields s) f = None"
    unfolding field_map_get_None fields by auto
  then have "record_match lib (f, r) s = s" by (simp add: record_match_def)
  moreover have "\<forall>(k, v) \<in> set m. \<not> field_eq k f" using None by (simp add: field_map_get_None)
  ultimately show ?thesis
    unfolding fields by (intro trans [OF arg_cong [of _ _ sm_fields] fields [THEN trans]] map_cong) auto
next
  case (Some v)
  have get: "field_map_get (sm_fields s) f = Some (v, P g v)" if "(g, v) \<in> set m" "field_eq g f" for g
    using that ok unfolding fields
  proof (induction m)
    case (Cons x m)
    obtain h w where x: "x = (h, w)" by (cases x)
    have tail: "field_map_ok m" and new: "(g, v) \<in> set m \<Longrightarrow> \<not> field_eq h g"
      using Cons.prems(3) unfolding x field_map_ok_def by (simp, auto)
    show ?case
    proof (cases "field_eq h f")
      case True
      then have "(g, v) \<notin> set m" using new Cons.prems(2) by (auto simp: field_eq_def)
      then show ?thesis using Cons.prems(1) True unfolding x by simp
    next
      case False
      then have "(g, v) \<in> set m" using Cons.prems(1,2) unfolding x by auto
      from Cons.IH [OF this Cons.prems(2) tail] show ?thesis using False unfolding x by simp
    qed
  qed simp
  obtain g where g: "(g, v) \<in> set m" "field_eq g f"
    using field_map_get_Some [OF ok, THEN iffD1, OF Some] by blast
  have unique: "v' = v" if "(g', v') \<in> set m" "field_eq g' f" for g' v'
    using field_map_get_Some [OF ok, of f v'] that Some by auto
  show ?thesis
    using get [OF g] unique fields by (auto simp: record_match_def)
qed

lemma record_all_flags:
  assumes ok: "field_map_ok m" and fields: "sm_fields s = map (\<lambda>(k, v). (k, (v, P k v))) m"
  shows "sm_fields (record_all lib rs s) = map (\<lambda>(k, v). (k, (v, P k v \<or> satisfied lib rs k v))) m"
  using fields
proof (induction rs arbitrary: s P)
  case (Cons x rs)
  obtain f r where x: "x = (f, r)" by (cases x)
  show ?case
    using Cons.IH [OF record_match_flags [OF ok Cons.prems, of lib f r]]
    by (auto simp: record_all_def x satisfied_def)
qed (simp add: record_all_def satisfied_def)

lemma record_all_other:
  "sm_level (record_all lib rs s) = sm_level s" "sm_has_matched (record_all lib rs s) = sm_has_matched s"
proof -
  have "sm_level (record_match lib x s) = sm_level s \<and> sm_has_matched (record_match lib x s) = sm_has_matched s" for x s
    by (cases x) (auto simp: record_match_def split: option.split)
  then show "sm_level (record_all lib rs s) = sm_level s" "sm_has_matched (record_all lib rs s) = sm_has_matched s"
    unfolding record_all_def by (induction rs arbitrary: s) simp_all
qed

lemma filter_of_record_all:
  assumes "field_map_ok (cm_fields cm)"
  shows "fst (span_match_filter (record_all lib rs (cm_to_span_match cm))) =
    (if \<forall>(f, v) \<in> set (cm_fields cm). satisfied lib rs f v then Some (cm_level cm) else None)"
proof -
  have "sm_fields (cm_to_span_match cm) = map (\<lambda>(k, v). (k, (v, False))) (cm_fields cm)"
    by (simp add: cm_to_span_match_def)
  from record_all_flags [OF assms this, of lib rs]
  show ?thesis
    by (auto simp: span_match_filter_def is_matched_def record_all_other cm_to_span_match_def
        list_all_iff Let_def)
qed

text \<open>
  A span matches a directive's field filters exactly when every filtered field has been given a
  value that its filter accepts, at creation or in a later record; the directive's level then
  applies to the span. Once it does, it does for good: later values do not take it back.
\<close>

theorem span_match_spec:
  fixes lib :: "('f, 'p) env_lib"
  assumes "field_map_ok (cm_fields cm)"
  shows "fst (span_match_filter (record_all lib rs (cm_to_span_match cm))) =
      (if \<forall>(f, v) \<in> set (cm_fields cm). \<exists>(g, r) \<in> set rs. field_eq f g \<and> value_accepts lib v r
       then Some (cm_level cm) else None) \<and>
    (\<forall>m l m1 rs'. span_match_filter m = (Some l, m1) \<longrightarrow> fst (span_match_filter (record_all lib rs' m1)) = Some l)"
proof (intro conjI allI impI)
  show "fst (span_match_filter (record_all lib rs (cm_to_span_match cm))) =
      (if \<forall>(f, v) \<in> set (cm_fields cm). \<exists>(g, r) \<in> set rs. field_eq f g \<and> value_accepts lib v r
       then Some (cm_level cm) else None)"
    using filter_of_record_all [OF assms, of lib rs] by (simp add: satisfied_def)
  fix m m1 :: "('f, 'p) span_match" and l rs'
  assume "span_match_filter m = (Some l, m1)"
  then have "sm_has_matched m1" "sm_level m1 = l"
    by (auto simp: span_match_filter_def is_matched_def Let_def split: if_splits)
  then show "fst (span_match_filter (record_all lib rs' m1)) = Some l"
    by (simp add: span_match_filter_def is_matched_def record_all_other)
qed

text \<open>A library without floating point numbers, whose patterns match only themselves.\<close>

definition demo_lib :: "(unit, string) env_lib" where
  "demo_lib = \<lparr>el_parse_f64 = (\<lambda>_. None), el_is_nan = (\<lambda>_. False), el_f64_cmp = (\<lambda>_ _. Some Equal),
     el_f64_within_epsilon = (\<lambda>_ _. True), el_f64_display = (\<lambda>_. ''0''), el_parse_pattern = Inr,
     el_matches = (=)\<rparr>"

definition demo_field :: field where
  "demo_field = \<lparr>field_i = 0, field_fields = \<lparr>fs_names = [''user''], fs_callsite = 1\<rparr>\<rparr>"

theorem span_match_spec_witness:
  "fst (span_match_filter (record_all demo_lib [(demo_field, RecU64 4), (demo_field, RecU64 5)]
     (cm_to_span_match \<lparr>cm_fields = [(demo_field, MU64 5)], cm_level = from_level INFO\<rparr>))) = Some (from_level INFO)"
  using span_match_spec [of "\<lparr>cm_fields = [(demo_field, MU64 5)], cm_level = from_level INFO\<rparr>" demo_lib
      "[(demo_field, RecU64 4), (demo_field, RecU64 5)]"]
  by (simp add: field_map_ok_def value_accepts_def field_eq_simps)

text \<open>
  The order of value matches is not one: a pattern and a fixed string are each greater than the
  other, and a fixed string compares as equal to itself without being equal to itself.
\<close>

theorem value_match_order_broken:
  "value_match_cmp lib (MPat p) (MDebug d) = Some Greater \<and> value_match_cmp lib (MDebug d) (MPat p) = Some Greater \<and>
   value_match_cmp lib (MDebug d) (MDebug d) = Some Equal \<and> \<not> value_match_eq lib (MDebug d) (MDebug d)"
  by simp

end
