(* ===== verification/Env_Directive.thy ===== *)
theory Env_Directive
  imports Env_Field
begin

text \<open>
  Dynamic filter directives: \<open>tracing-subscriber/src/filter/env/directive.rs\<close>.

  A directive is \<open>target[span{field=value}]=level\<close>; the parser is the state machine of
  \<open>Directive::parse\<close>, character by character with the indices it keeps. Texts are ASCII, so that
  byte offsets and characters agree.
\<close>

record ('f, 'p) directive =
  dv_in_span :: "string option"
  dv_fields :: "('f, 'p) field_match list"
  dv_target :: "string option"
  dv_level :: level_filter

definition has_name :: "('f, 'p) directive \<Rightarrow> bool" where
  "has_name d \<longleftrightarrow> dv_in_span d \<noteq> None"

definition has_fields :: "('f, 'p) directive \<Rightarrow> bool" where
  "has_fields d \<longleftrightarrow> dv_fields d \<noteq> []"

definition is_static :: "('f, 'p) directive \<Rightarrow> bool" where
  "is_static d \<longleftrightarrow> \<not> has_name d \<and> \<not> list_ex has_value (dv_fields d)"

definition is_dynamic :: "('f, 'p) directive \<Rightarrow> bool" where
  "is_dynamic d \<longleftrightarrow> has_name d \<or> has_fields d"

definition to_static :: "('f, 'p) directive \<Rightarrow> static_directive option" where
  "to_static d =
     (if \<not> is_static d then None
      else Some (static_new (dv_target d) (map fm_name (dv_fields d)) (dv_level d)))"

fun collect_fields ::
  "field_set \<Rightarrow> ('f, 'p) field_match list \<Rightarrow> ('f, 'p) value_match field_map \<Rightarrow> ('f, 'p) value_match field_map option" where
  "collect_fields fs [] m = Some m"
| "collect_fields fs (fm # fms) m =
     (case field_lookup fs (fm_name fm) of
        None \<Rightarrow> None
      | Some f \<Rightarrow>
          (case fm_value fm of
             None \<Rightarrow> collect_fields fs fms m
           | Some v \<Rightarrow> collect_fields fs fms (field_map_insert f v m)))"

definition field_matcher :: "('f, 'p) directive \<Rightarrow> metadata \<Rightarrow> ('f, 'p) callsite_match option" where
  "field_matcher d meta =
     map_option (\<lambda>m. \<lparr>cm_fields = m, cm_level = dv_level d\<rparr>) (collect_fields (meta_fields meta) (dv_fields d) [])"

definition deregexify :: "('f, 'p) directive \<Rightarrow> ('f, 'p) directive" where
  "deregexify d = d\<lparr>dv_fields := map (\<lambda>f. f\<lparr>fm_value :=
     (case fm_value f of Some (MPat pat) \<Rightarrow> Some (MDebug (mp_pattern pat)) | x \<Rightarrow> x)\<rparr>) (dv_fields d)\<rparr>"

definition directive_cares_about :: "('f, 'p) directive \<Rightarrow> metadata \<Rightarrow> bool" where
  "directive_cares_about d meta =
     (if (case dv_target d of Some t \<Rightarrow> \<not> starts_with (meta_target meta) t | None \<Rightarrow> False) then False
      else if (case dv_in_span d of Some n \<Rightarrow> n \<noteq> meta_name meta | None \<Rightarrow> False) then False
      else list_all (\<lambda>f. field_lookup (meta_fields meta) (fm_name f) \<noteq> None) (dv_fields d))"

definition directive_default :: "('f, 'p) directive" where
  "directive_default = \<lparr>dv_in_span = None, dv_fields = [], dv_target = None, dv_level = OFF\<rparr>"

definition directive_from_level_filter :: "level_filter \<Rightarrow> ('f, 'p) directive" where
  "directive_from_level_filter l = directive_default\<lparr>dv_level := l\<rparr>"

fun slice_cmp :: "('a \<Rightarrow> 'a \<Rightarrow> ordering option) \<Rightarrow> 'a list \<Rightarrow> 'a list \<Rightarrow> ordering option" where
  "slice_cmp c [] [] = Some Equal"
| "slice_cmp c [] (_ # _) = Some Less"
| "slice_cmp c (_ # _) [] = Some Greater"
| "slice_cmp c (x # xs) (y # ys) = then_with_panic (c x y) (slice_cmp c xs ys)"

definition directive_cmp :: "('f, 'p) env_lib \<Rightarrow> ('f, 'p) directive \<Rightarrow> ('f, 'p) directive \<Rightarrow> ordering option" where
  "directive_cmp lib a b = map_option reverse_ordering
     (then_with_panic (Some (cmp (map_option length (dv_target a)) (map_option length (dv_target b))))
     (then_with_panic (Some (cmp (dv_in_span a \<noteq> None) (dv_in_span b \<noteq> None)))
     (then_with_panic (Some (cmp (length (dv_fields a)) (length (dv_fields b))))
     (then_with_panic (Some (cmp (dv_target a) (dv_target b)))
     (then_with_panic (Some (cmp (dv_in_span a) (dv_in_span b)))
       (slice_cmp (match_cmp lib) (dv_fields a) (dv_fields b)))))))"

definition directive_display :: "('f, 'p) env_lib \<Rightarrow> ('f, 'p) directive \<Rightarrow> string" where
  "directive_display lib d =
     (let target = (case dv_target d of Some t \<Rightarrow> t | None \<Rightarrow> []);
          fields = (case dv_fields d of [] \<Rightarrow> []
            | f # fs \<Rightarrow> ''{'' @ match_display lib f @ concat (map (\<lambda>g. '','' @ match_display lib g) fs) @ ''}'');
          span = (if dv_in_span d \<noteq> None \<or> dv_fields d \<noteq> []
            then ''['' @ (case dv_in_span d of Some n \<Rightarrow> n | None \<Rightarrow> []) @ fields @ '']'' else []);
          wrote_any = (dv_target d \<noteq> None \<or> dv_in_span d \<noteq> None \<or> dv_fields d \<noteq> [])
      in target @ span @ (if wrote_any then ''='' else []) @ filter_display (dv_level d))"

subsection \<open>The parser\<close>

datatype parse_state =
    Start
  | LevelOrTarget nat
  | Span nat
  | FieldState nat
  | Fields
  | Target
  | LevelState nat
  | Complete

text \<open>\<open>from[a..b]\<close>\<close>

definition slice :: "nat \<Rightarrow> nat \<Rightarrow> string \<Rightarrow> string" where
  "slice a b s = take (b - a) (drop a s)"

definition level_or_target :: "string \<Rightarrow> level_filter \<times> string option" where
  "level_or_target s =
     (if s = [] then (from_level TRACE, None)
      else (case filter_from_str s of Inr l \<Rightarrow> (l, None) | Inl _ \<Rightarrow> (from_level TRACE, Some s)))"

definition parse_level_part :: "string \<Rightarrow> parse_error + level_filter" where
  "parse_level_part s =
     (if s = [] then Inr (from_level TRACE)
      else (case filter_from_str s of Inr l \<Rightarrow> Inr l | Inl e \<Rightarrow> Inl (parse_error_from_level e)))"

definition parse_field_part :: "('f, 'p) env_lib \<Rightarrow> bool \<Rightarrow> string \<Rightarrow> parse_error + ('f, 'p) field_match" where
  "parse_field_part lib regex s = (if s = [] then Inl parse_error_new else match_parse lib s regex)"

definition set_level_or_target :: "string \<Rightarrow> ('f, 'p) directive \<Rightarrow> ('f, 'p) directive" where
  "set_level_or_target s d = (case level_or_target s of (l, t) \<Rightarrow> d\<lparr>dv_level := l, dv_target := t\<rparr>)"

definition parse_step ::
  "('f, 'p) env_lib \<Rightarrow> bool \<Rightarrow> string \<Rightarrow> nat \<Rightarrow> char \<Rightarrow> ('f, 'p) directive \<Rightarrow> parse_state \<Rightarrow>
   parse_error + (('f, 'p) directive \<times> parse_state)" where
  "parse_step lib regex from i c d state =
     (case state of
        Start \<Rightarrow>
          if c = CHR ''['' then Inr (d, Span (i + 1))
          else if c \<notin> set [CHR ''-'', CHR '':'', CHR ''_''] \<and> \<not> is_ascii_alphanumeric c then Inl parse_error_new
          else Inr (d, LevelOrTarget i)
      | LevelOrTarget start \<Rightarrow>
          if c = CHR ''='' then Inr (d\<lparr>dv_target := Some (slice start i from)\<rparr>, LevelState (i + 1))
          else if c = CHR ''['' then Inr (d\<lparr>dv_target := Some (slice start i from)\<rparr>, Span (i + 1))
          else if c = CHR '','' then Inr (set_level_or_target (drop start from) d, Complete)
          else Inr (d, state)
      | Target \<Rightarrow>
          if c = CHR ''='' then Inr (d, LevelState (i + 1)) else Inl parse_error_new
      | Span start \<Rightarrow>
          if c = CHR '']'' then Inr (d\<lparr>dv_in_span := Some (slice start i from)\<rparr>, Target)
          else if c = CHR ''{'' then
            Inr (d\<lparr>dv_in_span := (if slice start i from = [] then None else Some (slice start i from))\<rparr>,
              FieldState (i + 1))
          else Inr (d, state)
      | FieldState start \<Rightarrow>
          if c = CHR ''}'' \<or> c = CHR '','' then
            (case parse_field_part lib regex (slice start i from) of
               Inl e \<Rightarrow> Inl e
             | Inr f \<Rightarrow> Inr (d\<lparr>dv_fields := dv_fields d @ [f]\<rparr>, if c = CHR ''}'' then Fields else FieldState (i + 1)))
          else Inr (d, state)
      | Fields \<Rightarrow> if c = CHR '']'' then Inr (d, Target) else Inl parse_error_new
      | LevelState start \<Rightarrow>
          if c = CHR '','' then
            (case parse_level_part (slice start i from) of
               Inl e \<Rightarrow> Inl e
             | Inr l \<Rightarrow> Inr (d\<lparr>dv_level := l\<rparr>, Complete))
          else Inr (d, state)
      | Complete \<Rightarrow> Inl parse_error_new)"

fun parse_loop ::
  "('f, 'p) env_lib \<Rightarrow> bool \<Rightarrow> string \<Rightarrow> nat \<Rightarrow> string \<Rightarrow> ('f, 'p) directive \<Rightarrow> parse_state \<Rightarrow>
   parse_error + (('f, 'p) directive \<times> parse_state)" where
  "parse_loop lib regex from i [] d state = Inr (d, state)"
| "parse_loop lib regex from i (c # cs) d state =
     (case parse_step lib regex from i c d state of
        Inl e \<Rightarrow> Inl e
      | Inr (d1, state1) \<Rightarrow> parse_loop lib regex from (i + 1) cs d1 state1)"

text \<open>\<open>Directive::parse\<close>: the loop runs over the trimmed text, the slices are taken from the untrimmed one.\<close>

definition directive_parse :: "('f, 'p) env_lib \<Rightarrow> string \<Rightarrow> bool \<Rightarrow> parse_error + ('f, 'p) directive" where
  "directive_parse lib from regex =
     (case parse_loop lib regex from 0 (trim from) (directive_default\<lparr>dv_level := from_level TRACE\<rparr>) Start of
        Inl e \<Rightarrow> Inl e
      | Inr (d, state) \<Rightarrow>
          (case state of
             LevelOrTarget start \<Rightarrow> Inr (set_level_or_target (drop start from) d)
           | LevelState start \<Rightarrow>
               (case parse_level_part (drop start from) of Inl e \<Rightarrow> Inl e | Inr l \<Rightarrow> Inr (d\<lparr>dv_level := l\<rparr>))
           | Target \<Rightarrow> Inr d
           | Complete \<Rightarrow> Inr d
           | _ \<Rightarrow> Inl parse_error_new))"

subsection \<open>Matchers\<close>

record ('f, 'p) callsite_matcher =
  csm_field_matches :: "('f, 'p) callsite_match list"
  csm_base_level :: level_filter

record ('f, 'p) span_matcher =
  spm_field_matches :: "('f, 'p) span_match list"
  spm_base_level :: level_filter

text \<open>\<open>Dynamics::matcher\<close>: the matches of the directives that care, and a base level for the others.\<close>

fun collect_matches ::
  "metadata \<Rightarrow> ('f, 'p) directive list \<Rightarrow> level_filter option \<Rightarrow> ('f, 'p) callsite_match list \<times> level_filter option" where
  "collect_matches meta [] base = ([], base)"
| "collect_matches meta (d # ds) base =
     (case field_matcher d meta of
        Some f \<Rightarrow> (let (fs, b) = collect_matches meta ds base in (f # fs, b))
      | None \<Rightarrow> collect_matches meta ds
          (case base of
             Some b \<Rightarrow> if dv_level d > b then Some (dv_level d) else base
           | None \<Rightarrow> Some (dv_level d)))"

definition dynamics_matcher ::
  "('f, 'p) directive directive_set \<Rightarrow> metadata \<Rightarrow> ('f, 'p) callsite_matcher option" where
  "dynamics_matcher dyn meta =
     (case collect_matches meta (directives_for directive_cares_about dyn meta) None of
        (fs, Some b) \<Rightarrow> Some \<lparr>csm_field_matches = fs, csm_base_level = b\<rparr>
      | (fs, None) \<Rightarrow>
          if fs \<noteq> [] then Some \<lparr>csm_field_matches = fs, csm_base_level = OFF\<rparr> else None)"

definition has_value_filters :: "('f, 'p) directive directive_set \<Rightarrow> bool" where
  "has_value_filters dyn = list_ex (\<lambda>d. list_ex (\<lambda>f. fm_value f \<noteq> None) (dv_fields d)) (directives dyn)"

definition csm_to_span_match ::
  "('f, 'p) env_lib \<Rightarrow> 'f value_set \<Rightarrow> ('f, 'p) callsite_matcher \<Rightarrow> ('f, 'p) span_matcher" where
  "csm_to_span_match lib attrs m =
     \<lparr>spm_field_matches = map (\<lambda>f. record_all lib (value_set_record attrs) (cm_to_span_match f)) (csm_field_matches m),
      spm_base_level = csm_base_level m\<rparr>"

definition span_matcher_level :: "('f, 'p) span_matcher \<Rightarrow> level_filter \<times> ('f, 'p) span_matcher" where
  "span_matcher_level m =
     (let results = map span_match_filter (spm_field_matches m);
          levels = List.map_filter fst results
      in (if levels = [] then spm_base_level m else Max (set levels),
          m\<lparr>spm_field_matches := map snd results\<rparr>))"

definition record_update :: "('f, 'p) env_lib \<Rightarrow> 'f value_set \<Rightarrow> ('f, 'p) span_matcher \<Rightarrow> ('f, 'p) span_matcher" where
  "record_update lib vals m =
     m\<lparr>spm_field_matches := map (record_all lib (value_set_record vals)) (spm_field_matches m)\<rparr>"

subsection \<open>Printing and parsing\<close>

lemma parse_loop_append:
  "parse_loop lib regex from i (xs @ ys) d st =
    (case parse_loop lib regex from i xs d st of
       Inl e \<Rightarrow> Inl e
     | Inr (d1, st1) \<Rightarrow> parse_loop lib regex from (i + length xs) ys d1 st1)"
  by (induction xs arbitrary: i d st) (auto split: sum.split)

lemma parse_loop_stays:
  "set xs \<inter> {CHR ''='', CHR ''['', CHR '',''} = {} \<Longrightarrow>
     parse_loop lib regex from i xs d (LevelOrTarget k) = Inr (d, LevelOrTarget k)"
  "set xs \<inter> {CHR '']'', CHR ''{''} = {} \<Longrightarrow> parse_loop lib regex from i xs d (Span k) = Inr (d, Span k)"
  "set xs \<inter> {CHR ''}'', CHR '',''} = {} \<Longrightarrow>
     parse_loop lib regex from i xs d (FieldState k) = Inr (d, FieldState k)"
  "CHR '','' \<notin> set xs \<Longrightarrow> parse_loop lib regex from i xs d (LevelState k) = Inr (d, LevelState k)"
  by (induction xs arbitrary: i) (auto simp: parse_step_def)

lemma slice_middle: "slice (length xs) (length xs + length ys) (xs @ ys @ zs) = ys"
  by (simp add: slice_def)

text \<open>The values and field filters that their printed form determines.\<close>

definition plain_text :: "string \<Rightarrow> bool" where
  "plain_text s \<longleftrightarrow> set s \<inter> {CHR ''='', CHR '','', CHR ''}''} = {}"

definition value_printable :: "('f, 'p) env_lib \<Rightarrow> bool \<Rightarrow> ('f, 'p) value_match \<Rightarrow> bool" where
  "value_printable lib regex v =
     (case v of
        MBool _ \<Rightarrow> True
      | MU64 _ \<Rightarrow> True
      | MI64 w \<Rightarrow> sint w < 0
      | MPat pat \<Rightarrow> regex \<and> plain_text (mp_pattern pat) \<and> parse_literal lib (mp_pattern pat) = None \<and>
          el_parse_pattern lib (mp_pattern pat) = Inr (mp_matcher pat)
      | MDebug s \<Rightarrow> \<not> regex \<and> plain_text s \<and> parse_literal lib s = None
      | _ \<Rightarrow> False)"

definition match_printable :: "('f, 'p) env_lib \<Rightarrow> bool \<Rightarrow> ('f, 'p) field_match \<Rightarrow> bool" where
  "match_printable lib regex f \<longleftrightarrow> plain_text (fm_name f) \<and>
     (case fm_value f of None \<Rightarrow> fm_name f \<noteq> [] | Some v \<Rightarrow> value_printable lib regex v)"

lemma digits_plain: "list_all is_ascii_digit s \<Longrightarrow> plain_text s"
  by (auto simp: plain_text_def list_all_iff is_ascii_digit_def)

lemma show_nat_not_bool: "parse_bool (show_nat n) = None"
  using show_nat_digits [of n] by (auto simp: parse_bool_def is_ascii_digit_def)

lemma parse_literal_display:
  assumes "(\<exists>b. v = MBool b) \<or> (\<exists>w. v = MU64 w) \<or> (\<exists>w. v = MI64 w \<and> sint w < 0)"
  shows "parse_literal lib (value_match_display lib v) = Some v" "plain_text (value_match_display lib v)"
proof -
  have u64: "parse_u64 (show_nat (unat w)) = Some w" for w :: "64 word"
    using parse_uint_show_nat [of "unat w" "2 ^ 64"] unsigned_less [of w, where ?'a = nat] by (simp add: parse_u64_def)
  have i64: "parse_bool (show_i64 w) = None" "parse_u64 (show_i64 w) = None" "parse_i64 (show_i64 w) = Some w"
    "plain_text (show_i64 w)" if "sint w < 0" for w :: "64 word"
  proof -
    let ?n = "nat (- sint w)"
    have n: "?n < 2 ^ 63 + 1" using sint_ge [of w] by simp
    have hd: "hd (show_nat ?n) \<noteq> CHR ''+''"
      using show_nat_digits [of ?n] show_nat_nonempty [of ?n] by (cases "show_nat ?n") (auto simp: is_ascii_digit_def)
    have "(of_nat ?n :: 64 word) = of_int (int ?n)" by (rule of_int_of_nat_eq [symmetric])
    also have "int ?n = - sint w" using that by simp
    finally have inv: "- (of_nat ?n :: 64 word) = w" by simp
    show "parse_bool (show_i64 w) = None" "parse_u64 (show_i64 w) = None"
      using that by (simp_all add: show_i64_def parse_bool_def parse_u64_def parse_uint_def is_ascii_digit_def)
    show "parse_i64 (show_i64 w) = Some w"
      using that parse_uint_show_nat [OF n] hd inv by (simp add: show_i64_def parse_i64_def)
    show "plain_text (show_i64 w)"
      using that digits_plain [OF show_nat_digits [of ?n]] by (simp add: show_i64_def plain_text_def)
  qed
  have bool: "parse_bool ''true'' = Some True" "parse_bool ''false'' = Some False"
    by (simp_all add: parse_bool_def)
  show "parse_literal lib (value_match_display lib v) = Some v"
    using assms u64 i64 show_nat_not_bool bool by (auto simp: parse_literal_def)
  show "plain_text (value_match_display lib v)"
    using assms i64(4) digits_plain [OF show_nat_digits] by (auto simp: plain_text_def split: if_splits)
qed

lemma value_match_roundtrip:
  assumes "value_printable lib regex v"
  shows "(if regex then parse_regex lib (value_match_display lib v)
      else Inr (parse_non_regex lib (value_match_display lib v))) = Inr v"
    and "plain_text (value_match_display lib v)"
proof -
  consider "(\<exists>b. v = MBool b) \<or> (\<exists>w. v = MU64 w) \<or> (\<exists>w. v = MI64 w \<and> sint w < 0)"
    | (pat) pat where "v = MPat pat" | (dbg) s where "v = MDebug s"
    using assms by (cases v) (auto simp: value_printable_def)
  then have "(if regex then parse_regex lib (value_match_display lib v)
      else Inr (parse_non_regex lib (value_match_display lib v))) = Inr v \<and> plain_text (value_match_display lib v)"
  proof cases
    case 1
    then show ?thesis
      using parse_literal_display [OF 1, of lib] by (simp add: parse_regex_def parse_non_regex_def)
  next
    case pat
    then show ?thesis using assms by (simp add: value_printable_def parse_regex_def match_pattern_from_str_def)
  next
    case dbg
    then show ?thesis using assms by (simp add: value_printable_def parse_non_regex_def)
  qed
  then show "(if regex then parse_regex lib (value_match_display lib v)
      else Inr (parse_non_regex lib (value_match_display lib v))) = Inr v"
    "plain_text (value_match_display lib v)" by simp_all
qed

lemma match_roundtrip:
  assumes "match_printable lib regex f"
  shows "parse_field_part lib regex (match_display lib f) = Inr f"
    and "set (match_display lib f) \<inter> {CHR ''}'', CHR '',''} = {}"
proof -
  have name: "CHR ''='' \<notin> set (fm_name f)" "set (fm_name f) \<inter> {CHR ''}'', CHR '',''} = {}"
    using assms by (auto simp: match_printable_def plain_text_def)
  have "parse_field_part lib regex (match_display lib f) = Inr f \<and>
      set (match_display lib f) \<inter> {CHR ''}'', CHR '',''} = {}"
  proof (cases "fm_value f")
    case None
    then have "match_display lib f = fm_name f" "fm_name f \<noteq> []"
      using assms by (simp_all add: match_display_def match_printable_def)
    then show ?thesis
      using None name split_on_no_sep [OF name(1)] by (simp add: parse_field_part_def match_parse_def)
  next
    case (Some v)
    have v: "value_printable lib regex v" using assms Some by (simp add: match_printable_def)
    note rt = value_match_roundtrip [OF v]
    have "split_on CHR ''='' (fm_name f @ CHR ''='' # value_match_display lib v) = [fm_name f, value_match_display lib v]"
      using split_on_append_sep [OF name(1)] split_on_no_sep [of "CHR ''=''" "value_match_display lib v"] rt(2)
      by (auto simp: plain_text_def)
    then have "parse_field_part lib regex (match_display lib f) = Inr f"
      using Some rt(1) by (cases regex) (auto simp: match_display_def parse_field_part_def match_parse_def)
    moreover have "set (match_display lib f) \<inter> {CHR ''}'', CHR '',''} = {}"
      using Some name rt(2) by (auto simp: match_display_def plain_text_def)
    ultimately show ?thesis by simp
  qed
  then show "parse_field_part lib regex (match_display lib f) = Inr f"
    "set (match_display lib f) \<inter> {CHR ''}'', CHR '',''} = {}" by simp_all
qed

lemma fields_loop:
  assumes "list_all (match_printable lib regex) (f # fs)"
    and "from = pre @ match_display lib f @ concat (map (\<lambda>g. '','' @ match_display lib g) fs) @ ''}'' @ post"
  shows "parse_loop lib regex from (length pre)
      (match_display lib f @ concat (map (\<lambda>g. '','' @ match_display lib g) fs) @ ''}'') d (FieldState (length pre)) =
    Inr (d\<lparr>dv_fields := dv_fields d @ f # fs\<rparr>, Fields)"
  using assms
proof (induction fs arbitrary: f pre d)
  case Nil
  then have f: "match_printable lib regex f" by simp
  have "slice (length pre) (length pre + length (match_display lib f)) from = match_display lib f"
    unfolding Nil.prems(2) by (rule slice_middle)
  then show ?case
    using match_roundtrip [OF f] by (simp add: parse_loop_append parse_loop_stays parse_step_def)
next
  case (Cons g fs)
  have f: "match_printable lib regex f" using Cons.prems(1) by simp
  have sl: "slice (length pre) (length pre + length (match_display lib f)) from = match_display lib f"
    unfolding Cons.prems(2) by (rule slice_middle)
  let ?pre = "pre @ match_display lib f @ '',''"
  have "parse_loop lib regex from (length ?pre)
      (match_display lib g @ concat (map (\<lambda>g. '','' @ match_display lib g) fs) @ ''}'')
      (d\<lparr>dv_fields := dv_fields d @ [f]\<rparr>) (FieldState (length ?pre)) =
    Inr (d\<lparr>dv_fields := dv_fields d @ f # g # fs\<rparr>, Fields)"
    using Cons.IH [of g ?pre "d\<lparr>dv_fields := dv_fields d @ [f]\<rparr>"] Cons.prems by simp
  then show ?case
    using match_roundtrip [OF f] sl by (simp add: parse_loop_append parse_loop_stays parse_step_def)
qed

definition directive_printable :: "('f, 'p) env_lib \<Rightarrow> bool \<Rightarrow> ('f, 'p) directive \<Rightarrow> bool" where
  "directive_printable lib regex d \<longleftrightarrow>
     (case dv_target d of
        None \<Rightarrow> True
      | Some t \<Rightarrow> t \<noteq> [] \<and> (hd t \<in> {CHR ''-'', CHR '':'', CHR ''_''} \<or> is_ascii_alphanumeric (hd t)) \<and>
          set t \<inter> {CHR ''='', CHR ''['', CHR '',''} = {}) \<and>
     (case dv_in_span d of
        None \<Rightarrow> True
      | Some n \<Rightarrow> set n \<inter> {CHR '']'', CHR ''{''} = {} \<and> (dv_fields d \<noteq> [] \<longrightarrow> n \<noteq> [])) \<and>
     list_all (match_printable lib regex) (dv_fields d)"

abbreviation fields_text :: "('f, 'p) env_lib \<Rightarrow> ('f, 'p) field_match list \<Rightarrow> string" where
  "fields_text lib fms \<equiv> (case fms of [] \<Rightarrow> []
     | f # fs \<Rightarrow> ''{'' @ match_display lib f @ concat (map (\<lambda>g. '','' @ match_display lib g) fs) @ ''}'')"

text \<open>The part between the brackets.\<close>

lemma span_part:
  assumes pr: "directive_printable lib regex d" and dyn: "dv_in_span d \<noteq> None \<or> dv_fields d \<noteq> []"
    and txt_eq: "from = pre @ (case dv_in_span d of Some n \<Rightarrow> n | None \<Rightarrow> []) @ fields_text lib (dv_fields d) @ '']'' @ post"
    and e: "dv_fields e = []" "dv_in_span e = None"
  shows "parse_loop lib regex from (length pre)
      ((case dv_in_span d of Some n \<Rightarrow> n | None \<Rightarrow> []) @ fields_text lib (dv_fields d) @ '']'') e (Span (length pre)) =
    Inr (e\<lparr>dv_in_span := dv_in_span d, dv_fields := dv_fields d\<rparr>, Target)"
proof -
  let ?n = "case dv_in_span d of Some n \<Rightarrow> n | None \<Rightarrow> []"
  have n: "set ?n \<inter> {CHR '']'', CHR ''{''} = {}"
    using pr by (auto simp: directive_printable_def split: option.splits)
  have sl: "slice (length pre) (length pre + length ?n) from = ?n"
    unfolding txt_eq by (rule slice_middle)
  show ?thesis
  proof (cases "dv_fields d")
    case Nil
    then show ?thesis
      using dyn n sl e by (auto simp: parse_loop_append parse_loop_stays parse_step_def)
  next
    case (Cons f fs)
    have name: "(if ?n = [] then None else Some ?n) = dv_in_span d"
      using pr Cons by (auto simp: directive_printable_def split: option.splits)
    have fs: "list_all (match_printable lib regex) (f # fs)"
      using pr Cons by (simp add: directive_printable_def)
    let ?pre = "pre @ ?n @ ''{''"
    have "parse_loop lib regex from (length ?pre)
        (match_display lib f @ concat (map (\<lambda>g. '','' @ match_display lib g) fs) @ ''}'')
        (e\<lparr>dv_in_span := dv_in_span d\<rparr>) (FieldState (length ?pre)) =
      Inr (e\<lparr>dv_in_span := dv_in_span d, dv_fields := f # fs\<rparr>, Fields)"
      using fields_loop [OF fs, of "from" ?pre "'']'' @ post" "e\<lparr>dv_in_span := dv_in_span d\<rparr>"] txt_eq Cons e by simp
    then have "parse_loop lib regex from (length ?pre)
        ((match_display lib f @ concat (map (\<lambda>g. '','' @ match_display lib g) fs) @ ''}'') @ '']'')
        (e\<lparr>dv_in_span := dv_in_span d\<rparr>) (FieldState (length ?pre)) =
      Inr (e\<lparr>dv_in_span := dv_in_span d, dv_fields := f # fs\<rparr>, Target)"
      unfolding parse_loop_append [of lib regex "from" "length ?pre" "match_display lib f @ concat (map (\<lambda>g. '','' @ match_display lib g) fs) @ ''}''"]
      by (simp add: parse_step_def)
    then show ?thesis
      using n sl name Cons
      by (auto simp: parse_loop_append [of _ _ _ _ ?n] parse_loop_stays parse_step_def split: if_splits)
  qed
qed

lemma target_part:
  assumes "directive_printable lib regex d" and "dv_target e = None"
    and "t = (case dv_target d of Some t \<Rightarrow> t | None \<Rightarrow> [])"
  shows "parse_loop lib regex (t @ ''['' @ post) 0 (t @ ''['') e Start =
      Inr (e\<lparr>dv_target := dv_target d\<rparr>, Span (length (t @ ''['')))"
proof (cases "dv_target d")
  case None
  then show ?thesis using assms by (simp add: parse_step_def)
next
  case (Some u)
  then obtain c cs where u: "u = c # cs" "c \<noteq> CHR ''[''" "set cs \<inter> {CHR ''='', CHR ''['', CHR '',''} = {}"
      "c \<in> set [CHR ''-'', CHR '':'', CHR ''_''] \<or> is_ascii_alphanumeric c"
    using assms(1) by (cases u) (auto simp: directive_printable_def)
  then have "t = c # cs" using assms(3) Some by simp
  then show ?thesis
    using u Some by (auto simp: parse_loop_append parse_loop_stays parse_step_def slice_def)
qed

lemma filter_display_alnum:
  "filter_display l \<noteq> []" "list_all is_ascii_alphanumeric (filter_display l)"
  by (auto simp: filter_display_def is_ascii_alphanumeric_def is_ascii_digit_def is_ascii_lowercase_def is_ascii_uppercase_def
      split: option.splits level.splits)

lemma alnum_not_special:
  "is_ascii_alphanumeric c \<Longrightarrow> c \<noteq> CHR '','' \<and> c \<noteq> CHR ''='' \<and> c \<noteq> CHR ''['' \<and> \<not> is_whitespace c"
  by (auto simp: is_ascii_alphanumeric_def is_whitespace_def is_ascii_digit_def is_ascii_lowercase_def is_ascii_uppercase_def)

lemma filter_display_plain:
  "set (filter_display l) \<inter> {CHR ''='', CHR ''['', CHR '',''} = {}" "CHR '','' \<notin> set (filter_display l)"
  "\<not> is_whitespace (last (filter_display l))" "hd (filter_display l) \<noteq> CHR ''[''"
  "is_ascii_alphanumeric (hd (filter_display l))"
  using filter_display_alnum [of l] alnum_not_special
  by (auto simp: list_all_iff dest: last_in_set hd_in_set)

lemma parse_level_part_display: "parse_level_part (filter_display l) = Inr l"
  using filter_display_alnum(1) [of l] by (simp add: parse_level_part_def filter_display_parses)

text \<open>What a printed directive starts with, and that trimming leaves it as it is.\<close>

lemma directive_display_trim:
  assumes "directive_printable lib regex d"
  shows "trim (directive_display lib d) = directive_display lib d"
proof (rule trim_id, intro disjI2 conjI)
  have l: "directive_display lib d = xs @ filter_display (dv_level d) \<Longrightarrow>
      last (directive_display lib d) = last (filter_display (dv_level d))" for xs
    using filter_display_alnum(1) by simp
  show "\<not> is_whitespace (last (directive_display lib d))"
    using filter_display_plain(3) filter_display_alnum(1) by (simp add: directive_display_def Let_def)
  have "is_ascii_alphanumeric (hd (directive_display lib d)) \<or>
      hd (directive_display lib d) \<in> {CHR ''['', CHR ''-'', CHR '':'', CHR ''_''}"
    using assms filter_display_plain(5) [of "dv_level d"] filter_display_alnum(1) [of "dv_level d"]
    by (auto simp: directive_display_def directive_printable_def Let_def hd_append split: option.splits)
  then show "\<not> is_whitespace (hd (directive_display lib d))"
    using alnum_not_special by (auto simp: is_whitespace_def)
qed

lemma parse_finish:
  assumes loop: "parse_loop lib regex inp 0 (s @ ''='') (directive_default\<lparr>dv_level := from_level TRACE\<rparr>) Start =
      Inr (e, LevelState (length (s @ ''='')))"
    and txt_eq: "inp = (s @ ''='') @ filter_display l" and "trim inp = inp"
  shows "directive_parse lib inp regex = Inr (e\<lparr>dv_level := l\<rparr>)"
proof -
  have "parse_loop lib regex inp 0 inp (directive_default\<lparr>dv_level := from_level TRACE\<rparr>) Start =
      Inr (e, LevelState (length (s @ ''='')))"
    using loop parse_loop_append [of lib regex inp 0 "s @ ''=''" "filter_display l"] txt_eq
    by (simp add: parse_loop_stays(4) filter_display_plain)
  then show ?thesis
    using assms(3) txt_eq by (simp add: directive_parse_def parse_level_part_display)
qed

lemma directive_parse_display:
  assumes pr: "directive_printable lib regex d"
  shows "directive_parse lib (directive_display lib d) regex = Inr d"
proof -
  let ?txt = "directive_display lib d"
  let ?t = "case dv_target d of Some t \<Rightarrow> t | None \<Rightarrow> []"
  let ?n = "case dv_in_span d of Some n \<Rightarrow> n | None \<Rightarrow> []"
  let ?b = "?n @ fields_text lib (dv_fields d) @ '']''"
  let ?l = "filter_display (dv_level d)"
  let ?e = "directive_default\<lparr>dv_level := from_level TRACE\<rparr> :: ('a, 'b) directive"
  note trim = directive_display_trim [OF pr]
  have e: "dv_fields ?e = []" "dv_in_span ?e = None" "dv_target ?e = None" by (simp_all add: directive_default_def)
  consider (level) "dv_target d = None" "dv_in_span d = None" "dv_fields d = []"
    | (target) t where "dv_target d = Some t" "dv_in_span d = None" "dv_fields d = []"
    | (span) "dv_in_span d \<noteq> None \<or> dv_fields d \<noteq> []"
    by (cases "dv_target d") auto
  then show ?thesis
  proof cases
    case level
    then have txt_eq: "?txt = ?l" by (simp add: directive_display_def)
    obtain c cs where l: "?l = c # cs" using filter_display_alnum(1) [of "dv_level d"] by (cases ?l) auto
    then have cs: "set cs \<inter> {CHR ''='', CHR ''['', CHR '',''} = {}" and c: "c \<noteq> CHR ''[''" "is_ascii_alphanumeric c"
      using filter_display_plain [of "dv_level d"] by auto
    have "parse_loop lib regex ?txt 0 ?txt ?e Start = Inr (?e, LevelOrTarget 0)"
      using c cs unfolding txt_eq l by (simp add: parse_step_def parse_loop_stays)
    then show ?thesis
      using level trim txt_eq l filter_display_parses [of "dv_level d"]
      by (simp add: directive_parse_def set_level_or_target_def level_or_target_def directive_default_def)
  next
    case target
    then have txt_eq: "?txt = (t @ ''='') @ ?l" by (simp add: directive_display_def)
    obtain c cs where t: "t = c # cs" "c \<noteq> CHR ''[''" "set cs \<inter> {CHR ''='', CHR ''['', CHR '',''} = {}"
      "c \<in> set [CHR ''-'', CHR '':'', CHR ''_''] \<or> is_ascii_alphanumeric c"
      using pr target by (cases t) (auto simp: directive_printable_def)
    then have "parse_loop lib regex ?txt 0 (t @ ''='') ?e Start =
        Inr (?e\<lparr>dv_target := Some t\<rparr>, LevelState (length (t @ ''='')))"
      unfolding txt_eq by (auto simp: parse_loop_append parse_loop_stays parse_step_def slice_def)
    from parse_finish [OF this txt_eq trim] show ?thesis
      using target by (simp add: directive_default_def)
  next
    case span
    then have txt_eq: "?txt = ((?t @ ''['') @ ?b) @ ''='' @ ?l" by (auto simp: directive_display_def)
    have 1: "parse_loop lib regex ?txt 0 (?t @ ''['') ?e Start =
        Inr (?e\<lparr>dv_target := dv_target d\<rparr>, Span (length (?t @ ''['')))"
      using target_part [OF pr e(3) refl, of "?b @ ''='' @ ?l"] txt_eq by simp
    have "parse_loop lib regex ?txt (length (?t @ ''['')) ?b (?e\<lparr>dv_target := dv_target d\<rparr>) (Span (length (?t @ ''['')))
      = Inr (?e\<lparr>dv_target := dv_target d, dv_in_span := dv_in_span d, dv_fields := dv_fields d\<rparr>, Target)"
      by (rule span_part [OF pr span, of _ _ "''='' @ ?l"]) (use txt_eq e in simp_all)
    with 1 have 2: "parse_loop lib regex ?txt 0 ((?t @ ''['') @ ?b) ?e Start =
        Inr (?e\<lparr>dv_target := dv_target d, dv_in_span := dv_in_span d, dv_fields := dv_fields d\<rparr>, Target)"
      unfolding parse_loop_append [of lib regex ?txt 0 "?t @ ''[''"] by simp
    then have "parse_loop lib regex ?txt 0 (((?t @ ''['') @ ?b) @ ''='') ?e Start =
        Inr (?e\<lparr>dv_target := dv_target d, dv_in_span := dv_in_span d, dv_fields := dv_fields d\<rparr>,
          LevelState (length (((?t @ ''['') @ ?b) @ ''='')))"
      unfolding parse_loop_append [of lib regex ?txt 0 "(?t @ ''['') @ ?b"] by (simp add: parse_step_def)
    from parse_finish [OF this _ trim] show ?thesis
      using txt_eq by (simp add: directive_default_def)
  qed
qed

text \<open>C33. Printing a directive and parsing the text gives the directive back: target, span name, field
  filters in order with their values, and level, whatever combination of them is present. The directive
  must be one the syntax can express (names without the characters that end them, values that their
  printed form determines).\<close>

theorem directive_roundtrip:
  assumes "directive_printable lib regex d"
  shows "directive_parse lib (directive_display lib d) regex = Inr d"
  by (rule directive_parse_display [OF assms])

theorem directive_roundtrip_witness:
  "let d = \<lparr>dv_in_span = Some ''req'', dv_fields = [\<lparr>fm_name = ''id'', fm_value = Some (MU64 7)\<rparr>, \<lparr>fm_name = ''ok'', fm_value = None\<rparr>],
        dv_target = Some ''app'', dv_level = from_level DEBUG\<rparr>
   in directive_parse demo_lib (directive_display demo_lib d) False = Inr d"
  unfolding Let_def
  by (rule directive_roundtrip)
    (simp add: directive_printable_def match_printable_def value_printable_def plain_text_def is_ascii_alphanumeric_def
      is_ascii_lowercase_def is_ascii_digit_def is_ascii_uppercase_def)

text \<open>The parser walks over the trimmed text but cuts its parts out of the untrimmed one, so a
  leading blank shifts every part. \<open>b=debug\<close> is accepted and after a blank it is refused; \<open>app\<close> after a
  blank is accepted, as a directive for a target whose name starts with the blank.\<close>

theorem directive_leading_blank:
  "directive_parse lib ''b=debug'' regex =
     Inr \<lparr>dv_in_span = None, dv_fields = [], dv_target = Some ''b'', dv_level = from_level DEBUG\<rparr> \<and>
   directive_parse lib '' b=debug'' regex = Inl (parse_error_from_level ParseLevelFilterError) \<and>
   directive_parse lib '' app'' regex =
     Inr \<lparr>dv_in_span = None, dv_fields = [], dv_target = Some '' app'', dv_level = from_level TRACE\<rparr>"
proof (intro conjI)
  note defs = directive_parse_def trim_def trim_start_def trim_end_def is_whitespace_def parse_step_def slice_def
    is_ascii_alphanumeric_def is_ascii_lowercase_def is_ascii_digit_def is_ascii_uppercase_def directive_default_def
    parse_level_part_def set_level_or_target_def level_or_target_def
  have no_number: "parse_usize ''=debug'' = None" "parse_usize '' app'' = None"
    unfolding parse_usize_def by (rule parse_uint_None; simp add: is_ascii_digit_def)+
  have from_str: "filter_from_str ''debug'' = Inr (from_level DEBUG)" "filter_from_str ''=debug'' = Inl ParseLevelFilterError"
    "filter_from_str '' app'' = Inl ParseLevelFilterError"
    using filter_display_parses [of "from_level DEBUG"]
    by (simp_all add: filter_display_def from_level_def)
      (simp_all add: filter_from_str_def no_number eq_ignore_ascii_case_def to_ascii_lowercase_def is_ascii_uppercase_def)
  show "directive_parse lib ''b=debug'' regex =
     Inr \<lparr>dv_in_span = None, dv_fields = [], dv_target = Some ''b'', dv_level = from_level DEBUG\<rparr>"
    by (simp add: defs from_str)
  show "directive_parse lib '' b=debug'' regex = Inl (parse_error_from_level ParseLevelFilterError)"
    by (simp add: defs from_str)
  show "directive_parse lib '' app'' regex =
     Inr \<lparr>dv_in_span = None, dv_fields = [], dv_target = Some '' app'', dv_level = from_level TRACE\<rparr>"
    by (simp add: defs from_str)
qed

end
