(* ===== verification/Env_Filter.thy ===== *)
theory Env_Filter
  imports Env_Directive Filter_Targets Dispatcher Span_Event
begin

text \<open>
  The environment filter: \<open>tracing-subscriber/src/filter/env/mod.rs\<close> and \<open>builder.rs\<close>.

  An \<open>EnvFilter\<close> keeps the static directives, the dynamic ones, a matcher for each span callsite
  that a dynamic directive may apply to, a matcher for each live span of such a callsite, and for
  each thread the stack of levels that the spans entered on it enable. The locks are modelled as
  never poisoned. A panic of the directives' order (\<open>ValueMatch\<close> values with no order between
  them) is \<open>None\<close>, and what goes to standard error is a list of lines.
\<close>

subsection \<open>The tables of directives\<close>

function binary_search_panic :: "('a \<Rightarrow> ordering option) \<Rightarrow> 'a list \<Rightarrow> nat \<Rightarrow> nat \<Rightarrow> (nat + nat) option" where
  "binary_search_panic f xs left right =
     (if left < right then
        (let mid = left + (right - left) div 2 in
         case f (xs ! mid) of
           None \<Rightarrow> None
         | Some Equal \<Rightarrow> Some (Inr mid)
         | Some Less \<Rightarrow> binary_search_panic f xs (mid + 1) right
         | Some Greater \<Rightarrow> binary_search_panic f xs left mid)
      else Some (Inl left))"
  by pat_completeness auto
termination by (relation "measure (\<lambda>(f, xs, left, right). right - left)") auto

declare binary_search_panic.simps [simp del]

type_synonym ('f, 'p) dynamics = "('f, 'p) directive directive_set"

definition dynamics_add :: "('f, 'p) env_lib \<Rightarrow> ('f, 'p) directive \<Rightarrow> ('f, 'p) dynamics \<Rightarrow> ('f, 'p) dynamics option" where
  "dynamics_add lib d s =
     (let s1 = (if dv_level d > max_level s then s\<lparr>max_level := dv_level d\<rparr> else s);
          ds = directives s1
      in case binary_search_panic (\<lambda>p. directive_cmp lib p d) ds 0 (length ds) of
           None \<Rightarrow> None
         | Some (Inr i) \<Rightarrow> Some (s1\<lparr>directives := ds[i := d]\<rparr>)
         | Some (Inl i) \<Rightarrow> Some (s1\<lparr>directives := vec_insert i d ds\<rparr>))"

fun dynamics_extend :: "('f, 'p) env_lib \<Rightarrow> ('f, 'p) directive list \<Rightarrow> ('f, 'p) dynamics \<Rightarrow> ('f, 'p) dynamics option" where
  "dynamics_extend lib [] s = Some s"
| "dynamics_extend lib (d # ds) s = Option.bind (dynamics_add lib d s) (dynamics_extend lib ds)"

definition make_tables ::
  "('f, 'p) env_lib \<Rightarrow> ('f, 'p) directive list \<Rightarrow> (('f, 'p) dynamics \<times> static_set) option" where
  "make_tables lib ds =
     (let dyns = filter is_dynamic ds;
          stats = filter (\<lambda>d. \<not> is_dynamic d) ds;
          statics = static_from_iter (List.map_filter to_static stats @ List.map_filter to_static dyns)
      in map_option (\<lambda>dynamics. (dynamics, statics)) (dynamics_extend lib dyns directive_set_default))"

subsection \<open>The filter\<close>

record ('f, 'p) env_filter =
  ef_statics :: static_set
  ef_dynamics :: "('f, 'p) dynamics"
  ef_has_dynamics :: bool
  ef_by_id :: "span_id \<rightharpoonup> ('f, 'p) span_matcher"
  ef_by_cs :: "callsite_id \<rightharpoonup> ('f, 'p) callsite_matcher"
  ef_scope :: "thread \<Rightarrow> level_filter list"
  ef_regex :: bool

definition env_clone :: "('f, 'p) env_filter \<Rightarrow> ('f, 'p) env_filter" where
  "env_clone f = f\<lparr>ef_by_id := Map.empty, ef_by_cs := Map.empty, ef_scope := (\<lambda>_. [])\<rparr>"

definition add_directive ::
  "('f, 'p) env_lib \<Rightarrow> ('f, 'p) directive \<Rightarrow> ('f, 'p) env_filter \<Rightarrow> ('f, 'p) env_filter option" where
  "add_directive lib d f =
     (let d1 = (if \<not> ef_regex f then deregexify d else d)
      in case to_static d1 of
           Some st \<Rightarrow> Some (f\<lparr>ef_statics := static_add st (ef_statics f)\<rparr>)
         | None \<Rightarrow> map_option (\<lambda>dyn. f\<lparr>ef_has_dynamics := True, ef_dynamics := dyn\<rparr>)
             (dynamics_add lib d1 (ef_dynamics f)))"

definition env_enabled :: "thread \<Rightarrow> metadata \<Rightarrow> ('f, 'p) env_filter \<Rightarrow> bool" where
  "env_enabled t meta f =
     (let level = meta_level meta in
      if ef_has_dynamics f \<and> filter_ge_level (max_level (ef_dynamics f)) level \<and>
         (meta_is_span meta \<and> ef_by_cs f (meta_callsite meta) \<noteq> None \<or>
          list_ex (\<lambda>flt. filter_ge_level flt level) (ef_scope f t))
      then True
      else if filter_ge_level (max_level (ef_statics f)) level then static_enabled (ef_statics f) meta
      else False)"

definition env_max_level_hint :: "('f, 'p) env_filter \<Rightarrow> level_filter option" where
  "env_max_level_hint f =
     (if has_value_filters (ef_dynamics f) then Some (from_level TRACE)
      else Some (max (max_level (ef_statics f)) (max_level (ef_dynamics f))))"

definition env_on_new_span ::
  "('f, 'p) env_lib \<Rightarrow> 'f attributes \<Rightarrow> span_id \<Rightarrow> ('f, 'p) env_filter \<Rightarrow> ('f, 'p) env_filter" where
  "env_on_new_span lib attrs i f =
     (if \<not> ef_has_dynamics f then f
      else case ef_by_cs f (meta_callsite (attr_metadata attrs)) of
             None \<Rightarrow> f
           | Some cs \<Rightarrow> f\<lparr>ef_by_id := (ef_by_id f)(i \<mapsto> csm_to_span_match lib (attr_values attrs) cs)\<rparr>)"

definition env_on_enter :: "thread \<Rightarrow> span_id \<Rightarrow> ('f, 'p) env_filter \<Rightarrow> ('f, 'p) env_filter" where
  "env_on_enter t i f =
     (if \<not> ef_has_dynamics f then f
      else case ef_by_id f i of
             None \<Rightarrow> f
           | Some span \<Rightarrow>
               (case span_matcher_level span of
                  (l, span1) \<Rightarrow> f\<lparr>ef_by_id := (ef_by_id f)(i \<mapsto> span1), ef_scope := (ef_scope f)(t := ef_scope f t @ [l])\<rparr>))"

definition cares_about_span :: "span_id \<Rightarrow> ('f, 'p) env_filter \<Rightarrow> bool" where
  "cares_about_span i f \<longleftrightarrow> ef_by_id f i \<noteq> None"

text \<open>\<open>Vec::pop\<close> leaves an empty vector as it is.\<close>

definition env_on_exit :: "thread \<Rightarrow> span_id \<Rightarrow> ('f, 'p) env_filter \<Rightarrow> ('f, 'p) env_filter" where
  "env_on_exit t i f =
     (if \<not> ef_has_dynamics f then f
      else if cares_about_span i f then f\<lparr>ef_scope := (ef_scope f)(t := butlast (ef_scope f t))\<rparr>
      else f)"

definition env_on_close :: "span_id \<Rightarrow> ('f, 'p) env_filter \<Rightarrow> ('f, 'p) env_filter" where
  "env_on_close i f =
     (if \<not> ef_has_dynamics f then f
      else if \<not> cares_about_span i f then f
      else f\<lparr>ef_by_id := (ef_by_id f)(i := None)\<rparr>)"

definition env_on_record ::
  "('f, 'p) env_lib \<Rightarrow> span_id \<Rightarrow> 'f record_values \<Rightarrow> ('f, 'p) env_filter \<Rightarrow> ('f, 'p) env_filter" where
  "env_on_record lib i vals f =
     (if \<not> ef_has_dynamics f then f
      else case ef_by_id f i of
             None \<Rightarrow> f
           | Some span \<Rightarrow> f\<lparr>ef_by_id := (ef_by_id f)(i \<mapsto> record_update lib (record_values vals) span)\<rparr>)"

definition base_interest :: "('f, 'p) env_filter \<Rightarrow> interest" where
  "base_interest f = (if ef_has_dynamics f then Sometimes else Never)"

definition env_register_callsite :: "metadata \<Rightarrow> ('f, 'p) env_filter \<Rightarrow> interest \<times> ('f, 'p) env_filter" where
  "env_register_callsite meta f =
     (case (if ef_has_dynamics f \<and> meta_is_span meta then dynamics_matcher (ef_dynamics f) meta else None) of
        Some m \<Rightarrow> (Always, f\<lparr>ef_by_cs := (ef_by_cs f)(meta_callsite meta \<mapsto> m)\<rparr>)
      | None \<Rightarrow> if static_enabled (ef_statics f) meta then (Always, f) else (base_interest f, f))"

definition env_display :: "('f, 'p) env_lib \<Rightarrow> ('f, 'p) env_filter \<Rightarrow> string" where
  "env_display lib f =
     (let wrote_statics = (directives (ef_statics f) \<noteq> []);
          dyns = directives (ef_dynamics f)
      in join_with '','' (map static_display (directives (ef_statics f))) @
         (if dyns \<noteq> [] then (if wrote_statics then '','' else []) @ join_with '','' (map (directive_display lib) dyns) else []))"

subsection \<open>The builder\<close>

record ('f, 'p) env_builder =
  eb_regex :: bool
  eb_env :: "string option"
  eb_default_directive :: "('f, 'p) directive option"

definition env_builder_default :: "('f, 'p) env_builder" where
  "env_builder_default = \<lparr>eb_regex = True, eb_env = None, eb_default_directive = None\<rparr>"

definition with_regex :: "bool \<Rightarrow> ('f, 'p) env_builder \<Rightarrow> ('f, 'p) env_builder" where
  "with_regex r b = b\<lparr>eb_regex := r\<rparr>"

definition with_default_directive :: "('f, 'p) directive \<Rightarrow> ('f, 'p) env_builder \<Rightarrow> ('f, 'p) env_builder" where
  "with_default_directive d b = b\<lparr>eb_default_directive := Some d\<rparr>"

definition with_env_var :: "string \<Rightarrow> ('f, 'p) env_builder \<Rightarrow> ('f, 'p) env_builder" where
  "with_env_var var b = b\<lparr>eb_env := Some var\<rparr>"

definition DEFAULT_ENV :: string where
  "DEFAULT_ENV = ''RUST_LOG''"

definition env_var_name :: "('f, 'p) env_builder \<Rightarrow> string" where
  "env_var_name b = (case eb_env b of Some v \<Rightarrow> v | None \<Rightarrow> DEFAULT_ENV)"

text \<open>
  The warning about directives that the \<open>tracing\<close> crate was compiled not to emit, without colours.
  \<open>None\<close> is the panic of \<open>expect\<close> or \<open>unreachable!\<close>.
\<close>

definition help_msg :: "level_filter \<Rightarrow> (string \<times> string) option" where
  "help_msg static_max =
     (case into_level static_max of
        Some TRACE \<Rightarrow> None
      | Some DEBUG \<Rightarrow> Some (''max_level_debug'', level_as_str TRACE @ '' '')
      | Some INFO \<Rightarrow> Some (''max_level_info'', level_as_str DEBUG @ '' '')
      | Some WARN \<Rightarrow> Some (''max_level_warn'', level_as_str INFO @ '' '')
      | Some ERROR \<Rightarrow> Some (''max_level_error'', level_as_str WARN @ '' '')
      | None \<Rightarrow> Some (''max_level_off'', []))"

definition disabled_note :: "('f, 'p) env_lib \<Rightarrow> ('f, 'p) directive \<Rightarrow> string option" where
  "disabled_note lib d = map_option (\<lambda>level.
     ''note: `'' @ directive_display lib d @ ''` would enable the '' @ level_as_str level @ '' level for '' @
     (case dv_target d of Some t \<Rightarrow> ''the `'' @ t @ ''` target'' | None \<Rightarrow> ''all targets''))
     (into_level (dv_level d))"

fun collect_options :: "'a option list \<Rightarrow> 'a list option" where
  "collect_options [] = Some []"
| "collect_options (x # xs) = Option.bind x (\<lambda>y. map_option ((#) y) (collect_options xs))"

definition static_warnings :: "('f, 'p) env_lib \<Rightarrow> level_filter \<Rightarrow> ('f, 'p) directive list \<Rightarrow> string list option" where
  "static_warnings lib static_max disabled =
     (if disabled = [] then Some []
      else Option.bind (collect_options (map (disabled_note lib) disabled)) (\<lambda>notes.
        Option.bind (help_msg static_max) (\<lambda>(feature, earlier_level).
          Some ([''warning: some trace filter directives would enable traces that are disabled statically''] @ notes @
            [''note: the static max level is `'' @ filter_display static_max @ ''`'',
             ''help: to enable '' @ earlier_level @ ''logging, remove the `'' @ feature @ ''` feature from the `tracing` crate'']))))"

definition from_directives ::
  "('f, 'p) env_lib \<Rightarrow> level_filter \<Rightarrow> ('f, 'p) env_builder \<Rightarrow> ('f, 'p) directive list \<Rightarrow>
   (('f, 'p) env_filter \<times> string list) option" where
  "from_directives lib static_max b ds =
     (let disabled = filter (\<lambda>d. dv_level d > static_max) ds;
          ds1 = (if \<not> eb_regex b then map deregexify ds else ds)
      in Option.bind (static_warnings lib static_max disabled) (\<lambda>warnings.
         Option.bind (make_tables lib ds1) (\<lambda>(dynamics, statics).
           let has_dynamics = (directives dynamics \<noteq> []);
               flt = \<lparr>ef_statics = statics, ef_dynamics = dynamics, ef_has_dynamics = has_dynamics,
                      ef_by_id = Map.empty, ef_by_cs = Map.empty, ef_scope = (\<lambda>_. []), ef_regex = eb_regex b\<rparr>
           in case (if \<not> has_dynamics \<and> directive_set_is_empty statics then eb_default_directive b else None) of
                Some d \<Rightarrow> map_option (\<lambda>g. (g, warnings)) (add_directive lib d flt)
              | None \<Rightarrow> Some (flt, warnings))))"

definition parse_lossy ::
  "('f, 'p) env_lib \<Rightarrow> level_filter \<Rightarrow> ('f, 'p) env_builder \<Rightarrow> string \<Rightarrow> (('f, 'p) env_filter \<times> string list) option" where
  "parse_lossy lib static_max b dirs =
     (let parsed = map (\<lambda>s. (s, directive_parse lib s (eb_regex b))) (filter (\<lambda>s. s \<noteq> []) (split_on CHR '','' dirs));
          ignored = List.map_filter (\<lambda>(s, r). case r of
            Inl e \<Rightarrow> Some (''ignoring `'' @ s @ ''`: '' @ parse_error_display e) | Inr _ \<Rightarrow> None) parsed;
          ds = List.map_filter (\<lambda>(_, r). case r of Inr d \<Rightarrow> Some d | Inl _ \<Rightarrow> None) parsed
      in map_option (\<lambda>(f, warnings). (f, ignored @ warnings)) (from_directives lib static_max b ds))"

definition env_parse ::
  "('f, 'p) env_lib \<Rightarrow> level_filter \<Rightarrow> ('f, 'p) env_builder \<Rightarrow> string \<Rightarrow>
   (parse_error + (('f, 'p) env_filter \<times> string list)) option" where
  "env_parse lib static_max b dirs =
     (if dirs = [] then map_option Inr (from_directives lib static_max b [])
      else case collect_results (map (\<lambda>s. directive_parse lib s (eb_regex b)) (filter (\<lambda>s. s \<noteq> []) (split_on CHR '','' dirs))) of
             Inl e \<Rightarrow> Some (Inl e)
           | Inr ds \<Rightarrow> map_option Inr (from_directives lib static_max b ds))"

text \<open>\<open>env::var\<close> is the function \<open>getenv\<close>.\<close>

datatype var_error = NotPresent | NotUnicode

datatype env_error_kind = EParse parse_error | EEnv var_error

definition unwrap_or_default :: "var_error + string \<Rightarrow> string" where
  "unwrap_or_default r = (case r of Inl _ \<Rightarrow> [] | Inr s \<Rightarrow> s)"

definition builder_from_env_lossy ::
  "('f, 'p) env_lib \<Rightarrow> level_filter \<Rightarrow> (string \<Rightarrow> var_error + string) \<Rightarrow> ('f, 'p) env_builder \<Rightarrow>
   (('f, 'p) env_filter \<times> string list) option" where
  "builder_from_env_lossy lib static_max getenv b = parse_lossy lib static_max b (unwrap_or_default (getenv (env_var_name b)))"

definition map_parse_error :: "parse_error + 'a \<Rightarrow> env_error_kind + 'a" where
  "map_parse_error r = map_sum EParse id r"

definition builder_from_env ::
  "('f, 'p) env_lib \<Rightarrow> level_filter \<Rightarrow> (string \<Rightarrow> var_error + string) \<Rightarrow> ('f, 'p) env_builder \<Rightarrow>
   (env_error_kind + (('f, 'p) env_filter \<times> string list)) option" where
  "builder_from_env lib static_max getenv b =
     map_option map_parse_error (env_parse lib static_max b (unwrap_or_default (getenv (env_var_name b))))"

definition builder_try_from_env ::
  "('f, 'p) env_lib \<Rightarrow> level_filter \<Rightarrow> (string \<Rightarrow> var_error + string) \<Rightarrow> ('f, 'p) env_builder \<Rightarrow>
   (env_error_kind + (('f, 'p) env_filter \<times> string list)) option" where
  "builder_try_from_env lib static_max getenv b =
     (case getenv (env_var_name b) of
        Inl e \<Rightarrow> Some (Inl (EEnv e))
      | Inr var \<Rightarrow> map_option map_parse_error (env_parse lib static_max b var))"

definition from_default_env ::
  "('f, 'p) env_lib \<Rightarrow> level_filter \<Rightarrow> (string \<Rightarrow> var_error + string) \<Rightarrow> (('f, 'p) env_filter \<times> string list) option" where
  "from_default_env lib static_max getenv =
     builder_from_env_lossy lib static_max getenv
       (with_default_directive (directive_from_level_filter (from_level ERROR)) env_builder_default)"

definition env_filter_new ::
  "('f, 'p) env_lib \<Rightarrow> level_filter \<Rightarrow> string \<Rightarrow> (('f, 'p) env_filter \<times> string list) option" where
  "env_filter_new lib static_max dirs =
     parse_lossy lib static_max
       (with_default_directive (directive_from_level_filter (from_level ERROR)) env_builder_default) dirs"

definition env_filter_try_new ::
  "('f, 'p) env_lib \<Rightarrow> level_filter \<Rightarrow> string \<Rightarrow> (parse_error + (('f, 'p) env_filter \<times> string list)) option" where
  "env_filter_try_new lib static_max dirs = env_parse lib static_max env_builder_default dirs"

subsection \<open>What the tables hold\<close>

lemma binary_search_panic_bounds:
  assumes "binary_search_panic f xs left right = Some r" and "left \<le> right" "right \<le> length xs"
  shows "case r of Inr i \<Rightarrow> i < length xs | Inl i \<Rightarrow> i \<le> length xs"
  using assms
proof (induction f xs left right rule: binary_search_panic.induct)
  case (1 f xs left right)
  show ?case
  proof (cases "left < right")
    case False
    then show ?thesis using "1.prems" by (subst (asm) binary_search_panic.simps) auto
  next
    case True
    define mid where "mid = left + (right - left) div 2"
    have mid: "left \<le> mid" "mid < right" using True by (auto simp: mid_def)
    have step: "binary_search_panic f xs left right =
        (case f (xs ! mid) of None \<Rightarrow> None | Some Equal \<Rightarrow> Some (Inr mid)
         | Some Less \<Rightarrow> binary_search_panic f xs (mid + 1) right | Some Greater \<Rightarrow> binary_search_panic f xs left mid)"
      using True unfolding mid_def by (subst binary_search_panic.simps) (simp only: Let_def if_True)
    show ?thesis
      using "1.IH"(1) [OF True mid_def] "1.IH"(2) [OF True mid_def] "1.prems" mid
      by (cases "f (xs ! mid)"; cases "the (f (xs ! mid))") (auto simp: step)
  qed
qed

lemma dynamics_add_effect:
  assumes "dynamics_add lib d s = Some s1"
  shows "max_level s1 = max (max_level s) (dv_level d)"
    and "d \<in> set (directives s1)" "set (directives s1) \<subseteq> insert d (set (directives s))"
proof -
  let ?ds = "directives s"
  obtain r where r: "binary_search_panic (\<lambda>p. directive_cmp lib p d) ?ds 0 (length ?ds) = Some r"
    using assms by (auto simp: dynamics_add_def Let_def split: option.splits if_splits)
  note b = binary_search_panic_bounds [OF r]
  show "max_level s1 = max (max_level s) (dv_level d)"
    using assms r by (auto simp: dynamics_add_def Let_def max_def split: sum.splits if_splits)
  have s1: "directives s1 = (case r of Inr i \<Rightarrow> ?ds[i := d] | Inl i \<Rightarrow> vec_insert i d ?ds)"
    using assms r by (auto simp: dynamics_add_def Let_def split: sum.splits if_splits)
  show "d \<in> set (directives s1)" "set (directives s1) \<subseteq> insert d (set (directives s))"
    using s1 b by (auto simp: vec_insert_def set_update_memI dest: in_set_takeD in_set_dropD
        set_update_subset_insert [THEN subsetD] split: sum.splits)
qed

text \<open>The set knows the most verbose level of its directives.\<close>

definition dynamics_ok :: "('f, 'p) dynamics \<Rightarrow> bool" where
  "dynamics_ok s \<longleftrightarrow> (\<forall>d \<in> set (directives s). dv_level d \<le> max_level s)"

lemma dynamics_add_ok:
  assumes "dynamics_add lib d s = Some s1" and "dynamics_ok s"
  shows "dynamics_ok s1" "directives s1 \<noteq> []"
  using dynamics_add_effect [OF assms(1)] assms(2) by (auto simp: dynamics_ok_def le_max_iff_disj)

lemma dynamics_extend_ok:
  "dynamics_extend lib ds s = Some s1 \<Longrightarrow> dynamics_ok s \<Longrightarrow> dynamics_ok s1"
  by (induction ds arbitrary: s) (auto simp: bind_eq_Some_conv dest: dynamics_add_ok)

text \<open>
  A directive that cares about a callsite has a matcher for it: the base level of
  \<open>Dynamics::matcher\<close> is never set, and a matcher exists exactly when some directive cares.
\<close>

lemma collect_fields_total:
  "list_all (\<lambda>f. field_lookup fs (fm_name f) \<noteq> None) fms \<Longrightarrow> \<exists>m1. collect_fields fs fms m = Some m1"
  by (induction fms arbitrary: m) (auto split: option.splits)

lemma field_matcher_total:
  "directive_cares_about d meta \<Longrightarrow> \<exists>m. field_matcher d meta = Some m \<and> cm_level m = dv_level d"
  using collect_fields_total [of "meta_fields meta" "dv_fields d" "[]"]
  by (auto simp: directive_cares_about_def field_matcher_def split: if_splits)

lemma collect_matches_total:
  "list_all (\<lambda>d. directive_cares_about d meta) ds \<Longrightarrow>
   collect_matches meta ds base = (map (\<lambda>d. the (field_matcher d meta)) ds, base)"
  using field_matcher_total by (induction ds) fastforce+

lemma dynamics_matcher_eq:
  "dynamics_matcher dyn meta =
    (let ds = directives_for directive_cares_about dyn meta in
     if ds = [] then None
     else Some \<lparr>csm_field_matches = map (\<lambda>d. the (field_matcher d meta)) ds, csm_base_level = OFF\<rparr>)"
proof -
  have "list_all (\<lambda>d. directive_cares_about d meta) (directives_for directive_cares_about dyn meta)"
    by (simp add: directives_for_def list_all_iff)
  from collect_matches_total [OF this] show ?thesis by (simp add: dynamics_matcher_def Let_def)
qed

subsection \<open>The level of a span\<close>

lemma lookup_field_eq:
  assumes "field_lookup fs n = Some f" "field_lookup fs k = Some g" and "field_eq f g"
  shows "n = k"
  using assms by (auto simp: field_lookup_def field_eq_def position_Some)

definition field_filters :: "field_set \<Rightarrow> ('f, 'p) field_match list \<Rightarrow> (field \<times> ('f, 'p) value_match) set" where
  "field_filters fs fms = {(f, v). \<exists>fm \<in> set fms. field_lookup fs (fm_name fm) = Some f \<and> fm_value fm = Some v}"

lemma collect_fields_set:
  assumes "collect_fields fs fms m = Some m1" and "distinct (map fm_name fms)" and "field_map_ok m"
    and "\<And>g w fm f. (g, w) \<in> set m \<Longrightarrow> fm \<in> set fms \<Longrightarrow> field_lookup fs (fm_name fm) = Some f \<Longrightarrow> \<not> field_eq g f"
  shows "field_map_ok m1 \<and> set m1 = set m \<union> field_filters fs fms"
  using assms
proof (induction fms arbitrary: m)
  case Nil
  then show ?case by (simp add: field_filters_def)
next
  case (Cons fm fms)
  obtain f where f: "field_lookup fs (fm_name fm) = Some f" using Cons.prems(1) by (auto split: option.splits)
  have other: "\<not> field_eq f g" if "fm' \<in> set fms" "field_lookup fs (fm_name fm') = Some g" for fm' g
    using lookup_field_eq [OF f that(2)] that(1) Cons.prems(2) by force
  show ?case
  proof (cases "fm_value fm")
    case None
    then have "field_map_ok m1 \<and> set m1 = set m \<union> field_filters fs fms"
      using Cons.prems f by (intro Cons.IH) auto
    then show ?thesis using None by (auto simp: field_filters_def)
  next
    case (Some v)
    have "filter (\<lambda>(g, _). \<not> field_eq g f) m = m"
      using Cons.prems(4) f by (auto simp: filter_id_conv)
    then have ins: "field_map_insert f v m = (f, v) # m" by (simp add: field_map_insert_def)
    have "field_map_ok m1 \<and> set m1 = set (field_map_insert f v m) \<union> field_filters fs fms"
    proof (rule Cons.IH)
      show "collect_fields fs fms (field_map_insert f v m) = Some m1" using Cons.prems(1) f Some by simp
      show "distinct (map fm_name fms)" using Cons.prems(2) by simp
      show "field_map_ok (field_map_insert f v m)" using Cons.prems(3) by (rule field_map_insert_ok)
      show "\<not> field_eq g h" if "(g, w) \<in> set (field_map_insert f v m)" "fm' \<in> set fms"
        "field_lookup fs (fm_name fm') = Some h" for g w fm' h
        using that other Cons.prems(4) [of g w fm' h] unfolding ins by auto
    qed
    then show ?thesis using f Some unfolding ins by (auto simp: field_filters_def)
  qed
qed

text \<open>
  The level a span is given by the values recorded on it: the most verbose of the levels of the
  directives that care about its callsite and whose value filters are all met.
\<close>

definition directive_satisfied ::
  "('f, 'p) env_lib \<Rightarrow> metadata \<Rightarrow> (field \<times> 'f recorded) list \<Rightarrow> ('f, 'p) directive \<Rightarrow> bool" where
  "directive_satisfied lib meta rs d =
     list_all (\<lambda>fm. case (field_lookup (meta_fields meta) (fm_name fm), fm_value fm) of
       (Some f, Some v) \<Rightarrow> list_ex (\<lambda>(g, r). field_eq f g \<and> value_accepts lib v r) rs | _ \<Rightarrow> True) (dv_fields d)"

definition span_level ::
  "('f, 'p) env_lib \<Rightarrow> ('f, 'p) dynamics \<Rightarrow> metadata \<Rightarrow> (field \<times> 'f recorded) list \<Rightarrow> level_filter option" where
  "span_level lib dyn meta rs =
     (case directives_for directive_cares_about dyn meta of
        [] \<Rightarrow> None
      | ds \<Rightarrow> Some (fold max (map dv_level (filter (directive_satisfied lib meta rs) ds)) OFF))"

definition match_tracks ::
  "('f, 'p) env_lib \<Rightarrow> (field \<times> 'f recorded) list \<Rightarrow> ('f, 'p) callsite_match \<Rightarrow> ('f, 'p) span_match \<Rightarrow> bool" where
  "match_tracks lib rs cm s \<longleftrightarrow>
     field_map_ok (cm_fields cm) \<and> sm_level s = cm_level cm \<and>
     sm_fields s = map (\<lambda>(k, v). (k, (v, satisfied lib rs k v))) (cm_fields cm) \<and>
     (sm_has_matched s \<longrightarrow> (\<forall>(k, v) \<in> set (cm_fields cm). satisfied lib rs k v))"

lemma satisfied_append: "satisfied lib (rs @ rs') k v \<longleftrightarrow> satisfied lib rs k v \<or> satisfied lib rs' k v"
  by (auto simp: satisfied_def)

lemma match_tracks_record:
  assumes "match_tracks lib rs cm s"
  shows "match_tracks lib (rs @ rs') cm (record_all lib rs' s)"
proof -
  have "sm_fields (record_all lib rs' s) =
      map (\<lambda>(k, v). (k, (v, satisfied lib rs k v \<or> satisfied lib rs' k v))) (cm_fields cm)"
    using assms by (intro record_all_flags) (auto simp: match_tracks_def)
  then show ?thesis
    using assms by (auto simp: match_tracks_def record_all_other satisfied_append)
qed

lemma match_tracks_new:
  assumes "field_map_ok (cm_fields cm)"
  shows "match_tracks lib rs cm (record_all lib rs (cm_to_span_match cm))"
proof -
  have "match_tracks lib [] cm (cm_to_span_match cm)"
    using assms by (auto simp: match_tracks_def cm_to_span_match_def satisfied_def)
  from match_tracks_record [OF this, of rs] show ?thesis by simp
qed

lemma match_tracks_filter:
  assumes "match_tracks lib rs cm s" and "span_match_filter s = (r, s1)"
  shows "match_tracks lib rs cm s1"
    and "r = (if \<forall>(k, v) \<in> set (cm_fields cm). satisfied lib rs k v then Some (cm_level cm) else None)"
  using assms
  by (auto simp: match_tracks_def span_match_filter_def is_matched_def Let_def list_all_iff split: if_splits)

definition distinct_fields :: "('f, 'p) directive \<Rightarrow> bool" where
  "distinct_fields d \<longleftrightarrow> distinct (map fm_name (dv_fields d))"

lemma field_matcher_correct:
  assumes "directive_cares_about d meta" and "distinct_fields d" and "field_matcher d meta = Some cm"
  shows "field_map_ok (cm_fields cm)" "cm_level cm = dv_level d"
    and "(\<forall>(k, v) \<in> set (cm_fields cm). satisfied lib rs k v) \<longleftrightarrow> directive_satisfied lib meta rs d"
proof -
  obtain m where m: "collect_fields (meta_fields meta) (dv_fields d) [] = Some m" "cm = \<lparr>cm_fields = m, cm_level = dv_level d\<rparr>"
    using assms(3) by (auto simp: field_matcher_def)
  have "field_map_ok m \<and> set m = set [] \<union> field_filters (meta_fields meta) (dv_fields d)"
    using assms(2) by (intro collect_fields_set [OF m(1)]) (auto simp: distinct_fields_def field_map_ok_def)
  then show "field_map_ok (cm_fields cm)" "cm_level cm = dv_level d"
    "(\<forall>(k, v) \<in> set (cm_fields cm). satisfied lib rs k v) \<longleftrightarrow> directive_satisfied lib meta rs d"
    unfolding m(2)
    by (simp_all add: field_filters_def directive_satisfied_def satisfied_def list_all_iff list_ex_iff split: option.splits) blast
qed

definition span_tracks ::
  "('f, 'p) env_lib \<Rightarrow> ('f, 'p) dynamics \<Rightarrow> metadata \<Rightarrow> (field \<times> 'f recorded) list \<Rightarrow> ('f, 'p) span_matcher \<Rightarrow> bool" where
  "span_tracks lib dyn meta rs sp \<longleftrightarrow> spm_base_level sp = OFF \<and>
     list_all2 (match_tracks lib rs)
       (map (\<lambda>d. the (field_matcher d meta)) (directives_for directive_cares_about dyn meta)) (spm_field_matches sp)"

lemma span_tracks_new:
  assumes "\<forall>d \<in> set (directives dyn). distinct_fields d" and "dynamics_matcher dyn meta = Some m"
  shows "span_tracks lib dyn meta (value_set_record vals) (csm_to_span_match lib vals m)"
proof -
  have "field_map_ok (cm_fields (the (field_matcher d meta)))" if "d \<in> set (directives_for directive_cares_about dyn meta)" for d
    using that assms(1) field_matcher_total [of d meta] field_matcher_correct(1) [of d meta]
    by (auto simp: directives_for_def)
  then show ?thesis
    using assms(2) by (auto simp: span_tracks_def dynamics_matcher_eq csm_to_span_match_def list_all2_map1 list_all2_map2
        list.rel_refl_strong Let_def match_tracks_new split: if_splits intro!: list_all2_same [THEN iffD2])
qed

lemma span_tracks_record:
  "span_tracks lib dyn meta rs sp \<Longrightarrow>
   span_tracks lib dyn meta (rs @ value_set_record vals) (record_update lib vals sp)"
  by (auto simp: span_tracks_def record_update_def list_all2_map2 match_tracks_record elim!: list_all2_mono)

lemma fold_max_OFF: "fold max xs OFF = (if xs = [] then OFF else Max (set xs))"
proof (cases xs)
  case (Cons x ys)
  have "max x OFF = x" using level_filter_exhaust6 [of x] by (auto simp: max_def less_eq_level_filter_def from_level_def OFF_USIZE_def)
  with Cons Max.set_eq_fold [of x ys] show ?thesis by simp
qed simp

lemma span_tracks_level:
  assumes "span_tracks lib dyn meta rs sp" and "\<forall>d \<in> set (directives dyn). distinct_fields d"
    and "span_matcher_level sp = (l, sp1)"
  shows "span_tracks lib dyn meta rs sp1"
    and "l = fold max (map dv_level (filter (directive_satisfied lib meta rs) (directives_for directive_cares_about dyn meta))) OFF"
proof -
  let ?ds = "directives_for directive_cares_about dyn meta"
  have results: "list_all2 (\<lambda>d s. match_tracks lib rs (the (field_matcher d meta)) s) ?ds (spm_field_matches sp)"
    using assms(1) by (simp add: span_tracks_def list_all2_map1)
  have ok: "directive_cares_about d meta" "distinct_fields d" if "d \<in> set ?ds" for d
    using that assms(2) by (auto simp: directives_for_def)
  have each: "list_all2 (\<lambda>d s. match_tracks lib rs (the (field_matcher d meta)) (snd (span_match_filter s)) \<and>
      fst (span_match_filter s) = (if directive_satisfied lib meta rs d then Some (dv_level d) else None)) ?ds (spm_field_matches sp)"
    using results
  proof (rule list.rel_mono_strong)
    fix d s assume d: "d \<in> set ?ds" and tr: "match_tracks lib rs (the (field_matcher d meta)) s"
    obtain cm where cm: "field_matcher d meta = Some cm" using field_matcher_total [OF ok(1) [OF d]] by blast
    note fm = field_matcher_correct [OF ok(1) [OF d] ok(2) [OF d] cm]
    have "match_tracks lib rs cm s" using tr cm by simp
    from match_tracks_filter [OF this prod.collapse [symmetric]]
    show "match_tracks lib rs (the (field_matcher d meta)) (snd (span_match_filter s)) \<and>
      fst (span_match_filter s) = (if directive_satisfied lib meta rs d then Some (dv_level d) else None)"
      using fm(2) fm(3) [of lib rs] cm by simp
  qed
  have "List.map_filter fst (map span_match_filter (spm_field_matches sp)) = map dv_level (filter (directive_satisfied lib meta rs) ?ds)"
    using each by (induction rule: list_all2_induct) (auto simp: List.map_filter_simps)
  then show "l = fold max (map dv_level (filter (directive_satisfied lib meta rs) ?ds)) OFF"
    using assms(1,3) by (auto simp: span_matcher_level_def Let_def fold_max_OFF span_tracks_def)
  show "span_tracks lib dyn meta rs sp1"
    using assms(1,3) each
    by (auto simp: span_matcher_level_def Let_def span_tracks_def list_all2_map1 list_all2_map2 elim!: list_all2_mono)
qed

subsection \<open>Runs of the filter\<close>

text \<open>
  What a program does with a filter as a layer: it registers callsites, creates spans of registered
  callsites, enters and leaves them, records values and closes them. The history keeps the
  registered callsites, the values recorded on each open span, and for each thread the entered
  spans (innermost first) with the level that the directives gave them when they were entered.
  Spans are left in the reverse order of entering, and closed when no thread is in them.
\<close>

record 'f history =
  hi_registered :: "metadata set"
  hi_spans :: "span_id \<rightharpoonup> metadata \<times> (field \<times> 'f recorded) list"
  hi_stack :: "thread \<Rightarrow> (span_id \<times> level_filter option) list"

definition history_start :: "'f history" where
  "history_start = \<lparr>hi_registered = {}, hi_spans = Map.empty, hi_stack = (\<lambda>_. [])\<rparr>"

inductive env_run :: "('f, 'p) env_lib \<Rightarrow> ('f, 'p) env_filter \<Rightarrow> ('f, 'p) env_filter \<Rightarrow> 'f history \<Rightarrow> bool"
  for lib f0 where
  run_start: "env_run lib f0 f0 history_start"
| run_register: "env_run lib f0 f h \<Longrightarrow> \<forall>m \<in> hi_registered h. meta_callsite m = meta_callsite meta \<longrightarrow> m = meta \<Longrightarrow>
    env_run lib f0 (snd (env_register_callsite meta f)) (h\<lparr>hi_registered := insert meta (hi_registered h)\<rparr>)"
| run_new_span: "env_run lib f0 f h \<Longrightarrow> attr_metadata attrs \<in> hi_registered h \<Longrightarrow> meta_is_span (attr_metadata attrs) \<Longrightarrow>
    hi_spans h i = None \<Longrightarrow>
    env_run lib f0 (env_on_new_span lib attrs i f)
      (h\<lparr>hi_spans := (hi_spans h)(i \<mapsto> (attr_metadata attrs, value_set_record (attr_values attrs)))\<rparr>)"
| run_enter: "env_run lib f0 f h \<Longrightarrow> hi_spans h i = Some (meta, rs) \<Longrightarrow>
    env_run lib f0 (env_on_enter t i f)
      (h\<lparr>hi_stack := (hi_stack h)(t := (i, span_level lib (ef_dynamics f0) meta rs) # hi_stack h t)\<rparr>)"
| run_exit: "env_run lib f0 f h \<Longrightarrow> hi_stack h t = (i, l) # rest \<Longrightarrow>
    env_run lib f0 (env_on_exit t i f) (h\<lparr>hi_stack := (hi_stack h)(t := rest)\<rparr>)"
| run_record: "env_run lib f0 f h \<Longrightarrow> hi_spans h i = Some (meta, rs) \<Longrightarrow>
    env_run lib f0 (env_on_record lib i vals f)
      (h\<lparr>hi_spans := (hi_spans h)(i \<mapsto> (meta, rs @ value_set_record (record_values vals)))\<rparr>)"
| run_close: "env_run lib f0 f h \<Longrightarrow> hi_spans h i \<noteq> None \<Longrightarrow> \<forall>t. i \<notin> fst ` set (hi_stack h t) \<Longrightarrow>
    env_run lib f0 (env_on_close i f) (h\<lparr>hi_spans := (hi_spans h)(i := None)\<rparr>)"

definition env_fresh :: "('f, 'p) env_filter \<Rightarrow> bool" where
  "env_fresh f \<longleftrightarrow> directive_set_ok static_cmp sd_level (ef_statics f) \<and> dynamics_ok (ef_dynamics f) \<and>
     (ef_has_dynamics f \<longleftrightarrow> directives (ef_dynamics f) \<noteq> []) \<and>
     ef_by_id f = Map.empty \<and> ef_by_cs f = Map.empty \<and> ef_scope f = (\<lambda>_. []) \<and>
     (\<forall>d \<in> set (directives (ef_dynamics f)). distinct_fields d)"

text \<open>The tables of directives do not change.\<close>

definition same_tables :: "('f, 'p) env_filter \<Rightarrow> ('f, 'p) env_filter \<Rightarrow> bool" where
  "same_tables f0 f \<longleftrightarrow> ef_statics f = ef_statics f0 \<and> ef_dynamics f = ef_dynamics f0 \<and>
     ef_has_dynamics f = ef_has_dynamics f0"

lemmas env_op_defs = env_on_new_span_def env_on_enter_def env_on_exit_def env_on_close_def env_on_record_def
  env_register_callsite_def cares_about_span_def

lemma run_same_tables: "env_run lib f0 f h \<Longrightarrow> same_tables f0 f"
  by (induction rule: env_run.induct)
    (auto simp: same_tables_def env_op_defs split: option.splits prod.splits)

lemma span_level_None: "span_level lib dyn meta rs = None \<longleftrightarrow> dynamics_matcher dyn meta = None"
  by (auto simp: span_level_def dynamics_matcher_eq Let_def split: list.splits)

lemma no_dynamics_matcher: "env_fresh f0 \<Longrightarrow> \<not> ef_has_dynamics f0 \<Longrightarrow> dynamics_matcher (ef_dynamics f0) meta = None"
  by (simp add: env_fresh_def dynamics_matcher_eq directives_for_def)

definition cs_inv :: "('f, 'p) env_filter \<Rightarrow> ('f, 'p) env_filter \<Rightarrow> 'f history \<Rightarrow> bool" where
  "cs_inv f0 f h \<longleftrightarrow>
     (\<forall>meta \<in> hi_registered h. meta_is_span meta \<longrightarrow>
        ef_by_cs f (meta_callsite meta) = dynamics_matcher (ef_dynamics f0) meta) \<and>
     (\<forall>c. ef_by_cs f c \<noteq> None \<longrightarrow> (\<exists>meta \<in> hi_registered h. meta_is_span meta \<and> meta_callsite meta = c))"

fun span_inv ::
  "('f, 'p) env_lib \<Rightarrow> ('f, 'p) dynamics \<Rightarrow> (metadata \<times> (field \<times> 'f recorded) list) option \<Rightarrow>
   ('f, 'p) span_matcher option \<Rightarrow> bool" where
  "span_inv lib dyn None sp \<longleftrightarrow> sp = None"
| "span_inv lib dyn (Some (meta, rs)) None \<longleftrightarrow> dynamics_matcher dyn meta = None"
| "span_inv lib dyn (Some (meta, rs)) (Some sp) \<longleftrightarrow>
     dynamics_matcher dyn meta \<noteq> None \<and> span_tracks lib dyn meta rs sp"

definition id_inv :: "('f, 'p) env_lib \<Rightarrow> ('f, 'p) env_filter \<Rightarrow> ('f, 'p) env_filter \<Rightarrow> 'f history \<Rightarrow> bool" where
  "id_inv lib f0 f h \<longleftrightarrow> (\<forall>i. span_inv lib (ef_dynamics f0) (hi_spans h i) (ef_by_id f i))"

lemma id_inv_upd:
  assumes "id_inv lib f0 f h" and "span_inv lib (ef_dynamics f0) x y"
    and "hi_spans h' = (hi_spans h)(i := x)" and "ef_by_id f' = (ef_by_id f)(i := y)"
  shows "id_inv lib f0 f' h'"
  using assms by (simp add: id_inv_def)

definition scope_inv :: "('f, 'p) env_filter \<Rightarrow> ('f, 'p) env_filter \<Rightarrow> 'f history \<Rightarrow> bool" where
  "scope_inv f0 f h \<longleftrightarrow>
     (\<forall>t. ef_scope f t = rev (List.map_filter snd (hi_stack h t))) \<and>
     (\<forall>t i l. (i, l) \<in> set (hi_stack h t) \<longrightarrow> (\<exists>meta rs. hi_spans h i = Some (meta, rs) \<and>
        (l = None \<longleftrightarrow> dynamics_matcher (ef_dynamics f0) meta = None)))"

lemma scope_invI:
  assumes "\<And>t. ef_scope f t = rev (List.map_filter snd (hi_stack h t))"
    and "\<And>t i l. (i, l) \<in> set (hi_stack h t) \<Longrightarrow> \<exists>meta rs. hi_spans h i = Some (meta, rs) \<and>
      (l = None \<longleftrightarrow> dynamics_matcher (ef_dynamics f0) meta = None)"
  shows "scope_inv f0 f h"
  using assms by (simp add: scope_inv_def)

lemma scope_invD:
  assumes "scope_inv f0 f h"
  shows "ef_scope f t = rev (List.map_filter snd (hi_stack h t))"
    and "(i, l) \<in> set (hi_stack h t) \<Longrightarrow> \<exists>meta rs. hi_spans h i = Some (meta, rs) \<and>
      (l = None \<longleftrightarrow> dynamics_matcher (ef_dynamics f0) meta = None)"
  using assms unfolding scope_inv_def by blast+

lemma register_inv:
  assumes "cs_inv f0 f h" and "env_fresh f0" and "same_tables f0 f"
    and "\<forall>m \<in> hi_registered h. meta_callsite m = meta_callsite meta \<longrightarrow> m = meta"
  shows "cs_inv f0 (snd (env_register_callsite meta f)) (h\<lparr>hi_registered := insert meta (hi_registered h)\<rparr>)"
proof -
  have "dynamics_matcher (ef_dynamics f0) meta = None" if "\<not> ef_has_dynamics f"
    using that no_dynamics_matcher [OF assms(2)] assms(3) by (simp add: same_tables_def)
  moreover have "ef_by_cs f (meta_callsite meta) = None" if "meta \<notin> hi_registered h"
    using that assms(1,4) unfolding cs_inv_def by blast
  ultimately show ?thesis
    using assms by (auto simp: cs_inv_def env_register_callsite_def same_tables_def split: option.splits)
qed

lemma new_span_inv:
  assumes "cs_inv f0 f h" "id_inv lib f0 f h" and "env_fresh f0" "same_tables f0 f"
    and "attr_metadata attrs \<in> hi_registered h" "meta_is_span (attr_metadata attrs)" "hi_spans h i = None"
  shows "id_inv lib f0 (env_on_new_span lib attrs i f)
      (h\<lparr>hi_spans := (hi_spans h)(i \<mapsto> (attr_metadata attrs, value_set_record (attr_values attrs)))\<rparr>)"
proof -
  let ?m = "dynamics_matcher (ef_dynamics f0) (attr_metadata attrs)"
  have cs: "ef_by_cs f (meta_callsite (attr_metadata attrs)) = ?m"
    using assms by (auto simp: cs_inv_def)
  have distinct: "\<forall>d \<in> set (directives (ef_dynamics f0)). distinct_fields d"
    using assms(3) by (simp add: env_fresh_def)
  have none: "?m = None" if "\<not> ef_has_dynamics f"
    using that no_dynamics_matcher [OF assms(3)] assms(4) by (simp add: same_tables_def)
  have i: "ef_by_id f i = None" using assms(2,7) by (metis id_inv_def span_inv.simps(1))
  show ?thesis
  proof (rule id_inv_upd [OF assms(2)])
    show "span_inv lib (ef_dynamics f0) (Some (attr_metadata attrs, value_set_record (attr_values attrs)))
        (map_option (csm_to_span_match lib (attr_values attrs)) ?m)"
      using span_tracks_new [OF distinct] by (cases ?m) auto
    show "ef_by_id (env_on_new_span lib attrs i f) =
        (ef_by_id f)(i := map_option (csm_to_span_match lib (attr_values attrs)) ?m)"
      using cs none i by (auto simp: env_on_new_span_def fun_upd_idem split: option.split)
  qed simp
qed

lemma enter_inv:
  fixes t :: thread
  assumes "id_inv lib f0 f h" "scope_inv f0 f h" and "env_fresh f0" "same_tables f0 f" and "hi_spans h i = Some (meta, rs)"
  defines "h1 \<equiv> h\<lparr>hi_stack := (hi_stack h)(t := (i, span_level lib (ef_dynamics f0) meta rs) # hi_stack h t)\<rparr>"
  shows "id_inv lib f0 (env_on_enter t i f) h1 \<and> scope_inv f0 (env_on_enter t i f) h1"
proof (cases "ef_by_id f i")
  case None
  then have none: "dynamics_matcher (ef_dynamics f0) meta = None"
    using assms(1,5) by (metis id_inv_def span_inv.simps(2))
  then have "span_level lib (ef_dynamics f0) meta rs = None" by (simp add: span_level_None)
  moreover have "env_on_enter t i f = f" using None by (simp add: env_on_enter_def)
  ultimately show ?thesis
    using assms(1,2,5) none by (auto simp: h1_def id_inv_def scope_inv_def List.map_filter_simps)
next
  case (Some sp)
  then have inv: "dynamics_matcher (ef_dynamics f0) meta \<noteq> None" "span_tracks lib (ef_dynamics f0) meta rs sp"
    using assms(1,5) by (metis id_inv_def span_inv.simps(3))+
  obtain l sp1 where l: "span_matcher_level sp = (l, sp1)" by (cases "span_matcher_level sp")
  have distinct: "\<forall>d \<in> set (directives (ef_dynamics f0)). distinct_fields d"
    using assms(3) by (simp add: env_fresh_def)
  have lvl: "span_level lib (ef_dynamics f0) meta rs = Some l"
    using inv(1) span_tracks_level(2) [OF inv(2) distinct l]
    by (auto simp: span_level_def dynamics_matcher_eq Let_def split: list.splits)
  have has: "ef_has_dynamics f" using inv(1) no_dynamics_matcher [OF assms(3)] assms(4) by (auto simp: same_tables_def)
  have "id_inv lib f0 (env_on_enter t i f) h1"
    using assms(5) inv(1) span_tracks_level(1) [OF inv(2) distinct l] Some l has
    by (intro id_inv_upd [OF assms(1), of "hi_spans h i" "Some sp1" _ i]) (auto simp: h1_def env_on_enter_def)
  moreover have "scope_inv f0 (env_on_enter t i f) h1"
    using assms(2,5) inv(1) Some l lvl has by (auto simp: scope_inv_def h1_def env_on_enter_def List.map_filter_simps)
  ultimately show ?thesis by blast
qed

lemma exit_inv:
  assumes "id_inv lib f0 f h" "scope_inv f0 f h" and "env_fresh f0" "same_tables f0 f" and top: "hi_stack h t = (i, l) # rest"
  shows "scope_inv f0 (env_on_exit t i f) (h\<lparr>hi_stack := (hi_stack h)(t := rest)\<rparr>)"
proof -
  obtain meta rs where sp: "hi_spans h i = Some (meta, rs)" "l = None \<longleftrightarrow> dynamics_matcher (ef_dynamics f0) meta = None"
    using scope_invD(2) [OF assms(2), of i l t] top by auto
  have by_id: "ef_by_id f i = None \<longleftrightarrow> l = None"
    using assms(1) sp by (metis id_inv_def option.exhaust span_inv.simps(2,3))
  have "ef_scope f t = rev (List.map_filter snd rest) @ (case l of None \<Rightarrow> [] | Some x \<Rightarrow> [x])"
    using assms(2) top by (auto simp: scope_inv_def List.map_filter_simps split: option.split)
  moreover have "l = None" if "\<not> ef_has_dynamics f"
    using that sp(2) no_dynamics_matcher [OF assms(3)] assms(4) by (simp add: same_tables_def)
  ultimately have "ef_scope (env_on_exit t i f) = (ef_scope f)(t := rev (List.map_filter snd rest))"
    using by_id by (auto simp: env_on_exit_def cares_about_span_def fun_upd_idem split: option.split)
  then show ?thesis
    using scope_invD(1) [OF assms(2)] scope_invD(2) [OF assms(2), of _ _ t] scope_invD(2) [OF assms(2)] top
    by (intro scope_invI) (auto split: if_splits)
qed

lemma record_inv:
  assumes "id_inv lib f0 f h" and "env_fresh f0" "same_tables f0 f" and "hi_spans h i = Some (meta, rs)"
  shows "id_inv lib f0 (env_on_record lib i vals f)
      (h\<lparr>hi_spans := (hi_spans h)(i \<mapsto> (meta, rs @ value_set_record (record_values vals)))\<rparr>)"
proof (rule id_inv_upd [OF assms(1)])
  have inv: "span_inv lib (ef_dynamics f0) (Some (meta, rs)) (ef_by_id f i)"
    using assms(1,4) by (metis id_inv_def)
  show "span_inv lib (ef_dynamics f0) (Some (meta, rs @ value_set_record (record_values vals)))
      (map_option (record_update lib (record_values vals)) (ef_by_id f i))"
    using inv span_tracks_record by (cases "ef_by_id f i") auto
  have "ef_by_id f i = None" if "\<not> ef_has_dynamics f"
    using that inv no_dynamics_matcher [OF assms(2)] assms(3) by (cases "ef_by_id f i") (auto simp: same_tables_def)
  then show "ef_by_id (env_on_record lib i vals f) =
      (ef_by_id f)(i := map_option (record_update lib (record_values vals)) (ef_by_id f i))"
    by (auto simp: env_on_record_def fun_upd_idem split: option.split)
qed simp

lemma close_inv:
  assumes "id_inv lib f0 f h" "scope_inv f0 f h" and "env_fresh f0" "same_tables f0 f"
    and "hi_spans h i \<noteq> None" "\<forall>t. i \<notin> fst ` set (hi_stack h t)"
  shows "id_inv lib f0 (env_on_close i f) (h\<lparr>hi_spans := (hi_spans h)(i := None)\<rparr>)"
    and "scope_inv f0 (env_on_close i f) (h\<lparr>hi_spans := (hi_spans h)(i := None)\<rparr>)"
proof -
  obtain meta rs where sp: "hi_spans h i = Some (meta, rs)" using assms(5) by auto
  have inv: "span_inv lib (ef_dynamics f0) (Some (meta, rs)) (ef_by_id f i)"
    using assms(1) sp by (metis id_inv_def)
  have "ef_by_id f i = None" if "\<not> ef_has_dynamics f"
    using that inv no_dynamics_matcher [OF assms(3)] assms(4) by (cases "ef_by_id f i") (auto simp: same_tables_def)
  then have "ef_by_id (env_on_close i f) = (ef_by_id f)(i := None)"
    by (auto simp: env_on_close_def cares_about_span_def fun_upd_idem)
  then show "id_inv lib f0 (env_on_close i f) (h\<lparr>hi_spans := (hi_spans h)(i := None)\<rparr>)"
    by (intro id_inv_upd [OF assms(1), of None None _ i]) auto
  have "ef_scope (env_on_close i f) = ef_scope f" by (simp add: env_on_close_def)
  then show "scope_inv f0 (env_on_close i f) (h\<lparr>hi_spans := (hi_spans h)(i := None)\<rparr>)"
  proof (intro scope_invI)
    fix t j l assume "(j, l) \<in> set (hi_stack (h\<lparr>hi_spans := (hi_spans h)(i := None)\<rparr>) t)"
    then have "(j, l) \<in> set (hi_stack h t)" "j \<noteq> i" using assms(6) by force+
    from scope_invD(2) [OF assms(2) this(1)] this(2)
    show "\<exists>meta rs. hi_spans (h\<lparr>hi_spans := (hi_spans h)(i := None)\<rparr>) j = Some (meta, rs) \<and>
        (l = None \<longleftrightarrow> dynamics_matcher (ef_dynamics f0) meta = None)" by simp
  qed (simp add: scope_invD(1) [OF assms(2)])
qed

lemma env_frame [simp]:
  "ef_by_id (snd (env_register_callsite meta f)) = ef_by_id f"
  "ef_scope (snd (env_register_callsite meta f)) = ef_scope f"
  "ef_by_cs (env_on_new_span lib attrs i f) = ef_by_cs f" "ef_scope (env_on_new_span lib attrs i f) = ef_scope f"
  "ef_by_cs (env_on_enter t i f) = ef_by_cs f"
  "ef_by_cs (env_on_exit t i f) = ef_by_cs f" "ef_by_id (env_on_exit t i f) = ef_by_id f"
  "ef_by_cs (env_on_record lib i vals f) = ef_by_cs f" "ef_scope (env_on_record lib i vals f) = ef_scope f"
  "ef_by_cs (env_on_close i f) = ef_by_cs f"
  by (simp_all add: env_op_defs split: option.splits prod.splits)

lemma run_inv:
  assumes "env_run lib f0 f h" and "env_fresh f0"
  shows "cs_inv f0 f h \<and> id_inv lib f0 f h \<and> scope_inv f0 f h"
  using assms(1)
proof (induction rule: env_run.induct)
  case run_start
  then show ?case using assms(2)
    by (simp add: cs_inv_def id_inv_def scope_inv_def history_start_def env_fresh_def List.map_filter_simps)
next
  case (run_register f h meta)
  note st = run_same_tables [OF run_register(1)]
  show ?case using run_register register_inv [OF _ assms(2) st] by (simp add: id_inv_def scope_inv_def)
next
  case (run_new_span f h attrs i)
  note st = run_same_tables [OF run_new_span(1)]
  have "scope_inv f0 (env_on_new_span lib attrs i f)
      (h\<lparr>hi_spans := (hi_spans h)(i \<mapsto> (attr_metadata attrs, value_set_record (attr_values attrs)))\<rparr>)"
    using run_new_span by (fastforce simp: scope_inv_def)
  then show ?case using run_new_span new_span_inv [OF _ _ assms(2) st] by (simp add: cs_inv_def)
next
  case (run_enter f h i meta rs t)
  note st = run_same_tables [OF run_enter(1)]
  show ?case using run_enter enter_inv [OF _ _ assms(2) st] by (simp add: cs_inv_def)
next
  case (run_exit f h t i l rest)
  note st = run_same_tables [OF run_exit(1)]
  have "scope_inv f0 (env_on_exit t i f) (h\<lparr>hi_stack := (hi_stack h)(t := rest)\<rparr>)"
    using run_exit exit_inv [OF _ _ assms(2) st] by blast
  then show ?case using run_exit by (simp add: cs_inv_def id_inv_def)
next
  case (run_record f h i meta rs vals)
  note st = run_same_tables [OF run_record(1)]
  have "scope_inv f0 (env_on_record lib i vals f)
      (h\<lparr>hi_spans := (hi_spans h)(i \<mapsto> (meta, rs @ value_set_record (record_values vals)))\<rparr>)"
    using run_record by (fastforce simp: scope_inv_def)
  then show ?case using run_record record_inv [OF _ assms(2) st] by (simp add: cs_inv_def)
next
  case (run_close f h i)
  note st = run_same_tables [OF run_close(1)]
  have "id_inv lib f0 f h" "scope_inv f0 f h" using run_close by blast+
  from close_inv [OF this assms(2) st run_close(2,3)] show ?case using run_close by (simp add: cs_inv_def)
qed

subsection \<open>Built filters\<close>

lemma dynamics_extend_subset:
  "dynamics_extend lib ds s = Some s1 \<Longrightarrow> set (directives s1) \<subseteq> set ds \<union> set (directives s)"
  by (induction ds arbitrary: s) (auto simp: bind_eq_Some_conv dest: dynamics_add_effect)

lemma deregexify_fields [simp]: "distinct_fields (deregexify d) = distinct_fields d"
  by (simp add: distinct_fields_def deregexify_def o_def)

lemma add_directive_fresh:
  assumes "add_directive lib d f = Some g" and "env_fresh f" and "distinct_fields d"
  shows "env_fresh g"
proof -
  define e where "e = (if \<not> ef_regex f then deregexify d else d)"
  have e: "distinct_fields e" using assms(3) by (simp add: e_def)
  show ?thesis
  proof (cases "to_static e")
    case (Some st)
    then have "g = f\<lparr>ef_statics := static_add st (ef_statics f)\<rparr>"
      using assms(1) by (simp add: add_directive_def e_def Let_def)
    then show ?thesis using assms(2) by (simp add: env_fresh_def static_add_def static.add_ok)
  next
    case None
    then obtain dyn where dyn: "dynamics_add lib e (ef_dynamics f) = Some dyn"
      "g = f\<lparr>ef_has_dynamics := True, ef_dynamics := dyn\<rparr>"
      using assms(1) by (auto simp: add_directive_def e_def Let_def)
    show ?thesis
      using assms(2) dynamics_add_ok [OF dyn(1)] dynamics_add_effect(3) [OF dyn(1)] e dyn(2)
      by (auto simp: env_fresh_def)
  qed
qed

lemma from_directives_fresh:
  assumes "from_directives lib static_max b ds = Some (f, w)" and "list_all distinct_fields ds"
    and "pred_option distinct_fields (eb_default_directive b)"
  shows "env_fresh f"
proof -
  let ?ds = "if \<not> eb_regex b then map deregexify ds else ds"
  have ds: "\<forall>d \<in> set ?ds. distinct_fields d" using assms(2) by (auto simp: list_all_iff)
  obtain dyn st where tab: "make_tables lib ?ds = Some (dyn, st)"
    using assms(1) by (auto simp: from_directives_def Let_def bind_eq_Some_conv split: if_splits)
  define g where "g = \<lparr>ef_statics = st, ef_dynamics = dyn, ef_has_dynamics = (directives dyn \<noteq> []),
      ef_by_id = Map.empty :: span_id \<rightharpoonup> ('a, 'b) span_matcher, ef_by_cs = Map.empty :: callsite_id \<rightharpoonup> ('a, 'b) callsite_matcher,
      ef_scope = (\<lambda>_. []), ef_regex = eb_regex b\<rparr>"
  have ext: "dynamics_extend lib (filter is_dynamic ?ds) directive_set_default = Some dyn"
    and st: "directive_set_ok static_cmp sd_level st"
    using tab by (auto simp: make_tables_def Let_def static_from_iter_def static.from_iter_ok)
  have "dynamics_ok dyn"
    by (rule dynamics_extend_ok [OF ext]) (simp add: dynamics_ok_def directive_set_default_def)
  then have g: "env_fresh g"
    using dynamics_extend_subset [OF ext] st ds by (auto simp: env_fresh_def g_def directive_set_default_def)
  have "f = g \<or> (\<exists>d. eb_default_directive b = Some d \<and> add_directive lib d g = Some f)"
    using assms(1) tab unfolding g_def
    by (auto simp: from_directives_def Let_def bind_eq_Some_conv split: if_splits option.splits)
  then show ?thesis using g assms(3) add_directive_fresh [of lib _ g f] by auto
qed

lemma fold_max_le: "\<forall>x \<in> set xs. x \<le> m \<Longrightarrow> b \<le> m \<Longrightarrow> fold max xs b \<le> (m :: level_filter)"
  by (induction xs arbitrary: b) simp_all

lemma span_level_bound:
  assumes "dynamics_ok dyn" and "span_level lib dyn meta rs = Some lv"
  shows "lv \<le> max_level dyn" "directives dyn \<noteq> []"
proof -
  let ?ds = "directives_for directive_cares_about dyn meta"
  have ds: "?ds \<noteq> []" and lv: "lv = fold max (map dv_level (filter (directive_satisfied lib meta rs) ?ds)) OFF"
    using assms(2) by (auto simp: span_level_def split: list.splits)
  have "fold max (map dv_level (filter (directive_satisfied lib meta rs) ?ds)) OFF \<le> max_level dyn"
    using assms(1) OFF_le by (intro fold_max_le) (auto simp: directives_for_def dynamics_ok_def)
  then show "lv \<le> max_level dyn" using lv by simp
  show "directives dyn \<noteq> []" using ds by (auto simp: directives_for_def)
qed

lemma run_stack_levels:
  assumes "env_run lib f0 f h" and "env_fresh f0"
  shows "(i, Some lv) \<in> set (hi_stack h t) \<Longrightarrow> lv \<le> max_level (ef_dynamics f0) \<and> ef_has_dynamics f0"
  using assms(1)
proof (induction arbitrary: i t rule: env_run.induct)
  case (run_enter f h j meta rs u)
  then show ?case
    using assms(2) span_level_bound [of "ef_dynamics f0" lib meta rs lv]
    by (auto simp: env_fresh_def split: if_splits)
next
  case (run_exit f h u j l rest)
  then show ?case using run_exit.IH [of i u] run_exit.IH [of i t] by (cases "t = u") auto
qed (auto simp: history_start_def split: if_splits)

lemma run_enabled:
  assumes run: "env_run lib f0 f h" and fresh: "env_fresh f0" and reg: "meta \<in> hi_registered h"
  shows "env_enabled t meta f \<longleftrightarrow>
      meta_is_span meta \<and> level_le_filter (meta_level meta) (max_level (ef_dynamics f0)) \<and>
        (\<exists>d \<in> set (directives (ef_dynamics f0)). directive_cares_about d meta) \<or>
      (\<exists>i lv. (i, Some lv) \<in> set (hi_stack h t) \<and> level_le_filter (meta_level meta) lv) \<or>
      static_enabled (ef_statics f0) meta" (is "_ \<longleftrightarrow> ?span \<or> ?scope \<or> ?static")
proof -
  note inv = run_inv [OF run fresh]
  note tables = run_same_tables [OF run, unfolded same_tables_def]
  have static: "?static \<Longrightarrow> level_le_filter (meta_level meta) (max_level (ef_statics f0))"
    using static_enabled_max_level fresh by (auto simp: env_fresh_def)
  have cs: "meta_is_span meta \<Longrightarrow> ef_by_cs f (meta_callsite meta) \<noteq> None \<longleftrightarrow>
      (\<exists>d \<in> set (directives (ef_dynamics f0)). directive_cares_about d meta)"
    using inv reg by (auto simp: cs_inv_def dynamics_matcher_eq Let_def directives_for_def filter_empty_conv)
  have has: "\<exists>d \<in> set (directives (ef_dynamics f0)). directive_cares_about d meta \<Longrightarrow> ef_has_dynamics f0"
    using fresh by (auto simp: env_fresh_def)
  have scope: "list_ex (\<lambda>flt. filter_ge_level flt (meta_level meta)) (ef_scope f t) \<longleftrightarrow> ?scope"
  proof -
    have "ef_scope f t = rev (List.map_filter snd (hi_stack h t))" using inv scope_invD(1) by blast
    then have "set (ef_scope f t) = {lv. \<exists>i. (i, Some lv) \<in> set (hi_stack h t)}"
      by (force simp: List.map_filter_def)
    then show ?thesis by (auto simp: list_ex_iff)
  qed
  have dyn: "?scope \<Longrightarrow> ef_has_dynamics f0 \<and> level_le_filter (meta_level meta) (max_level (ef_dynamics f0))"
    using run_stack_levels [OF run fresh] level_le_filter_trans by blast
  have "env_enabled t meta f \<longleftrightarrow>
      ef_has_dynamics f0 \<and> level_le_filter (meta_level meta) (max_level (ef_dynamics f0)) \<and>
        (meta_is_span meta \<and> ef_by_cs f (meta_callsite meta) \<noteq> None \<or> ?scope) \<or>
      level_le_filter (meta_level meta) (max_level (ef_statics f0)) \<and> ?static"
    unfolding env_enabled_def Let_def scope by (auto simp: tables)
  then show ?thesis using static cs has dyn by blast
qed

lemma enabled_within_hint:
  assumes "env_enabled t meta f"
  shows "\<exists>hint. env_max_level_hint f = Some hint \<and> level_le_filter (meta_level meta) hint"
proof -
  have "level_le_filter (meta_level meta) (max_level (ef_statics f)) \<or>
      level_le_filter (meta_level meta) (max_level (ef_dynamics f))"
    using assms by (auto simp: env_enabled_def Let_def split: if_splits)
  then show ?thesis
    by (auto simp: env_max_level_hint_def level_le_filter_from_level le_max_iff_disj)
      (simp_all add: from_level_def flip: level_le_filter_from_level)
qed


definition demo_span_meta :: "string \<Rightarrow> level \<Rightarrow> metadata" where
  "demo_span_meta name lvl =
     \<lparr>meta_name = name, meta_target = ''app'', meta_level = lvl, meta_module_path = None,
      meta_file = None, meta_line = None,
      meta_fields = \<lparr>fs_names = [''id''], fs_callsite = 2\<rparr>, meta_kind = SPAN\<rparr>"

definition demo_span_directive :: "(unit, string) value_match option \<Rightarrow> level_filter \<Rightarrow> (unit, string) directive" where
  "demo_span_directive v l =
     \<lparr>dv_in_span = Some ''s'', dv_fields = [\<lparr>fm_name = ''id'', fm_value = v\<rparr>], dv_target = None, dv_level = l\<rparr>"

definition demo_filter :: "(unit, string) directive \<Rightarrow> (unit, string) env_filter" where
  "demo_filter d = \<lparr>ef_statics = directive_set_default,
     ef_dynamics = \<lparr>directives = [d], max_level = dv_level d\<rparr>,
     ef_has_dynamics = True, ef_by_id = Map.empty, ef_by_cs = Map.empty, ef_scope = (\<lambda>_. []), ef_regex = True\<rparr>"

lemma TRACE_greatest: "\<not> from_level TRACE < f"
  using level_filter_exhaust6 [of f] by (auto simp: less_level_filter_def from_level_def OFF_USIZE_def)

lemma demo_filter_built:
  assumes "OFF < l"
  shows "from_directives demo_lib (from_level TRACE) env_builder_default [demo_span_directive v l] =
      Some (demo_filter (demo_span_directive v l), [])"
  using assms TRACE_greatest
  by (simp add: from_directives_def static_warnings_def env_builder_default_def make_tables_def is_dynamic_def
      has_name_def demo_span_directive_def dynamics_add_def directive_set_default_def binary_search_panic.simps Let_def
      vec_insert_def to_static_def is_static_def List.map_filter_simps static_from_iter_def directive_set_from_iter_def
      directive_set_extend_def demo_filter_def)


subsection \<open>Interest\<close>

text \<open>C28. The interest that the filter declares for a callsite when it is registered can be trusted at
  every later point of the program. \<open>Never\<close> means that the callsite is not enabled on any thread.
  \<open>Always\<close> means that it is enabled on every thread, but for spans that a dynamic directive cares about
  and that are more verbose than every dynamic directive.\<close>

theorem env_interest_sound:
  assumes built: "from_directives lib static_max b ds = Some (f0, w)"
    and distinct: "list_all distinct_fields ds" "pred_option distinct_fields (eb_default_directive b)"
    and run: "env_run lib f0 f h"
    and later: "env_run lib f0 g h1" "meta \<in> hi_registered h1"
  shows "(fst (env_register_callsite meta f) = Never \<longrightarrow> \<not> env_enabled t meta g) \<and>
    (fst (env_register_callsite meta f) = Always \<longrightarrow>
       env_enabled t meta g \<or>
       meta_is_span meta \<and> \<not> level_le_filter (meta_level meta) (max_level (ef_dynamics f0)) \<and>
         (\<exists>d \<in> set (directives (ef_dynamics f0)). directive_cares_about d meta))"
proof -
  note fresh = from_directives_fresh [OF built distinct]
  note enabled = run_enabled [OF later(1) fresh later(2), of t]
  have f: "ef_statics f = ef_statics f0" "ef_dynamics f = ef_dynamics f0" "ef_has_dynamics f = ef_has_dynamics f0"
    using run_same_tables [OF run] by (simp_all add: same_tables_def)
  have matcher: "dynamics_matcher (ef_dynamics f0) meta \<noteq> None \<longleftrightarrow>
      (\<exists>d \<in> set (directives (ef_dynamics f0)). directive_cares_about d meta)"
    by (auto simp: dynamics_matcher_eq Let_def directives_for_def filter_empty_conv)
  have no_dyn: "\<not> ef_has_dynamics f0 \<Longrightarrow> directives (ef_dynamics f0) = []" using fresh by (simp add: env_fresh_def)
  have no_stack: "\<not> ef_has_dynamics f0 \<Longrightarrow> (i, Some lv) \<notin> set (hi_stack h1 t)" for i lv
    using run_stack_levels [OF later(1) fresh] by blast
  have "\<not> ef_has_dynamics f0 \<and> \<not> static_enabled (ef_statics f0) meta" if "fst (env_register_callsite meta f) = Never"
    using that by (auto simp: env_register_callsite_def base_interest_def f split: option.splits if_splits)
  moreover have "static_enabled (ef_statics f0) meta \<or> meta_is_span meta \<and> dynamics_matcher (ef_dynamics f0) meta \<noteq> None"
    if "fst (env_register_callsite meta f) = Always"
    using that by (auto simp: env_register_callsite_def base_interest_def f split: option.splits if_splits)
  ultimately show ?thesis using enabled matcher no_dyn no_stack by auto
qed

theorem env_interest_sound_witness:
  "let d = demo_span_directive None (from_level DEBUG); sp = demo_span_meta ''s'' INFO;
       f = snd (env_register_callsite sp (demo_filter d))
   in fst (env_register_callsite sp (demo_filter d)) = Always \<and> env_enabled 0 sp f"
proof -
  define d where "d = demo_span_directive None (from_level DEBUG)"
  define sp where "sp = demo_span_meta ''s'' INFO"
  have run: "env_run demo_lib (demo_filter d) (snd (env_register_callsite sp (demo_filter d)))
      (history_start\<lparr>hi_registered := {sp}\<rparr>)"
    using env_run.run_register [OF env_run.run_start, of sp demo_lib "demo_filter d"]
    by (simp add: history_start_def)
  have built: "from_directives demo_lib (from_level TRACE) env_builder_default [d] = Some (demo_filter d, [])"
    unfolding d_def by (rule demo_filter_built) (simp add: less_level_filter_def from_level_def OFF_USIZE_def)
  have always: "fst (env_register_callsite sp (demo_filter d)) = Always"
    by (simp add: env_register_callsite_def demo_filter_def d_def demo_span_directive_def sp_def demo_span_meta_def
        meta_is_span_def kind_is_bits SPAN_def kind_bit_defs dynamics_matcher_eq directives_for_def
        directive_cares_about_def field_lookup_def)
  have lvl: "level_le_filter (meta_level sp) (max_level (ef_dynamics (demo_filter d)))"
    by (simp add: sp_def demo_span_meta_def demo_filter_def d_def demo_span_directive_def level_le_filter_def from_level_def)
  have "env_enabled 0 sp (snd (env_register_callsite sp (demo_filter d)))"
    using env_interest_sound [OF built _ _ env_run.run_start run, THEN conjunct2, THEN mp, OF _ _ _ always, of 0] lvl
    by (simp add: d_def demo_span_directive_def distinct_fields_def env_builder_default_def)
  then show ?thesis using always by (simp add: Let_def d_def sp_def)
qed

text \<open>A span that a dynamic directive cares about is declared \<open>Always\<close> of interest although the
  filter then refuses it: the check against the most verbose dynamic level comes before the look-up
  of the callsite. The hint does not rule the span out, because the directive filters on a value.\<close>

theorem env_always_but_disabled:
  "let d = demo_span_directive (Some (MU64 1)) (from_level WARN); sp = demo_span_meta ''s'' INFO
   in from_directives demo_lib (from_level TRACE) env_builder_default [d] = Some (demo_filter d, []) \<and>
      fst (env_register_callsite sp (demo_filter d)) = Always \<and>
      \<not> env_enabled t sp (snd (env_register_callsite sp (demo_filter d))) \<and>
      env_max_level_hint (demo_filter d) = Some (from_level TRACE)"
proof -
  define d where "d = demo_span_directive (Some (MU64 1)) (from_level WARN)"
  define sp where "sp = demo_span_meta ''s'' INFO"
  have built: "from_directives demo_lib (from_level TRACE) env_builder_default [d] = Some (demo_filter d, [])"
    unfolding d_def by (rule demo_filter_built) (simp add: less_level_filter_def from_level_def OFF_USIZE_def)
  have "fst (env_register_callsite sp (demo_filter d)) = Always"
    by (simp add: env_register_callsite_def demo_filter_def d_def demo_span_directive_def sp_def demo_span_meta_def
        meta_is_span_def kind_is_bits SPAN_def kind_bit_defs dynamics_matcher_eq directives_for_def
        directive_cares_about_def field_lookup_def)
  moreover have "\<not> env_enabled t sp (snd (env_register_callsite sp (demo_filter d)))"
    by (simp add: env_enabled_def env_register_callsite_def demo_filter_def d_def demo_span_directive_def sp_def demo_span_meta_def
        level_le_filter_def from_level_def static_enabled_def directive_set_default_def directives_for_def split: option.split)
  moreover have "env_max_level_hint (demo_filter d) = Some (from_level TRACE)"
    by (simp add: env_max_level_hint_def has_value_filters_def demo_filter_def d_def demo_span_directive_def)
  ultimately show ?thesis using built by (simp add: Let_def d_def sp_def)
qed

text \<open>The levels that spans enable are taken off a thread's stack by position, not by span. When two
  spans that the filter cares about are entered and the outer one is left first, the level of the
  span that is still entered is dropped and the level of the one that was left stays.\<close>

theorem env_exit_out_of_order:
  assumes "ef_has_dynamics f" and "a \<noteq> b"
    and "ef_by_id f a = Some sa" "ef_by_id f b = Some sb"
  shows "ef_scope (env_on_exit t a (env_on_enter t b (env_on_enter t a f))) t =
    ef_scope f t @ [fst (span_matcher_level sa)]"
  using assms by (auto simp: env_on_enter_def env_on_exit_def cares_about_span_def butlast_append split: prod.splits)

theorem env_exit_out_of_order_witness:
  "let m = (\<lambda>l. \<lparr>spm_field_matches = [\<lparr>sm_fields = [], sm_level = l, sm_has_matched = False\<rparr>], spm_base_level = OFF\<rparr> :: (unit, string) span_matcher);
       f = (demo_filter (demo_span_directive None (from_level DEBUG)))\<lparr>ef_by_id := [1 \<mapsto> m (from_level DEBUG), 2 \<mapsto> m (from_level ERROR)]\<rparr>
   in ef_scope (env_on_exit 0 1 (env_on_enter 0 2 (env_on_enter 0 1 f))) 0 = [from_level DEBUG]"
  using env_exit_out_of_order [of "(demo_filter (demo_span_directive None (from_level DEBUG)))
      \<lparr>ef_by_id := [1 \<mapsto> \<lparr>spm_field_matches = [\<lparr>sm_fields = [], sm_level = from_level DEBUG, sm_has_matched = False\<rparr>], spm_base_level = OFF\<rparr>,
        2 \<mapsto> \<lparr>spm_field_matches = [\<lparr>sm_fields = [], sm_level = from_level ERROR, sm_has_matched = False\<rparr>], spm_base_level = OFF\<rparr>]\<rparr>" 1 2]
  by (simp add: demo_filter_def span_matcher_level_def span_match_filter_def is_matched_def List.map_filter_simps)

subsection \<open>Building\<close>

text \<open>A directive with a field name but no value is put into both tables when a filter is built from
  it, so that entering a span with that field enables what is inside it; the same directive given to
  \<open>add_directive\<close> goes to the static table only, and the filter stays without a dynamic part.\<close>

theorem add_directive_differs:
  "\<exists>f w g w0 g1. from_directives lib (from_level TRACE) env_builder_default
       [\<lparr>dv_in_span = None, dv_fields = [\<lparr>fm_name = n, fm_value = None\<rparr>], dv_target = tg, dv_level = l\<rparr>] = Some (f, w) \<and>
     from_directives lib (from_level TRACE) env_builder_default [] = Some (g, w0) \<and>
     add_directive lib \<lparr>dv_in_span = None, dv_fields = [\<lparr>fm_name = n, fm_value = None\<rparr>], dv_target = tg, dv_level = l\<rparr> g = Some g1 \<and>
     ef_statics f = ef_statics g1 \<and> ef_has_dynamics f \<and> \<not> ef_has_dynamics g1"
  using TRACE_greatest
  by (simp add: from_directives_def static_warnings_def env_builder_default_def make_tables_def is_dynamic_def
      has_name_def has_fields_def has_value_def dynamics_add_def directive_set_default_def binary_search_panic.simps Let_def
      vec_insert_def to_static_def is_static_def List.map_filter_simps static_from_iter_def directive_set_from_iter_def
      directive_set_extend_def add_directive_def static_add_def)

lemma collect_options_total: "list_all (\<lambda>x. x \<noteq> None) xs \<Longrightarrow> collect_options xs \<noteq> None"
  by (induction xs) auto

text \<open>The warning about statically disabled directives never panics, whichever static maximum the
  program was compiled with: a directive above it names a level, and the maximum is not \<open>TRACE\<close>.\<close>

theorem static_warnings_no_panic:
  "static_warnings lib static_max (filter (\<lambda>d. dv_level d > static_max) ds) \<noteq> None"
proof (cases "filter (\<lambda>d. dv_level d > static_max) ds = []")
  case True
  then show ?thesis by (simp add: static_warnings_def)
next
  case False
  then obtain d where "d \<in> set ds" "dv_level d > static_max" by (auto simp: filter_empty_conv)
  then have "static_max \<noteq> from_level TRACE" using TRACE_greatest by auto
  then have "help_msg static_max \<noteq> None"
    by (cases static_max) (auto simp: help_msg_def from_level_def split: option.splits level.splits)
  moreover have "disabled_note lib e \<noteq> None" if "dv_level e > static_max" for e
  proof (cases "into_level (dv_level e)")
    case None
    then have "dv_level e = OFF" by (cases "dv_level e") simp
    then show ?thesis using that leD [OF OFF_le [of static_max]] by simp
  qed (simp add: disabled_note_def)
  then have "collect_options (map (disabled_note lib) (filter (\<lambda>d. dv_level d > static_max) ds)) \<noteq> None"
    by (intro collect_options_total) (auto simp: list_all_iff)
  ultimately show ?thesis by (auto simp: static_warnings_def split: prod.split)
qed

text \<open>The parser of a directive reads a list of fields separated by commas, but the builder cuts its
  text at every comma before it calls the parser: a directive with two fields is refused by
  \<open>parse\<close>, and \<open>parse_lossy\<close> drops its first half and keeps its second half as the name of a target.\<close>

theorem builder_splits_field_lists:
  "directive_parse lib ''[{a,b}]=info'' regex = Inr \<lparr>dv_in_span = None,
     dv_fields = [\<lparr>fm_name = ''a'', fm_value = None\<rparr>, \<lparr>fm_name = ''b'', fm_value = None\<rparr>], dv_target = None, dv_level = from_level INFO\<rparr> \<and>
   env_parse lib (from_level TRACE) env_builder_default ''[{a,b}]=info'' = Some (Inl parse_error_new) \<and>
   map_option (\<lambda>(f, _). (directives (ef_statics f), directives (ef_dynamics f)))
     (parse_lossy lib (from_level TRACE) env_builder_default ''[{a,b}]=info'') =
     Some ([static_new (Some ''b}]'') [] (from_level INFO)], [])"
proof -
  note defs = directive_parse_def trim_def trim_start_def trim_end_def is_whitespace_def parse_step_def slice_def
    is_ascii_alphanumeric_def is_ascii_lowercase_def is_ascii_digit_def is_ascii_uppercase_def directive_default_def
    parse_level_part_def parse_field_part_def match_parse_def
  have info: "filter_from_str ''info'' = Inr (from_level INFO)"
    using filter_display_parses [of "from_level INFO"] by (simp add: filter_display_def from_level_def)
  have whole: "directive_parse lib ''[{a,b}]=info'' regex = Inr \<lparr>dv_in_span = None,
      dv_fields = [\<lparr>fm_name = ''a'', fm_value = None\<rparr>, \<lparr>fm_name = ''b'', fm_value = None\<rparr>], dv_target = None, dv_level = from_level INFO\<rparr>"
    by (simp add: defs info)
  have cut: "split_on CHR '','' ''[{a,b}]=info'' = [''[{a'', ''b}]=info'']" by simp
  have parts: "directive_parse lib ''[{a'' r = Inl parse_error_new"
    "directive_parse lib ''b}]=info'' r = Inr \<lparr>dv_in_span = None, dv_fields = [], dv_target = Some ''b}]'', dv_level = from_level INFO\<rparr>" for r
    by (simp_all add: defs info)
  show ?thesis
    using TRACE_greatest
    by (simp add: whole env_parse_def parse_lossy_def cut parts List.map_filter_simps from_directives_def static_warnings_def
      env_builder_default_def make_tables_def is_dynamic_def has_name_def has_fields_def directive_set_default_def Let_def
      to_static_def is_static_def static_from_iter_def directive_set_from_iter_def directive_set_extend_def
      directive_set_add_def insert_by_def binary_search_by_def binary_search_loop.simps vec_insert_def directive_set_is_empty_def)
qed

end
