(* ===== verification/Fmt_DateTime.thy ===== *)
theory Fmt_DateTime
  imports Rust_Str "HOL-Library.Signed_Division"
begin

text \<open>
  The conversion of time stamps to calendar dates: \<open>tracing-subscriber/src/fmt/time/datetime.rs\<close>.

  The integers of the source are \<open>int\<close> here, with Rust's truncating division (\<open>sdiv\<close>, \<open>smod\<close>) and with
  every cast to a narrower type written out as the wrap-around \<open>as_signed\<close> or \<open>as_unsigned\<close>. A
  \<open>SystemTime\<close> is what \<open>duration_since(UNIX_EPOCH)\<close> returns of it: a duration after the epoch, or,
  as the error, one before it.
\<close>

definition as_signed :: "nat \<Rightarrow> int \<Rightarrow> int" where
  "as_signed w n = (n + 2 ^ (w - 1)) mod 2 ^ w - 2 ^ (w - 1)"

definition as_unsigned :: "nat \<Rightarrow> int \<Rightarrow> int" where
  "as_unsigned w n = n mod 2 ^ w"

lemma as_signed_id: "0 < w \<Longrightarrow> - (2 ^ (w - 1)) \<le> n \<Longrightarrow> n < 2 ^ (w - 1) \<Longrightarrow> as_signed w n = n"
  by (cases w) (simp_all add: as_signed_def)

lemma as_i32_id [simp]: "- 2147483648 \<le> n \<Longrightarrow> n < 2147483648 \<Longrightarrow> as_signed 32 n = n"
  by (rule as_signed_id) simp_all

lemma as_i64_id [simp]:
  "- 9223372036854775808 \<le> n \<Longrightarrow> n < 9223372036854775808 \<Longrightarrow> as_signed 64 n = n"
  by (rule as_signed_id) simp_all

lemma as_u8_id [simp]: "0 \<le> n \<Longrightarrow> n < 256 \<Longrightarrow> as_unsigned 8 n = n"
  by (simp add: as_unsigned_def)

subsection \<open>The conversion\<close>

record duration =
  dur_secs :: int
  dur_nanos :: int

type_synonym system_time = "duration + duration"

record date_time =
  dt_year :: int
  dt_month :: int
  dt_day :: int
  dt_hour :: int
  dt_minute :: int
  dt_second :: int
  dt_nanos :: int

definition LEAPOCH :: int where
  "LEAPOCH = 946684800 + 86400 * (31 + 29)"

definition DAYS_PER_400Y :: int where
  "DAYS_PER_400Y = 365 * 400 + 97"

definition DAYS_PER_100Y :: int where
  "DAYS_PER_100Y = 365 * 100 + 24"

definition DAYS_PER_4Y :: int where
  "DAYS_PER_4Y = 365 * 4 + 1"

definition DAYS_IN_MONTH :: "int list" where
  "DAYS_IN_MONTH = [31, 30, 31, 30, 31, 31, 30, 31, 30, 31, 31, 29]"

definition timestamp_parts :: "system_time \<Rightarrow> int \<times> int" where
  "timestamp_parts timestamp =
     (case timestamp of
        Inr duration \<Rightarrow> (as_signed 64 (dur_secs duration), dur_nanos duration)
      | Inl duration \<Rightarrow>
          (let secs = as_signed 64 (dur_secs duration); nanos = dur_nanos duration in
           if nanos = 0 then (- secs, 0) else (- secs - 1, 1000000000 - nanos)))"

text \<open>
  The loop over the months. The list is what is left of \<open>DAYS_IN_MONTH\<close>; running off its end is the
  panic of the index operation.
\<close>

fun month_loop :: "int list \<Rightarrow> int \<Rightarrow> int \<Rightarrow> (int \<times> int) option" where
  "month_loop [] months remdays = None"
| "month_loop (d # ds) months remdays =
     (if d \<le> remdays then month_loop ds (months + 1) (remdays - d) else Some (months, remdays))"

definition year_parts :: "int \<Rightarrow> int \<times> int" where
  "year_parts days =
     (let qc_cycles = as_signed 32 (days sdiv DAYS_PER_400Y);
          remdays = as_signed 32 (days smod DAYS_PER_400Y);
          (qc_cycles, remdays) =
            (if remdays < 0 then (qc_cycles - 1, remdays + DAYS_PER_400Y) else (qc_cycles, remdays));
          c_cycles = remdays sdiv DAYS_PER_100Y;
          c_cycles = (if c_cycles = 4 then c_cycles - 1 else c_cycles);
          remdays = remdays - c_cycles * DAYS_PER_100Y;
          q_cycles = remdays sdiv DAYS_PER_4Y;
          q_cycles = (if q_cycles = 25 then q_cycles - 1 else q_cycles);
          remdays = remdays - q_cycles * DAYS_PER_4Y;
          remyears = remdays sdiv 365;
          remyears = (if remyears = 4 then remyears - 1 else remyears);
          remdays = remdays - remyears * 365
      in (remyears + 4 * q_cycles + 100 * c_cycles + 400 * qc_cycles, remdays))"

definition date_time_from :: "system_time \<Rightarrow> date_time option" where
  "date_time_from timestamp =
     (let (t, nanos) = timestamp_parts timestamp;
          days = t sdiv 86400 - LEAPOCH sdiv 86400;
          remsecs = as_signed 32 (t smod 86400);
          (remsecs, days) = (if remsecs < 0 then (remsecs + 86400, days - 1) else (remsecs, days));
          (years, remdays) = year_parts days
      in case month_loop DAYS_IN_MONTH 0 remdays of
           None \<Rightarrow> None
         | Some (months, remdays) \<Rightarrow>
             (let (months, years) = (if months \<ge> 10 then (months - 12, years + 1) else (months, years)) in
              Some \<lparr>dt_year = years + 2000, dt_month = as_unsigned 8 (months + 3),
                dt_day = as_unsigned 8 (remdays + 1),
                dt_hour = as_unsigned 8 (remsecs sdiv 3600),
                dt_minute = as_unsigned 8 (remsecs sdiv 60 smod 60),
                dt_second = as_unsigned 8 (remsecs smod 60), dt_nanos = nanos\<rparr>))"

text \<open>\<open>Display for DateTime\<close>: \<open>{:0w}\<close> pads with zeros after the sign, up to a width that counts the sign.\<close>

definition pad_nat :: "nat \<Rightarrow> int \<Rightarrow> string" where
  "pad_nat w n = replicate (w - length (show_nat (nat n))) (CHR ''0'') @ show_nat (nat n)"

definition pad_int :: "nat \<Rightarrow> int \<Rightarrow> string" where
  "pad_int w n = (if n < 0 then ''-'' @ pad_nat (w - 1) (- n) else pad_nat w n)"

definition date_time_display :: "date_time \<Rightarrow> string" where
  "date_time_display dt =
     (if dt_year dt > 9999 then ''+'' @ pad_int 0 (dt_year dt)
      else if dt_year dt < 0 then pad_int 5 (dt_year dt)
      else pad_int 4 (dt_year dt)) @
     ''-'' @ pad_int 2 (dt_month dt) @ ''-'' @ pad_int 2 (dt_day dt) @
     ''T'' @ pad_int 2 (dt_hour dt) @ '':'' @ pad_int 2 (dt_minute dt) @ '':'' @ pad_int 2 (dt_second dt) @
     ''.'' @ pad_int 6 (dt_nanos dt sdiv 1000) @ ''Z''"

subsection \<open>The calendar\<close>

text \<open>
  The proleptic Gregorian calendar, as the specification: the length of the months, the date after a
  date, and the number of a day, counted from the epoch.
\<close>

definition leap_year :: "int \<Rightarrow> bool" where
  "leap_year y \<longleftrightarrow> 4 dvd y \<and> (\<not> 100 dvd y \<or> 400 dvd y)"

definition month_days :: "int \<Rightarrow> int \<Rightarrow> int" where
  "month_days y m =
     (if m = 2 then (if leap_year y then 29 else 28) else if m \<in> {4, 6, 9, 11} then 30 else 31)"

type_synonym date = "int \<times> int \<times> int"

fun valid_date :: "date \<Rightarrow> bool" where
  "valid_date (y, m, d) \<longleftrightarrow> 1 \<le> m \<and> m \<le> 12 \<and> 1 \<le> d \<and> d \<le> month_days y m"

fun next_day :: "date \<Rightarrow> date" where
  "next_day (y, m, d) =
     (if d < month_days y m then (y, m, d + 1) else if m < 12 then (y, m + 1, 1) else (y + 1, 1, 1))"

definition days_before_month :: "int \<Rightarrow> int \<Rightarrow> int" where
  "days_before_month y m = sum_list (map (\<lambda>k. month_days y (int k)) [1..<nat m])"

definition leaps :: "int \<Rightarrow> int" where
  "leaps y = y div 4 - y div 100 + y div 400"

fun day_number :: "date \<Rightarrow> int" where
  "day_number (y, m, d) =
     365 * (y - 1970) + leaps (y - 1) - leaps 1969 + days_before_month y m + d - 1"

lemma div_step:
  fixes k :: int
  assumes "0 < k"
  shows "y div k = (y - 1) div k + (if k dvd y then 1 else 0)"
proof -
  define q r where "q = y div k" and "r = y mod k"
  have y: "y = k * q + r" and r: "0 \<le> r" "r < k"
    using assms by (simp_all add: q_def r_def)
  have "(y - 1) div k = (if r = 0 then q - 1 else q)"
  proof (cases "r = 0")
    case True
    then have "y - 1 = k * (q - 1) + (k - 1)"
      using y by (simp add: algebra_simps)
    then show ?thesis
      using True assms by (simp add: int_div_pos_eq [where r = "k - 1"])
  next
    case False
    then have "y - 1 = k * q + (r - 1)"
      using y by simp
    then show ?thesis
      using False r assms by (simp add: int_div_pos_eq [where r = "r - 1"])
  qed
  then show ?thesis
    by (auto simp: q_def r_def dvd_eq_mod_eq_0)
qed

lemma leaps_step: "leaps y = leaps (y - 1) + (if leap_year y then 1 else 0)"
proof -
  have "leaps y = leaps (y - 1) + ((if 4 dvd y then 1 else 0) - (if 100 dvd y then 1 else 0) +
      (if 400 dvd y then 1 else 0))"
    unfolding leaps_def div_step [of 4 y, simplified] div_step [of 100 y, simplified]
      div_step [of 400 y, simplified]
    by (simp only: algebra_simps)
  moreover have "4 dvd y" if "100 dvd y"
    using that by (rule dvd_trans [rotated]) simp
  moreover have "100 dvd y" if "400 dvd y"
    using that by (rule dvd_trans [rotated]) simp
  ultimately show ?thesis
    unfolding leap_year_def by (cases "4 dvd y"; cases "100 dvd y"; cases "400 dvd y") simp_all
qed

lemma month_cases:
  "1 \<le> m \<Longrightarrow> m \<le> 12 \<Longrightarrow>
     m = 1 \<or> m = 2 \<or> m = 3 \<or> m = 4 \<or> m = 5 \<or> m = 6 \<or> m = 7 \<or> m = 8 \<or> m = 9 \<or> m = 10 \<or> m = 11 \<or> m = (12 :: int)"
  by arith

lemma days_before_month_simps:
  "days_before_month y 1 = 0" "days_before_month y 2 = 31"
  "days_before_month y 3 = 31 + month_days y 2" "days_before_month y 4 = 62 + month_days y 2"
  "days_before_month y 5 = 92 + month_days y 2" "days_before_month y 6 = 123 + month_days y 2"
  "days_before_month y 7 = 153 + month_days y 2" "days_before_month y 8 = 184 + month_days y 2"
  "days_before_month y 9 = 215 + month_days y 2" "days_before_month y 10 = 245 + month_days y 2"
  "days_before_month y 11 = 276 + month_days y 2" "days_before_month y 12 = 306 + month_days y 2"
  by (simp_all add: days_before_month_def upt_rec month_days_def)

text \<open>The number of a day is right: it is zero for the epoch and grows by one with the next date.\<close>

lemma day_number_epoch: "day_number (1970, 1, 1) = 0"
  by (simp add: days_before_month_simps)

lemma day_number_next: "valid_date d \<Longrightarrow> day_number (next_day d) = day_number d + 1"
proof (cases d)
  case (fields y m k)
  assume "valid_date d"
  then have m: "1 \<le> m" "m \<le> 12" and k: "1 \<le> k" "k \<le> month_days y m"
    using fields by simp_all
  show ?thesis
    using month_cases [OF m] k leaps_step [of y] fields
    by (elim disjE) (auto simp: days_before_month_simps month_days_def)
qed

lemma next_day_valid: "valid_date d \<Longrightarrow> valid_date (next_day d)"
proof (cases d)
  case (fields y m k)
  assume "valid_date d"
  then show ?thesis using fields by (auto simp: month_days_def)
qed

subsection \<open>Correctness of the conversion\<close>

lemma sdiv_floor:
  fixes a b :: int
  assumes "0 < b"
  shows "(if a smod b < 0 then a sdiv b - 1 else a sdiv b) = a div b"
    and "(if a smod b < 0 then a smod b + b else a smod b) = a mod b"
proof -
  have "a sdiv b = (if 0 \<le> a then a div b else - (- a div b))"
    using assms by (auto simp: signed_divide_int_def sgn_if mult_less_0_iff zero_less_mult_iff)
  moreover have "a smod b = (if 0 \<le> a then a mod b else - (- a mod b))"
    using assms by (cases "a = 0") (auto simp: signed_modulo_int_def sgn_if)
  moreover have "0 \<le> - a mod b" "- a mod b < b"
    using assms by simp_all
  ultimately show "(if a smod b < 0 then a sdiv b - 1 else a sdiv b) = a div b"
    "(if a smod b < 0 then a smod b + b else a smod b) = a mod b"
    using assms zdiv_zminus1_eq_if [of b "- a"] zmod_zminus1_eq_if [of "- a" b] pos_mod_sign [of b a]
      pos_mod_sign [of b "- a"]
    by (auto simp: order.strict_iff_order split: if_splits)
qed

lemma sdiv_nonneg: "0 \<le> a \<Longrightarrow> 0 < b \<Longrightarrow> a sdiv b = a div b" for a b :: int
  by (auto simp: signed_divide_int_def sgn_if mult_less_0_iff zero_less_mult_iff)

lemma smod_nonneg: "0 \<le> a \<Longrightarrow> 0 < b \<Longrightarrow> a smod b = a mod b" for a b :: int
  by (cases "a = 0") (simp_all add: signed_modulo_int_def sgn_if)

lemma capped_div:
  fixes n b k :: int
  assumes "0 < b" "0 \<le> n" "0 \<le> k"
  defines "c \<equiv> min k (n div b)"
  shows "0 \<le> c" "c \<le> k" "0 \<le> n - c * b" "c < k \<Longrightarrow> n - c * b < b"
proof -
  have nb: "n = b * (n div b) + n mod b" "0 \<le> n mod b" "n mod b < b" "0 \<le> n div b"
    using assms by (simp_all add: pos_imp_zdiv_nonneg_iff)
  show "0 \<le> c" "c \<le> k"
    using assms nb by (auto simp: c_def)
  have "c * b \<le> n div b * b"
    using assms by (intro mult_right_mono) (simp_all add: c_def)
  also have "n div b * b \<le> n"
    using nb by (metis add_increasing2 mult.commute order_refl)
  finally show "0 \<le> n - c * b" by simp
  show "n - c * b < b" if "c < k"
    using that nb by (simp add: c_def min_def mult.commute minus_mult_div_eq_mod split: if_splits)
qed

text \<open>
  The cycles: a day of the 400-year cycle, counted from the first of March, is split into centuries,
  four-year groups, years and the day of the year. Day 365 exists in a leap year only.
\<close>

lemma cycles:
  fixes n :: int
  assumes n: "0 \<le> n" "n < 146097"
  obtains c q r d where
    "n = 36524 * c + 1461 * q + 365 * r + d"
    "c = min 3 (n div 36524)" "q = min 24 ((n - c * 36524) div 1461)"
    "r = min 3 ((n - c * 36524 - q * 1461) div 365)"
    "0 \<le> c" "c \<le> 3" "0 \<le> q" "q \<le> 24" "0 \<le> r" "r \<le> 3" "0 \<le> d" "d \<le> 365"
    "d = 365 \<Longrightarrow> r = 3 \<and> (q = 24 \<longrightarrow> c = 3)"
proof -
  define c where "c = min 3 (n div 36524)"
  define m where "m = n - c * 36524"
  define q where "q = min 24 (m div 1461)"
  define k where "k = m - q * 1461"
  define r where "r = min 3 (k div 365)"
  define d where "d = k - r * 365"
  have c: "0 \<le> c" "c \<le> 3" "0 \<le> m" "c < 3 \<Longrightarrow> m < 36524"
    unfolding m_def c_def using n by (auto intro!: capped_div)
  have q: "0 \<le> q" "q \<le> 24" "0 \<le> k" "q < 24 \<Longrightarrow> k < 1461"
    unfolding k_def q_def using c by (auto intro!: capped_div)
  have r: "0 \<le> r" "r \<le> 3" "0 \<le> d" "r < 3 \<Longrightarrow> d < 365"
    unfolding d_def r_def using q by (auto intro!: capped_div)
  have m: "m \<le> 36524" "m = 36524 \<Longrightarrow> c = 3"
    using c n m_def by (cases "c < 3"; simp)+
  have k: "k \<le> 1460" "k = 1460 \<Longrightarrow> q = 24 \<Longrightarrow> c = 3"
    using q m k_def by (cases "q < 24"; simp)+
  have d: "d \<le> 365" "d = 365 \<Longrightarrow> r = 3 \<and> k = 1460"
    using r k(1) d_def by (cases "r < 3"; simp)+
  have n_eq: "n = 36524 * c + 1461 * q + 365 * r + d"
    by (simp add: m_def k_def d_def)
  show thesis
    proof (rule that [OF n_eq])
    show "c = min 3 (n div 36524)" "q = min 24 ((n - c * 36524) div 1461)"
      "r = min 3 ((n - c * 36524 - q * 1461) div 365)"
      by (simp_all only: c_def q_def r_def m_def k_def)
    show "r = 3 \<and> (q = 24 \<longrightarrow> c = 3)" if "d = 365"
      using d(2) [OF that] k(2) by simp
  qed (fact c q r d)+
qed

text \<open>The number of leap years before a year that starts in March, by its position in the cycles.\<close>

lemma leaps_cycles:
  assumes "0 \<le> c" "c \<le> 3" "0 \<le> q" "q \<le> 24" "0 \<le> r" "r \<le> 3"
  shows "leaps (r + 4 * q + 100 * c + 400 * e) = 97 * e + 24 * c + q"
proof -
  have "(r + 4 * q + 100 * c + 400 * e) div 4 = q + 25 * c + 100 * e"
    using assms by (intro int_div_pos_eq [where r = r]) simp_all
  moreover have "(r + 4 * q + 100 * c + 400 * e) div 100 = c + 4 * e"
    using assms by (intro int_div_pos_eq [where r = "r + 4 * q"]) simp_all
  moreover have "(r + 4 * q + 100 * c + 400 * e) div 400 = e"
    using assms by (intro int_div_pos_eq [where r = "r + 4 * q + 100 * c"]) simp_all
  ultimately show ?thesis by (simp add: leaps_def)
qed

lemma leap_year_cycles:
  assumes "0 \<le> c" "c \<le> 3" "0 \<le> q" "q \<le> 24"
  shows "leap_year (3 + 4 * q + 100 * c + 400 * e + 2001) \<longleftrightarrow> (q = 24 \<longrightarrow> c = 3)"
proof -
  have "leap_year (3 + 4 * q + 100 * c + 400 * e + 2001) \<longleftrightarrow>
      leaps (400 * (e + 5) + 100 * c + 4 * (q + 1)) > leaps (400 * (e + 5) + 100 * c + 4 * q + 3)"
    using leaps_step [of "400 * (e + 5) + 100 * c + 4 * (q + 1)"] by (simp add: algebra_simps)
  moreover have "leaps (400 * (e + 5) + 100 * c + 4 * q + 3) = 97 * (e + 5) + 24 * c + q"
    using leaps_cycles [of c q 3 "e + 5"] assms by (simp add: algebra_simps)
  moreover have "leaps (400 * (e + 5) + 100 * c + 4 * (q + 1)) =
      97 * (e + 5) + (if q = 24 then if c = 3 then 97 else 24 * c + 24 else 24 * c + q + 1)"
    using assms leaps_cycles [of c "q + 1" 0 "e + 5"] leaps_cycles [of "c + 1" 0 0 "e + 5"]
      leaps_cycles [of 0 0 0 "e + 6"]
    by (auto simp: algebra_simps)
  ultimately show ?thesis using assms by auto
qed

lemma days_per: "DAYS_PER_400Y = 146097" "DAYS_PER_100Y = 36524" "DAYS_PER_4Y = 1461"
  by (simp_all add: DAYS_PER_400Y_def DAYS_PER_100Y_def DAYS_PER_4Y_def)

lemma year_parts_spec:
  assumes "- (2 ^ 47) \<le> n" "n < 2 ^ 47"
  obtains y d where "year_parts n = (y, d)" "0 \<le> d" "d \<le> 365"
    "d = 365 \<Longrightarrow> leap_year (y + 2001)" "n = 365 * y + leaps y + d"
proof -
  define e where "e = n div 146097"
  define k where "k = n mod 146097"
  have k: "0 \<le> k" "k < 146097" and n: "n = 146097 * e + k"
    by (simp_all add: e_def k_def)
  have casts: "as_signed 32 (n sdiv 146097) = n sdiv 146097" "as_signed 32 (n smod 146097) = n smod 146097"
    using assms sdiv_floor [of 146097 n] k n
    by (auto intro!: as_i32_id simp: e_def [symmetric] k_def [symmetric] split: if_splits)
  obtain c q r d where split: "k = 36524 * c + 1461 * q + 365 * r + d"
    "c = min 3 (k div 36524)" "q = min 24 ((k - c * 36524) div 1461)"
    "r = min 3 ((k - c * 36524 - q * 1461) div 365)"
    and bounds: "0 \<le> c" "c \<le> 3" "0 \<le> q" "q \<le> 24" "0 \<le> r" "r \<le> 3" "0 \<le> d" "d \<le> 365"
    and last: "d = 365 \<Longrightarrow> r = 3 \<and> (q = 24 \<longrightarrow> c = 3)"
    using cycles [OF k] by blast
  have floor: "(if n smod 146097 < 0 then (n sdiv 146097 - 1, n smod 146097 + 146097)
      else (n sdiv 146097, n smod 146097)) = (e, k)"
    using sdiv_floor [of 146097 n] by (auto simp: e_def k_def split: if_splits)
  have cap: "(if x = u + 1 then x - 1 else x) = min u x" if "x \<le> u + 1" for x u :: int
    using that by auto
  have c: "(if k sdiv 36524 = 4 then k sdiv 36524 - 1 else k sdiv 36524) = c"
    using k cap [of "k div 36524" 3] by (simp add: sdiv_nonneg split(2))
  have q: "(if (k - c * 36524) sdiv 1461 = 25 then (k - c * 36524) sdiv 1461 - 1
      else (k - c * 36524) sdiv 1461) = q"
    using split(1) bounds cap [of "(k - c * 36524) div 1461" 24] by (simp add: sdiv_nonneg split(3))
  have r: "(if (k - c * 36524 - q * 1461) sdiv 365 = 4 then (k - c * 36524 - q * 1461) sdiv 365 - 1
      else (k - c * 36524 - q * 1461) sdiv 365) = r"
    using split(1) bounds cap [of "(k - c * 36524 - q * 1461) div 365" 3]
    by (simp add: sdiv_nonneg split(4))
  have d: "k - c * 36524 - q * 1461 - r * 365 = d"
    using split(1) by simp
  let ?y = "r + 4 * q + 100 * c + 400 * e"
  have "year_parts n = (?y, d)"
    unfolding year_parts_def days_per Let_def casts floor prod.case c q r d by (rule refl)
  then show thesis
  proof (rule that)
    show "leap_year (?y + 2001)" if "d = 365"
      using last [OF that] leap_year_cycles [of c q e] bounds by simp
    show "n = 365 * ?y + leaps ?y + d"
      using leaps_cycles [of c q r e] bounds n split(1) by simp
  qed (fact bounds)+
qed

lemma month_loop_year:
  "month_loop DAYS_IN_MONTH 0 d =
    (if d < 31 then Some (0, d) else if d < 61 then Some (1, d - 31) else if d < 92 then Some (2, d - 61)
     else if d < 122 then Some (3, d - 92) else if d < 153 then Some (4, d - 122)
     else if d < 184 then Some (5, d - 153) else if d < 214 then Some (6, d - 184)
     else if d < 245 then Some (7, d - 214) else if d < 275 then Some (8, d - 245)
     else if d < 306 then Some (9, d - 275) else if d < 337 then Some (10, d - 306)
     else if d < 366 then Some (11, d - 337) else None)"
  by (simp add: DAYS_IN_MONTH_def)

lemma leaps_2000: "leaps (y + 2000) = leaps y + 485"
proof -
  have "(y + 2000) div k = y div k + 2000 div k" if "k dvd 2000" "0 < k" for k :: int
    using that by (metis div_plus_div_distrib_dvd_right)
  from this [of 4] this [of 100] this [of 400] show ?thesis by (simp add: leaps_def)
qed

lemma leaps_1999: "leaps (1999 + y) + month_days (y + 2000) 2 = leaps y + 513"
  using leaps_step [of "y + 2000"] leaps_2000 [of y]
  by (cases "leap_year (y + 2000)") (simp_all add: month_days_def)

definition fix_month :: "int \<Rightarrow> int \<Rightarrow> int \<Rightarrow> date" where
  "fix_month y m k = (if m \<ge> 10 then (y + 2001, m - 9, k + 1) else (y + 2000, m + 3, k + 1))"

lemma month_loop_spec:
  assumes d: "0 \<le> d" "d \<le> 365" and leap: "d = 365 \<Longrightarrow> leap_year (y + 2001)"
  obtains m k where "month_loop DAYS_IN_MONTH 0 d = Some (m, k)" "valid_date (fix_month y m k)"
    "day_number (fix_month y m k) = 11017 + 365 * y + leaps y + d"
proof -
  note simps = month_loop_year fix_month_def days_before_month_simps
  have l1: "leaps (y + 2000 - 1) + month_days (y + 2000) 2 = leaps y + 513"
    using leaps_1999 [of y] by simp
  have l2: "leaps (y + 2001 - 1) = leaps y + 485"
    using leaps_2000 [of y] by (simp add: add.commute)
  have l3: "leaps 1969 = 477" by (simp add: leaps_def)
  consider "d < 31" | "31 \<le> d" "d < 61" | "61 \<le> d" "d < 92" | "92 \<le> d" "d < 122"
    | "122 \<le> d" "d < 153" | "153 \<le> d" "d < 184" | "184 \<le> d" "d < 214" | "214 \<le> d" "d < 245"
    | "245 \<le> d" "d < 275" | "275 \<le> d" "d < 306" | "306 \<le> d" "d < 337" | "337 \<le> d"
    by linarith
  then have "\<exists>m k. month_loop DAYS_IN_MONTH 0 d = Some (m, k) \<and> valid_date (fix_month y m k) \<and>
      day_number (fix_month y m k) = 11017 + 365 * y + leaps y + d"
  proof cases
    case 12
    then have "k \<le> month_days (y + 2001) 2" if "k = d - 336" for k
      using d leap that by (cases "d = 365") (auto simp: month_days_def)
    then show ?thesis using 12 d l2 l3 by (simp add: simps)
  qed (use d l1 l2 l3 in \<open>simp_all add: simps month_days_def [of _ "1"] month_days_def [of _ "3"]
    month_days_def [of _ "4"] month_days_def [of _ "5"] month_days_def [of _ "6"] month_days_def [of _ "7"]
    month_days_def [of _ "8"] month_days_def [of _ "9"] month_days_def [of _ "10"]
    month_days_def [of _ "11"] month_days_def [of _ "12"]\<close>)
  then show thesis using that by blast
qed

text \<open>The instant a time stamp denotes, in nanoseconds from the epoch.\<close>

definition valid_time :: "system_time \<Rightarrow> bool" where
  "valid_time ts = (case ts of Inl d \<Rightarrow> 0 \<le> dur_secs d \<and> dur_secs d < 2 ^ 63 \<and> 0 \<le> dur_nanos d \<and> dur_nanos d < 10 ^ 9
     | Inr d \<Rightarrow> 0 \<le> dur_secs d \<and> dur_secs d < 2 ^ 63 \<and> 0 \<le> dur_nanos d \<and> dur_nanos d < 10 ^ 9)"

definition unix_nanos :: "system_time \<Rightarrow> int" where
  "unix_nanos ts = (case ts of Inl d \<Rightarrow> - (dur_secs d * 10 ^ 9 + dur_nanos d) | Inr d \<Rightarrow> dur_secs d * 10 ^ 9 + dur_nanos d)"

lemma timestamp_parts_spec:
  assumes "valid_time ts"
  obtains t nanos where "timestamp_parts ts = (t, nanos)" "- (2 ^ 63) \<le> t" "t < 2 ^ 63"
    "0 \<le> nanos" "nanos < 10 ^ 9" "unix_nanos ts = t * 10 ^ 9 + nanos"
proof (cases ts)
  case (Inl d)
  then show thesis
    using assms that [of "- dur_secs d" 0] that [of "- dur_secs d - 1" "1000000000 - dur_nanos d"]
    by (cases "dur_nanos d = 0") (simp_all add: timestamp_parts_def valid_time_def unix_nanos_def)
next
  case (Inr d)
  then show thesis
    using assms that [of "dur_secs d" "dur_nanos d"]
    by (simp add: timestamp_parts_def valid_time_def unix_nanos_def)
qed

text \<open>
  C11. Time stamps are converted to the right date: for every time stamp whose seconds fit into an
  \<open>i64\<close> (before or after the epoch), the conversion does not panic and no cast loses a bit; the result is a valid
  date of the Gregorian calendar with a valid time of the day, and it denotes the instant of the time
  stamp. The number of a day, in which this is stated, is zero for 1970-01-01 and increases by one
  from each date to the next.
\<close>

theorem date_time_correct:
  assumes "valid_time ts"
  shows "\<exists>dt. date_time_from ts = Some dt \<and> valid_date (dt_year dt, dt_month dt, dt_day dt) \<and>
      0 \<le> dt_hour dt \<and> dt_hour dt < 24 \<and> 0 \<le> dt_minute dt \<and> dt_minute dt < 60 \<and>
      0 \<le> dt_second dt \<and> dt_second dt < 60 \<and> 0 \<le> dt_nanos dt \<and> dt_nanos dt < 10 ^ 9 \<and>
      unix_nanos ts = (day_number (dt_year dt, dt_month dt, dt_day dt) * 86400 +
        dt_hour dt * 3600 + dt_minute dt * 60 + dt_second dt) * 10 ^ 9 + dt_nanos dt"
proof -
  obtain t nanos where t: "timestamp_parts ts = (t, nanos)" "- (2 ^ 63) \<le> t" "t < 2 ^ 63"
    "0 \<le> nanos" "nanos < 10 ^ 9" "unix_nanos ts = t * 10 ^ 9 + nanos"
    using timestamp_parts_spec [OF assms] .
  define n r where "n = t div 86400 - 11017" and "r = t mod 86400"
  have r: "0 \<le> r" "r < 86400" and tr: "t = (n + 11017) * 86400 + r"
    by (simp_all add: n_def r_def)
  have "- (2 ^ 47) \<le> n" "n < 2 ^ 47"
    using t(2,3) tr r by simp_all
  then obtain y d where y: "year_parts n = (y, d)" "0 \<le> d" "d \<le> 365"
    "d = 365 \<Longrightarrow> leap_year (y + 2001)" "n = 365 * y + leaps y + d"
    using year_parts_spec by blast
  obtain m k where m: "month_loop DAYS_IN_MONTH 0 d = Some (m, k)" "valid_date (fix_month y m k)"
    "day_number (fix_month y m k) = 11017 + 365 * y + leaps y + d"
    using month_loop_spec [OF y(2-4)] by blast
  have "as_signed 32 (t smod 86400) = t smod 86400"
    using sdiv_floor(2) [of 86400 t] r by (intro as_i32_id) (auto simp: r_def split: if_splits)
  then have floor: "(if as_signed 32 (t smod 86400) < 0
      then (as_signed 32 (t smod 86400) + 86400, t sdiv 86400 - LEAPOCH sdiv 86400 - 1)
      else (as_signed 32 (t smod 86400), t sdiv 86400 - LEAPOCH sdiv 86400)) = (r, n)"
    using sdiv_floor [of 86400 t] by (auto simp: n_def r_def LEAPOCH_def sdiv_nonneg split: if_splits)
  have hms: "r div 3600 < 24" "r = r div 3600 * 3600 + r div 60 mod 60 * 60 + r mod 60"
  proof -
    show "r div 3600 < 24" using r by simp
    have "r div 3600 = r div 60 div 60" using zdiv_zmult2_eq [of 60 r 60] by simp
    then show "r = r div 3600 * 3600 + r div 60 mod 60 * 60 + r mod 60"
      using div_mult_mod_eq [of r 60] div_mult_mod_eq [of "r div 60" 60] by linarith
  qed
  have k: "1 \<le> k + 1" "k + 1 \<le> 31" "0 \<le> m" "m \<le> 11"
    using m y(2,3) by (auto simp: month_loop_year split: if_splits)
  let ?hms = "\<lambda>dt. dt\<lparr>dt_hour := r div 3600, dt_minute := r div 60 mod 60, dt_second := r mod 60, dt_nanos := nanos\<rparr>"
  obtain Y M D where ymd: "fix_month y m k = (Y, M, D)" by (cases "fix_month y m k")
  define dt where "dt = ?hms \<lparr>dt_year = Y, dt_month = M, dt_day = D, dt_hour = 0,
      dt_minute = 0, dt_second = 0, dt_nanos = 0\<rparr>"
  have dt: "dt_year dt = Y" "dt_month dt = M" "dt_day dt = D" "dt_hour dt = r div 3600"
    "dt_minute dt = r div 60 mod 60" "dt_second dt = r mod 60" "dt_nanos dt = nanos"
    by (simp_all add: dt_def)
  have "date_time_from ts = Some dt"
    unfolding date_time_from_def t(1) Let_def prod.case floor y(1) m(1) option.case dt_def
    using r k hms(1) ymd by (auto simp: sdiv_nonneg smod_nonneg fix_month_def split: if_splits)
  moreover have "t = day_number (Y, M, D) * 86400 + r div 3600 * 3600 + r div 60 mod 60 * 60 + r mod 60"
  proof -
    have "day_number (Y, M, D) = n + 11017" using m(3) ymd y(5) by simp
    then have "day_number (Y, M, D) * 86400 = (n + 11017) * 86400" by (simp only:)
    then show ?thesis using tr hms(2) by linarith
  qed
  then have "unix_nanos ts = (day_number (Y, M, D) * 86400 + r div 3600 * 3600 + r div 60 mod 60 * 60 + r mod 60) * 10 ^ 9 + nanos"
    using t(6) by (simp only:)
  moreover have "valid_date (Y, M, D)" using m(2) ymd by (simp only:)
  moreover have "0 \<le> r div 3600" "0 \<le> r div 60 mod 60" "r div 60 mod 60 < 60" "0 \<le> r mod 60" "r mod 60 < 60"
    using r by (simp_all add: pos_imp_zdiv_nonneg_iff)
  ultimately show ?thesis
    using hms(1) t(4,5) by (intro exI [of _ dt] conjI) (simp_all only: dt)
qed

theorem date_time_correct_witness:
  "map_option date_time_display (date_time_from (Inl \<lparr>dur_secs = 62167219201, dur_nanos = 0\<rparr>)) =
     Some ''-0001-12-31T23:59:59.000000Z'' \<and>
   (\<exists>dt. date_time_from (Inl \<lparr>dur_secs = 62167219201, dur_nanos = 0\<rparr>) = Some dt \<and>
      valid_date (dt_year dt, dt_month dt, dt_day dt))"
proof
  show "map_option date_time_display (date_time_from (Inl \<lparr>dur_secs = 62167219201, dur_nanos = 0\<rparr>)) =
     Some ''-0001-12-31T23:59:59.000000Z''"
    by code_simp
  show "\<exists>dt. date_time_from (Inl \<lparr>dur_secs = 62167219201, dur_nanos = 0\<rparr>) = Some dt \<and>
      valid_date (dt_year dt, dt_month dt, dt_day dt)"
    using date_time_correct [of "Inl \<lparr>dur_secs = 62167219201, dur_nanos = 0\<rparr>"]
    by (auto simp: valid_time_def)
qed

end
