(* ===== verification/Appender_Rolling.thy ===== *)
theory Appender_Rolling
  imports Rust_Str
begin

text \<open>
  The rolling file appender: \<open>tracing-appender/src/rolling.rs\<close> and \<open>rolling/builder.rs\<close>.

  Dates come from the \<open>time\<close> crate, which the repository only calls: its operations are the parameter
  \<open>time_lib\<close>, and \<open>time_lib_ok\<close> states what its documentation promises of UTC dates. A date outside of
  the crate's range makes its addition panic; a panic is \<open>None\<close>. The log directory is a list of entries
  in the order in which \<open>read_dir\<close> returns them, and what the operating system answers (can a file be
  opened, removed, written) is the record \<open>fs_env\<close>.
\<close>

record ('d, 't) time_lib =
  tl_unix_timestamp :: "'d \<Rightarrow> int"
  tl_add :: "int \<Rightarrow> 'd \<Rightarrow> 'd option"
  tl_hour :: "'d \<Rightarrow> int"
  tl_minute :: "'d \<Rightarrow> int"
  tl_days_from_sunday :: "'d \<Rightarrow> int"
  tl_from_hms :: "int \<Rightarrow> int \<Rightarrow> int \<Rightarrow> 't option"
  tl_replace_time :: "'t \<Rightarrow> 'd \<Rightarrow> 'd"
  tl_format :: "string \<Rightarrow> 'd \<Rightarrow> string option"
  tl_parse_date :: "string \<Rightarrow> string \<Rightarrow> int option"
  tl_parse_date_time :: "string \<Rightarrow> string \<Rightarrow> int option"

subsection \<open>Rotations\<close>

datatype rotation = MINUTELY | HOURLY | DAILY | WEEKLY | NEVER

definition round_date :: "('d, 't) time_lib \<Rightarrow> rotation \<Rightarrow> 'd \<Rightarrow> 'd option" where
  "round_date lib r d =
     (case r of
        MINUTELY \<Rightarrow> map_option (\<lambda>t. tl_replace_time lib t d) (tl_from_hms lib (tl_hour lib d) (tl_minute lib d) 0)
      | HOURLY \<Rightarrow> map_option (\<lambda>t. tl_replace_time lib t d) (tl_from_hms lib (tl_hour lib d) 0 0)
      | DAILY \<Rightarrow> map_option (\<lambda>t. tl_replace_time lib t d) (tl_from_hms lib 0 0 0)
      | WEEKLY \<Rightarrow>
          (case tl_from_hms lib 0 0 0 of
             None \<Rightarrow> None
           | Some zero_time \<Rightarrow>
               map_option (tl_replace_time lib zero_time) (tl_add lib (- (tl_days_from_sunday lib d * 86400)) d))
      | NEVER \<Rightarrow> None)"

text \<open>The outer \<open>None\<close> is a panic, the inner one the answer of \<open>Rotation::NEVER\<close>.\<close>

definition next_date :: "('d, 't) time_lib \<Rightarrow> rotation \<Rightarrow> 'd \<Rightarrow> 'd option option" where
  "next_date lib r d =
     (case r of
        NEVER \<Rightarrow> Some None
      | _ \<Rightarrow>
          (case tl_add lib (case r of MINUTELY \<Rightarrow> 60 | HOURLY \<Rightarrow> 3600 | DAILY \<Rightarrow> 86400 | _ \<Rightarrow> 604800) d of
             None \<Rightarrow> None
           | Some unrounded \<Rightarrow> map_option Some (round_date lib r unrounded)))"

definition date_format :: "rotation \<Rightarrow> string" where
  "date_format r =
     (case r of
        MINUTELY \<Rightarrow> ''[year]-[month]-[day]-[hour]-[minute]''
      | HOURLY \<Rightarrow> ''[year]-[month]-[day]-[hour]''
      | DAILY \<Rightarrow> ''[year]-[month]-[day]''
      | WEEKLY \<Rightarrow> ''[year]-[month]-[day]''
      | NEVER \<Rightarrow> ''[year]-[month]-[day]'')"

subsection \<open>The builder\<close>

record builder =
  bd_rotation :: rotation
  bd_prefix :: "string option"
  bd_suffix :: "string option"
  bd_latest_symlink :: "string option"
  bd_max_files :: "nat option"

definition builder_new :: builder where
  "builder_new = \<lparr>bd_rotation = NEVER, bd_prefix = None, bd_suffix = None, bd_latest_symlink = None,
     bd_max_files = None\<rparr>"

definition builder_rotation :: "rotation \<Rightarrow> builder \<Rightarrow> builder" where
  "builder_rotation r b = b\<lparr>bd_rotation := r\<rparr>"

definition filename_prefix :: "string \<Rightarrow> builder \<Rightarrow> builder" where
  "filename_prefix p b = b\<lparr>bd_prefix := (if p = [] then None else Some p)\<rparr>"

definition filename_suffix :: "string \<Rightarrow> builder \<Rightarrow> builder" where
  "filename_suffix p b = b\<lparr>bd_suffix := (if p = [] then None else Some p)\<rparr>"

definition max_log_files :: "nat \<Rightarrow> builder \<Rightarrow> builder" where
  "max_log_files n b = b\<lparr>bd_max_files := (if n > 0 then Some n else None)\<rparr>"

definition latest_symlink :: "string \<Rightarrow> builder \<Rightarrow> builder" where
  "latest_symlink p b = b\<lparr>bd_latest_symlink := (if p = [] then None else Some p)\<rparr>"

subsection \<open>The log directory\<close>

datatype init_error = InitError string

record dir_entry =
  de_readable :: bool
  de_is_file :: bool
  de_created :: "int option"
  de_inode :: nat

record file_system =
  fs_dir :: "(string \<times> dir_entry) list"
  fs_data :: "nat \<Rightarrow> string"
  fs_next_inode :: nat

record fs_env =
  fe_read_dir :: bool
  fe_open :: "string \<Rightarrow> bool"
  fe_create_dir :: bool
  fe_reopen :: "string \<Rightarrow> bool"
  fe_created :: "int option"
  fe_symlink :: bool
  fe_remove :: "string \<Rightarrow> bool"
  fe_write :: "string \<Rightarrow> nat option"

text \<open>
  Opening for appending creates a missing file; an existing one keeps its contents. The result is the
  handle, which stays valid when the name is removed.
\<close>

definition fs_open :: "fs_env \<Rightarrow> string \<Rightarrow> file_system \<Rightarrow> nat \<times> file_system" where
  "fs_open env name fs =
     (case map_of (fs_dir fs) name of
        Some e \<Rightarrow> (de_inode e, fs)
      | None \<Rightarrow>
          (fs_next_inode fs,
           fs\<lparr>fs_dir := fs_dir fs @
                [(name, \<lparr>de_readable = True, de_is_file = True, de_created = fe_created env,
                  de_inode = fs_next_inode fs\<rparr>)],
              fs_data := (fs_data fs)(fs_next_inode fs := []),
              fs_next_inode := Suc (fs_next_inode fs)\<rparr>))"

definition fs_remove :: "string \<Rightarrow> file_system \<Rightarrow> file_system" where
  "fs_remove name fs = fs\<lparr>fs_dir := filter (\<lambda>(n, _). n \<noteq> name) (fs_dir fs)\<rparr>"

definition fs_append :: "nat \<Rightarrow> string \<Rightarrow> file_system \<Rightarrow> file_system" where
  "fs_append i buf fs = fs\<lparr>fs_data := (fs_data fs)(i := fs_data fs i @ buf)\<rparr>"

definition fs_contents :: "string \<Rightarrow> file_system \<Rightarrow> string option" where
  "fs_contents name fs = map_option (\<lambda>e. fs_data fs (de_inode e)) (map_of (fs_dir fs) name)"

text \<open>
  \<open>create_writer\<close>. The link to the latest file is not one of the entries here: whether it can be
  replaced is the environment's answer, and it is never a candidate for deletion.
\<close>

definition create_writer ::
  "fs_env \<Rightarrow> string \<Rightarrow> string option \<Rightarrow> file_system \<Rightarrow> (init_error + nat) \<times> file_system" where
  "create_writer env name symlink fs =
     (let opened =
        (if fe_open env name then Inr (fs_open env name fs)
         else if \<not> fe_create_dir env then Inl (InitError ''failed to create log directory'')
         else if fe_reopen env name then Inr (fs_open env name fs)
         else Inl (InitError ''failed to create log file''))
      in case opened of
           Inl e \<Rightarrow> (Inl e, fs)
         | Inr (i, fs1) \<Rightarrow>
             if symlink \<noteq> None \<and> \<not> fe_symlink env
             then (Inl (InitError ''failed to create symlink to latest log file''), fs1)
             else (Inr i, fs1))"

subsection \<open>The appender\<close>

record inner =
  in_prefix :: "string option"
  in_suffix :: "string option"
  in_symlink :: "string option"
  in_rotation :: rotation
  in_max_files :: "nat option"

text \<open>\<open>join_date\<close>; formatting the date may panic.\<close>

definition join_date :: "('d, 't) time_lib \<Rightarrow> inner \<Rightarrow> 'd \<Rightarrow> string option" where
  "join_date lib inn d =
     (case (if in_rotation inn = NEVER then tl_format lib (date_format (in_rotation inn)) d
            else Option.bind (round_date lib (in_rotation inn) d) (tl_format lib (date_format (in_rotation inn)))) of
        None \<Rightarrow> None
      | Some date \<Rightarrow> Some
          (case (in_rotation inn = NEVER, in_prefix inn, in_suffix inn) of
             (True, Some filename, None) \<Rightarrow> filename
           | (True, Some filename, Some sfx) \<Rightarrow> filename @ ''.'' @ sfx
           | (True, None, Some sfx) \<Rightarrow> sfx
           | (_, Some filename, Some sfx) \<Rightarrow> filename @ ''.'' @ date @ ''.'' @ sfx
           | (_, Some filename, None) \<Rightarrow> filename @ ''.'' @ date
           | (_, None, Some sfx) \<Rightarrow> date @ ''.'' @ sfx
           | (_, None, None) \<Rightarrow> date))"

definition strip_prefix :: "string \<Rightarrow> string \<Rightarrow> string option" where
  "strip_prefix p s = (if starts_with s p then Some (drop (length p) s) else None)"

definition strip_suffix :: "string \<Rightarrow> string \<Rightarrow> string option" where
  "strip_suffix p s = (if ends_with s p then Some (take (length s - length p) s) else None)"

definition parse_date_from_filename ::
  "('d, 't) time_lib \<Rightarrow> string \<Rightarrow> string \<Rightarrow> string option \<Rightarrow> string option \<Rightarrow> int option" where
  "parse_date_from_filename lib filename fmt pfx sfx =
     (let datetime = (case pfx of None \<Rightarrow> Some filename
            | Some p \<Rightarrow> Option.bind (strip_prefix p filename) (strip_prefix ''.''));
          datetime = (case sfx of None \<Rightarrow> datetime
            | Some p \<Rightarrow> Option.bind (Option.bind datetime (strip_suffix p)) (strip_suffix ''.''))
      in Option.bind datetime
           (\<lambda>s. case tl_parse_date_time lib fmt s of Some t \<Rightarrow> Some t | None \<Rightarrow> tl_parse_date lib fmt s))"

definition prune_candidate ::
  "('d, 't) time_lib \<Rightarrow> inner \<Rightarrow> string \<times> dir_entry \<Rightarrow> (string \<times> int) option" where
  "prune_candidate lib inn = (\<lambda>(filename, e).
     if \<not> de_readable e then None
     else if \<not> de_is_file e then None
     else if (case in_prefix inn of None \<Rightarrow> False | Some p \<Rightarrow> \<not> starts_with filename p) then None
     else if (case in_suffix inn of None \<Rightarrow> False | Some p \<Rightarrow> \<not> ends_with filename p) then None
     else if in_prefix inn = None \<and> in_suffix inn = None \<and>
        tl_parse_date lib (date_format (in_rotation inn)) filename = None then None
     else
       (case de_created e of
          Some c \<Rightarrow> Some (filename, c)
        | None \<Rightarrow> map_option (\<lambda>c. (filename, c))
            (parse_date_from_filename lib filename (date_format (in_rotation inn)) (in_prefix inn) (in_suffix inn))))"

text \<open>\<open>prune_old_logs\<close>; the subtraction panics for \<open>max_files = 0\<close>, which the builder excludes.\<close>

definition prune_old_logs ::
  "('d, 't) time_lib \<Rightarrow> fs_env \<Rightarrow> inner \<Rightarrow> nat \<Rightarrow> file_system \<Rightarrow> file_system option" where
  "prune_old_logs lib env inn max_files fs =
     (if \<not> fe_read_dir env then Some fs
      else
        (let files = List.map_filter (prune_candidate lib inn) (fs_dir fs) in
         if length files < max_files then Some fs
         else if max_files = 0 then None
         else
           (let doomed = take (length files - (max_files - 1)) (sort_key snd files) in
            Some (fold (\<lambda>(f, _) fs. if fe_remove env f then fs_remove f fs else fs) doomed fs))))"

record appender =
  ap_inner :: inner
  ap_next_date :: nat
  ap_file :: nat

definition as_usize :: "int \<Rightarrow> nat" where
  "as_usize n = nat (n mod 2 ^ 64)"

definition next_timestamp :: "('d, 't) time_lib \<Rightarrow> rotation \<Rightarrow> 'd \<Rightarrow> nat option" where
  "next_timestamp lib r now =
     map_option (\<lambda>nd. case nd of Some date \<Rightarrow> as_usize (tl_unix_timestamp lib date) | None \<Rightarrow> 0)
       (next_date lib r now)"

definition inner_new ::
  "('d, 't) time_lib \<Rightarrow> fs_env \<Rightarrow> builder \<Rightarrow> 'd \<Rightarrow> file_system \<Rightarrow>
   ((init_error + appender) \<times> file_system) option" where
  "inner_new lib env b now fs =
     (let inn = \<lparr>in_prefix = bd_prefix b, in_suffix = bd_suffix b, in_symlink = bd_latest_symlink b,
            in_rotation = bd_rotation b, in_max_files = bd_max_files b\<rparr> in
      case next_timestamp lib (bd_rotation b) now of
        None \<Rightarrow> None
      | Some nd \<Rightarrow>
          (case (case bd_max_files b of None \<Rightarrow> Some fs | Some n \<Rightarrow> prune_old_logs lib env inn n fs) of
             None \<Rightarrow> None
           | Some fs1 \<Rightarrow>
               (case join_date lib inn now of
                  None \<Rightarrow> None
                | Some filename \<Rightarrow>
                    (case create_writer env filename (in_symlink inn) fs1 of
                       (Inl e, fs2) \<Rightarrow> Some (Inl e, fs2)
                     | (Inr i, fs2) \<Rightarrow> Some (Inr \<lparr>ap_inner = inn, ap_next_date = nd, ap_file = i\<rparr>, fs2)))))"

definition should_rollover :: "('d, 't) time_lib \<Rightarrow> 'd \<Rightarrow> appender \<Rightarrow> nat option" where
  "should_rollover lib date a =
     (let nd = ap_next_date a in
      if nd = 0 then None
      else if as_usize (tl_unix_timestamp lib date) \<ge> nd then Some nd
      else None)"

definition advance_date ::
  "('d, 't) time_lib \<Rightarrow> 'd \<Rightarrow> nat \<Rightarrow> appender \<Rightarrow> (bool \<times> appender) option" where
  "advance_date lib now expected a =
     map_option (\<lambda>nd. if ap_next_date a = expected then (True, a\<lparr>ap_next_date := nd\<rparr>) else (False, a))
       (next_timestamp lib (in_rotation (ap_inner a)) now)"

text \<open>\<open>refresh_writer\<close>; a failure to create the new file is reported on standard error only.\<close>

definition refresh_writer ::
  "('d, 't) time_lib \<Rightarrow> fs_env \<Rightarrow> 'd \<Rightarrow> appender \<Rightarrow> file_system \<Rightarrow> (appender \<times> file_system) option" where
  "refresh_writer lib env now a fs =
     (case join_date lib (ap_inner a) now of
        None \<Rightarrow> None
      | Some filename \<Rightarrow>
          (case (case in_max_files (ap_inner a) of None \<Rightarrow> Some fs
                 | Some n \<Rightarrow> prune_old_logs lib env (ap_inner a) n fs) of
             None \<Rightarrow> None
           | Some fs1 \<Rightarrow>
               (case create_writer env filename (in_symlink (ap_inner a)) fs1 of
                  (Inr i, fs2) \<Rightarrow> Some (a\<lparr>ap_file := i\<rparr>, fs2)
                | (Inl _, fs2) \<Rightarrow> Some (a, fs2))))"

text \<open>\<open>Write for RollingFileAppender\<close>: with \<open>&mut\<close> access no other thread advances the date.\<close>

definition appender_write ::
  "('d, 't) time_lib \<Rightarrow> fs_env \<Rightarrow> 'd \<Rightarrow> string \<Rightarrow> appender \<Rightarrow> file_system \<Rightarrow>
   (nat option \<times> appender \<times> file_system) option" where
  "appender_write lib env now buf a fs =
     (case (case should_rollover lib now a of
              None \<Rightarrow> Some (a, fs)
            | Some current_time \<Rightarrow>
                (case advance_date lib now current_time a of
                   None \<Rightarrow> None
                 | Some (_, a1) \<Rightarrow> refresh_writer lib env now a1 fs)) of
        None \<Rightarrow> None
      | Some (a2, fs2) \<Rightarrow>
          (case fe_write env buf of
             None \<Rightarrow> Some (None, a2, fs2)
           | Some n \<Rightarrow> Some (Some n, a2, fs_append (ap_file a2) (take n buf) fs2)))"

text \<open>\<open>make_writer\<close>: here the exchange can fail, and the file is refreshed only by the thread that wins.\<close>

definition appender_make_writer ::
  "('d, 't) time_lib \<Rightarrow> fs_env \<Rightarrow> 'd \<Rightarrow> appender \<Rightarrow> file_system \<Rightarrow> (appender \<times> file_system) option" where
  "appender_make_writer lib env now a fs =
     (case should_rollover lib now a of
        None \<Rightarrow> Some (a, fs)
      | Some current_time \<Rightarrow>
          (case advance_date lib now current_time a of
             None \<Rightarrow> None
           | Some (True, a1) \<Rightarrow> refresh_writer lib env now a1 fs
           | Some (False, a1) \<Rightarrow> Some (a1, fs)))"

subsection \<open>What the time crate promises\<close>

text \<open>
  The documented behaviour of UTC dates that the appender relies on: a date has a Unix time stamp,
  adding a duration adds its seconds as long as the result is between the first and the last date the
  crate can represent, the clock and the day of the week are those of the time stamp (the epoch was a
  Thursday), replacing the time of the day keeps the day, and the formats used here depend on the
  seconds only.
\<close>

definition time_lib_ok :: "('d, 't) time_lib \<Rightarrow> int \<Rightarrow> int \<Rightarrow> bool" where
  "time_lib_ok lib lo hi \<longleftrightarrow>
     (\<forall>n d d'. tl_add lib n d = Some d' \<longrightarrow> tl_unix_timestamp lib d' = tl_unix_timestamp lib d + n) \<and>
     (\<forall>n d. lo \<le> tl_unix_timestamp lib d + n \<and> tl_unix_timestamp lib d + n \<le> hi \<longrightarrow> tl_add lib n d \<noteq> None) \<and>
     (\<forall>d. tl_hour lib d = tl_unix_timestamp lib d div 3600 mod 24) \<and>
     (\<forall>d. tl_minute lib d = tl_unix_timestamp lib d div 60 mod 60) \<and>
     (\<forall>d. tl_days_from_sunday lib d = (tl_unix_timestamp lib d div 86400 + 4) mod 7) \<and>
     (\<forall>h m s. 0 \<le> h \<and> h < 24 \<and> 0 \<le> m \<and> m < 60 \<and> 0 \<le> s \<and> s < 60 \<longrightarrow> tl_from_hms lib h m s \<noteq> None) \<and>
     (\<forall>h m s t d. tl_from_hms lib h m s = Some t \<longrightarrow>
        tl_unix_timestamp lib (tl_replace_time lib t d) =
          tl_unix_timestamp lib d div 86400 * 86400 + h * 3600 + m * 60 + s) \<and>
     (\<forall>f d. tl_format lib f d \<noteq> None) \<and>
     (\<forall>f d d'. tl_unix_timestamp lib d = tl_unix_timestamp lib d' \<longrightarrow> tl_format lib f d = tl_format lib f d')"

lemma time_lib_okD:
  assumes "time_lib_ok lib lo hi"
  shows "tl_add lib n d = Some d' \<Longrightarrow> tl_unix_timestamp lib d' = tl_unix_timestamp lib d + n"
    and "lo \<le> tl_unix_timestamp lib d + n \<Longrightarrow> tl_unix_timestamp lib d + n \<le> hi \<Longrightarrow>
      \<exists>d'. tl_add lib n d = Some d'"
    and "tl_hour lib d = tl_unix_timestamp lib d div 3600 mod 24"
    and "tl_minute lib d = tl_unix_timestamp lib d div 60 mod 60"
    and "tl_days_from_sunday lib d = (tl_unix_timestamp lib d div 86400 + 4) mod 7"
    and "0 \<le> h \<Longrightarrow> h < 24 \<Longrightarrow> 0 \<le> m \<Longrightarrow> m < 60 \<Longrightarrow> 0 \<le> s \<Longrightarrow> s < 60 \<Longrightarrow> \<exists>t. tl_from_hms lib h m s = Some t"
    and "tl_from_hms lib h m s = Some t \<Longrightarrow> tl_unix_timestamp lib (tl_replace_time lib t d) =
      tl_unix_timestamp lib d div 86400 * 86400 + h * 3600 + m * 60 + s"
    and "\<exists>s. tl_format lib f d = Some s"
    and "tl_unix_timestamp lib d = tl_unix_timestamp lib d' \<Longrightarrow> tl_format lib f d = tl_format lib f d'"
proof -
  note c1 = assms [unfolded time_lib_ok_def not_None_eq]
  note c2 = c1 [THEN conjunct2] note c3 = c2 [THEN conjunct2] note c4 = c3 [THEN conjunct2]
  note c5 = c4 [THEN conjunct2] note c6 = c5 [THEN conjunct2] note c7 = c6 [THEN conjunct2]
  note c8 = c7 [THEN conjunct2] note c9 = c8 [THEN conjunct2]
  show "tl_add lib n d = Some d' \<Longrightarrow> tl_unix_timestamp lib d' = tl_unix_timestamp lib d + n"
    by (rule c1 [THEN conjunct1, rule_format])
  show "lo \<le> tl_unix_timestamp lib d + n \<Longrightarrow> tl_unix_timestamp lib d + n \<le> hi \<Longrightarrow>
      \<exists>d'. tl_add lib n d = Some d'"
    by (rule c2 [THEN conjunct1, rule_format]) (rule conjI)
  show "tl_hour lib d = tl_unix_timestamp lib d div 3600 mod 24"
    by (rule c3 [THEN conjunct1, rule_format])
  show "tl_minute lib d = tl_unix_timestamp lib d div 60 mod 60"
    by (rule c4 [THEN conjunct1, rule_format])
  show "tl_days_from_sunday lib d = (tl_unix_timestamp lib d div 86400 + 4) mod 7"
    by (rule c5 [THEN conjunct1, rule_format])
  show "0 \<le> h \<Longrightarrow> h < 24 \<Longrightarrow> 0 \<le> m \<Longrightarrow> m < 60 \<Longrightarrow> 0 \<le> s \<Longrightarrow> s < 60 \<Longrightarrow> \<exists>t. tl_from_hms lib h m s = Some t"
    by (rule c6 [THEN conjunct1, rule_format]) (intro conjI)
  show "tl_from_hms lib h m s = Some t \<Longrightarrow> tl_unix_timestamp lib (tl_replace_time lib t d) =
      tl_unix_timestamp lib d div 86400 * 86400 + h * 3600 + m * 60 + s"
    by (rule c7 [THEN conjunct1, rule_format])
  show "\<exists>s. tl_format lib f d = Some s"
    by (rule c8 [THEN conjunct1, rule_format])
  show "tl_unix_timestamp lib d = tl_unix_timestamp lib d' \<Longrightarrow> tl_format lib f d = tl_format lib f d'"
    by (rule c9 [rule_format])
qed

text \<open>The periods of a rotation, as the specification: their length and where they start.\<close>

fun period :: "rotation \<Rightarrow> int" where
  "period MINUTELY = 60"
| "period HOURLY = 3600"
| "period DAILY = 86400"
| "period WEEKLY = 604800"
| "period NEVER = 0"

definition period_start :: "rotation \<Rightarrow> int \<Rightarrow> int" where
  "period_start r t = (if r = WEEKLY then (t + 345600) div 604800 * 604800 - 345600 else t div period r * period r)"

lemma period_start_bounds:
  assumes "r \<noteq> NEVER"
  shows "period_start r t \<le> t" "t < period_start r t + period r"
proof -
  have "t div p * p \<le> t" "t < t div p * p + p" if "0 < p" for t p :: int
    using that pos_mod_bound [of p t] pos_mod_sign [of p t] div_mult_mod_eq [of t p] by linarith+
  from this [of "period r" t] this [of 604800 "t + 345600"] assms
  show "period_start r t \<le> t" "t < period_start r t + period r"
    by (cases r; simp add: period_start_def; linarith)+
qed

lemma same_period:
  assumes "r \<noteq> NEVER" "period_start r t \<le> u" "u < period_start r t + period r"
  shows "period_start r u = period_start r t"
proof -
  have "u div p = q" if "q * p \<le> u" "u < q * p + p" for q u p :: int
    using that by (intro int_div_pos_eq [where r = "u - q * p"]) simp_all
  from this [of "t div period r" "period r" u] this [of "(t + 345600) div 604800" 604800 "u + 345600"]
  show ?thesis using assms by (cases "r = WEEKLY") (simp_all add: period_start_def)
qed

lemma day_clock: "t div 86400 * 86400 + t div 3600 mod 24 * 3600 = t div 3600 * 3600"
  "t div 86400 * 86400 + t div 3600 mod 24 * 3600 + t div 60 mod 60 * 60 = t div 60 * 60" for t :: int
proof -
  have "t div 86400 = t div 3600 div 24" "t div 3600 = t div 60 div 60"
    using zdiv_zmult2_eq [of 24 t 3600] zdiv_zmult2_eq [of 60 t 60] by simp_all
  then show "t div 86400 * 86400 + t div 3600 mod 24 * 3600 = t div 3600 * 3600"
    "t div 86400 * 86400 + t div 3600 mod 24 * 3600 + t div 60 mod 60 * 60 = t div 60 * 60"
    using div_mult_mod_eq [of "t div 3600" 24] div_mult_mod_eq [of "t div 60" 60] by linarith+
qed

lemma week_start:
  "(t - (t div 86400 + 4) mod 7 * 86400) div 86400 * 86400 = (t + 345600) div 604800 * 604800 - 345600"
  for t :: int
proof -
  have a: "(t - k * 86400) div 86400 = t div 86400 - k" for k :: int
    using div_mult_self1 [of 86400 t "- k"] by (simp add: algebra_simps)
  have b: "(t + 345600) div 604800 = (t div 86400 + 4) div 7"
    using zdiv_zmult2_eq [of 7 "t + 345600" 86400] div_mult_self1 [of 86400 t 4] by simp
  have c: "(d - m) * 86400 = q * 604800 - 345600" if "q * 7 + m = d + 4" for d m q :: int
  proof -
    have "d - m = q * 7 - 4" using that by simp
    then show ?thesis by simp
  qed
  show ?thesis
    unfolding a b by (rule c) (rule div_mult_mod_eq)
qed

lemma round_date_spec:
  assumes ok: "time_lib_ok lib lo hi" and r: "r \<noteq> NEVER"
    and lo: "r = WEEKLY \<Longrightarrow> lo + 518400 \<le> tl_unix_timestamp lib d" and hi: "tl_unix_timestamp lib d \<le> hi"
  shows "\<exists>d'. round_date lib r d = Some d' \<and> tl_unix_timestamp lib d' = period_start r (tl_unix_timestamp lib d)"
proof -
  note L = time_lib_okD [OF ok]
  let ?t = "tl_unix_timestamp lib d"
  have clock: "0 \<le> tl_hour lib d" "tl_hour lib d < 24" "0 \<le> tl_minute lib d" "tl_minute lib d < 60"
    by (simp_all add: L(3,4))
  have replace: "\<exists>d'. map_option (\<lambda>t. tl_replace_time lib t e) (tl_from_hms lib h m 0) = Some d' \<and>
      tl_unix_timestamp lib d' = tl_unix_timestamp lib e div 86400 * 86400 + h * 3600 + m * 60"
    if "0 \<le> h" "h < 24" "0 \<le> m" "m < 60" for h m e
    using L(6) [OF that, of 0] L(7) by fastforce
  show ?thesis
  proof (cases r)
    case MINUTELY
    then show ?thesis
      using replace [OF clock, of d] day_clock(2) [of ?t] by (simp add: round_date_def period_start_def L(3,4))
  next
    case HOURLY
    then show ?thesis
      using replace [OF clock(1,2), of 0 d] day_clock(1) [of ?t]
      by (simp add: round_date_def period_start_def L(3))
  next
    case DAILY
    then show ?thesis
      using replace [of 0 0 d] by (simp add: round_date_def period_start_def)
  next
    case WEEKLY
    have s: "0 \<le> tl_days_from_sunday lib d" "tl_days_from_sunday lib d \<le> 6"
      using pos_mod_bound [of 7 "?t div 86400 + 4"] by (simp_all add: L(5))
    then obtain e where e: "tl_add lib (- (tl_days_from_sunday lib d * 86400)) d = Some e"
      using L(2) [of d "- (tl_days_from_sunday lib d * 86400)"] lo [OF WEEKLY] hi by auto
    obtain z where z: "tl_from_hms lib 0 0 0 = Some z"
      using L(6) [of 0 0 0] by auto
    have "tl_unix_timestamp lib (tl_replace_time lib z e) = tl_unix_timestamp lib e div 86400 * 86400"
      using L(7) [OF z] by simp
    also have "tl_unix_timestamp lib e = ?t - (?t div 86400 + 4) mod 7 * 86400"
      using L(1) [OF e] by (simp add: L(5))
    finally show ?thesis
      using WEEKLY e z week_start [of ?t] by (simp add: round_date_def period_start_def)
  qed (use r in simp)
qed

lemma period_start_next: "r \<noteq> NEVER \<Longrightarrow> period_start r (t + period r) = period_start r t + period r"
proof -
  assume r: "r \<noteq> NEVER"
  have step: "(x + p) div p * p = x div p * p + p" if "p \<noteq> 0" for x p :: int
    using that by (simp add: div_add_self2 distrib_right)
  from step [of "period r" t] step [of 604800 "t + 345600"] r show ?thesis
    by (cases r) (simp_all add: period_start_def add.commute add.left_commute)
qed

lemma next_date_spec:
  assumes "time_lib_ok lib lo hi" "r \<noteq> NEVER"
    and "lo + 604800 \<le> tl_unix_timestamp lib d" "tl_unix_timestamp lib d + 604800 \<le> hi"
  shows "\<exists>e. next_date lib r d = Some (Some e) \<and>
    tl_unix_timestamp lib e = period_start r (tl_unix_timestamp lib d) + period r"
proof -
  let ?t = "tl_unix_timestamp lib d"
  have p: "(case r of MINUTELY \<Rightarrow> 60 | HOURLY \<Rightarrow> 3600 | DAILY \<Rightarrow> 86400 | _ \<Rightarrow> 604800) = period r"
    "0 < period r" "period r \<le> 604800"
    using assms(2) by (cases r; simp)+
  obtain u where u: "tl_add lib (period r) d = Some u"
    using time_lib_okD(2) [OF assms(1), of d "period r"] assms(3,4) p by auto
  have ut: "tl_unix_timestamp lib u = ?t + period r"
    using time_lib_okD(1) [OF assms(1) u] .
  obtain e where e: "round_date lib r u = Some e" "tl_unix_timestamp lib e = period_start r (?t + period r)"
    using round_date_spec [OF assms(1,2), of u] assms(3,4) ut p by auto
  have "next_date lib r d = Some (Some e)"
    using assms(2) u e p(1) by (cases r) (simp_all add: next_date_def)
  then show ?thesis
    using e(2) period_start_next [OF assms(2), of ?t] by simp
qed

text \<open>
  C39. A rotation cuts time into periods: for every date (inside the range of the \<open>time\<close> crate, with
  a week to spare), rounding it does not panic and gives the start of the minute, hour, day or week it
  is in, and the next date is the end of that period: strictly later than the date, with no start of a
  period in between.
\<close>

theorem next_date_correct:
  assumes "time_lib_ok lib lo hi" and "r \<noteq> NEVER"
    and "lo + 604800 \<le> tl_unix_timestamp lib d" and "tl_unix_timestamp lib d + 604800 \<le> hi"
  shows "\<exists>s e. round_date lib r d = Some s \<and> next_date lib r d = Some (Some e) \<and>
      tl_unix_timestamp lib s = period_start r (tl_unix_timestamp lib d) \<and>
      tl_unix_timestamp lib s \<le> tl_unix_timestamp lib d \<and>
      tl_unix_timestamp lib d < tl_unix_timestamp lib e \<and>
      tl_unix_timestamp lib e = tl_unix_timestamp lib s + period r \<and>
      (\<forall>t. tl_unix_timestamp lib s \<le> t \<longrightarrow> t < tl_unix_timestamp lib e \<longrightarrow>
        period_start r t = tl_unix_timestamp lib s)"
proof -
  let ?t = "tl_unix_timestamp lib d"
  obtain s where s: "round_date lib r d = Some s" "tl_unix_timestamp lib s = period_start r ?t"
    using round_date_spec [OF assms(1,2), of d] assms(3,4) by auto
  obtain e where e: "next_date lib r d = Some (Some e)" "tl_unix_timestamp lib e = period_start r ?t + period r"
    using next_date_spec [OF assms] by blast
  note bounds = period_start_bounds [OF assms(2), of ?t]
  show ?thesis
  proof (intro exI conjI allI impI)
    show "period_start r t = tl_unix_timestamp lib s"
      if "tl_unix_timestamp lib s \<le> t" "t < tl_unix_timestamp lib e" for t
      using same_period [OF assms(2), of ?t t] that s(2) e(2) bounds by simp
  qed (use s e bounds in simp_all)
qed

subsection \<open>Where the lines go\<close>

definition fs_ok :: "file_system \<Rightarrow> bool" where
  "fs_ok fs \<longleftrightarrow> distinct (map fst (fs_dir fs)) \<and> distinct (map (de_inode \<circ> snd) (fs_dir fs)) \<and>
     (\<forall>(_, e) \<in> set (fs_dir fs). de_inode e < fs_next_inode fs)"

lemma fs_ok_inode_inj:
  assumes "fs_ok fs" "map_of (fs_dir fs) f = Some e" "map_of (fs_dir fs) g = Some e'" "de_inode e = de_inode e'"
  shows "f = g"
proof -
  have "(f, e) \<in> set (fs_dir fs)" "(g, e') \<in> set (fs_dir fs)"
    using assms(2,3) by (simp_all add: map_of_SomeD)
  moreover have "inj_on (de_inode \<circ> snd) (set (fs_dir fs))"
    using assms(1) by (simp add: fs_ok_def distinct_map)
  ultimately have "(f, e) = (g, e')"
    using assms(4) by (intro inj_onD [of "de_inode \<circ> snd"]) simp_all
  then show ?thesis by simp
qed

lemma fs_contents_append:
  assumes "fs_ok fs" "map_of (fs_dir fs) f = Some e"
  shows "fs_contents g (fs_append (de_inode e) buf fs) =
    (if g = f then Some (fs_data fs (de_inode e) @ buf) else fs_contents g fs)"
proof (cases "map_of (fs_dir fs) g")
  case (Some e')
  then have "de_inode e' = de_inode e \<longleftrightarrow> g = f"
    using fs_ok_inode_inj [OF assms(1) Some assms(2)] assms(2) by auto
  then show ?thesis
    using Some assms(2) by (simp add: fs_contents_def fs_append_def)
qed (use assms in \<open>auto simp: fs_contents_def fs_append_def\<close>)

lemma fs_ok_append [simp]: "fs_ok (fs_append i buf fs) = fs_ok fs"
  by (simp add: fs_ok_def fs_append_def)

lemma fs_dir_append [simp]: "fs_dir (fs_append i buf fs) = fs_dir fs"
  by (simp add: fs_append_def)

lemma fs_open_spec:
  assumes "fs_ok fs" "fs_open env f fs = (i, fs')"
  shows "fs_ok fs'" "\<exists>e. map_of (fs_dir fs') f = Some e \<and> de_inode e = i"
    "fs_contents g fs' = (if g = f then Some (case fs_contents f fs of None \<Rightarrow> [] | Some c \<Rightarrow> c) else fs_contents g fs)"
proof -
  have "fs_ok fs' \<and> (\<exists>e. map_of (fs_dir fs') f = Some e \<and> de_inode e = i) \<and>
    fs_contents g fs' = (if g = f then Some (case fs_contents f fs of None \<Rightarrow> [] | Some c \<Rightarrow> c) else fs_contents g fs)"
  proof (cases "map_of (fs_dir fs) f")
    case None
    then have "f \<notin> fst ` set (fs_dir fs)" by (simp add: map_of_eq_None_iff)
    moreover have "\<forall>e \<in> set (fs_dir fs). de_inode (snd e) < fs_next_inode fs"
      using assms(1) by (auto simp: fs_ok_def)
    ultimately show ?thesis
      using assms None
      by (fastforce simp: fs_open_def fs_ok_def fs_contents_def map_add_Some_iff map_add_def
          split: option.splits dest: map_of_SomeD)
  next
    case (Some e)
    then show ?thesis using assms by (auto simp: fs_open_def fs_contents_def)
  qed
  then show "fs_ok fs'" "\<exists>e. map_of (fs_dir fs') f = Some e \<and> de_inode e = i"
    "fs_contents g fs' = (if g = f then Some (case fs_contents f fs of None \<Rightarrow> [] | Some c \<Rightarrow> c) else fs_contents g fs)"
    by auto
qed

text \<open>A file system on which nothing fails, and a sequence of writes with their times.\<close>

definition env_good :: "fs_env \<Rightarrow> bool" where
  "env_good env \<longleftrightarrow> (\<forall>f. fe_open env f) \<and> fe_symlink env \<and> (\<forall>buf. fe_write env buf = Some (length buf))"

fun appender_run ::
  "('d, 't) time_lib \<Rightarrow> fs_env \<Rightarrow> ('d \<times> string) list \<Rightarrow> appender \<Rightarrow> file_system \<Rightarrow>
   (appender \<times> file_system) option" where
  "appender_run lib env [] a fs = Some (a, fs)"
| "appender_run lib env ((now, buf) # ws) a fs =
     (case appender_write lib env now buf a fs of
        None \<Rightarrow> None
      | Some (_, a1, fs1) \<Rightarrow> appender_run lib env ws a1 fs1)"

definition lines_for :: "('d, 't) time_lib \<Rightarrow> inner \<Rightarrow> string \<Rightarrow> ('d \<times> string) list \<Rightarrow> string list" where
  "lines_for lib inn f ws = map snd (filter (\<lambda>(now, _). join_date lib inn now = Some f) ws)"

text \<open>
  What holds between two writes: the open file is the one that belongs to the last date at which the
  appender looked at the clock, and the stored time stamp is the end of that date's period.
\<close>

definition appender_inv :: "('d, 't) time_lib \<Rightarrow> 'd \<Rightarrow> appender \<Rightarrow> file_system \<Rightarrow> bool" where
  "appender_inv lib seen a fs \<longleftrightarrow> fs_ok fs \<and> in_max_files (ap_inner a) = None \<and>
     (let r = in_rotation (ap_inner a); t = tl_unix_timestamp lib seen in
      r \<noteq> NEVER \<and> int (ap_next_date a) = period_start r t + period r \<and>
      (\<exists>f e. join_date lib (ap_inner a) seen = Some f \<and> map_of (fs_dir fs) f = Some e \<and>
         de_inode e = ap_file a))"

definition in_range :: "('d, 't) time_lib \<Rightarrow> int \<Rightarrow> int \<Rightarrow> 'd \<Rightarrow> bool" where
  "in_range lib lo hi d \<longleftrightarrow> lo + 604800 \<le> tl_unix_timestamp lib d \<and> tl_unix_timestamp lib d + 604800 \<le> hi \<and>
     0 \<le> tl_unix_timestamp lib d \<and> tl_unix_timestamp lib d + 604800 < 2 ^ 64"

lemma join_date_period:
  assumes "time_lib_ok lib lo hi" "in_rotation inn \<noteq> NEVER" "in_range lib lo hi d" "in_range lib lo hi d'"
    and "period_start (in_rotation inn) (tl_unix_timestamp lib d) = period_start (in_rotation inn) (tl_unix_timestamp lib d')"
  shows "join_date lib inn d = join_date lib inn d'" "\<exists>f. join_date lib inn d = Some f"
proof -
  obtain s s' where s: "round_date lib (in_rotation inn) d = Some s" "round_date lib (in_rotation inn) d' = Some s'"
    and eq: "tl_unix_timestamp lib s = tl_unix_timestamp lib s'"
    using round_date_spec [OF assms(1,2), of d] round_date_spec [OF assms(1,2), of d'] assms(3-5)
    by (auto simp: in_range_def)
  from eq have "tl_format lib f s = tl_format lib f s'" for f
    by (rule time_lib_okD(9) [OF assms(1)])
  then show "join_date lib inn d = join_date lib inn d'"
    using s assms(2) by (simp add: join_date_def)
  obtain x where "tl_format lib (date_format (in_rotation inn)) s = Some x"
    using time_lib_okD(8) [OF assms(1)] by blast
  then show "\<exists>f. join_date lib inn d = Some f"
    using s assms(2) by (simp add: join_date_def)
qed

lemma next_timestamp_spec:
  assumes "time_lib_ok lib lo hi" "r \<noteq> NEVER" "in_range lib lo hi d"
  shows "\<exists>n. next_timestamp lib r d = Some n \<and> int n = period_start r (tl_unix_timestamp lib d) + period r"
proof -
  obtain e where e: "next_date lib r d = Some (Some e)"
    "tl_unix_timestamp lib e = period_start r (tl_unix_timestamp lib d) + period r"
    using next_date_spec [OF assms(1,2), of d] assms(3) by (auto simp: in_range_def)
  have "0 \<le> tl_unix_timestamp lib e" "tl_unix_timestamp lib e < 2 ^ 64"
    using e(2) assms period_start_bounds [OF assms(2), of "tl_unix_timestamp lib d"]
    by (cases r; simp add: in_range_def)+
  then show ?thesis
    using e by (simp add: next_timestamp_def as_usize_def)
qed

abbreviation contents_or_empty :: "string \<Rightarrow> file_system \<Rightarrow> string" where
  "contents_or_empty f fs \<equiv> (case fs_contents f fs of None \<Rightarrow> [] | Some c \<Rightarrow> c)"

lemma create_writer_good:
  assumes "env_good env"
  shows "create_writer env f symlink fs = (Inr (fst (fs_open env f fs)), snd (fs_open env f fs))"
  using assms by (simp add: create_writer_def env_good_def split: prod.split)

lemma appender_write_step:
  assumes ok: "time_lib_ok lib lo hi" and env: "env_good env" and inv: "appender_inv lib seen a fs"
    and range: "in_range lib lo hi seen" "in_range lib lo hi now"
    and le: "tl_unix_timestamp lib seen \<le> tl_unix_timestamp lib now"
  shows "\<exists>a' fs' f. appender_write lib env now buf a fs = Some (Some (length buf), a', fs') \<and>
    appender_inv lib now a' fs' \<and> ap_inner a' = ap_inner a \<and> join_date lib (ap_inner a) now = Some f \<and>
    (\<forall>g. fs_contents g fs' = (if g = f then Some (contents_or_empty f fs @ buf) else fs_contents g fs))"
proof -
  let ?r = "in_rotation (ap_inner a)" and ?t = "tl_unix_timestamp lib seen" and ?u = "tl_unix_timestamp lib now"
  have r: "?r \<noteq> NEVER" and nd: "int (ap_next_date a) = period_start ?r ?t + period ?r" and fs: "fs_ok fs"
    and mf: "in_max_files (ap_inner a) = None"
    using inv by (auto simp: appender_inv_def Let_def)
  have wr: "fe_write env buf = Some (length buf)"
    using env by (simp add: env_good_def)
  have u: "int (as_usize ?u) = ?u"
    using range(2) by (simp add: in_range_def as_usize_def)
  have pos: "ap_next_date a \<noteq> 0"
    using nd period_start_bounds [OF r, of ?t] range(1) by (auto simp: in_range_def)
  show ?thesis
  proof (cases "ap_next_date a \<le> as_usize ?u")
    case True
    obtain n where n: "next_timestamp lib ?r now = Some n" "int n = period_start ?r ?u + period ?r"
      using next_timestamp_spec [OF ok r range(2)] by blast
    obtain f where f: "join_date lib (ap_inner a) now = Some f"
      using join_date_period(2) [OF ok r range(2) range(2)] by blast
    obtain i fs1 where op: "fs_open env f fs = (i, fs1)" by (cases "fs_open env f fs")
    note o = fs_open_spec [OF fs op]
    obtain e where e: "map_of (fs_dir fs1) f = Some e" "de_inode e = i" using o(2) by blast
    let ?a = "a\<lparr>ap_next_date := n, ap_file := i\<rparr>" and ?fs = "fs_append i buf fs1"
    have "appender_write lib env now buf a fs = Some (Some (length buf), ?a, ?fs)"
      using True pos n(1) f mf op wr
      by (simp add: appender_write_def should_rollover_def advance_date_def refresh_writer_def
          create_writer_good [OF env])
    moreover have "appender_inv lib now ?a ?fs"
      using o(1) mf r n(2) f e by (auto simp: appender_inv_def Let_def)
    moreover have "fs_contents g ?fs = (if g = f then Some (contents_or_empty f fs @ buf) else fs_contents g fs)" for g
      using fs_contents_append [OF o(1) e(1), of g buf] o(3) [of g] o(3) [of f] e
      by (auto simp: fs_contents_def [of f fs1])
    ultimately show ?thesis using f by fastforce
  next
    case False
    then have lt: "?u < period_start ?r ?t + period ?r" using u nd by linarith
    have same: "period_start ?r ?u = period_start ?r ?t"
      using same_period [OF r _ lt] period_start_bounds [OF r, of ?t] le by simp
    obtain f e where f: "join_date lib (ap_inner a) seen = Some f" "map_of (fs_dir fs) f = Some e"
      "de_inode e = ap_file a"
      using inv by (auto simp: appender_inv_def Let_def)
    have f': "join_date lib (ap_inner a) now = Some f"
      using join_date_period(1) [OF ok r range(2,1) same] f(1) by simp
    let ?fs = "fs_append (ap_file a) buf fs"
    have "appender_write lib env now buf a fs = Some (Some (length buf), a, ?fs)"
      using False wr by (simp add: appender_write_def should_rollover_def)
    moreover have "appender_inv lib now a ?fs"
      using fs mf r nd same f f' by (auto simp: appender_inv_def Let_def)
    moreover have "fs_contents g ?fs = (if g = f then Some (contents_or_empty f fs @ buf) else fs_contents g fs)" for g
      using fs_contents_append [OF fs f(2), of g buf] f by (auto simp: fs_contents_def [of f fs])
    ultimately show ?thesis using f' by fastforce
  qed
qed

lemma appender_run_contents:
  assumes ok: "time_lib_ok lib lo hi" and env: "env_good env"
  shows "appender_inv lib seen a fs \<Longrightarrow> in_range lib lo hi seen \<Longrightarrow>
    list_all (in_range lib lo hi) (map fst ws) \<Longrightarrow>
    sorted (map (tl_unix_timestamp lib) (seen # map fst ws)) \<Longrightarrow>
    \<exists>a' fs'. appender_run lib env ws a fs = Some (a', fs') \<and>
      (\<forall>f. fs_contents f fs' =
        (if lines_for lib (ap_inner a) f ws = [] then fs_contents f fs
         else Some (contents_or_empty f fs @ concat (lines_for lib (ap_inner a) f ws))))"
proof (induction ws arbitrary: seen a fs)
  case Nil
  then show ?case by (simp add: lines_for_def)
next
  case (Cons w ws)
  obtain now buf where w: "w = (now, buf)" by (cases w)
  have now: "in_range lib lo hi now" "tl_unix_timestamp lib seen \<le> tl_unix_timestamp lib now"
    "list_all (in_range lib lo hi) (map fst ws)" "sorted (map (tl_unix_timestamp lib) (now # map fst ws))"
    using Cons.prems(3,4) w by simp_all
  obtain a1 fs1 f where step: "appender_write lib env now buf a fs = Some (Some (length buf), a1, fs1)"
    "appender_inv lib now a1 fs1" "ap_inner a1 = ap_inner a" "join_date lib (ap_inner a) now = Some f"
    and c: "\<forall>g. fs_contents g fs1 = (if g = f then Some (contents_or_empty f fs @ buf) else fs_contents g fs)"
    using appender_write_step [OF ok env Cons.prems(1,2) now(1,2)] by blast
  obtain a' fs' where run: "appender_run lib env ws a1 fs1 = Some (a', fs')"
    "\<forall>f. fs_contents f fs' = (if lines_for lib (ap_inner a1) f ws = [] then fs_contents f fs1
       else Some (contents_or_empty f fs1 @ concat (lines_for lib (ap_inner a1) f ws)))"
    using Cons.IH [OF step(2) now(1,3,4)] by blast
  have "lines_for lib (ap_inner a) g (w # ws) = (if g = f then [buf] else []) @ lines_for lib (ap_inner a) g ws" for g
    using w step(4) by (simp add: lines_for_def)
  then have "fs_contents g fs' =
      (if lines_for lib (ap_inner a) g (w # ws) = [] then fs_contents g fs
       else Some (contents_or_empty g fs @ concat (lines_for lib (ap_inner a) g (w # ws))))" for g
    using run(2) c step(3) by simp
  then show ?case using w step(1) run(1) by simp
qed

text \<open>
  C8. Every line goes into the file of its period: from the creation of a rolling appender, through
  any sequence of writes with a clock that does not go backwards, each file of the log directory
  gains exactly the lines written at the dates that belong to it, in order, after what it contained
  before; no write panics and no other file changes. (No limit on the number of files, and a file
  system on which nothing fails.)
\<close>

theorem rolling_contents:
  assumes "time_lib_ok lib lo hi" and "env_good env" and "fs_ok fs"
    and "bd_rotation b \<noteq> NEVER" and "bd_max_files b = None"
    and "list_all (in_range lib lo hi) (now # map fst ws)"
    and "sorted (map (tl_unix_timestamp lib) (now # map fst ws))"
  shows "\<exists>a fs1 a' fs'. inner_new lib env b now fs = Some (Inr a, fs1) \<and>
      appender_run lib env ws a fs1 = Some (a', fs') \<and>
      (\<forall>f. fs_contents f fs' =
        (if lines_for lib (ap_inner a) f ((now, []) # ws) = [] then fs_contents f fs
         else Some (contents_or_empty f fs @ concat (lines_for lib (ap_inner a) f ws))))"
proof -
  let ?inn = "\<lparr>in_prefix = bd_prefix b, in_suffix = bd_suffix b, in_symlink = bd_latest_symlink b,
      in_rotation = bd_rotation b, in_max_files = bd_max_files b\<rparr>"
  have range: "in_range lib lo hi now" "list_all (in_range lib lo hi) (map fst ws)"
    using assms(6) by simp_all
  obtain n where n: "next_timestamp lib (bd_rotation b) now = Some n"
    "int n = period_start (bd_rotation b) (tl_unix_timestamp lib now) + period (bd_rotation b)"
    using next_timestamp_spec [OF assms(1,4) range(1)] by blast
  obtain f where f: "join_date lib ?inn now = Some f"
    using join_date_period(2) [OF assms(1) _ range(1,1), of ?inn] assms(4) by auto
  obtain i fs1 where op: "fs_open env f fs = (i, fs1)" by (cases "fs_open env f fs")
  note o = fs_open_spec [OF assms(3) op]
  let ?a = "\<lparr>ap_inner = ?inn, ap_next_date = n, ap_file = i\<rparr>"
  have new: "inner_new lib env b now fs = Some (Inr ?a, fs1)"
    using n(1) f op assms(5) by (simp add: inner_new_def create_writer_good [OF assms(2)])
  have "appender_inv lib now ?a fs1"
    using o(1,2) assms(4,5) n(2) f by (auto simp: appender_inv_def)
  from appender_run_contents [OF assms(1,2) this range assms(7)]
  obtain a' fs' where run: "appender_run lib env ws ?a fs1 = Some (a', fs')"
    "\<forall>g. fs_contents g fs' = (if lines_for lib ?inn g ws = [] then fs_contents g fs1
       else Some (contents_or_empty g fs1 @ concat (lines_for lib ?inn g ws)))"
    by auto
  have "lines_for lib ?inn g ((now, []) # ws) = (if g = f then [[]] else []) @ lines_for lib ?inn g ws" for g
    using f by (simp add: lines_for_def)
  then have "fs_contents g fs' = (if lines_for lib ?inn g ((now, []) # ws) = [] then fs_contents g fs
      else Some (contents_or_empty g fs @ concat (lines_for lib ?inn g ws)))" for g
    using run(2) o(3) by simp
  then show ?thesis using new run(1) by auto
qed

text \<open>A clock of whole seconds that satisfies the laws.\<close>

definition demo_time :: "(int, int) time_lib" where
  "demo_time = \<lparr>tl_unix_timestamp = (\<lambda>d. d), tl_add = (\<lambda>n d. Some (d + n)),
     tl_hour = (\<lambda>d. d div 3600 mod 24), tl_minute = (\<lambda>d. d div 60 mod 60),
     tl_days_from_sunday = (\<lambda>d. (d div 86400 + 4) mod 7),
     tl_from_hms = (\<lambda>h m s. if 0 \<le> h \<and> h < 24 \<and> 0 \<le> m \<and> m < 60 \<and> 0 \<le> s \<and> s < 60
       then Some (h * 3600 + m * 60 + s) else None),
     tl_replace_time = (\<lambda>t d. d div 86400 * 86400 + t),
     tl_format = (\<lambda>_ d. Some (show_nat (nat d))),
     tl_parse_date = (\<lambda>_ _. None), tl_parse_date_time = (\<lambda>_ _. None)\<rparr>"

lemma demo_time_ok: "time_lib_ok demo_time lo hi"
  by (auto simp: time_lib_ok_def demo_time_def split: if_splits)

definition demo_env :: fs_env where
  "demo_env = \<lparr>fe_read_dir = True, fe_open = (\<lambda>_. True), fe_create_dir = True, fe_reopen = (\<lambda>_. True),
     fe_created = Some 0, fe_symlink = True, fe_remove = (\<lambda>_. True), fe_write = (\<lambda>buf. Some (length buf))\<rparr>"

definition demo_fs :: file_system where
  "demo_fs = \<lparr>fs_dir = [(''app.60'', \<lparr>de_readable = True, de_is_file = True, de_created = Some 0, de_inode = 0\<rparr>)],
     fs_data = (\<lambda>_. ''x''), fs_next_inode = 1\<rparr>"

definition demo_builder :: builder where
  "demo_builder = filename_prefix ''app'' (builder_rotation MINUTELY builder_new)"

theorem next_date_correct_witness:
  "\<exists>e. next_date demo_time WEEKLY 1000000 = Some (Some e) \<and> 1000000 < e \<and> e = 1468800"
  using next_date_correct [OF demo_time_ok [of 0 2000000], of WEEKLY 1000000]
  by (auto simp: demo_time_def period_start_def)

theorem rolling_contents_witness:
  "\<exists>a fs1 a' fs'. inner_new demo_time demo_env demo_builder 100 demo_fs = Some (Inr a, fs1) \<and>
     appender_run demo_time demo_env [(119, ''a''), (120, ''b''), (130, ''c'')] a fs1 = Some (a', fs') \<and>
     fs_contents ''app.60'' fs' = Some ''xa'' \<and> fs_contents ''app.120'' fs' = Some ''bc''"
proof -
  let ?ws = "[(119, ''a''), (120, ''b''), (130, ''c'')] :: (int \<times> string) list"
  have a: "ap_inner a = \<lparr>in_prefix = Some ''app'', in_suffix = None, in_symlink = None, in_rotation = MINUTELY, in_max_files = None\<rparr>"
    if "inner_new demo_time demo_env demo_builder 100 demo_fs = Some (Inr a, fs1)" for a fs1
    using that by (auto simp: inner_new_def demo_builder_def filename_prefix_def builder_rotation_def
        builder_new_def Let_def split: option.splits prod.splits sum.splits)
  obtain a fs1 a' fs' where run: "inner_new demo_time demo_env demo_builder 100 demo_fs = Some (Inr a, fs1)"
    "appender_run demo_time demo_env ?ws a fs1 = Some (a', fs')"
    and c: "\<forall>f. fs_contents f fs' =
        (if lines_for demo_time (ap_inner a) f ((100, []) # ?ws) = [] then fs_contents f demo_fs
         else Some (contents_or_empty f demo_fs @ concat (lines_for demo_time (ap_inner a) f ?ws)))"
    using rolling_contents [OF demo_time_ok [of "- 604800" 700000], of demo_env demo_fs demo_builder 100 ?ws]
    by (auto simp: env_good_def demo_env_def fs_ok_def demo_fs_def demo_builder_def filename_prefix_def
        builder_rotation_def builder_new_def in_range_def demo_time_def)
  have names: "show_nat 60 = ''60''" "show_nat 120 = ''120''" by code_simp+
  have "lines_for demo_time (ap_inner a) ''app.60'' ?ws = [''a'']"
    "lines_for demo_time (ap_inner a) ''app.60'' ((100, []) # ?ws) = [[], ''a'']"
    "lines_for demo_time (ap_inner a) ''app.120'' ((100, []) # ?ws) = [''b'', ''c'']"
    "lines_for demo_time (ap_inner a) ''app.120'' ?ws = [''b'', ''c'']"
    using a [OF run(1)] names
    by (simp_all add: lines_for_def join_date_def round_date_def date_format_def demo_time_def)
  moreover have "fs_contents ''app.60'' demo_fs = Some ''x''" "fs_contents ''app.120'' demo_fs = None"
    by (simp_all add: fs_contents_def demo_fs_def)
  ultimately have "fs_contents ''app.60'' fs' = Some ''xa''" "fs_contents ''app.120'' fs' = Some ''bc''"
    using c [rule_format, of "''app.60''"] c [rule_format, of "''app.120''"] by simp_all
  then show ?thesis using run by blast
qed

subsection \<open>Pruning\<close>

lemma fold_remove:
  assumes "\<And>f. fe_remove env f"
  shows "fs_dir (fold (\<lambda>(f, _) fs. if fe_remove env f then fs_remove f fs else fs) doomed fs) =
    filter (\<lambda>(n, _). n \<notin> fst ` set doomed) (fs_dir fs)"
proof (induction doomed arbitrary: fs)
  case (Cons d doomed)
  have "filter (\<lambda>(n, _). n \<notin> fst ` set doomed) (filter (\<lambda>(n, _). n \<noteq> fst d) (fs_dir fs)) =
      filter (\<lambda>(n, _). n \<notin> fst ` set (d # doomed)) (fs_dir fs)"
    unfolding filter_filter by (rule filter_cong) (auto simp: image_iff split_beta)
  then show ?case
    using Cons.IH [of "fs_remove (fst d) fs"] by (simp add: assms fs_remove_def split_beta)
qed simp

lemma map_filter_names:
  assumes "\<And>x y. c x = Some y \<Longrightarrow> fst y = fst x"
  shows "fst ` set (List.map_filter c xs) \<subseteq> fst ` set xs"
    and "distinct (map fst xs) \<Longrightarrow> distinct (map fst (List.map_filter c xs))"
proof -
  have sub: "fst ` set (List.map_filter c ys) \<subseteq> fst ` set ys" for ys
    using assms by (force simp: List.map_filter_def)
  then show "fst ` set (List.map_filter c xs) \<subseteq> fst ` set xs" .
  show "distinct (map fst xs) \<Longrightarrow> distinct (map fst (List.map_filter c xs))"
  proof (induction xs)
    case (Cons x xs)
    then show ?case
      using sub [of xs] assms [of x]
      by (cases "c x") (auto simp: List.map_filter_simps)
  qed (simp add: List.map_filter_simps)
qed

lemma prune_candidate_name: "prune_candidate lib inn x = Some y \<Longrightarrow> fst y = fst x"
  by (auto simp: prune_candidate_def split: prod.splits if_splits option.splits)

lemma distinct_fst_take:
  assumes "distinct (map fst xs)" and "(f, c) \<in> set xs"
  shows "f \<in> fst ` set (take k xs) \<longleftrightarrow> (f, c) \<in> set (take k xs)"
    and "f \<notin> fst ` set (take k xs) \<longleftrightarrow> (f, c) \<in> set (drop k xs)"
proof -
  have xs: "set xs = set (take k xs) \<union> set (drop k xs)"
    by (metis append_take_drop_id set_append)
  have disj: "fst ` set (take k xs) \<inter> fst ` set (drop k xs) = {}"
    using assms(1) append_take_drop_id [of k xs]
    by (metis distinct_append list.set_map map_append)
  show take: "f \<in> fst ` set (take k xs) \<longleftrightarrow> (f, c) \<in> set (take k xs)"
    using assms(2) xs disj by force
  show "f \<notin> fst ` set (take k xs) \<longleftrightarrow> (f, c) \<in> set (drop k xs)"
    using assms(2) xs disj take by force
qed

lemma filter_not_taken:
  assumes "distinct (map fst xs)"
  shows "filter (\<lambda>(f, _). f \<notin> fst ` set (take k xs)) xs = drop k xs"
proof -
  have "filter (\<lambda>(f, _). f \<notin> fst ` set (take k xs)) (take k xs) = []"
    by (auto simp: filter_empty_conv image_iff)
  moreover have "filter (\<lambda>(f, _). f \<notin> fst ` set (take k xs)) (drop k xs) = drop k xs"
    using distinct_fst_take(2) [OF assms] by (auto simp: filter_id_conv dest: in_set_dropD)
  ultimately show ?thesis
    by (metis append_Nil append_take_drop_id filter_append)
qed


definition demo_logs :: file_system where
  "demo_logs = \<lparr>fs_dir =
     [(''app.2'', \<lparr>de_readable = True, de_is_file = True, de_created = Some 2, de_inode = 0\<rparr>),
      (''app.1'', \<lparr>de_readable = True, de_is_file = True, de_created = Some 1, de_inode = 1\<rparr>),
      (''other'', \<lparr>de_readable = True, de_is_file = True, de_created = Some 0, de_inode = 2\<rparr>)],
     fs_data = (\<lambda>_. []), fs_next_inode = 3\<rparr>"


text \<open>
  A failed rollover is not retried within the period: if the new file cannot be created, the
  line goes into the old file, and because the time stamp was advanced first, the appender does not
  try again until the next period begins.
\<close>

theorem failed_rollover_not_retried:
  assumes "time_lib_ok lib lo hi" and "in_range lib lo hi now" and "in_range lib lo hi later"
    and "appender_inv lib seen a fs" and "should_rollover lib now a \<noteq> None"
    and "\<forall>f. \<not> fe_open env f" and "\<not> fe_create_dir env" and "fe_write env buf = Some (length buf)"
    and "tl_unix_timestamp lib later < period_start (in_rotation (ap_inner a)) (tl_unix_timestamp lib now) + period (in_rotation (ap_inner a))"
  shows "\<exists>a'. appender_write lib env now buf a fs =
        Some (Some (length buf), a', fs_append (ap_file a) buf fs) \<and> ap_file a' = ap_file a \<and>
      should_rollover lib later a' = None"
proof -
  let ?r = "in_rotation (ap_inner a)"
  have r: "?r \<noteq> NEVER" and mf: "in_max_files (ap_inner a) = None"
    using assms(4) by (auto simp: appender_inv_def Let_def)
  obtain n where n: "next_timestamp lib ?r now = Some n"
    "int n = period_start ?r (tl_unix_timestamp lib now) + period ?r"
    using next_timestamp_spec [OF assms(1) r assms(2)] by blast
  obtain f where f: "join_date lib (ap_inner a) now = Some f"
    using join_date_period(2) [OF assms(1) r assms(2,2)] by blast
  obtain c where c: "should_rollover lib now a = Some c" "c = ap_next_date a"
    using assms(5) by (auto simp: should_rollover_def Let_def split: if_splits)
  have "int (as_usize (tl_unix_timestamp lib later)) < int n"
    using n(2) assms(3,9) by (simp add: in_range_def as_usize_def)
  then have "should_rollover lib later (a\<lparr>ap_next_date := n\<rparr>) = None"
    by (simp add: should_rollover_def)
  then show ?thesis
    using c n(1) f mf assms(6-8)
    by (simp add: appender_write_def advance_date_def refresh_writer_def create_writer_def)
qed

definition demo_appender :: appender where
  "demo_appender = \<lparr>ap_inner = \<lparr>in_prefix = Some ''app'', in_suffix = None, in_symlink = None,
     in_rotation = MINUTELY, in_max_files = None\<rparr>, ap_next_date = 120, ap_file = 0\<rparr>"

theorem failed_rollover_not_retried_witness:
  "\<exists>a'. appender_write demo_time (demo_env\<lparr>fe_open := (\<lambda>_. False), fe_create_dir := False\<rparr>) 125 ''b''
      demo_appender demo_fs = Some (Some 1, a', fs_append 0 ''b'' demo_fs) \<and>
    should_rollover demo_time 179 a' = None"
proof -
  have names: "show_nat 60 = ''60''" by code_simp
  have "appender_inv demo_time 100 demo_appender demo_fs"
    by (simp add: appender_inv_def demo_appender_def demo_fs_def fs_ok_def demo_time_def period_start_def
        join_date_def round_date_def names)
  then show ?thesis
    using failed_rollover_not_retried [OF demo_time_ok [of "- 604800" 700000], of 125 179 100 demo_appender
        demo_fs "demo_env\<lparr>fe_open := (\<lambda>_. False), fe_create_dir := False\<rparr>" "''b''"]
    by (auto simp: in_range_def demo_time_def should_rollover_def demo_appender_def as_usize_def demo_env_def
        period_start_def)
qed

end
