(* ===== verification/Appender_NonBlocking.thy ===== *)
theory Appender_NonBlocking
  imports Rust_Str
begin

text \<open>
  The non-blocking writer: \<open>tracing-appender/src/non_blocking.rs\<close> and \<open>worker.rs\<close>.

  Producers put lines into a bounded channel, a worker thread takes them out and writes them, and a
  guard tells the worker to stop. The channel is the \<open>crossbeam_channel\<close> crate's, which the
  repository only calls: it is the parameter \<open>channel\<close>, and \<open>channel_ok\<close> states what the crate
  documents of a bounded channel. The threads interleave in the steps of \<open>nb_step\<close>; the time-outs of
  the guard may or may not expire.
\<close>

datatype msg = Line string | Shutdown

record 'c channel =
  ch_try_send :: "msg \<Rightarrow> 'c \<Rightarrow> 'c option"
  ch_try_recv :: "'c \<Rightarrow> (msg \<times> 'c) option"
  ch_drop_receiver :: "'c \<Rightarrow> 'c"
  ch_queue :: "'c \<Rightarrow> msg list"
  ch_connected :: "'c \<Rightarrow> bool"

definition channel_ok :: "'c channel \<Rightarrow> nat \<Rightarrow> bool" where
  "channel_ok ch cap \<longleftrightarrow>
     (\<forall>m c. case ch_try_send ch m c of
        None \<Rightarrow> \<not> ch_connected ch c \<or> length (ch_queue ch c) \<ge> cap
      | Some c' \<Rightarrow> ch_connected ch c \<and> length (ch_queue ch c) < cap \<and>
          ch_queue ch c' = ch_queue ch c @ [m] \<and> ch_connected ch c') \<and>
     (\<forall>c. case ch_try_recv ch c of
        None \<Rightarrow> ch_queue ch c = []
      | Some (m, c') \<Rightarrow> ch_queue ch c = m # ch_queue ch c' \<and> ch_connected ch c' = ch_connected ch c) \<and>
     (\<forall>c. \<not> ch_connected ch (ch_drop_receiver ch c) \<and> ch_queue ch (ch_drop_receiver ch c) = [])"

text \<open>The writer behind the worker (\<open>T: Write\<close>): whether a call succeeded, and its state afterwards.\<close>

record 'w writer =
  wr_write_all :: "string \<Rightarrow> 'w \<Rightarrow> bool \<times> 'w"
  wr_flush :: "'w \<Rightarrow> bool \<times> 'w"

subsection \<open>Configuration\<close>

record non_blocking_builder =
  nbb_buffered_lines_limit :: nat
  nbb_is_lossy :: bool
  nbb_thread_name :: string

definition DEFAULT_BUFFERED_LINES_LIMIT :: nat where
  "DEFAULT_BUFFERED_LINES_LIMIT = 128000"

definition non_blocking_builder_default :: non_blocking_builder where
  "non_blocking_builder_default = \<lparr>nbb_buffered_lines_limit = DEFAULT_BUFFERED_LINES_LIMIT,
     nbb_is_lossy = True, nbb_thread_name = ''tracing-appender''\<rparr>"

definition buffered_lines_limit :: "nat \<Rightarrow> non_blocking_builder \<Rightarrow> non_blocking_builder" where
  "buffered_lines_limit n b = b\<lparr>nbb_buffered_lines_limit := n\<rparr>"

definition lossy :: "bool \<Rightarrow> non_blocking_builder \<Rightarrow> non_blocking_builder" where
  "lossy l b = b\<lparr>nbb_is_lossy := l\<rparr>"

definition thread_name :: "string \<Rightarrow> non_blocking_builder \<Rightarrow> non_blocking_builder" where
  "thread_name n b = b\<lparr>nbb_thread_name := n\<rparr>"

subsection \<open>The threads\<close>

datatype worker_state = Empty | Disconnected | Continue | ShutdownState

text \<open>
  Where the worker is: blocked in the first \<open>recv\<close> of \<open>work\<close>, in its loop of \<open>try_recv\<close>, about to
  flush and return a state, waiting for the guard after the last batch, or finished.
\<close>

datatype worker_pc = AtRecv | AtTryRecv | AtFlush worker_state | AtShutdownRecv | Finished

datatype guard_pc = GuardAlive | GuardSignalled | GuardDropped

text \<open>
  The last three fields are bookkeeping for the specification: the messages the channel accepted, those
  the worker took out, and the number of lines that were refused.
\<close>

record ('c, 'w) nb =
  nb_channel :: 'c
  nb_error_counter :: nat
  nb_handles :: nat
  nb_guard :: guard_pc
  nb_worker :: worker_pc
  nb_writer :: 'w
  nb_accepted :: "msg list"
  nb_received :: "msg list"
  nb_refused :: nat

definition USIZE_MAX :: nat where
  "USIZE_MAX = 2 ^ 64 - 1"

text \<open>\<open>incr_saturating\<close>: the exchange of the loop succeeds with the value that is current then.\<close>

definition incr_saturating :: "nat \<Rightarrow> nat" where
  "incr_saturating n = (if n = USIZE_MAX then n else min (n + 1) USIZE_MAX)"

definition accept :: "msg \<Rightarrow> 'c \<Rightarrow> ('c, 'w) nb \<Rightarrow> ('c, 'w) nb" where
  "accept m c s = s\<lparr>nb_channel := c, nb_accepted := nb_accepted s @ [m]\<rparr>"

definition refuse :: "('c, 'w) nb \<Rightarrow> ('c, 'w) nb" where
  "refuse s = s\<lparr>nb_refused := Suc (nb_refused s)\<rparr>"

text \<open>
  \<open>Write for NonBlocking\<close>, as one step: \<open>None\<close> while the blocking \<open>send\<close> waits for room. The result is
  the number of bytes, or the error.
\<close>

definition nb_write ::
  "'c channel \<Rightarrow> bool \<Rightarrow> string \<Rightarrow> ('c, 'w) nb \<Rightarrow> (nat option \<times> ('c, 'w) nb) option" where
  "nb_write ch is_lossy buf s =
     (if is_lossy then
        (case ch_try_send ch (Line buf) (nb_channel s) of
           Some c \<Rightarrow> Some (Some (length buf), accept (Line buf) c s)
         | None \<Rightarrow> Some (Some (length buf),
             refuse (s\<lparr>nb_error_counter := incr_saturating (nb_error_counter s)\<rparr>)))
      else if \<not> ch_connected ch (nb_channel s) then Some (None, refuse s)
      else
        (case ch_try_send ch (Line buf) (nb_channel s) of
           Some c \<Rightarrow> Some (Some (length buf), accept (Line buf) c s)
         | None \<Rightarrow> None))"

text \<open>\<open>handle_recv\<close> and \<open>handle_try_recv\<close> on a message: \<open>None\<close> is the error that \<open>?\<close> returns.\<close>

definition handle_msg :: "'w writer \<Rightarrow> msg \<Rightarrow> 'w \<Rightarrow> worker_state option \<times> 'w" where
  "handle_msg wr m w =
     (case m of
        Line l \<Rightarrow> (let (ok, w1) = wr_write_all wr l w in (if ok then Some Continue else None, w1))
      | Shutdown \<Rightarrow> (Some ShutdownState, w))"

definition senders_gone :: "('c, 'w) nb \<Rightarrow> bool" where
  "senders_gone s \<longleftrightarrow> nb_handles s = 0 \<and> nb_guard s = GuardDropped"

definition after_handling :: "worker_state option \<Rightarrow> worker_pc" where
  "after_handling r =
     (case r of None \<Rightarrow> AtRecv | Some Continue \<Rightarrow> AtTryRecv | Some st \<Rightarrow> AtFlush st)"

text \<open>
  One step of the worker thread (\<open>work\<close> and the loop of \<open>worker_thread\<close>); \<open>None\<close> while it is blocked or
  after it has finished. An error of \<open>work\<close> is ignored and \<open>work\<close> starts again. When the thread ends,
  the receiver is dropped.
\<close>

definition worker_step :: "'c channel \<Rightarrow> 'w writer \<Rightarrow> ('c, 'w) nb \<Rightarrow> ('c, 'w) nb option" where
  "worker_step ch wr s =
     (case nb_worker s of
        AtFlush st \<Rightarrow>
          (let (ok, w1) = wr_flush wr (nb_writer s) in
           Some (s\<lparr>nb_writer := w1,
             nb_worker := (if \<not> ok then AtRecv
               else if st = ShutdownState \<or> st = Disconnected then AtShutdownRecv else AtRecv)\<rparr>))
      | AtShutdownRecv \<Rightarrow>
          if nb_guard s = GuardAlive then None
          else Some (s\<lparr>nb_writer := snd (wr_flush wr (nb_writer s)), nb_worker := Finished,
            nb_channel := ch_drop_receiver ch (nb_channel s),
            nb_guard := GuardDropped\<rparr>)
      | Finished \<Rightarrow> None
      | pc \<Rightarrow>
          (case ch_try_recv ch (nb_channel s) of
             Some (m, c) \<Rightarrow>
               (let (r, w1) = handle_msg wr m (nb_writer s) in
                Some (s\<lparr>nb_channel := c, nb_received := nb_received s @ [m], nb_writer := w1,
                  nb_worker := after_handling r\<rparr>))
           | None \<Rightarrow>
               if senders_gone s then Some (s\<lparr>nb_worker := AtFlush Disconnected\<rparr>)
               else if pc = AtTryRecv then Some (s\<lparr>nb_worker := AtFlush Empty\<rparr>)
               else None))"

text \<open>
  \<open>Drop for WorkerGuard\<close>. Sending the signal succeeds if there is room, fails if the worker is gone,
  and may time out while the channel is full; after the signal, the second time-out may expire before
  the worker gets there.
\<close>

definition guard_signal :: "'c channel \<Rightarrow> ('c, 'w) nb \<Rightarrow> ('c, 'w) nb option" where
  "guard_signal ch s =
     (if nb_guard s = GuardAlive then
        (case ch_try_send ch Shutdown (nb_channel s) of
           Some c \<Rightarrow> Some ((accept Shutdown c s)\<lparr>nb_guard := GuardSignalled\<rparr>)
         | None \<Rightarrow> Some (s\<lparr>nb_guard := GuardDropped\<rparr>))
      else None)"

definition guard_give_up :: "('c, 'w) nb \<Rightarrow> ('c, 'w) nb option" where
  "guard_give_up s = (if nb_guard s = GuardSignalled then Some (s\<lparr>nb_guard := GuardDropped\<rparr>) else None)"

definition nb_create :: "'c \<Rightarrow> 'w \<Rightarrow> ('c, 'w) nb" where
  "nb_create c w = \<lparr>nb_channel = c, nb_error_counter = 0, nb_handles = 1, nb_guard = GuardAlive,
     nb_worker = AtRecv, nb_writer = w, nb_accepted = [], nb_received = [], nb_refused = 0\<rparr>"

inductive nb_step ::
  "'c channel \<Rightarrow> 'w writer \<Rightarrow> bool \<Rightarrow> ('c, 'w) nb \<Rightarrow> ('c, 'w) nb \<Rightarrow> bool"
  for ch wr is_lossy where
  step_write: "nb_handles s > 0 \<Longrightarrow> nb_write ch is_lossy buf s = Some (r, s') \<Longrightarrow> nb_step ch wr is_lossy s s'"
| step_clone: "nb_handles s > 0 \<Longrightarrow> nb_step ch wr is_lossy s (s\<lparr>nb_handles := Suc (nb_handles s)\<rparr>)"
| step_drop: "nb_handles s > 0 \<Longrightarrow> nb_step ch wr is_lossy s (s\<lparr>nb_handles := nb_handles s - 1\<rparr>)"
| step_worker: "worker_step ch wr s = Some s' \<Longrightarrow> nb_step ch wr is_lossy s s'"
| step_signal: "guard_signal ch s = Some s' \<Longrightarrow> nb_step ch wr is_lossy s s'"
| step_give_up: "guard_give_up s = Some s' \<Longrightarrow> nb_step ch wr is_lossy s s'"

inductive nb_reachable ::
  "'c channel \<Rightarrow> 'w writer \<Rightarrow> bool \<Rightarrow> ('c, 'w) nb \<Rightarrow> ('c, 'w) nb \<Rightarrow> bool"
  for ch wr is_lossy s0 where
  reach_init: "nb_reachable ch wr is_lossy s0 s0"
| reach_step: "nb_reachable ch wr is_lossy s0 s \<Longrightarrow> nb_step ch wr is_lossy s s' \<Longrightarrow> nb_reachable ch wr is_lossy s0 s'"

inductive_cases nb_stepE: "nb_step ch wr is_lossy s s'"

subsection \<open>What the channel and the writer promise\<close>

lemma channel_okD:
  assumes "channel_ok ch cap"
  shows "ch_try_send ch m c = Some c' \<Longrightarrow> ch_connected ch c \<and> length (ch_queue ch c) < cap \<and>
      ch_queue ch c' = ch_queue ch c @ [m] \<and> ch_connected ch c'"
    and "ch_try_send ch m c = None \<Longrightarrow> \<not> ch_connected ch c \<or> cap \<le> length (ch_queue ch c)"
    and "ch_try_recv ch c = Some (m, c') \<Longrightarrow>
      ch_queue ch c = m # ch_queue ch c' \<and> ch_connected ch c' = ch_connected ch c"
    and "ch_try_recv ch c = None \<Longrightarrow> ch_queue ch c = []"
    and "\<not> ch_connected ch (ch_drop_receiver ch c)" and "ch_queue ch (ch_drop_receiver ch c) = []"
proof -
  note send = assms [unfolded channel_ok_def, THEN conjunct1, THEN spec [of _ m], THEN spec [of _ c]]
  note recv = assms [unfolded channel_ok_def, THEN conjunct2, THEN conjunct1, THEN spec [of _ c]]
  note drop = assms [unfolded channel_ok_def, THEN conjunct2, THEN conjunct2, THEN spec [of _ c]]
  show "ch_try_send ch m c = Some c' \<Longrightarrow> ch_connected ch c \<and> length (ch_queue ch c) < cap \<and>
      ch_queue ch c' = ch_queue ch c @ [m] \<and> ch_connected ch c'"
    "ch_try_send ch m c = None \<Longrightarrow> \<not> ch_connected ch c \<or> cap \<le> length (ch_queue ch c)"
    using send by simp_all
  show "ch_try_recv ch c = Some (m, c') \<Longrightarrow>
      ch_queue ch c = m # ch_queue ch c' \<and> ch_connected ch c' = ch_connected ch c"
    "ch_try_recv ch c = None \<Longrightarrow> ch_queue ch c = []"
    using recv by simp_all
  show "\<not> ch_connected ch (ch_drop_receiver ch c)" "ch_queue ch (ch_drop_receiver ch c) = []"
    using drop by simp_all
qed

text \<open>A writer that does not fail, seen through the lines it has been given.\<close>

definition reliable :: "'w writer \<Rightarrow> ('w \<Rightarrow> string list) \<Rightarrow> bool" where
  "reliable wr out \<longleftrightarrow>
     (\<forall>l w. fst (wr_write_all wr l w) \<and> out (snd (wr_write_all wr l w)) = out w @ [l]) \<and>
     (\<forall>w. fst (wr_flush wr w) \<and> out (snd (wr_flush wr w)) = out w)"

fun lines_of :: "msg list \<Rightarrow> string list" where
  "lines_of [] = []"
| "lines_of (Line l # ms) = l # lines_of ms"
| "lines_of (Shutdown # ms) = lines_of ms"

lemma lines_of_append [simp]: "lines_of (ms @ ns) = lines_of ms @ lines_of ns"
  by (induction ms rule: lines_of.induct) simp_all

subsection \<open>The invariant\<close>

definition stopped_ok :: "('c, 'w) nb \<Rightarrow> bool" where
  "stopped_ok s \<longleftrightarrow>
     (\<exists>p q. nb_accepted s = p @ Shutdown # q \<and> Shutdown \<notin> set p \<and> nb_received s = p @ [Shutdown]) \<or>
     (Shutdown \<notin> set (nb_received s) \<and> nb_accepted s = nb_received s \<and> senders_gone s)"

definition worker_inv :: "'c channel \<Rightarrow> ('c, 'w) nb \<Rightarrow> bool" where
  "worker_inv ch s \<longleftrightarrow>
     ch_connected ch (nb_channel s) = (nb_worker s \<noteq> Finished) \<and>
     (nb_worker s \<noteq> Finished \<longrightarrow> nb_accepted s = nb_received s @ ch_queue ch (nb_channel s)) \<and>
     (case nb_worker s of
        AtFlush ShutdownState \<Rightarrow> stopped_ok s
      | AtFlush Disconnected \<Rightarrow> stopped_ok s
      | AtShutdownRecv \<Rightarrow> stopped_ok s
      | Finished \<Rightarrow> stopped_ok s
      | _ \<Rightarrow> Shutdown \<notin> set (nb_received s))"

definition counter_inv :: "bool \<Rightarrow> ('c, 'w) nb \<Rightarrow> bool" where
  "counter_inv is_lossy s \<longleftrightarrow>
     nb_error_counter s = (if is_lossy then min (nb_refused s) USIZE_MAX else 0)"

lemma incr_saturating_min: "incr_saturating (min n USIZE_MAX) = min (Suc n) USIZE_MAX"
  by (auto simp: incr_saturating_def)

lemma counter_inv_step:
  assumes "nb_step ch wr is_lossy s s'" and "counter_inv is_lossy s"
  shows "counter_inv is_lossy s'"
  using assms
  by (cases rule: nb_step.cases)
    (auto simp: counter_inv_def nb_write_def worker_step_def guard_signal_def guard_give_up_def accept_def
      refuse_def incr_saturating_min Let_def split: if_splits option.splits worker_pc.splits prod.splits)

lemma stopped_ok_mono:
  assumes "stopped_ok s" "nb_received s' = nb_received s" "senders_gone s \<Longrightarrow> senders_gone s' \<and> nb_accepted s' = nb_accepted s"
    "\<exists>q. nb_accepted s' = nb_accepted s @ q"
  shows "stopped_ok s'"
  using assms unfolding stopped_ok_def by (metis append.assoc append_Cons)

lemma accept_inv:
  assumes ok: "channel_ok ch cap" and inv: "worker_inv ch s" and "\<not> senders_gone s"
    and send: "ch_try_send ch m (nb_channel s) = Some c"
  shows "worker_inv ch (accept m c s)"
proof -
  note c = channel_okD(1) [OF ok send]
  have "stopped_ok (accept m c s)" if "stopped_ok s"
    by (rule stopped_ok_mono [OF that]) (use assms(3) in \<open>auto simp: accept_def senders_gone_def\<close>)
  then show ?thesis
    using inv c by (auto simp: worker_inv_def accept_def split: worker_pc.splits worker_state.splits)
qed

lemma same_messages_inv:
  assumes "worker_inv ch s" and "nb_channel s' = nb_channel s" "nb_worker s' = nb_worker s"
    "nb_accepted s' = nb_accepted s" "nb_received s' = nb_received s" "senders_gone s \<Longrightarrow> senders_gone s'"
  shows "worker_inv ch s'"
proof -
  have "stopped_ok s'" if "stopped_ok s"
    by (rule stopped_ok_mono [OF that]) (use assms in auto)
  then show ?thesis
    using assms by (auto simp: worker_inv_def split: worker_pc.splits worker_state.splits)
qed

lemma received_inv:
  assumes ok: "channel_ok ch cap" and inv: "worker_inv ch s" and pc: "nb_worker s = AtRecv \<or> nb_worker s = AtTryRecv"
    and recv: "ch_try_recv ch (nb_channel s) = Some (m, c)" and h: "handle_msg wr m (nb_writer s) = (r, w)"
  shows "worker_inv ch (s\<lparr>nb_channel := c, nb_received := nb_received s @ [m], nb_writer := w,
    nb_worker := after_handling r\<rparr>)"
proof (cases m)
  case (Line l)
  then have "after_handling r = AtRecv \<or> after_handling r = AtTryRecv"
    using h by (auto simp: handle_msg_def after_handling_def split: prod.splits)
  then show ?thesis
    using inv pc channel_okD(3) [OF ok recv] Line by (auto simp: worker_inv_def)
next
  case Shutdown
  then have "after_handling r = AtFlush ShutdownState"
    using h by (auto simp: handle_msg_def after_handling_def)
  then show ?thesis
    using inv pc channel_okD(3) [OF ok recv] Shutdown by (auto simp: worker_inv_def stopped_ok_def)
qed

lemma worker_step_inv:
  assumes ok: "channel_ok ch cap" and flush: "\<And>w. fst (wr_flush wr w)"
    and inv: "worker_inv ch s" and step: "worker_step ch wr s = Some s'"
  shows "worker_inv ch s'"
proof (cases "nb_worker s")
  case (AtFlush st)
  have "fst (wr_flush wr (nb_writer s))" by (rule flush)
  then obtain w where w: "wr_flush wr (nb_writer s) = (True, w)"
    by (metis prod.collapse)
  show ?thesis
    using inv step AtFlush w
    by (cases st) (auto simp: worker_step_def worker_inv_def stopped_ok_def senders_gone_def)
next
  case AtShutdownRecv
  then show ?thesis
    using inv step channel_okD(5) [OF ok]
    by (auto simp: worker_step_def worker_inv_def stopped_ok_def senders_gone_def split: if_splits)
next
  case Finished
  then show ?thesis using step by (simp add: worker_step_def)
next
  case AtRecv
  show ?thesis
  proof (cases "ch_try_recv ch (nb_channel s)")
    case None
    then show ?thesis
      using inv step AtRecv channel_okD(4) [OF ok None]
      by (auto simp: worker_step_def worker_inv_def stopped_ok_def senders_gone_def split: if_splits)
  next
    case (Some mc)
    obtain r w where "handle_msg wr (fst mc) (nb_writer s) = (r, w)" by (cases "handle_msg wr (fst mc) (nb_writer s)")
    with received_inv [OF ok inv _ _ this, of "snd mc"] AtRecv Some step show ?thesis
      by (cases mc) (simp add: worker_step_def)
  qed
next
  case AtTryRecv
  show ?thesis
  proof (cases "ch_try_recv ch (nb_channel s)")
    case None
    then show ?thesis
      using inv step AtTryRecv channel_okD(4) [OF ok None]
      by (auto simp: worker_step_def worker_inv_def stopped_ok_def senders_gone_def split: if_splits)
  next
    case (Some mc)
    obtain r w where "handle_msg wr (fst mc) (nb_writer s) = (r, w)" by (cases "handle_msg wr (fst mc) (nb_writer s)")
    with received_inv [OF ok inv _ _ this, of "snd mc"] AtTryRecv Some step show ?thesis
      by (cases mc) (simp add: worker_step_def)
  qed
qed

lemma worker_inv_step:
  assumes ok: "channel_ok ch cap" and flush: "\<And>w. fst (wr_flush wr w)"
    and inv: "worker_inv ch s" and step: "nb_step ch wr is_lossy s s'"
  shows "worker_inv ch s'"
  using step
proof (cases rule: nb_step.cases)
  case (step_write buf r)
  have gone: "\<not> senders_gone s" using step_write(1) by (simp add: senders_gone_def)
  have same: "worker_inv ch (refuse (s\<lparr>nb_error_counter := n\<rparr>))" "worker_inv ch (refuse s)" for n
    by (rule same_messages_inv [OF inv]; simp add: refuse_def senders_gone_def)+
  show ?thesis
    using step_write(2) accept_inv [OF ok inv gone] same
    by (auto simp: nb_write_def split: if_splits option.splits)
next
  case step_signal
  have "worker_inv ch ((accept Shutdown c s)\<lparr>nb_guard := GuardSignalled\<rparr>)"
    if "ch_try_send ch Shutdown (nb_channel s) = Some c" "nb_guard s = GuardAlive" for c
    by (rule same_messages_inv [OF accept_inv [OF ok inv _ that(1)]])
      (use that(2) in \<open>auto simp: senders_gone_def accept_def\<close>)
  moreover have "worker_inv ch (s\<lparr>nb_guard := GuardDropped\<rparr>)"
    by (rule same_messages_inv [OF inv]) (auto simp: senders_gone_def)
  ultimately show ?thesis
    using step_signal by (auto simp: guard_signal_def split: if_splits option.splits)
next
  case step_give_up
  then show ?thesis
    using same_messages_inv [OF inv, of s'] by (auto simp: guard_give_up_def senders_gone_def split: if_splits)
next
  case step_worker
  show ?thesis by (rule worker_step_inv [OF ok flush inv step_worker])
next
  case step_clone
  then show ?thesis by (intro same_messages_inv [OF inv]) (auto simp: senders_gone_def)
next
  case step_drop
  then show ?thesis by (intro same_messages_inv [OF inv]) (auto simp: senders_gone_def)
qed

lemma reliableD:
  assumes "reliable wr out"
  shows "\<exists>w'. wr_write_all wr l w = (True, w') \<and> out w' = out w @ [l]"
    and "\<exists>w'. wr_flush wr w = (True, w') \<and> out w' = out w"
proof -
  show "\<exists>w'. wr_write_all wr l w = (True, w') \<and> out w' = out w @ [l]"
  proof -
    have "fst (wr_write_all wr l w)" "out (snd (wr_write_all wr l w)) = out w @ [l]"
      using assms by (auto simp: reliable_def)
    then show ?thesis by (cases "wr_write_all wr l w") simp
  qed
  show "\<exists>w'. wr_flush wr w = (True, w') \<and> out w' = out w"
  proof -
    have "fst (wr_flush wr w)" "out (snd (wr_flush wr w)) = out w"
      using assms by (auto simp: reliable_def)
    then show ?thesis by (cases "wr_flush wr w") simp
  qed
qed

lemma handle_msg_out:
  assumes "reliable wr out" "handle_msg wr m w = (r, w')"
  shows "out w' = out w @ lines_of [m]" "r \<noteq> None"
proof -
  have "out w' = out w @ lines_of [m] \<and> r \<noteq> None"
  proof (cases m)
    case (Line l)
    then show ?thesis
      using reliableD(1) [OF assms(1), of l w] assms(2) by (auto simp: handle_msg_def)
  next
    case Shutdown
    then show ?thesis using assms(2) by (auto simp: handle_msg_def)
  qed
  then show "out w' = out w @ lines_of [m]" "r \<noteq> None" by simp_all
qed

lemma worker_step_out:
  assumes rel: "reliable wr out" and step: "worker_step ch wr s = Some s'"
    and inv: "out (nb_writer s) = out w0 @ lines_of (nb_received s)"
  shows "out (nb_writer s') = out w0 @ lines_of (nb_received s')"
proof -
  have flush: "out (snd (wr_flush wr w)) = out w" for w
    using reliableD(2) [OF rel, of w] by auto
  show ?thesis
    using step inv flush [of "nb_writer s"]
    by (auto simp: worker_step_def Let_def handle_msg_out(1) [OF rel]
        split: worker_pc.splits prod.splits option.splits if_splits)
qed

lemma out_inv_step:
  assumes rel: "reliable wr out" and step: "nb_step ch wr is_lossy s s'"
    and inv: "out (nb_writer s) = out w0 @ lines_of (nb_received s)"
  shows "out (nb_writer s') = out w0 @ lines_of (nb_received s')"
  using step
proof (cases rule: nb_step.cases)
  case step_worker
  then show ?thesis by (rule worker_step_out [OF rel _ inv])
qed (use inv in \<open>auto simp: nb_write_def guard_signal_def guard_give_up_def accept_def refuse_def
    split: if_splits option.splits\<close>)

lemma nb_reachable_inv:
  assumes ok: "channel_ok ch cap" and rel: "reliable wr out"
    and init: "ch_queue ch c0 = []" "ch_connected ch c0"
    and reach: "nb_reachable ch wr is_lossy (nb_create c0 w0) s"
  shows "worker_inv ch s" "counter_inv is_lossy s" "out (nb_writer s) = out w0 @ lines_of (nb_received s)"
proof -
  have flush: "fst (wr_flush wr w)" for w using reliableD(2) [OF rel, of w] by auto
  have "worker_inv ch s \<and> counter_inv is_lossy s \<and> out (nb_writer s) = out w0 @ lines_of (nb_received s)"
    using reach
  proof (induction rule: nb_reachable.induct)
    case reach_init
    show ?case using init by (simp add: nb_create_def worker_inv_def counter_inv_def)
  next
    case (reach_step s s')
    then show ?case
      using worker_inv_step [OF ok flush] counter_inv_step out_inv_step [OF rel] by blast
  qed
  then show "worker_inv ch s" "counter_inv is_lossy s" "out (nb_writer s) = out w0 @ lines_of (nb_received s)"
    by simp_all
qed

lemma stopped_lines:
  assumes "stopped_ok s"
  shows "lines_of (nb_received s) = lines_of (takeWhile (\<lambda>m. m \<noteq> Shutdown) (nb_accepted s))"
proof -
  from assms consider (signal) p q where "nb_accepted s = p @ Shutdown # q" "Shutdown \<notin> set p" "nb_received s = p @ [Shutdown]"
    | (gone) "Shutdown \<notin> set (nb_received s)" "nb_accepted s = nb_received s"
    by (auto simp: stopped_ok_def)
  then show ?thesis
  proof cases
    case signal
    have "takeWhile (\<lambda>m. m \<noteq> Shutdown) (p @ Shutdown # q) = p @ takeWhile (\<lambda>m. m \<noteq> Shutdown) (Shutdown # q)"
      by (rule takeWhile_append2) (use signal(2) in auto)
    then show ?thesis using signal by simp
  next
    case gone
    then have "takeWhile (\<lambda>m. m \<noteq> Shutdown) (nb_received s) = nb_received s"
      by (intro takeWhile_eq_all_conv [THEN iffD2]) auto
    then show ?thesis unfolding gone(2) by (rule arg_cong [OF sym])
  qed
qed


subsection \<open>Shutting down\<close>

text \<open>The worker running alone.\<close>

fun worker_run :: "'c channel \<Rightarrow> 'w writer \<Rightarrow> nat \<Rightarrow> ('c, 'w) nb \<Rightarrow> ('c, 'w) nb" where
  "worker_run ch wr 0 s = s"
| "worker_run ch wr (Suc n) s = (case worker_step ch wr s of None \<Rightarrow> s | Some s' \<Rightarrow> worker_run ch wr n s')"

lemma worker_run_add:
  "worker_run ch wr m s = s' \<Longrightarrow> worker_run ch wr n s' = s'' \<Longrightarrow> \<exists>k \<le> m + n. worker_run ch wr k s = s''"
proof (induction m arbitrary: s)
  case (Suc m)
  show ?case
  proof (cases "worker_step ch wr s")
    case None
    then have "s' = s" using Suc.prems(1) by simp
    then show ?thesis using Suc.prems(2) by (auto intro!: exI [of _ n])
  next
    case (Some t)
    then obtain k where "k \<le> m + n" "worker_run ch wr k t = s''"
      using Suc.IH [of t] Suc.prems by auto
    then show ?thesis using Some by (intro exI [of _ "Suc k"]) simp
  qed
qed auto

lemma worker_run_tail:
  assumes rel: "reliable wr out" and guard: "nb_guard s \<noteq> GuardAlive"
  shows "nb_worker s = AtShutdownRecv \<Longrightarrow> \<exists>n \<le> 1. nb_worker (worker_run ch wr n s) = Finished"
    and "nb_worker s = AtFlush ShutdownState \<Longrightarrow> \<exists>n \<le> 2. nb_worker (worker_run ch wr n s) = Finished"
    and "nb_worker s = AtFlush Disconnected \<Longrightarrow> \<exists>n \<le> 2. nb_worker (worker_run ch wr n s) = Finished"
proof -
  have tail: "nb_worker (worker_run ch wr 1 t) = Finished" if "nb_worker t = AtShutdownRecv" "nb_guard t \<noteq> GuardAlive" for t
    using that by (simp add: worker_step_def)
  then show "nb_worker s = AtShutdownRecv \<Longrightarrow> \<exists>n \<le> 1. nb_worker (worker_run ch wr n s) = Finished"
    using guard by blast
  obtain w where w: "wr_flush wr (nb_writer s) = (True, w)" using reliableD(2) [OF rel] by blast
  have flush: "nb_worker (worker_run ch wr 2 s) = Finished"
    if "nb_worker s = AtFlush st" "st = ShutdownState \<or> st = Disconnected" for st
  proof -
    have "worker_step ch wr s = Some (s\<lparr>nb_writer := w, nb_worker := AtShutdownRecv\<rparr>)"
      using that w by (auto simp: worker_step_def)
    then show ?thesis
      using tail [of "s\<lparr>nb_writer := w, nb_worker := AtShutdownRecv\<rparr>"] guard by (simp add: numeral_2_eq_2)
  qed
  show "nb_worker s = AtFlush ShutdownState \<Longrightarrow> \<exists>n \<le> 2. nb_worker (worker_run ch wr n s) = Finished"
    "nb_worker s = AtFlush Disconnected \<Longrightarrow> \<exists>n \<le> 2. nb_worker (worker_run ch wr n s) = Finished"
    using flush by blast+
qed

lemma worker_run_finishes:
  assumes ok: "channel_ok ch cap" and rel: "reliable wr out"
  shows "Shutdown \<in> set (ch_queue ch (nb_channel s)) \<Longrightarrow> nb_guard s \<noteq> GuardAlive \<Longrightarrow>
    nb_worker s = AtRecv \<or> nb_worker s = AtTryRecv \<Longrightarrow>
    \<exists>n \<le> length (ch_queue ch (nb_channel s)) + 2. nb_worker (worker_run ch wr n s) = Finished"
proof (induction "ch_queue ch (nb_channel s)" arbitrary: s)
  case Nil
  then show ?case by simp
next
  case (Cons m q)
  obtain c where recv: "ch_try_recv ch (nb_channel s) = Some (m, c)" and c: "ch_queue ch c = q"
    using Cons.hyps(2) channel_okD(3,4) [OF ok, of "nb_channel s"]
    by (cases "ch_try_recv ch (nb_channel s)") force+
  obtain r w where h: "handle_msg wr m (nb_writer s) = (r, w)" by (cases "handle_msg wr m (nb_writer s)")
  let ?t = "s\<lparr>nb_channel := c, nb_received := nb_received s @ [m], nb_writer := w, nb_worker := after_handling r\<rparr>"
  have step: "worker_step ch wr s = Some ?t"
    using Cons.prems(3) recv h by (auto simp: worker_step_def)
  have "\<exists>n \<le> length q + 2. nb_worker (worker_run ch wr n ?t) = Finished"
  proof (cases m)
    case (Line l)
    then have "after_handling r = AtTryRecv"
      using h handle_msg_out(2) [OF rel h] by (auto simp: handle_msg_def after_handling_def split: prod.splits if_splits)
    then show ?thesis
      using Cons.hyps(1) [of ?t] Cons.prems Cons.hyps(2) [symmetric] c Line by auto
  next
    case Shutdown
    then have "after_handling r = AtFlush ShutdownState"
      using h by (auto simp: handle_msg_def after_handling_def)
    then obtain n where "n \<le> 2" "nb_worker (worker_run ch wr n ?t) = Finished"
      using worker_run_tail(2) [OF rel, of ?t ch] Cons.prems(2) by auto
    then show ?thesis by (intro exI [of _ n]) simp
  qed
  then obtain n where "n \<le> length q + 2" "nb_worker (worker_run ch wr n ?t) = Finished" by blast
  then show ?case
    using step Cons.hyps(2) [symmetric] by (intro exI [of _ "Suc n"]) simp
qed

lemma worker_run_reachable:
  "nb_reachable ch wr is_lossy s0 s \<Longrightarrow> nb_reachable ch wr is_lossy s0 (worker_run ch wr n s)"
proof (induction n arbitrary: s)
  case (Suc n)
  then show ?case
    using reach_step [OF Suc.prems step_worker] by (auto split: option.split)
qed simp

lemma worker_step_accepted: "worker_step ch wr s = Some s' \<Longrightarrow> nb_accepted s' = nb_accepted s"
  by (auto simp: worker_step_def Let_def split: worker_pc.splits option.splits prod.splits if_splits)

lemma worker_run_accepted: "nb_accepted (worker_run ch wr n s) = nb_accepted s"
  by (induction n arbitrary: s) (auto simp: worker_step_accepted split: option.split)

lemma signalled_inv:
  assumes "nb_reachable ch wr is_lossy (nb_create c0 w0) s" "nb_guard s = GuardSignalled"
  shows "Shutdown \<in> set (nb_accepted s)"
proof -
  have step: "nb_guard s' = GuardSignalled \<Longrightarrow> nb_guard s \<noteq> GuardSignalled \<Longrightarrow> Shutdown \<in> set (nb_accepted s')"
    "set (nb_accepted s) \<subseteq> set (nb_accepted s')" if "nb_step ch wr is_lossy s s'" for s s'
    using that
    by (cases rule: nb_step.cases; auto simp: nb_write_def worker_step_def guard_signal_def guard_give_up_def
        accept_def refuse_def Let_def split: if_splits option.splits worker_pc.splits prod.splits)+
  show ?thesis
    using assms
  proof (induction rule: nb_reachable.induct)
    case (reach_step s s')
    then show ?case using step [OF reach_step.hyps(2)] by blast
  qed (simp add: nb_create_def)
qed

lemma ex_le_mono: "\<exists>n \<le> k. P n \<Longrightarrow> k \<le> m \<Longrightarrow> \<exists>n \<le> m. P n" for k m :: nat
  by (meson order_trans)

lemma worker_run_ends:
  assumes ok: "channel_ok ch cap" and rel: "reliable wr out" and inv: "worker_inv ch s"
    and guard: "nb_guard s \<noteq> GuardAlive" and acc: "Shutdown \<in> set (nb_accepted s)"
  shows "\<exists>n \<le> length (ch_queue ch (nb_channel s)) + 3. nb_worker (worker_run ch wr n s) = Finished"
proof -
  have queued: "Shutdown \<in> set (ch_queue ch (nb_channel s))"
    if "nb_worker s \<in> {AtRecv, AtTryRecv, AtFlush Empty, AtFlush Continue}"
    using that inv acc by (auto simp: worker_inv_def)
  consider "nb_worker s = AtShutdownRecv" | "nb_worker s = AtFlush ShutdownState" | "nb_worker s = AtFlush Disconnected"
    | "nb_worker s = Finished" | (busy) "nb_worker s = AtRecv \<or> nb_worker s = AtTryRecv"
    | (flush) "nb_worker s = AtFlush Empty \<or> nb_worker s = AtFlush Continue"
    by (cases "nb_worker s") (auto intro: worker_state.exhaust)
  then show ?thesis
  proof cases
    case busy
    then show ?thesis
      using worker_run_finishes [OF ok rel queued guard] by (auto elim!: ex_le_mono)
  next
    case flush
    obtain w where "wr_flush wr (nb_writer s) = (True, w)" using reliableD(2) [OF rel] by blast
    then have step: "worker_step ch wr s = Some (s\<lparr>nb_writer := w, nb_worker := AtRecv\<rparr>)"
      using flush by (auto simp: worker_step_def)
    obtain n where "n \<le> length (ch_queue ch (nb_channel s)) + 2"
      "nb_worker (worker_run ch wr n (s\<lparr>nb_writer := w, nb_worker := AtRecv\<rparr>)) = Finished"
      using worker_run_finishes [OF ok rel, of "s\<lparr>nb_writer := w, nb_worker := AtRecv\<rparr>"] queued guard flush by auto
    then show ?thesis using step by (intro exI [of _ "Suc n"]) simp
  next
    case 1
    show ?thesis by (rule ex_le_mono [OF worker_run_tail(1) [OF rel guard 1]]) simp
  next
    case 2
    show ?thesis by (rule ex_le_mono [OF worker_run_tail(2) [OF rel guard 2]]) simp
  next
    case 3
    show ?thesis by (rule ex_le_mono [OF worker_run_tail(3) [OF rel guard 3]]) simp
  next
    case 4
    then show ?thesis by (intro exI [of _ 0]) simp
  qed
qed


subsection \<open>Concrete channels\<close>

text \<open>A channel as a queue of bounded length, and a writer that keeps its lines.\<close>

definition queue_channel :: "nat \<Rightarrow> (bool \<times> msg list) channel" where
  "queue_channel cap = \<lparr>
     ch_try_send = (\<lambda>m (alive, q). if alive \<and> length q < cap then Some (alive, q @ [m]) else None),
     ch_try_recv = (\<lambda>(alive, q). case q of [] \<Rightarrow> None | m # q' \<Rightarrow> Some (m, alive, q')),
     ch_drop_receiver = (\<lambda>_. (False, [])), ch_queue = snd, ch_connected = fst\<rparr>"

definition vec_writer :: "string list writer" where
  "vec_writer = \<lparr>wr_write_all = (\<lambda>l w. (True, w @ [l])), wr_flush = (\<lambda>w. (True, w))\<rparr>"

lemma queue_channel_ok: "channel_ok (queue_channel cap) cap"
  by (auto simp: channel_ok_def queue_channel_def split: list.split)

lemma vec_writer_reliable: "reliable vec_writer (\<lambda>w. w)"
  by (simp add: reliable_def vec_writer_def)

abbreviation demo_nb :: "(bool \<times> msg list, string list) nb" where
  "demo_nb \<equiv> nb_create (True, []) []"

text \<open>One line is written, then the guard is dropped; the channel has room for two messages.\<close>

definition demo_signalled :: "(bool \<times> msg list, string list) nb" where
  "demo_signalled = demo_nb\<lparr>nb_channel := (True, [Line ''a'', Shutdown]), nb_accepted := [Line ''a'', Shutdown],
     nb_guard := GuardSignalled\<rparr>"

lemma demo_signalled_reachable: "nb_reachable (queue_channel 2) vec_writer True demo_nb demo_signalled"
proof -
  let ?s1 = "demo_nb\<lparr>nb_channel := (True, [Line ''a'']), nb_accepted := [Line ''a'']\<rparr>"
  have "nb_step (queue_channel 2) vec_writer True demo_nb ?s1"
    by (rule step_write [where buf = "''a''" and r = "Some 1"])
      (simp_all add: nb_write_def nb_create_def queue_channel_def accept_def)
  moreover have "nb_step (queue_channel 2) vec_writer True ?s1 demo_signalled"
    by (rule step_signal) (simp add: guard_signal_def nb_create_def queue_channel_def accept_def demo_signalled_def)
  ultimately show ?thesis
    by (blast intro: nb_reachable.intros)
qed



text \<open>
  Dropping the guard does not always flush: while the channel is full, the guard's signal can
  time out. Then the guard is gone, no signal was accepted, and a line that was accepted has not been
  written when \<open>drop\<close> returns.
\<close>

theorem guard_drop_can_skip_flush:
  "\<exists>s. nb_reachable (queue_channel 1) vec_writer is_lossy demo_nb s \<and> nb_guard s = GuardDropped \<and>
     nb_accepted s = [Line ''a''] \<and> nb_writer s = [] \<and> nb_worker s \<noteq> Finished"
proof (intro exI conjI)
  let ?s1 = "demo_nb\<lparr>nb_channel := (True, [Line ''a'']), nb_accepted := [Line ''a'']\<rparr>"
  let ?s2 = "?s1\<lparr>nb_guard := GuardDropped\<rparr>"
  have "nb_step (queue_channel 1) vec_writer is_lossy demo_nb ?s1"
    by (rule step_write [where buf = "''a''" and r = "Some 1"])
      (simp_all add: nb_write_def nb_create_def queue_channel_def accept_def)
  moreover have "nb_step (queue_channel 1) vec_writer is_lossy ?s1 ?s2"
    by (rule step_signal) (simp add: guard_signal_def nb_create_def queue_channel_def)
  ultimately show "nb_reachable (queue_channel 1) vec_writer is_lossy demo_nb ?s2"
    by (blast intro: nb_reachable.intros)
qed (simp_all add: nb_create_def)

text \<open>
  A failing flush makes the worker forget the shutdown: the error of the last \<open>work\<close> is ignored
  like any other, the loop starts again, and with the signal consumed and a writer handle still alive
  the worker blocks in \<open>recv\<close> instead of ending.
\<close>

theorem flush_error_forgets_shutdown:
  assumes "channel_ok ch cap" and "nb_worker s = AtFlush ShutdownState" and "\<not> fst (wr_flush wr (nb_writer s))"
    and "ch_queue ch (nb_channel s) = []" and "nb_handles s > 0"
  shows "\<exists>s'. worker_step ch wr s = Some s' \<and> nb_worker s' = AtRecv \<and> worker_step ch wr s' = None"
proof -
  obtain w where w: "wr_flush wr (nb_writer s) = (False, w)"
    using assms(3) by (cases "wr_flush wr (nb_writer s)") simp
  have "ch_try_recv ch (nb_channel s) = None"
    using channel_okD(3) [OF assms(1), of "nb_channel s"] assms(4)
    by (cases "ch_try_recv ch (nb_channel s)") auto
  then show ?thesis
    using assms(2,5) w by (simp add: worker_step_def senders_gone_def)
qed

theorem flush_error_forgets_shutdown_witness:
  "\<exists>s'. worker_step (queue_channel 2) (vec_writer\<lparr>wr_flush := (\<lambda>w. (False, w))\<rparr>)
      (demo_nb\<lparr>nb_worker := AtFlush ShutdownState\<rparr>) = Some s' \<and> nb_worker s' = AtRecv"
  using flush_error_forgets_shutdown [OF queue_channel_ok, of "demo_nb\<lparr>nb_worker := AtFlush ShutdownState\<rparr>"
      "vec_writer\<lparr>wr_flush := (\<lambda>w. (False, w))\<rparr>" 2]
  by (auto simp: nb_create_def queue_channel_def)

end
