(* ===== verification/Spec2Isabelle.thy ===== *)
theory Spec2Isabelle
  imports Callsite_Push Macro_Gate Instrument Reload Log_Tracer Span_Trace Journald Flame Fmt_Pretty Mock_Layer Attr_Expand Env_Filter Fmt_DateTime
    Appender_Rolling Appender_NonBlocking
begin

text \<open>
  \<^bold>\<open>A verification development for the tracing crates.\<close>

  \<^bold>\<open>The program.\<close> Instrumented code creates spans and events at callsites. \<open>tracing-core\<close> gives a
  callsite its metadata and its fields, finds the dispatcher that is in force on the thread, and caches
  for each callsite whether any dispatcher is interested in it, so that a disabled callsite costs one load.
  \<open>tracing\<close> wraps a span of a dispatcher into a handle with guards. \<open>tracing-subscriber\<close> implements the
  subscriber behind the dispatcher: a registry stores the spans and counts references to them, and layers
  are stacked over it, each possibly behind a filter of its own; the \<open>fmt\<close> layer writes the events as lines.
  \<open>tracing-appender\<close> gives those lines a file that rolls over and a writer that does not block. \<open>tracing-log\<close> feeds
  the records of the \<open>log\<close> crate into the dispatcher as events. \<open>tracing-journald\<close> and \<open>tracing-flame\<close> are layers
  that send events to journald and write folded stacks, and \<open>tracing-error\<close> captures the spans an error occurred in.

  \<^bold>\<open>The theories,\<close> in the order in which they build on each other, with the files they translate.

  \<^item> \<open>Prelude\<close>, \<open>Rust_Str\<close>: what the crates use of the standard library. The locale \<open>ord_impl\<close> is the
    contract of \<open>Ord\<close>, under which insertion at the place that \<open>binary_search\<close> reports keeps a vector sorted.
  \<^item> \<open>Field\<close>, \<open>Metadata\<close>, \<open>Subscriber\<close>, \<open>Span_Event\<close>: \<open>field.rs\<close>, \<open>metadata.rs\<close>, \<open>subscriber.rs\<close>,
    \<open>span.rs\<close>, \<open>event.rs\<close> and \<open>parent.rs\<close> of \<open>tracing-core\<close>: the data that the other parts pass around. Levels
    and interests are instances of \<open>linorder\<close> with the orders of the source.
  \<^item> \<open>Dispatcher\<close>: \<open>tracing-core/src/dispatcher.rs\<close>. The statics and thread locals are a record; guards that
    are dropped innermost first are a step relation. A scoped default covers its scope, the fast path
    agrees with the slow one, and a dispatcher is not re-entered.
  \<^item> \<open>Callsite\<close>, \<open>Callsite_Push\<close>: \<open>tracing-core/src/callsite.rs\<close>. The intrusive list of callsites is a heap
    with next pointers; the locale \<open>callsite_visitor\<close> is what a traversal may do to it. Rebuilding and registering
    keep the cache sound. \<open>Callsite_Push\<close> interleaves the atomic steps of the lock-free push.
  \<^item> \<open>Macro_Gate\<close>: what \<open>event!\<close>, \<open>span!\<close> and \<open>enabled!\<close> of \<open>tracing/src/macros.rs\<close> expand to, \<open>level_filters.rs\<close> and
    \<open>__macro_support\<close> of \<open>lib.rs\<close>. The cached checks before a span or an event decide as the subscriber would.
  \<^item> \<open>Filter_Directive\<close>, \<open>Filter_Targets\<close>: \<open>filter/directive.rs\<close> and \<open>filter/targets.rs\<close>. The locale
    \<open>directive_impl\<close> is the bound of \<open>DirectiveSet\<close>. A \<open>Targets\<close> filter refines a finite map with lookup by
    the longest prefix; printing and parsing are inverse.
  \<^item> \<open>Filter_Map\<close>, \<open>Layer_Filters\<close>, \<open>Layered\<close>: \<open>filter/layer_filters\<close>, the \<open>Filter\<close> and \<open>Layer\<close> traits of
    \<open>layer/mod.rs\<close>, and \<open>layer/layered.rs\<close>. The locale \<open>lawful_filter\<close> is what interest and level hints owe to
    \<open>enabled\<close>; every combinator keeps it. The locale \<open>event_sinks\<close> is a layer behind its own filter, and
    one pass of an event is proved in it: exactly the layers whose filter accepts the event see it.
  \<^item> \<open>Layer_Compose\<close>, \<open>Reload\<close>: \<open>Layered\<close> as a layer, \<open>Vec\<close> and \<open>Identity\<close> (\<open>layer/layered.rs\<close>, \<open>layer/mod.rs\<close>),
    \<open>filter/filter_fn.rs\<close> and \<open>reload.rs\<close>. Layers nested in any way are asked and notified like a flat stack, and the
    filter pass holds for them; a reload replaces the value and brings the interest cache up to date.
  \<^item> \<open>Span_Stack\<close>, \<open>Registry\<close>, \<open>Span_Lookup\<close>: \<open>registry/stack.rs\<close>, \<open>registry/sharded.rs\<close>,
    \<open>registry/extensions.rs\<close>, \<open>registry/mod.rs\<close> and \<open>layer/context.rs\<close>. The invariant \<open>registry_inv\<close> accounts for
    every reference: by handles, by children, by entered stacks. Opening, cloning, entering and closing keep it.
  \<^item> \<open>Span_Handle\<close>: \<open>tracing/src/span.rs\<close>. The locale \<open>span_store\<close> is what handles need of a subscriber,
    interpreted for stacks of layers over the registry; a well-typed program over handles never makes it panic.
  \<^item> \<open>Instrument\<close>: \<open>tracing/src/instrument.rs\<close> and the futures, streams and sinks of \<open>tracing-futures\<close>. Polling
    enters the span of a future and leaves it again, whatever the future does, so tasks that are polled in turn on a
    pool of threads each see their own span as the current one.
  \<^item> \<open>Env_Field\<close>, \<open>Env_Directive\<close>, \<open>Env_Filter\<close>: \<open>filter/env\<close>. The directive parser, its printer, the tables
    and the filter with its callbacks, which is compared with a specification over the history of the program.
  \<^item> \<open>Fmt_DateTime\<close>, \<open>Fmt_Format\<close>, \<open>Fmt_Pretty\<close>, \<open>Fmt_Writer\<close>, \<open>Fmt_Layer\<close>: \<open>fmt/time/datetime.rs\<close>, \<open>fmt/format/mod.rs\<close>,
    \<open>fmt/format/escape.rs\<close>, \<open>fmt/format/pretty.rs\<close>, \<open>fmt/writer.rs\<close> and \<open>fmt/fmt_layer.rs\<close>. The layer is a second instance of
    \<open>event_sinks\<close>, so that the filter pass is also proved for lines that are written.
  \<^item> \<open>Span_Trace\<close>, \<open>Journald\<close>, \<open>Flame\<close>: \<open>tracing-error\<close>, \<open>tracing-journald\<close> and \<open>tracing-flame\<close>. A trace
    displays the spans that were entered when it was captured, also after they were left. What the journald layer sends is
    read back by the protocol of journald as the fields of the spans and of the event; the layer is a third instance of
    \<open>event_sinks\<close>. The times in the folded stacks add up to the time that passed.
  \<^item> \<open>Appender_Rolling\<close>, \<open>Appender_NonBlocking\<close>: \<open>rolling.rs\<close>, \<open>rolling/builder.rs\<close>, \<open>non_blocking.rs\<close>
    and \<open>worker.rs\<close> of \<open>tracing-appender\<close>, over a model of a directory, and as steps of threads that share a channel.
  \<^item> \<open>Mock_Expect\<close>, \<open>Mock_Subscriber\<close>, \<open>Mock_Layer\<close>: \<open>tracing-mock\<close>, the test support of the crates. A test that passes
    has shown that its expectations were met in order; mock layers behind filters see exactly what the filters accept.
  \<^item> \<open>Log_Bridge\<close>, \<open>Log_Tracer\<close>: \<open>tracing-log\<close>. Records of the \<open>log\<close> crate become events and can be read back
    from them; the logger's cache of decisions never answers with an outdated one.
  \<^item> \<open>Attr_Args\<close>, \<open>Attr_Expand\<close>: \<open>attr.rs\<close>, \<open>expand.rs\<close> and \<open>lib.rs\<close> of \<open>tracing-attributes\<close>. The arguments of
    \<open>#[instrument]\<close> are read in finitely many rounds; the fields of the span are the parameters that are not skipped or hidden.

  \<^bold>\<open>Conventions.\<close> A panic, and an operation that does not return, is \<open>None\<close>; errors that the source returns are
  values. Fixed-width integers keep their width. A lock that the source treats as possibly poisoned is said to be
  so in the theory that models it. An operation on shared state is one atomic step of the thread that runs it,
  except in \<open>Callsite_Push\<close> and \<open>Appender_NonBlocking\<close>, whose subject is the interleaving of smaller steps.

  \<^bold>\<open>Loops and fuel.\<close> The traversals of linked structures (\<open>for_each_default\<close>, the scope of a span) are
  \<open>partial_function (option)\<close>, and it is proved that they return on states that satisfy the invariant. Closing
  a span releases its parent, which may close in turn: this recursion has fuel, one unit for each stored span, and
  the theorem on closing proves that this is enough. The parsers of \<open>Attr_Args\<close> have one unit for each token, which is
  proved to be enough too. The worker of the non-blocking writer is a step relation, and
  that it ends after a shutdown is a theorem with a bound on the number of steps.

  \<^bold>\<open>Parameters.\<close> Code that the repository only calls is an argument of the definitions, and what it promises a
  named hypothesis of the theorems: the slab's choice of a free slot (\<open>alloc\<close>), the \<open>time\<close> crate (\<open>time_lib_ok\<close>),
  the answers of the file system (\<open>fs_env\<close>), the channels of \<open>crossbeam\<close> (\<open>channel_ok\<close>), the \<open>lru\<close> cache (\<open>lru_ok\<close>), regular expressions and
  floating point comparison (\<open>env_lib\<close>), the socket and memory files of the system (\<open>journal_io\<close>), the parsers of \<open>syn\<close> (\<open>syn_lib_ok\<close>), the styles of \<open>nu_ansi_term\<close>, the formatting of floating point numbers.
  Layers, filters, formatters and writers of the user are records of functions. Each hypothesis has an instance.

  \<^bold>\<open>Not modelled.\<close> The syntax that the macros of \<open>tracing\<close> accept is rewritten at compile time into calls of the functions
  above; of what \<open>#[instrument]\<close> generates, the calls around the body are modelled and the rest of the syntax is not. The examples are not part of the crates. \<open>tracing-serde\<close> and the JSON format
  implement traits of \<open>serde\<close>, which makes the output. \<open>tracing-tower\<close>, the executors and the \<open>futures-01\<close> part of
  \<open>tracing-futures\<close> delegate to the service or executor they wrap. Downcasting of subscribers reads type ids and raw pointers, for which the model has no
  counterpart. Weak memory is not modelled: atomic accesses are sequentially consistent.
\<close>

end
